(* ===== verification/Tables.thy ===== *)
theory Tables
  imports Prelude
begin

text \<open>
  The SQL statements the store issues, on a table held as its list of rows in rowid order:
  \<open>INSERT .. ON CONFLICT (key) DO UPDATE\<close>, \<open>INSERT OR IGNORE\<close>, \<open>DELETE .. WHERE\<close> and
  \<open>UPDATE .. WHERE\<close>, with the facts about keys the rest of the development uses; and the
  interface of a display table keyed by repository and issue number.
\<close>

subsection \<open>Statements\<close>

definition has_key :: "('r \<Rightarrow> 'k) \<Rightarrow> 'k \<Rightarrow> 'r list \<Rightarrow> bool" where
  "has_key key k rows \<longleftrightarrow> list_ex (\<lambda>r. key r = k) rows"

definition row_of :: "('r \<Rightarrow> 'k) \<Rightarrow> 'k \<Rightarrow> 'r list \<Rightarrow> 'r option" where
  "row_of key k rows = find (\<lambda>r. key r = k) rows"

definition update_where :: "('r \<Rightarrow> bool) \<Rightarrow> ('r \<Rightarrow> 'r) \<Rightarrow> 'r list \<Rightarrow> 'r list" where
  "update_where p f rows = map (\<lambda>r. if p r then f r else r) rows"

definition delete_where :: "('r \<Rightarrow> bool) \<Rightarrow> 'r list \<Rightarrow> 'r list" where
  "delete_where p rows = filter (\<lambda>r. \<not> p r) rows"

definition upsert :: "('r \<Rightarrow> 'k) \<Rightarrow> 'r \<Rightarrow> ('r \<Rightarrow> 'r) \<Rightarrow> 'r list \<Rightarrow> 'r list" where
  "upsert key new upd rows =
     (if has_key key (key new) rows then update_where (\<lambda>r. key r = key new) upd rows
      else rows @ [new])"

definition insert_or_ignore :: "('r \<Rightarrow> 'k) \<Rightarrow> 'r \<Rightarrow> 'r list \<Rightarrow> 'r list" where
  "insert_or_ignore key new rows = (if has_key key (key new) rows then rows else rows @ [new])"

text \<open>\<open>INSERT OR REPLACE\<close>: the conflicting row goes, the new one takes the next rowid.\<close>

definition insert_or_replace :: "('r \<Rightarrow> 'k) \<Rightarrow> 'r \<Rightarrow> 'r list \<Rightarrow> 'r list" where
  "insert_or_replace key new rows = delete_where (\<lambda>r. key r = key new) rows @ [new]"

text \<open>The primary key constraint of a table.\<close>

definition unique_key :: "('r \<Rightarrow> 'k) \<Rightarrow> 'r list \<Rightarrow> bool" where
  "unique_key key rows \<longleftrightarrow> distinct (map key rows)"

subsection \<open>Facts about keys\<close>

lemma has_key_iff [row_simps]: "has_key key k rows \<longleftrightarrow> k \<in> key ` set rows"
  by (auto simp: has_key_def list_ex_iff)

lemma set_delete_where [simp]: "set (delete_where p rows) = {r \<in> set rows. \<not> p r}"
  by (auto simp: delete_where_def)

lemma set_update_where: "set (update_where p f rows) = (\<lambda>r. if p r then f r else r) ` set rows"
  by (simp add: update_where_def)

lemma keys_update_where:
  "(\<And>r. key (f r) = key r) \<Longrightarrow> map key (update_where p f rows) = map key rows"
  by (simp add: update_where_def)

lemma keys_upsert [row_simps]:
  assumes "\<And>r. key (upd r) = key r"
  shows "key ` set (upsert key new upd rows) = insert (key new) (key ` set rows)"
proof -
  have "key ` set (update_where (\<lambda>r. key r = key new) upd rows) = key ` set rows"
    by (metis assms keys_update_where list.set_map)
  then show ?thesis by (auto simp: upsert_def has_key_iff)
qed

lemma keys_delete_where [row_simps]:
  "key ` set (delete_where (\<lambda>r. key r = k) rows) = key ` set rows - {k}"
  by auto

lemma keys_insert_or_ignore [row_simps]:
  "key ` set (insert_or_ignore key new rows) = insert (key new) (key ` set rows)"
  by (auto simp: insert_or_ignore_def has_key_iff)

lemma unique_key_upsert [row_simps]:
  assumes "\<And>r. key (upd r) = key r" and "unique_key key rows"
  shows "unique_key key (upsert key new upd rows)"
  using assms by (auto simp: upsert_def unique_key_def keys_update_where has_key_iff)

lemma unique_key_delete_where [row_simps]:
  "unique_key key rows \<Longrightarrow> unique_key key (delete_where p rows)"
  by (simp add: unique_key_def delete_where_def distinct_map_filter)

lemma unique_key_update_where [row_simps]:
  "(\<And>r. key (f r) = key r) \<Longrightarrow> unique_key key (update_where p f rows) = unique_key key rows"
  by (simp add: unique_key_def keys_update_where)

lemma unique_key_insert_or_replace [row_simps]:
  "unique_key key rows \<Longrightarrow> unique_key key (insert_or_replace key new rows)"
  by (auto simp: unique_key_def insert_or_replace_def delete_where_def distinct_map_filter)

lemma filter_update_other:
  "(\<And>r. p r \<Longrightarrow> \<not> P r \<and> \<not> P (f r)) \<Longrightarrow> filter P (update_where p f rows) = filter P rows"
  by (induction rows) (auto simp: update_where_def)

lemma filter_delete_other:
  "(\<And>r. d r \<Longrightarrow> \<not> P r) \<Longrightarrow> filter P (delete_where d rows) = filter P rows"
  by (induction rows) (auto simp: delete_where_def)

lemma filter_upsert_other:
  assumes "\<And>r. key r = key new \<Longrightarrow> \<not> P r" "\<And>r. key (upd r) = key r"
  shows "filter P (upsert key new upd rows) = filter P rows"
  using assms by (simp add: upsert_def filter_update_other)

lemma row_of_SomeD: "row_of key k rows = Some r \<Longrightarrow> r \<in> set rows \<and> key r = k"
  by (auto simp: row_of_def find_Some_iff)

lemma row_of_None_iff: "row_of key k rows = None \<longleftrightarrow> k \<notin> key ` set rows"
  by (auto simp: row_of_def find_None_iff)

lemma row_of_unique:
  "unique_key key rows \<Longrightarrow> row_of key k rows = Some r \<longleftrightarrow> r \<in> set rows \<and> key r = k"
proof (induction rows)
  case Nil
  then show ?case by (simp add: row_of_def)
next
  case (Cons a rows)
  show ?case
  proof (cases "key a = k")
    case True
    with Cons.prems show ?thesis by (auto simp: row_of_def unique_key_def image_iff)
  next
    case False
    with Cons show ?thesis by (auto simp: row_of_def unique_key_def)
  qed
qed

lemma row_of_upsert_same:
  assumes "\<And>r. key (upd r) = key r"
  shows "row_of key (key new) (upsert key new upd rows) =
    (case row_of key (key new) rows of None \<Rightarrow> Some new | Some r \<Rightarrow> Some (upd r))"
proof (induction rows)
  case Nil
  then show ?case by (simp add: row_of_def upsert_def has_key_def)
next
  case (Cons a rows)
  then show ?case
    by (auto simp: row_of_def upsert_def has_key_def update_where_def assms split: if_splits)
qed

lemma row_of_update_where:
  assumes "\<And>r. key (f r) = key r"
  shows "row_of key k (update_where p f rows) =
    map_option (\<lambda>r. if p r then f r else r) (row_of key k rows)"
  by (induction rows) (auto simp: row_of_def update_where_def assms)

lemma row_of_append:
  "row_of key k (xs @ ys) = (case row_of key k xs of None \<Rightarrow> row_of key k ys | Some r \<Rightarrow> Some r)"
  by (induction xs) (auto simp: row_of_def)

lemma row_of_single [simp]: "row_of key k [r] = (if key r = k then Some r else None)"
  by (simp add: row_of_def)

lemma row_of_upsert_other:
  assumes "\<And>r. key (upd r) = key r" and "k \<noteq> key new"
  shows "row_of key k (upsert key new upd rows) = row_of key k rows"
proof (cases "has_key key (key new) rows")
  case True
  have "(\<lambda>r. if key r = key new then upd r else r) r = r" if "row_of key k rows = Some r" for r
    using row_of_SomeD [OF that] assms(2) by simp
  then show ?thesis
    using True by (cases "row_of key k rows") (auto simp: upsert_def row_of_update_where assms(1))
next
  case False
  then show ?thesis using assms(2)
    by (auto simp: upsert_def row_of_append split: option.split)
qed

lemma row_of_upsert [row_simps]:
  assumes "\<And>r. key (upd r) = key r"
  shows "row_of key k (upsert key new upd rows) =
    (if key new = k then Some (case row_of key k rows of None \<Rightarrow> new | Some r \<Rightarrow> upd r)
     else row_of key k rows)"
proof (cases "key new = k")
  case True
  then show ?thesis
    using row_of_upsert_same [of key upd new rows, OF assms] by (auto split: option.splits)
next
  case False
  then show ?thesis
    using row_of_upsert_other [of key upd k new rows, OF assms] by simp
qed

lemma row_of_delete_other:
  "(\<And>r. p r \<Longrightarrow> key r \<noteq> k) \<Longrightarrow> row_of key k (delete_where p rows) = row_of key k rows"
  by (induction rows) (auto simp: row_of_def delete_where_def)

lemma row_of_delete_same [simp]: "row_of key k (delete_where (\<lambda>r. key r = k) rows) = None"
  by (auto simp: row_of_None_iff)

subsection \<open>Interface: rows keyed by repository and number\<close>

text \<open>
  What the dispatcher and the janitor rely on of a display table (\<open>malformed_states\<close>,
  \<open>dispatch_waits\<close>, \<open>chained_dependents\<close>): recording a row adds exactly its key, clearing one
  removes exactly its key, and listing a repository gives that repository's numbers.
\<close>

locale repo_rows =
  fixes keys :: "'s \<Rightarrow> (repo \<times> int) set"
  fixes listed :: "repo \<Rightarrow> 's \<Rightarrow> int list"
  fixes put :: "repo \<Rightarrow> int \<Rightarrow> 'd \<Rightarrow> 's \<Rightarrow> 's"
  fixes clear :: "repo \<Rightarrow> int \<Rightarrow> 's \<Rightarrow> 's"
  assumes set_listed: "set (listed r s) = {n. (r, n) \<in> keys s}"
  assumes keys_put: "keys (put r n d s) = insert (r, n) (keys s)"
  assumes keys_clear: "keys (clear r n s) = keys s - {(r, n)}"
begin

text \<open>Clearing the rows of one repository that are not in \<open>kept\<close>, as both sweeps do.\<close>

lemma keys_drop_fold:
  "keys (fold (\<lambda>n t. if n \<in> kept then t else clear r n t) ns s)
     = keys s - {(r, n) | n. n \<in> set ns \<and> n \<notin> kept}"
  by (induction ns arbitrary: s) (auto simp: keys_clear)

lemma drop_departed:
  "keys (fold (\<lambda>n t. if n \<in> kept then t else clear r n t) (listed r s) s)
     = {(r', n) \<in> keys s. r' = r \<longrightarrow> n \<in> kept}"
  by (auto simp: keys_drop_fold set_listed)

lemma put_listed: "n \<in> set (listed r (put r n d s))"
  by (simp add: set_listed keys_put)

lemma clear_not_listed: "n \<notin> set (listed r (clear r n s))"
  by (simp add: set_listed keys_clear)

lemma put_other: "r' \<noteq> r \<Longrightarrow> set (listed r' (put r n d s)) = set (listed r' s)"
  by (auto simp: set_listed keys_put)

lemma clear_other: "r' \<noteq> r \<Longrightarrow> set (listed r' (clear r n s)) = set (listed r' s)"
  by (auto simp: set_listed keys_clear)

end

end
