(* ===== verification/Json.thy ===== *)
theory Json
  imports Prelude
begin

text \<open>
  JSON values as Python holds them after \<open>json.loads\<close>, the tests the sources make on them
  (\<open>isinstance\<close>, truth value, \<open>dict.get\<close>), their \<open>str\<close> and \<open>repr\<close>, and
  \<open>json.dumps (.., sort_keys=True)\<close>, compact and with \<open>indent=2\<close>. A finite float is held as what the sources read
  of it: its truncation \<open>int(x)\<close> and its decimal text; \<open>JNonfinite\<close> is one of \<open>NaN\<close>, \<open>Infinity\<close> and \<open>-Infinity\<close>, by the
  name \<open>json\<close> reads and writes.
\<close>

datatype json =
    JNull
  | JBool bool
  | JInt int
  | JFloat int string
  | JNonfinite string
  | JStr string
  | JList "json list"
  | JObj "(string \<times> json) list"

type_synonym dict = "(string \<times> json) list"

text \<open>\<open>dict.get (key)\<close>, with \<open>None\<close> for a missing key.\<close>

definition dget :: "dict \<Rightarrow> string \<Rightarrow> json" where
  "dget d k = (case map_of d k of None \<Rightarrow> JNull | Some v \<Rightarrow> v)"

definition dget_or :: "dict \<Rightarrow> string \<Rightarrow> json \<Rightarrow> json" where
  "dget_or d k v = (case map_of d k of None \<Rightarrow> v | Some v' \<Rightarrow> v')"

definition dhas :: "dict \<Rightarrow> string \<Rightarrow> bool" where
  "dhas d k \<longleftrightarrow> k \<in> fst ` set d"

text \<open>\<open>d[k] = v\<close> keeps the position of an existing key.\<close>

fun dput :: "string \<Rightarrow> json \<Rightarrow> dict \<Rightarrow> dict" where
  "dput k v [] = [(k, v)]"
| "dput k v ((k', v') # d) = (if k = k' then (k', v) # d else (k', v') # dput k v d)"

text \<open>The digits that count before the exponent: a float is zero without any, and a power of ten with a single one.\<close>

definition significant :: "string \<Rightarrow> string" where
  "significant s = filter (\<lambda>c. is_digit c \<and> c \<noteq> CHR ''0'') (takeWhile (\<lambda>c. c \<noteq> CHR ''e'' \<and> c \<noteq> CHR ''E'') s)"

fun truthy :: "json \<Rightarrow> bool" where
  "truthy JNull = False"
| "truthy (JBool b) = b"
| "truthy (JInt i) = (i \<noteq> 0)"
| "truthy (JFloat _ s) = (significant s \<noteq> [])"
| "truthy (JNonfinite _) = True"
| "truthy (JStr s) = (s \<noteq> [])"
| "truthy (JList xs) = (xs \<noteq> [])"
| "truthy (JObj d) = (d \<noteq> [])"

fun is_str :: "json \<Rightarrow> bool" where
  "is_str (JStr _) = True"
| "is_str _ = False"

fun is_dict :: "json \<Rightarrow> bool" where
  "is_dict (JObj _) = True"
| "is_dict _ = False"

fun is_list :: "json \<Rightarrow> bool" where
  "is_list (JList _) = True"
| "is_list _ = False"

text \<open>\<open>isinstance (v, int)\<close>: a JSON boolean is a Python \<open>int\<close>.\<close>

fun is_int :: "json \<Rightarrow> bool" where
  "is_int (JInt _) = True"
| "is_int (JBool _) = True"
| "is_int _ = False"

text \<open>\<open>v == 1\<close>: the truncation is one and the float a power of ten.\<close>

fun is_one :: "json \<Rightarrow> bool" where
  "is_one (JInt i) = (i = 1)"
| "is_one (JBool b) = b"
| "is_one (JFloat i s) = (i = 1 \<and> significant s = ''1'')"
| "is_one _ = False"

text \<open>\<open>type (v).__name__\<close>.\<close>

fun type_name :: "json \<Rightarrow> string" where
  "type_name JNull = ''NoneType''"
| "type_name (JBool _) = ''bool''"
| "type_name (JInt _) = ''int''"
| "type_name (JFloat _ _) = ''float''"
| "type_name (JNonfinite _) = ''float''"
| "type_name (JStr _) = ''str''"
| "type_name (JList _) = ''list''"
| "type_name (JObj _) = ''dict''"

fun py_repr_json :: "json \<Rightarrow> string" where
  "py_repr_json JNull = ''None''"
| "py_repr_json (JBool b) = (if b then ''True'' else ''False'')"
| "py_repr_json (JInt i) = show_int i"
| "py_repr_json (JFloat _ s) = s"
| "py_repr_json (JNonfinite s) = (if s = ''NaN'' then ''nan'' else if s = ''Infinity'' then ''inf'' else ''-inf'')"
| "py_repr_json (JStr s) = py_repr s"
| "py_repr_json (JList xs) = ''['' @ join '', '' (map py_repr_json xs) @ '']''"
| "py_repr_json (JObj d) =
     ''{'' @ join '', '' (map (\<lambda>(k, v). py_repr k @ '': '' @ py_repr_json v) d) @ ''}''"

definition py_str :: "json \<Rightarrow> string" where
  "py_str v = (case v of JStr s \<Rightarrow> s | _ \<Rightarrow> py_repr_json v)"

subsection \<open>json.dumps\<close>

definition utf8 :: "nat \<Rightarrow> string" where
  "utf8 n = map char_of
     (if n < 128 then [n]
      else if n < 2048 then [192 + n div 64, 128 + n mod 64]
      else if n < 65536 then [224 + n div 4096, 128 + n div 64 mod 64, 128 + n mod 64]
      else [240 + n div 262144, 128 + n div 4096 mod 64, 128 + n div 64 mod 64, 128 + n mod 64])"

text \<open>
  The code point a byte and its continuation start, and the number of continuation bytes; a byte that starts
  no character stands for itself.
\<close>

definition first_point :: "char \<Rightarrow> string \<Rightarrow> nat \<times> nat" where
  "first_point a s =
     (let n = (of_char a :: nat) in
      if n < 192 then (n, 0)
      else if n < 224 then (case s of b # r \<Rightarrow> ((n - 192) * 64 + (of_char b - 128), 1) | [] \<Rightarrow> (n, 0))
      else if n < 240 then
        (case s of b # c # r \<Rightarrow> (((n - 224) * 64 + (of_char b - 128)) * 64 + (of_char c - 128), 2) | _ \<Rightarrow> (n, 0))
      else
        (case s of b # c # d # r \<Rightarrow>
            ((((n - 240) * 64 + (of_char b - 128)) * 64 + (of_char c - 128)) * 64 + (of_char d - 128), 3)
         | _ \<Rightarrow> (n, 0)))"

fun code_points :: "string \<Rightarrow> nat list" where
  "code_points [] = []"
| "code_points (a # s) = (case first_point a s of (n, k) \<Rightarrow> n # code_points (drop k s))"

text \<open>\<open>s[:n]\<close>.\<close>

definition take_points :: "nat \<Rightarrow> string \<Rightarrow> string" where
  "take_points n s = concat (map utf8 (take n (code_points s)))"

text \<open>\<open>ensure_ascii\<close>: what is not printable ASCII is escaped, beyond 16 bits as two surrogates.\<close>

definition u_escape :: "nat \<Rightarrow> string" where
  "u_escape n = [char_of (92 :: nat), CHR ''u'', hex_digit (n div 4096), hex_digit (n div 256 mod 16),
     hex_digit (n div 16 mod 16), hex_digit (n mod 16)]"

definition escape_point :: "nat \<Rightarrow> string" where
  "escape_point n =
     (let bs = char_of (92 :: nat) in
      if n = 34 \<or> n = 92 then [bs, char_of n]
      else if n = 10 then [bs, CHR ''n'']
      else if n = 13 then [bs, CHR ''r'']
      else if n = 9 then [bs, CHR ''t'']
      else if n = 8 then [bs, CHR ''b'']
      else if n = 12 then [bs, CHR ''f'']
      else if 32 \<le> n \<and> n \<le> 126 then [char_of n]
      else if n < 65536 then u_escape n
      else u_escape (55296 + (n - 65536) div 1024) @ u_escape (56320 + (n - 65536) mod 1024))"

definition dumps_str :: "string \<Rightarrow> string" where
  "dumps_str s = [char_of (34 :: nat)] @ concat (map escape_point (code_points s)) @ [char_of (34 :: nat)]"

fun json_dumps :: "json \<Rightarrow> string" where
  "json_dumps JNull = ''null''"
| "json_dumps (JBool b) = (if b then ''true'' else ''false'')"
| "json_dumps (JInt i) = show_int i"
| "json_dumps (JFloat _ s) = s"
| "json_dumps (JNonfinite s) = s"
| "json_dumps (JStr s) = dumps_str s"
| "json_dumps (JList xs) = ''['' @ join '', '' (map json_dumps xs) @ '']''"
| "json_dumps (JObj d) =
     ''{'' @ join '', '' (map (\<lambda>(k, t). dumps_str k @ '': '' @ t)
        (sort_key fst (map (\<lambda>(k, v). (k, json_dumps v)) d))) @ ''}''"

text \<open>With \<open>indent=2\<close> every element is on a line of its own and an empty container stays on one.\<close>

definition on_level :: "nat \<Rightarrow> string" where
  "on_level l = newline # replicate (2 * l) (CHR '' '')"

definition enclose :: "nat \<Rightarrow> char \<Rightarrow> char \<Rightarrow> string list \<Rightarrow> string" where
  "enclose l p q xs =
     (if xs = [] then [p, q]
      else [p] @ on_level (Suc l) @ join ('','' @ on_level (Suc l)) xs @ on_level l @ [q])"

fun json_dumps_indent :: "nat \<Rightarrow> json \<Rightarrow> string" where
  "json_dumps_indent l (JList xs) = enclose l (CHR ''['') (CHR '']'') (map (json_dumps_indent (Suc l)) xs)"
| "json_dumps_indent l (JObj d) =
     enclose l (CHR ''{'') (CHR ''}'') (map (\<lambda>(k, t). dumps_str k @ '': '' @ t)
       (sort_key fst (map (\<lambda>(k, v). (k, json_dumps_indent (Suc l) v)) d)))"
| "json_dumps_indent l v = json_dumps v"

lemma dget_Nil [simp]: "dget [] k = JNull"
  by (simp add: dget_def)

lemma dget_Cons [simp]: "dget ((k', v) # d) k = (if k' = k then v else dget d k)"
  by (simp add: dget_def)

lemma map_of_dput: "map_of (dput k v d) = (map_of d)(k \<mapsto> v)"
  by (induction k v d rule: dput.induct) auto

lemma dget_dput: "dget (dput k v d) k' = (if k' = k then v else dget d k')"
  by (simp add: dget_def map_of_dput)

lemma keys_dput: "fst ` set (dput k v d) = insert k (fst ` set d)"
  by (induction k v d rule: dput.induct) auto

end
