(* ===== verification/Store_State.thy ===== *)
theory Store_State
  imports Tables Json
begin

text \<open>
  The tables of the control node's cache database (\<open>control/.../store.py\<close>, \<open>_SCHEMA\<close>): one
  record per table, its columns in the order of the \<open>CREATE TABLE\<close> statement, and the store as the
  record of all tables. A table is the list of its rows in rowid order; \<open>AUTOINCREMENT\<close> counters
  are kept beside it, because a deleted id is never reused. \<open>INTEGER\<close> flags are Booleans, a
  nullable column is an option, and the \<open>payload\<close> and \<open>samples\<close> columns hold the value whose JSON
  text the code writes there.
\<close>

record node_row =
  nd_name :: string
  nd_version :: string
  nd_drivers_hash :: string
  nd_drivers_hash_reported :: bool
  nd_drivers_built_against :: string
  nd_registered_at :: time
  nd_last_seen :: time

record stack_row =
  sk_node :: string
  sk_name :: string
  sk_kind :: string
  sk_state :: string
  sk_detail :: string
  sk_updated_at :: time

record container_row =
  ct_node :: string
  ct_name :: string
  ct_run_id :: string
  ct_owner :: string
  ct_status :: string
  ct_updated_at :: time

record stack_container_row =
  sc_node :: string
  sc_name :: string
  sc_stack :: string
  sc_state :: string
  sc_status :: string
  sc_updated_at :: time

record image_row =
  im_node :: string
  im_name :: string
  im_tag :: string
  im_base_digest :: string
  im_instruction_hash :: string
  im_built_at :: string
  im_updated_at :: time

record event_row =
  ev_id :: int
  ev_type :: string
  ev_received_at :: time
  ev_payload :: dict
  ev_node :: "string option"
  ev_driver :: "string option"
  ev_issue :: "int option"
  ev_run_id :: "string option"
  ev_attempt :: "int option"
  ev_phase :: "string option"
  ev_pr :: "int option"
  ev_round :: "int option"
  ev_verdict :: "string option"
  ev_component :: "string option"
  ev_repo :: "string option"

text \<open>The single-row watermark of earlier caches, kept read-only.\<close>

record eviction_row =
  el_last_evicted_id :: int
  el_evicted_count :: int
  el_evicted_at :: time
  el_last_evicted_received_at :: time

record scope_row =
  es_type :: string
  es_node :: string
  es_component :: string
  es_first_evicted_id :: int
  es_last_evicted_id :: int
  es_evicted_count :: int
  es_evicted_at :: time
  es_last_evicted_received_at :: time
  es_samples :: "(int \<times> time) list"
  es_samples_complete :: bool

record command_row =
  cm_id :: int
  cm_node :: string
  cm_verb :: string
  cm_target :: "string option"
  cm_force :: bool
  cm_created_at :: time
  cm_delivered_at :: "time option"
  cm_completed_at :: "time option"
  cm_deferred_reason :: "string option"

record session_row =
  ss_id_hash :: string
  ss_created_at :: time
  ss_expires_at :: time

record join_token_row =
  jt_id :: string
  jt_token_hash :: string
  jt_created_at :: time
  jt_expires_at :: time
  jt_uses_left :: int

record unregistered_row =
  ur_name :: string
  ur_source :: string
  ur_first_seen :: time
  ur_last_seen :: time
  ur_beats :: int

record janitor_row =
  ja_repo :: "repo option"
  ja_issue :: int
  ja_run_id :: string
  ja_worker :: string
  ja_reason :: string
  ja_acted_at :: time

record grant_row =
  gr_repo :: repo
  gr_issue :: int
  gr_worker :: string
  gr_node :: string
  gr_login :: string
  gr_granted_at :: time

record driver_row =
  dr_worker :: string
  dr_node :: string
  dr_login :: string
  dr_role :: string
  dr_repo :: repo
  dr_stack :: string
  dr_registered_at :: time
  dr_last_dispatch_at :: time

record node_health_row =
  nh_node :: string
  nh_consecutive_failures :: int
  nh_quarantined :: bool
  nh_reason :: string
  nh_since :: "time option"

record zombie_row =
  zf_repo :: repo
  zf_issue :: int
  zf_run_id :: string
  zf_worker :: string
  zf_node :: string
  zf_flagged_at :: time

record malformed_row =
  mf_repo :: repo
  mf_issue :: int
  mf_detail :: string
  mf_first_seen :: time
  mf_last_seen :: time

record wait_row =
  dw_repo :: repo
  dw_issue :: int
  dw_reason :: string
  dw_first_seen :: time
  dw_last_seen :: time

record chained_row =
  cd_repo :: repo
  cd_dependent_pr :: int
  cd_blocker_issue :: int
  cd_blocker_pr :: int
  cd_blocker_state :: string
  cd_recorded_sha :: string
  cd_first_seen :: time
  cd_last_seen :: time

record pause_row =
  dp_repo :: repo
  dp_reason :: string
  dp_first_seen :: time
  dp_last_seen :: time

text \<open>A row of \<open>version_health\<close> or \<open>drivers_health\<close>: the two tables share their columns.\<close>

record convergence_row =
  vh_node :: string
  vh_offpin_beats :: int
  vh_restart_queued :: bool
  vh_escalated :: bool

record cli_status_row =
  cs_node :: string
  cs_worker_type :: string
  cs_tool :: string
  cs_desired :: string
  cs_applied :: string
  cs_converged :: bool
  cs_error_class :: string
  cs_error_message :: string
  cs_updated_at :: time

record store =
  t_nodes :: "node_row list"
  t_stacks :: "stack_row list"
  t_containers :: "container_row list"
  t_stack_containers :: "stack_container_row list"
  t_images :: "image_row list"
  t_events :: "event_row list"
  t_event_seq :: int
  t_event_evictions :: "eviction_row option"
  t_eviction_scopes :: "scope_row list"
  t_commands :: "command_row list"
  t_command_seq :: int
  t_sessions :: "session_row list"
  t_join_tokens :: "join_token_row list"
  t_unregistered :: "unregistered_row list"
  t_janitor_actions :: "janitor_row list"
  t_grants :: "grant_row list"
  t_drivers :: "driver_row list"
  t_node_health :: "node_health_row list"
  t_zombie_flags :: "zombie_row list"
  t_malformed :: "malformed_row list"
  t_waits :: "wait_row list"
  t_chained :: "chained_row list"
  t_pauses :: "pause_row list"
  t_version_health :: "convergence_row list"
  t_drivers_health :: "convergence_row list"
  t_cli_status :: "cli_status_row list"

text \<open>A freshly created database.\<close>

definition empty_store :: store where
  "empty_store =
     \<lparr>t_nodes = [], t_stacks = [], t_containers = [], t_stack_containers = [], t_images = [],
      t_events = [], t_event_seq = 0, t_event_evictions = None, t_eviction_scopes = [],
      t_commands = [], t_command_seq = 0, t_sessions = [], t_join_tokens = [],
      t_unregistered = [], t_janitor_actions = [], t_grants = [], t_drivers = [],
      t_node_health = [], t_zombie_flags = [], t_malformed = [], t_waits = [], t_chained = [],
      t_pauses = [], t_version_health = [], t_drivers_health = [], t_cli_status = []\<rparr>"

subsection \<open>Constants of the store\<close>

definition EVENT_RUN :: string where "EVENT_RUN = ''theozolith.run''"
definition EVENT_REVIEW :: string where "EVENT_REVIEW = ''theozolith.review''"
definition EVENT_PROGRESS :: string where "EVENT_PROGRESS = ''theozolith.run.progress''"
definition EVENT_ERROR :: string where "EVENT_ERROR = ''theozolith.error''"

definition LIVE_RUN_PHASES :: "string list" where
  "LIVE_RUN_PHASES = [''claimed'', ''gate'', ''failed'']"

definition LIFECYCLE_VERBS :: "string list" where
  "LIFECYCLE_VERBS = [''drain'', ''recycle'', ''update'', ''restart'']"

definition QUARANTINE_AFTER_FAILURES :: int where "QUARANTINE_AFTER_FAILURES = 2"
definition EVICTION_SCOPE_CAP :: nat where "EVICTION_SCOPE_CAP = 64"
definition EVICTION_SAMPLE_CAP :: nat where "EVICTION_SAMPLE_CAP = 32"
definition EVICTION_WILDCARD :: string where "EVICTION_WILDCARD = ''*''"
definition UNREGISTERED_CAP :: nat where "UNREGISTERED_CAP = 64"

lemma event_types_distinct [simp]:
  "EVENT_PROGRESS \<noteq> EVENT_ERROR" "EVENT_ERROR \<noteq> EVENT_PROGRESS"
  "EVENT_RUN \<noteq> EVENT_PROGRESS" "EVENT_RUN \<noteq> EVENT_ERROR"
  "EVENT_PROGRESS \<noteq> EVENT_RUN" "EVENT_ERROR \<noteq> EVENT_RUN"
  "EVENT_PROGRESS \<noteq> EVICTION_WILDCARD" "EVENT_ERROR \<noteq> EVICTION_WILDCARD"
  by (simp_all add: EVENT_PROGRESS_def EVENT_ERROR_def EVENT_RUN_def EVICTION_WILDCARD_def)

end
