(* ===== verification/Store_Coord.thy ===== *)
theory Store_Coord
  imports Store_State
begin

text \<open>
  The coordination tables of the cache database: the driver registry, dispatch grants, the
  quarantine gate, zombie flags, the malformed and waiting display lanes, chained dependents,
  per-repository dispatch pauses and the janitor's ledger; with the key facts of every table and
  the interpretations of the display-table interface.
\<close>

subsection \<open>Drivers and grants\<close>

definition upsert_driver ::
  "time \<Rightarrow> string \<Rightarrow> string \<Rightarrow> string \<Rightarrow> string \<Rightarrow> repo \<Rightarrow> string \<Rightarrow> store \<Rightarrow> store" where
  "upsert_driver now worker node login role repo stack s =
     s\<lparr>t_drivers := upsert dr_worker
         \<lparr>dr_worker = worker, dr_node = node, dr_login = login, dr_role = role, dr_repo = repo,
          dr_stack = stack, dr_registered_at = now, dr_last_dispatch_at = now\<rparr>
         (\<lambda>r. r\<lparr>dr_node := node, dr_login := login, dr_role := role, dr_repo := repo,
               dr_stack := stack, dr_last_dispatch_at := now\<rparr>)
         (t_drivers s)\<rparr>"

definition drivers :: "store \<Rightarrow> driver_row list" where
  "drivers s = sort_key dr_worker (t_drivers s)"

definition grant_key :: "grant_row \<Rightarrow> repo \<times> int" where
  "grant_key r = (gr_repo r, gr_issue r)"

definition record_grant :: "time \<Rightarrow> repo \<Rightarrow> int \<Rightarrow> string \<Rightarrow> string \<Rightarrow> string \<Rightarrow> store \<Rightarrow> store" where
  "record_grant now repo issue worker node login s =
     s\<lparr>t_grants := upsert grant_key
         \<lparr>gr_repo = repo, gr_issue = issue, gr_worker = worker, gr_node = node, gr_login = login,
          gr_granted_at = now\<rparr>
         (\<lambda>r. r\<lparr>gr_worker := worker, gr_node := node, gr_login := login, gr_granted_at := now\<rparr>)
         (t_grants s)\<rparr>"

definition granted_issues :: "repo \<Rightarrow> store \<Rightarrow> int list" where
  "granted_issues repo s = map gr_issue (filter (\<lambda>r. gr_repo r = repo) (t_grants s))"

definition grants :: "store \<Rightarrow> grant_row list" where
  "grants s = sort_key grant_key (t_grants s)"

definition expired_grants :: "time \<Rightarrow> time \<Rightarrow> store \<Rightarrow> grant_row list" where
  "expired_grants now window_seconds s =
     (let cutoff = now - window_seconds in
      sort_key grant_key (filter (\<lambda>r. gr_granted_at r \<le> cutoff) (t_grants s)))"

definition release_grant :: "repo \<Rightarrow> int \<Rightarrow> store \<Rightarrow> bool \<times> store" where
  "release_grant repo issue s =
     (has_key grant_key (repo, issue) (t_grants s),
      s\<lparr>t_grants := delete_where (\<lambda>r. grant_key r = (repo, issue)) (t_grants s)\<rparr>)"

subsection \<open>The quarantine gate\<close>

definition node_quarantine :: "string \<Rightarrow> store \<Rightarrow> string option" where
  "node_quarantine node s =
     (case row_of nh_node node (t_node_health s) of
        None \<Rightarrow> None
      | Some r \<Rightarrow> if nh_quarantined r then Some (str_or (nh_reason r) ''quarantined'') else None)"

definition quarantines :: "store \<Rightarrow> node_health_row list" where
  "quarantines s = sort_key nh_node (filter nh_quarantined (t_node_health s))"

definition release_quarantine :: "string \<Rightarrow> store \<Rightarrow> bool \<times> store" where
  "release_quarantine node s =
     (list_ex (\<lambda>r. nh_node r = node \<and> nh_quarantined r) (t_node_health s),
      s\<lparr>t_node_health := update_where (\<lambda>r. nh_node r = node \<and> nh_quarantined r)
          (\<lambda>r. r\<lparr>nh_quarantined := False, nh_reason := [], nh_since := None,
                nh_consecutive_failures := 0\<rparr>) (t_node_health s)\<rparr>)"

definition bump_failures :: "time \<Rightarrow> string \<Rightarrow> int option \<Rightarrow> string option \<Rightarrow> store \<Rightarrow> store" where
  "bump_failures now node issue run_id s =
     (let h = upsert nh_node
                \<lparr>nh_node = node, nh_consecutive_failures = 1, nh_quarantined = False,
                 nh_reason = [], nh_since = None\<rparr>
                (\<lambda>r. r\<lparr>nh_consecutive_failures := nh_consecutive_failures r + 1\<rparr>)
                (t_node_health s)
      in case row_of nh_node node h of
           None \<Rightarrow> s\<lparr>t_node_health := h\<rparr>
         | Some row \<Rightarrow>
             if QUARANTINE_AFTER_FAILURES \<le> nh_consecutive_failures row \<and> \<not> nh_quarantined row
             then let reason = show_int (nh_consecutive_failures row)
                        @ '' consecutive failed Runs (latest run ''
                        @ str_or (opt_str run_id) ''unknown''
                        @ (case issue of None \<Rightarrow> [] | Some i \<Rightarrow> '', issue #'' @ show_int i) @ '')''
                  in s\<lparr>t_node_health := update_where (\<lambda>r. nh_node r = node)
                        (\<lambda>r. r\<lparr>nh_quarantined := True, nh_reason := reason, nh_since := Some now\<rparr>) h\<rparr>
             else s\<lparr>t_node_health := h\<rparr>)"

subsection \<open>Dashboard flags and lanes\<close>

definition zombie_key :: "zombie_row \<Rightarrow> repo \<times> int \<times> string" where
  "zombie_key r = (zf_repo r, zf_issue r, zf_run_id r)"

definition flag_zombie :: "time \<Rightarrow> repo \<Rightarrow> int \<Rightarrow> string \<Rightarrow> string \<Rightarrow> string \<Rightarrow> store \<Rightarrow> store" where
  "flag_zombie now repo issue run_id worker node s =
     s\<lparr>t_zombie_flags := insert_or_ignore zombie_key
         \<lparr>zf_repo = repo, zf_issue = issue, zf_run_id = run_id, zf_worker = worker,
          zf_node = node, zf_flagged_at = now\<rparr> (t_zombie_flags s)\<rparr>"

definition clear_zombie_flag :: "repo \<Rightarrow> int \<Rightarrow> string \<Rightarrow> store \<Rightarrow> store" where
  "clear_zombie_flag repo issue run_id s =
     s\<lparr>t_zombie_flags :=
         delete_where (\<lambda>r. zombie_key r = (repo, issue, run_id)) (t_zombie_flags s)\<rparr>"

definition in_repo :: "repo option \<Rightarrow> ('r \<Rightarrow> repo) \<Rightarrow> 'r list \<Rightarrow> 'r list" where
  "in_repo repo f rows = (case repo of None \<Rightarrow> rows | Some q \<Rightarrow> filter (\<lambda>r. f r = q) rows)"

definition zombie_flags :: "repo option \<Rightarrow> store \<Rightarrow> zombie_row list" where
  "zombie_flags repo s =
     sort_key (\<lambda>r. (zf_repo r, zf_issue r)) (in_repo repo zf_repo (t_zombie_flags s))"

definition malformed_key :: "malformed_row \<Rightarrow> repo \<times> int" where
  "malformed_key r = (mf_repo r, mf_issue r)"

definition record_malformed :: "time \<Rightarrow> repo \<Rightarrow> int \<Rightarrow> string \<Rightarrow> store \<Rightarrow> store" where
  "record_malformed now repo issue detail s =
     s\<lparr>t_malformed := upsert malformed_key
         \<lparr>mf_repo = repo, mf_issue = issue, mf_detail = detail, mf_first_seen = now,
          mf_last_seen = now\<rparr>
         (\<lambda>r. r\<lparr>mf_detail := detail, mf_last_seen := now\<rparr>) (t_malformed s)\<rparr>"

definition clear_malformed :: "repo \<Rightarrow> int \<Rightarrow> store \<Rightarrow> store" where
  "clear_malformed repo issue s =
     s\<lparr>t_malformed := delete_where (\<lambda>r. malformed_key r = (repo, issue)) (t_malformed s)\<rparr>"

definition malformed_states :: "repo option \<Rightarrow> store \<Rightarrow> malformed_row list" where
  "malformed_states repo s = sort_key malformed_key (in_repo repo mf_repo (t_malformed s))"

definition wait_key :: "wait_row \<Rightarrow> repo \<times> int" where
  "wait_key r = (dw_repo r, dw_issue r)"

definition record_wait :: "time \<Rightarrow> repo \<Rightarrow> int \<Rightarrow> string \<Rightarrow> store \<Rightarrow> store" where
  "record_wait now repo issue reason s =
     s\<lparr>t_waits := upsert wait_key
         \<lparr>dw_repo = repo, dw_issue = issue, dw_reason = reason, dw_first_seen = now,
          dw_last_seen = now\<rparr>
         (\<lambda>r. r\<lparr>dw_reason := reason, dw_last_seen := now\<rparr>) (t_waits s)\<rparr>"

definition clear_wait :: "repo \<Rightarrow> int \<Rightarrow> store \<Rightarrow> store" where
  "clear_wait repo issue s =
     s\<lparr>t_waits := delete_where (\<lambda>r. wait_key r = (repo, issue)) (t_waits s)\<rparr>"

definition dispatch_waits :: "repo option \<Rightarrow> store \<Rightarrow> wait_row list" where
  "dispatch_waits repo s = sort_key wait_key (in_repo repo dw_repo (t_waits s))"

definition chained_key :: "chained_row \<Rightarrow> repo \<times> int" where
  "chained_key r = (cd_repo r, cd_dependent_pr r)"

definition record_chained_dependent ::
  "time \<Rightarrow> repo \<Rightarrow> int \<Rightarrow> int \<Rightarrow> int \<Rightarrow> string \<Rightarrow> string \<Rightarrow> store \<Rightarrow> store" where
  "record_chained_dependent now repo dependent_pr blocker_issue blocker_pr blocker_state sha s =
     s\<lparr>t_chained := upsert chained_key
         \<lparr>cd_repo = repo, cd_dependent_pr = dependent_pr, cd_blocker_issue = blocker_issue,
          cd_blocker_pr = blocker_pr, cd_blocker_state = blocker_state, cd_recorded_sha = sha,
          cd_first_seen = now, cd_last_seen = now\<rparr>
         (\<lambda>r. r\<lparr>cd_blocker_issue := blocker_issue, cd_blocker_pr := blocker_pr,
               cd_blocker_state := blocker_state, cd_recorded_sha := sha, cd_last_seen := now\<rparr>)
         (t_chained s)\<rparr>"

definition clear_chained_dependent :: "repo \<Rightarrow> int \<Rightarrow> store \<Rightarrow> store" where
  "clear_chained_dependent repo dependent_pr s =
     s\<lparr>t_chained := delete_where (\<lambda>r. chained_key r = (repo, dependent_pr)) (t_chained s)\<rparr>"

definition chained_dependents :: "repo option \<Rightarrow> store \<Rightarrow> chained_row list" where
  "chained_dependents repo s = sort_key chained_key (in_repo repo cd_repo (t_chained s))"

definition record_dispatch_pause :: "time \<Rightarrow> repo \<Rightarrow> string \<Rightarrow> store \<Rightarrow> store" where
  "record_dispatch_pause now repo reason s =
     s\<lparr>t_pauses := upsert dp_repo
         \<lparr>dp_repo = repo, dp_reason = reason, dp_first_seen = now, dp_last_seen = now\<rparr>
         (\<lambda>r. r\<lparr>dp_reason := reason, dp_last_seen := now\<rparr>) (t_pauses s)\<rparr>"

definition clear_dispatch_pause :: "repo \<Rightarrow> store \<Rightarrow> store" where
  "clear_dispatch_pause repo s = s\<lparr>t_pauses := delete_where (\<lambda>r. dp_repo r = repo) (t_pauses s)\<rparr>"

definition dispatch_pauses :: "store \<Rightarrow> pause_row list" where
  "dispatch_pauses s = sort_key dp_repo (t_pauses s)"

subsection \<open>The janitor's ledger\<close>

definition record_janitor_action ::
  "time \<Rightarrow> repo option \<Rightarrow> int \<Rightarrow> string \<Rightarrow> string \<Rightarrow> string \<Rightarrow> store \<Rightarrow> store" where
  "record_janitor_action now repo issue run_id worker reason s =
     s\<lparr>t_janitor_actions := t_janitor_actions s @
         [\<lparr>ja_repo = repo, ja_issue = issue, ja_run_id = run_id, ja_worker = worker,
           ja_reason = reason, ja_acted_at = now\<rparr>]\<rparr>"

definition janitor_acted :: "repo \<Rightarrow> int \<Rightarrow> string \<Rightarrow> store \<Rightarrow> bool" where
  "janitor_acted repo issue run_id s \<longleftrightarrow>
     list_ex (\<lambda>r. ja_repo r = Some repo \<and> ja_issue r = issue \<and> ja_run_id r = run_id)
       (t_janitor_actions s)"

definition janitor_actions :: "store \<Rightarrow> janitor_row list" where
  "janitor_actions s = t_janitor_actions s"

subsection \<open>The tables as keyed sets\<close>

lemma set_in_repo [simp]:
  "set (in_repo (Some q) f rows) = {r \<in> set rows. f r = q}" "in_repo None f rows = rows"
  by (simp_all add: in_repo_def)

lemma key_upds [simp]:
  "grant_key (r\<lparr>gr_worker := a, gr_node := b, gr_login := c, gr_granted_at := t\<rparr>) = grant_key r"
  "malformed_key (m\<lparr>mf_detail := d, mf_last_seen := t\<rparr>) = malformed_key m"
  "wait_key (w\<lparr>dw_reason := d, dw_last_seen := t\<rparr>) = wait_key w"
  "chained_key (c1\<lparr>cd_blocker_issue := i, cd_blocker_pr := p, cd_blocker_state := b',
     cd_recorded_sha := h, cd_last_seen := t\<rparr>) = chained_key c1"
  by (simp_all add: grant_key_def malformed_key_def wait_key_def chained_key_def)

definition grant_keys :: "store \<Rightarrow> (repo \<times> int) set" where
  "grant_keys s = grant_key ` set (t_grants s)"

definition malformed_keys :: "store \<Rightarrow> (repo \<times> int) set" where
  "malformed_keys s = malformed_key ` set (t_malformed s)"

definition wait_keys :: "store \<Rightarrow> (repo \<times> int) set" where
  "wait_keys s = wait_key ` set (t_waits s)"

definition chained_keys :: "store \<Rightarrow> (repo \<times> int) set" where
  "chained_keys s = chained_key ` set (t_chained s)"

lemma key_new [simp]:
  "grant_key \<lparr>gr_repo = q, gr_issue = n, gr_worker = a, gr_node = b, gr_login = c,
     gr_granted_at = t\<rparr> = (q, n)"
  "malformed_key \<lparr>mf_repo = q, mf_issue = n, mf_detail = d, mf_first_seen = t,
     mf_last_seen = t'\<rparr> = (q, n)"
  "wait_key \<lparr>dw_repo = q, dw_issue = n, dw_reason = d, dw_first_seen = t,
     dw_last_seen = t'\<rparr> = (q, n)"
  "chained_key \<lparr>cd_repo = q, cd_dependent_pr = n, cd_blocker_issue = i, cd_blocker_pr = p,
     cd_blocker_state = b', cd_recorded_sha = h, cd_first_seen = t, cd_last_seen = t'\<rparr> = (q, n)"
  by (simp_all add: grant_key_def malformed_key_def wait_key_def chained_key_def)

lemma keys_record [row_simps]:
  "grant_keys (record_grant now q n w nd l s) = insert (q, n) (grant_keys s)"
  "malformed_keys (record_malformed now q n d s) = insert (q, n) (malformed_keys s)"
  "wait_keys (record_wait now q n d s) = insert (q, n) (wait_keys s)"
  "chained_keys (record_chained_dependent now q n i p b h s) = insert (q, n) (chained_keys s)"
  by (simp_all add: grant_keys_def malformed_keys_def wait_keys_def chained_keys_def keys_upsert
      record_grant_def record_malformed_def record_wait_def record_chained_dependent_def)

lemma keys_clear [row_simps]:
  "grant_keys (snd (release_grant q n s)) = grant_keys s - {(q, n)}"
  "malformed_keys (clear_malformed q n s) = malformed_keys s - {(q, n)}"
  "wait_keys (clear_wait q n s) = wait_keys s - {(q, n)}"
  "chained_keys (clear_chained_dependent q n s) = chained_keys s - {(q, n)}"
  by (simp_all add: grant_keys_def malformed_keys_def wait_keys_def chained_keys_def
      release_grant_def clear_malformed_def clear_wait_def clear_chained_dependent_def
      keys_delete_where del: set_delete_where)

lemma listed_keys [row_simps]:
  "set (granted_issues q s) = {n. (q, n) \<in> grant_keys s}"
  "set (map mf_issue (malformed_states (Some q) s)) = {n. (q, n) \<in> malformed_keys s}"
  "set (map dw_issue (dispatch_waits (Some q) s)) = {n. (q, n) \<in> wait_keys s}"
  "set (map cd_dependent_pr (chained_dependents (Some q) s)) = {n. (q, n) \<in> chained_keys s}"
  by (auto simp: grant_keys_def malformed_keys_def wait_keys_def chained_keys_def grant_key_def
      malformed_key_def wait_key_def chained_key_def granted_issues_def malformed_states_def
      dispatch_waits_def chained_dependents_def image_iff)

interpretation malformed_lane: repo_rows malformed_keys
  "\<lambda>r s. map mf_issue (malformed_states (Some r) s)"
  "\<lambda>r n (now, detail). record_malformed now r n detail" clear_malformed
  by unfold_locales (simp_all only: row_simps split: prod.split, simp)

interpretation wait_lane: repo_rows wait_keys
  "\<lambda>r s. map dw_issue (dispatch_waits (Some r) s)"
  "\<lambda>r n (now, reason). record_wait now r n reason" clear_wait
  by unfold_locales (simp_all only: row_simps split: prod.split, simp)

interpretation chained_lane: repo_rows chained_keys
  "\<lambda>r s. map cd_dependent_pr (chained_dependents (Some r) s)"
  "\<lambda>r n (now, i, p, st, sha). record_chained_dependent now r n i p st sha" clear_chained_dependent
  by unfold_locales (simp_all only: row_simps split: prod.split, simp)

interpretation grant_book: repo_rows grant_keys granted_issues
  "\<lambda>r n (now, w, nd, l). record_grant now r n w nd l" "\<lambda>r n s. snd (release_grant r n s)"
  by unfold_locales (simp_all only: row_simps split: prod.split, simp)

lemma release_grant_fst [simp]: "fst (release_grant r n s) \<longleftrightarrow> (r, n) \<in> grant_keys s"
  by (simp add: release_grant_def grant_keys_def has_key_iff)

end
