(* ===== verification/Store_Nodes.thy ===== *)
theory Store_Nodes
  imports Store_State
begin

text \<open>
  Node status in the cache database: heartbeat touch, the reported version and distribution hash,
  the convergence ladder shared by the product pin and the driver distribution
  (\<open>Store._observe_convergence\<close>), and the per-heartbeat replacement of a node's stack, container,
  image and CLI rows. An operation takes the clock value it reads as its first argument.
\<close>

datatype store_error = IntegrityError | IndexError

subsection \<open>Heartbeat touch and the reads of the dispatch gate\<close>

definition touch_node :: "time \<Rightarrow> string \<Rightarrow> string \<Rightarrow> string option \<Rightarrow> string \<Rightarrow> store \<Rightarrow> store" where
  "touch_node now name version drivers_hash built_against s =
     (let reported = (drivers_hash \<noteq> None); stored_hash = opt_str drivers_hash in
      s\<lparr>t_nodes := upsert nd_name
          \<lparr>nd_name = name, nd_version = version, nd_drivers_hash = stored_hash,
           nd_drivers_hash_reported = reported, nd_drivers_built_against = built_against,
           nd_registered_at = now, nd_last_seen = now\<rparr>
          (\<lambda>r. r\<lparr>nd_last_seen := now, nd_version := version, nd_drivers_hash := stored_hash,
                nd_drivers_hash_reported := reported, nd_drivers_built_against := built_against\<rparr>)
          (t_nodes s)\<rparr>)"

definition node_last_seen :: "string \<Rightarrow> store \<Rightarrow> time option" where
  "node_last_seen name s = map_option nd_last_seen (row_of nd_name name (t_nodes s))"

definition node_version :: "string \<Rightarrow> store \<Rightarrow> string" where
  "node_version name s = (case row_of nd_name name (t_nodes s) of None \<Rightarrow> [] | Some r \<Rightarrow> nd_version r)"

definition node_drivers_hash :: "string \<Rightarrow> store \<Rightarrow> string option" where
  "node_drivers_hash name s =
     (case row_of nd_name name (t_nodes s) of
        None \<Rightarrow> None
      | Some r \<Rightarrow> if nd_drivers_hash_reported r then Some (nd_drivers_hash r) else None)"

definition drivers_skew :: "store \<Rightarrow> (string \<times> string \<times> string) list" where
  "drivers_skew s =
     map (\<lambda>r. (nd_name r, nd_drivers_built_against r, nd_version r))
       (sort_key nd_name (filter (\<lambda>r. nd_drivers_built_against r \<noteq> [] \<and> nd_version r \<noteq> []
          \<and> nd_drivers_built_against r \<noteq> nd_version r) (t_nodes s)))"

lemma node_drivers_hash_touch [simp]:
  "node_drivers_hash n (touch_node now n v h b s) = h"
  by (cases h) (simp_all add: node_drivers_hash_def touch_node_def Let_def row_of_upsert
      split: option.split)

subsection \<open>The convergence ladder\<close>

definition restart_pending :: "string \<Rightarrow> store \<Rightarrow> bool" where
  "restart_pending node s \<longleftrightarrow>
     list_ex (\<lambda>c. cm_node c = node \<and> cm_verb c = ''restart'' \<and> cm_completed_at c = None)
       (t_commands s)"

definition insert_command ::
  "time \<Rightarrow> string \<Rightarrow> string \<Rightarrow> string option \<Rightarrow> bool \<Rightarrow> store \<Rightarrow> store" where
  "insert_command now node verb target force s =
     s\<lparr>t_commands := t_commands s @
         [\<lparr>cm_id = t_command_seq s + 1, cm_node = node, cm_verb = verb, cm_target = target,
           cm_force = force, cm_created_at = now, cm_delivered_at = None,
           cm_completed_at = None, cm_deferred_reason = None\<rparr>],
       t_command_seq := t_command_seq s + 1\<rparr>"

text \<open>One off-pin beat: \<open>INSERT .. DO NOTHING\<close>, then the increment.\<close>

definition count_beat :: "string \<Rightarrow> convergence_row list \<Rightarrow> convergence_row list" where
  "count_beat node h =
     update_where (\<lambda>r. vh_node r = node) (\<lambda>r. r\<lparr>vh_offpin_beats := vh_offpin_beats r + 1\<rparr>)
       (insert_or_ignore vh_node
          \<lparr>vh_node = node, vh_offpin_beats = 0, vh_restart_queued = False,
           vh_escalated = False\<rparr> h)"

text \<open>
  The ladder over one of the two health tables, given by its reader and its writer: a match, no
  desired value, no report or a reported deferral resets; otherwise the beat is counted, one
  restart is queued at \<open>threshold\<close> unless one is pending, and \<open>2 * threshold\<close> escalates.
\<close>

definition observe_convergence ::
  "(store \<Rightarrow> convergence_row list) \<Rightarrow> (convergence_row list \<Rightarrow> store \<Rightarrow> store) \<Rightarrow>
   time \<Rightarrow> string \<Rightarrow> string option \<Rightarrow> string \<Rightarrow> int \<Rightarrow> bool \<Rightarrow> store \<Rightarrow> string option \<times> store" where
  "observe_convergence rows put now node reported desired threshold deferred s =
     (if desired = [] \<or> reported = None \<or> reported = Some desired \<or> deferred
      then (None, put (delete_where (\<lambda>r. vh_node r = node) (rows s)) s)
      else
        let s1 = put (count_beat node (rows s)) s
        in case row_of vh_node node (rows s1) of
             None \<Rightarrow> (None, s1)
           | Some row \<Rightarrow>
               if \<not> vh_restart_queued row \<and> threshold \<le> vh_offpin_beats row
               then let s2 = (if restart_pending node s1 then s1
                              else insert_command now node ''restart'' None False s1)
                    in (Some ''restart-queued'',
                        put (update_where (\<lambda>r. vh_node r = node)
                               (\<lambda>r. r\<lparr>vh_restart_queued := True\<rparr>) (rows s2)) s2)
               else if vh_restart_queued row \<and> \<not> vh_escalated row
                       \<and> 2 * threshold \<le> vh_offpin_beats row
               then (Some ''escalated'',
                     put (update_where (\<lambda>r. vh_node r = node)
                            (\<lambda>r. r\<lparr>vh_escalated := True\<rparr>) (rows s1)) s1)
               else (None, s1))"

definition put_version_health :: "convergence_row list \<Rightarrow> store \<Rightarrow> store" where
  "put_version_health rows s = s\<lparr>t_version_health := rows\<rparr>"

definition put_drivers_health :: "convergence_row list \<Rightarrow> store \<Rightarrow> store" where
  "put_drivers_health rows s = s\<lparr>t_drivers_health := rows\<rparr>"

definition observe_version ::
  "time \<Rightarrow> string \<Rightarrow> string \<Rightarrow> string \<Rightarrow> int \<Rightarrow> bool \<Rightarrow> store \<Rightarrow> string option \<times> store" where
  "observe_version now node reported pin threshold deferred s =
     observe_convergence t_version_health put_version_health now node
       (if reported = [] then None else Some reported) pin threshold deferred s"

definition observe_drivers ::
  "time \<Rightarrow> string \<Rightarrow> string option \<Rightarrow> string \<Rightarrow> int \<Rightarrow> bool \<Rightarrow> store \<Rightarrow> string option \<times> store" where
  "observe_drivers now node reported desired threshold deferred s =
     observe_convergence t_drivers_health put_drivers_health now node reported desired
       threshold deferred s"

subsection \<open>What a health table promises, and the ladder over it\<close>

text \<open>The abstract ladder of one node: not off-pin, or the beats counted and the rungs taken.\<close>

datatype ladder = Converged | Offpin int bool bool

definition ladder_of :: "string \<Rightarrow> convergence_row list \<Rightarrow> ladder" where
  "ladder_of node rows =
     (case row_of vh_node node rows of
        None \<Rightarrow> Converged
      | Some r \<Rightarrow> Offpin (vh_offpin_beats r) (vh_restart_queued r) (vh_escalated r))"

definition ladder_beat :: "int \<Rightarrow> ladder \<Rightarrow> string option \<times> ladder" where
  "ladder_beat t l =
     (let (b, q, e) = (case l of Converged \<Rightarrow> (0, False, False) | Offpin b q e \<Rightarrow> (b, q, e)) in
      if \<not> q \<and> t \<le> b + 1 then (Some ''restart-queued'', Offpin (b + 1) True e)
      else if q \<and> \<not> e \<and> 2 * t \<le> b + 1 then (Some ''escalated'', Offpin (b + 1) q True)
      else (None, Offpin (b + 1) q e))"

lemma ladder_beat_simps [simp]:
  "ladder_beat t Converged = ladder_beat t (Offpin 0 False False)"
  "ladder_beat t (Offpin b q e) =
     (if \<not> q \<and> t \<le> b + 1 then (Some ''restart-queued'', Offpin (b + 1) True e)
      else if q \<and> \<not> e \<and> 2 * t \<le> b + 1 then (Some ''escalated'', Offpin (b + 1) q True)
      else (None, Offpin (b + 1) q e))"
  by (simp_all add: ladder_beat_def)

lemma ladder_of_count_beat:
  "\<exists>b q e. ladder_of node (count_beat node h) = Offpin (b + 1) q e
     \<and> ladder_beat t (ladder_of node h) = ladder_beat t (Offpin b q e)"
proof (cases "row_of vh_node node h")
  case None
  then have "node \<notin> vh_node ` set h" by (simp add: row_of_None_iff)
  then show ?thesis using None
    by (auto simp: count_beat_def ladder_of_def row_of_update_where insert_or_ignore_def has_key_iff
        row_of_append ladder_beat_def intro!: exI [of _ 0] exI [of _ False])
next
  case (Some r)
  then have "vh_node r = node" "node \<in> vh_node ` set h"
    using row_of_SomeD [OF Some] by auto
  then show ?thesis using Some
    by (auto simp: count_beat_def ladder_of_def row_of_update_where insert_or_ignore_def has_key_iff
        intro!: exI)
qed

locale health_table =
  fixes rows :: "store \<Rightarrow> convergence_row list"
  fixes put :: "convergence_row list \<Rightarrow> store \<Rightarrow> store"
  assumes rows_put: "rows (put h s) = h"
  assumes commands_put: "t_commands (put h s) = t_commands s"
  assumes command_seq_put: "t_command_seq (put h s) = t_command_seq s"
  assumes rows_insert_command: "rows (insert_command now n v g f s) = rows s"
begin

lemma reset_converged:
  assumes "desired = [] \<or> reported = None \<or> reported = Some desired \<or> deferred"
  shows "fst (observe_convergence rows put now node reported desired t deferred s) = None"
    and "ladder_of node (rows (snd (observe_convergence rows put now node reported desired t deferred s)))
      = Converged"
  using assms by (simp_all add: observe_convergence_def rows_put ladder_of_def)

lemma reset_commands:
  assumes "desired = [] \<or> reported = None \<or> reported = Some desired \<or> deferred"
  shows "t_commands (snd (observe_convergence rows put now node reported desired t deferred s)) = t_commands s"
  using assms by (simp add: observe_convergence_def commands_put)

lemma offpin_beat:
  assumes off: "\<not> (desired = [] \<or> reported = None \<or> reported = Some desired \<or> deferred)"
  shows "(fst (observe_convergence rows put now node reported desired t deferred s),
          ladder_of node (rows (snd (observe_convergence rows put now node reported desired t deferred s))))
     = ladder_beat t (ladder_of node (rows s))"
proof -
  obtain b q e where l: "ladder_of node (count_beat node (rows s)) = Offpin (b + 1) q e"
    and b: "ladder_beat t (ladder_of node (rows s)) = ladder_beat t (Offpin b q e)"
    using ladder_of_count_beat by metis
  obtain r where r: "row_of vh_node node (count_beat node (rows s)) = Some r"
      "vh_offpin_beats r = b + 1" "vh_restart_queued r = q" "vh_escalated r = e" "vh_node r = node"
    using l by (auto simp: ladder_of_def dest: row_of_SomeD split: option.splits)
  show ?thesis
    unfolding b observe_convergence_def
    by (cases q; cases e) (use off r in \<open>simp_all add: Let_def rows_put rows_insert_command
      row_of_update_where ladder_of_def\<close>)
qed

text \<open>A beat of one node leaves the ladder of every other node alone.\<close>

lemma other_node:
  assumes "m \<noteq> node"
  shows "ladder_of m (rows (snd (observe_convergence rows put now node reported desired t deferred s)))
     = ladder_of m (rows s)"
proof -
  have upd: "row_of vh_node m (update_where (\<lambda>r. vh_node r = node) f h) = row_of vh_node m h"
    if "\<And>r. vh_node (f r) = vh_node r" for f h
    using assms row_of_SomeD [of vh_node m h] that
    by (cases "row_of vh_node m h") (auto simp: row_of_update_where)
  have "row_of vh_node m (count_beat node h) = row_of vh_node m h" for h
    using assms by (auto simp: count_beat_def upd insert_or_ignore_def row_of_append split: option.split)
  then show ?thesis
    using assms by (auto simp: observe_convergence_def Let_def rows_put rows_insert_command
        ladder_of_def upd row_of_delete_other split: option.splits)
qed

text \<open>The lever: a beat queues at most one restart, and none while one is pending.\<close>

lemma beat_commands:
  "t_commands (snd (observe_convergence rows put now node reported desired t deferred s)) = t_commands s
   \<or> \<not> restart_pending node s \<and>
     t_commands (snd (observe_convergence rows put now node reported desired t deferred s))
       = t_commands (insert_command now node ''restart'' None False s)"
  by (auto simp: observe_convergence_def Let_def commands_put command_seq_put insert_command_def restart_pending_def
      split: option.split)

end

interpretation version_table: health_table t_version_health put_version_health
  by unfold_locales (simp_all add: put_version_health_def insert_command_def)

interpretation drivers_table: health_table t_drivers_health put_drivers_health
  by unfold_locales (simp_all add: put_drivers_health_def insert_command_def)

subsection \<open>Reported containers and status rows\<close>

definition container_record :: "time \<Rightarrow> string \<Rightarrow> string \<Rightarrow> store \<Rightarrow> (container_row \<times> time) option" where
  "container_record now node name s =
     map_option (\<lambda>r. (r, now - ct_updated_at r))
       (row_of (\<lambda>r. (ct_node r, ct_name r)) (node, name) (t_containers s))"

definition stack_container_record ::
  "time \<Rightarrow> string \<Rightarrow> string \<Rightarrow> store \<Rightarrow> (stack_container_row \<times> time) option" where
  "stack_container_record now node name s =
     map_option (\<lambda>r. (r, now - sc_updated_at r))
       (row_of (\<lambda>r. (sc_node r, sc_name r)) (node, name) (t_stack_containers s))"

text \<open>\<open>str(d.get (key, ""))\<close>, as every reported field is read.\<close>

definition field_text :: "dict \<Rightarrow> string \<Rightarrow> string" where
  "field_text d k = py_str (dget_or d k (JStr []))"

definition named_reports :: "string \<Rightarrow> dict list \<Rightarrow> dict list" where
  "named_reports key ds = filter (\<lambda>d. truthy (dget d key)) ds"

definition stack_reports :: "time \<Rightarrow> string \<Rightarrow> dict list \<Rightarrow> stack_row list" where
  "stack_reports now node ds =
     map (\<lambda>d. \<lparr>sk_node = node, sk_name = field_text d ''name'', sk_kind = field_text d ''kind'',
            sk_state = field_text d ''state'', sk_detail = field_text d ''detail'',
            sk_updated_at = now\<rparr>) (named_reports ''name'' ds)"

definition container_reports :: "time \<Rightarrow> string \<Rightarrow> dict list \<Rightarrow> container_row list" where
  "container_reports now node ds =
     map (\<lambda>d. \<lparr>ct_node = node, ct_name = field_text d ''name'', ct_run_id = field_text d ''run_id'',
            ct_owner = field_text d ''owner'', ct_status = field_text d ''status'',
            ct_updated_at = now\<rparr>) (named_reports ''name'' ds)"

definition image_reports :: "time \<Rightarrow> string \<Rightarrow> dict list \<Rightarrow> image_row list" where
  "image_reports now node ds =
     map (\<lambda>d. \<lparr>im_node = node, im_name = field_text d ''name'', im_tag = field_text d ''tag'',
            im_base_digest = field_text d ''base_digest'',
            im_instruction_hash = field_text d ''instruction_hash'',
            im_built_at = field_text d ''built_at'', im_updated_at = now\<rparr>)
       (named_reports ''name'' ds)"

definition stack_container_reports :: "time \<Rightarrow> string \<Rightarrow> dict list \<Rightarrow> stack_container_row list" where
  "stack_container_reports now node ds =
     map (\<lambda>d. \<lparr>sc_node = node, sc_name = field_text d ''name'', sc_stack = field_text d ''stack'',
            sc_state = field_text d ''state'', sc_status = field_text d ''status'',
            sc_updated_at = now\<rparr>) (named_reports ''name'' ds)"

text \<open>
  A duplicate primary key among the inserted rows raises \<open>IntegrityError\<close>, and the transaction
  rolls back.
\<close>

definition record_status ::
  "time \<Rightarrow> string \<Rightarrow> dict list \<Rightarrow> dict list \<Rightarrow> dict list \<Rightarrow> dict list option \<Rightarrow> store \<Rightarrow>
   store_error + store" where
  "record_status now node stacks containers images stack_containers s =
     (let ss = stack_reports now node stacks;
          cs = container_reports now node containers;
          ims = image_reports now node images;
          scs = stack_container_reports now node
                  (case stack_containers of None \<Rightarrow> [] | Some xs \<Rightarrow> xs)
      in if distinct (map sk_name ss) \<and> distinct (map ct_name cs) \<and> distinct (map im_name ims)
            \<and> distinct (map sc_name scs)
         then Inr (s\<lparr>t_stacks := delete_where (\<lambda>r. sk_node r = node) (t_stacks s) @ ss,
                     t_containers := delete_where (\<lambda>r. ct_node r = node) (t_containers s) @ cs,
                     t_images := delete_where (\<lambda>r. im_node r = node) (t_images s) @ ims,
                     t_stack_containers :=
                       delete_where (\<lambda>r. sc_node r = node) (t_stack_containers s) @ scs\<rparr>)
         else Inl IntegrityError)"

definition record_cli_status :: "time \<Rightarrow> string \<Rightarrow> dict list \<Rightarrow> store \<Rightarrow> store" where
  "record_cli_status now node rows s =
     s\<lparr>t_cli_status := delete_where (\<lambda>r. cs_node r = node) (t_cli_status s) @
         map (\<lambda>d. \<lparr>cs_node = node, cs_worker_type = field_text d ''worker_type'',
                cs_tool = field_text d ''tool'', cs_desired = field_text d ''desired'',
                cs_applied = field_text d ''applied'', cs_converged = truthy (dget d ''converged''),
                cs_error_class = field_text d ''error_class'',
                cs_error_message = field_text d ''error'', cs_updated_at = now\<rparr>)
           (named_reports ''worker_type'' rows)\<rparr>"

lemma stack_reports_node [simp]: "r \<in> set (stack_reports now node ds) \<Longrightarrow> sk_node r = node"
  by (auto simp: stack_reports_def)

lemma record_status_stacks:
  assumes "record_status now node stacks cs ims scs s = Inr s'"
  shows "t_stacks s' = delete_where (\<lambda>r. sk_node r = node) (t_stacks s) @ stack_reports now node stacks"
    and "distinct (map sk_name (stack_reports now node stacks))"
  using assms by (auto simp: record_status_def Let_def split: if_splits)

lemma record_status_other_nodes:
  assumes "record_status now node stacks cs ims scs s = Inr s'"
  shows "filter (\<lambda>r. sk_node r \<noteq> node) (t_stacks s') = filter (\<lambda>r. sk_node r \<noteq> node) (t_stacks s)"
  by (simp add: record_status_stacks [OF assms] delete_where_def filter_empty_conv)

lemma record_status_keys:
  assumes "record_status now node stacks cs ims scs s = Inr s'"
    and "unique_key (\<lambda>r. (sk_node r, sk_name r)) (t_stacks s)"
  shows "unique_key (\<lambda>r. (sk_node r, sk_name r)) (t_stacks s')"
proof -
  have "distinct (map (\<lambda>r. (sk_node r, sk_name r)) (stack_reports now node stacks))"
    using record_status_stacks(2) [OF assms(1)]
    by (auto simp: distinct_map inj_on_def)
  then show ?thesis
    using assms(2) unfolding record_status_stacks(1) [OF assms(1)] unique_key_def
    by (auto simp: delete_where_def distinct_map_filter)
qed

end
