(* ===== verification/Store_Events.thy ===== *)
theory Store_Events
  imports Store_Coord Store_Nodes
begin

text \<open>
  The typed event log of the cache database: recording an event with the coordination caches that
  hang off a Run event, the reads over the log, and the claims that are live. The \<open>payload\<close>
  column's size is the length of its JSON text.
\<close>

subsection \<open>Recording\<close>

text \<open>The local helpers \<open>_int\<close> and \<open>_str\<close> of \<open>record_event\<close>.\<close>

fun event_int :: "dict \<Rightarrow> string \<Rightarrow> int option" where
  "event_int d k = (case dget d k of
       JInt i \<Rightarrow> Some i
     | JBool b \<Rightarrow> Some (if b then 1 else 0)
     | JFloat t _ \<Rightarrow> Some t
     | _ \<Rightarrow> None)"

fun event_str :: "dict \<Rightarrow> string \<Rightarrow> string option" where
  "event_str d k = (case dget d k of
       JStr s \<Rightarrow> if s = [] then None else Some s
     | _ \<Rightarrow> None)"

definition event_row_of :: "int \<Rightarrow> time \<Rightarrow> dict \<Rightarrow> event_row" where
  "event_row_of i now event =
     \<lparr>ev_id = i, ev_type = field_text event ''type'', ev_received_at = now, ev_payload = event,
      ev_node = event_str event ''node'',
      ev_driver = (case event_str event ''driver'' of
                     None \<Rightarrow> event_str event ''reviewer'' | Some d \<Rightarrow> Some d),
      ev_issue = event_int event ''issue'', ev_run_id = event_str event ''run_id'',
      ev_attempt = event_int event ''attempt'', ev_phase = event_str event ''phase'',
      ev_pr = event_int event ''pr'', ev_round = event_int event ''round'',
      ev_verdict = event_str event ''verdict'', ev_component = event_str event ''component'',
      ev_repo = event_str event ''repo''\<rparr>"

text \<open>
  \<open>record_event\<close>: the row lands first; a Run event then activates its grant, counts a failure or
  resets the count. The clock is read for the row and, at a quarantine, once more.
\<close>

definition record_event :: "time \<Rightarrow> time \<Rightarrow> dict \<Rightarrow> store \<Rightarrow> store" where
  "record_event now now2 event s =
     (let r = event_row_of (t_event_seq s + 1) now event;
          s1 = s\<lparr>t_events := t_events s @ [r], t_event_seq := t_event_seq s + 1\<rparr>
      in if ev_type r \<noteq> EVENT_RUN then s1
         else
           let s2 = (case (ev_issue r, ev_repo r) of
                       (Some issue, Some repo) \<Rightarrow>
                         if ev_phase r = Some ''claimed''
                         then s1\<lparr>t_grants := delete_where (\<lambda>g. grant_key g = (repo, issue)) (t_grants s1)\<rparr>
                         else s1
                     | _ \<Rightarrow> s1);
               s3 = (case ev_node r of
                       None \<Rightarrow> s2
                     | Some node \<Rightarrow>
                         if ev_phase r = Some ''failed''
                         then bump_failures now2 node (ev_issue r) (ev_run_id r) s2 else s2)
           in case ev_node r of
                None \<Rightarrow> s3
              | Some node \<Rightarrow>
                  if ev_phase r = Some ''pr-open''
                  then s3\<lparr>t_node_health := update_where (\<lambda>h. nh_node h = node)
                            (\<lambda>h. h\<lparr>nh_consecutive_failures := 0\<rparr>) (t_node_health s3)\<rparr>
                  else s3)"

subsection \<open>Reads over the log\<close>

definition sql_limit :: "int \<Rightarrow> 'a list \<Rightarrow> 'a list" where
  "sql_limit n xs = (if n < 0 then xs else take (nat n) xs)"

text \<open>\<open>{**a, **b}\<close>: the later value of a key wins.\<close>

definition dict_merge :: "dict \<Rightarrow> dict \<Rightarrow> dict" where
  "dict_merge a b = fold (\<lambda>(k, v) d. dput k v d) b a"

definition events :: "string option \<Rightarrow> int option \<Rightarrow> store \<Rightarrow> dict list" where
  "events type issue s =
     map (\<lambda>e. dict_merge [(''type'', JStr (ev_type e)), (''received_at'', JInt (ev_received_at e))]
                 (ev_payload e))
       (sort_key ev_id (filter (\<lambda>e. (case type of None \<Rightarrow> True | Some t \<Rightarrow> ev_type e = t)
          \<and> (case issue of None \<Rightarrow> True | Some i \<Rightarrow> ev_issue e = Some i)) (t_events s)))"

definition newest_events :: "event_row list \<Rightarrow> event_row list" where
  "newest_events es = rev (sort_key ev_id es)"

definition recent_events :: "int \<Rightarrow> store \<Rightarrow> (int \<times> string \<times> time \<times> dict) list" where
  "recent_events limit s =
     map (\<lambda>e. (ev_id e, ev_type e, ev_received_at e, ev_payload e))
       (sql_limit limit (newest_events (t_events s)))"

definition error_events ::
  "string option \<Rightarrow> string option \<Rightarrow> int \<Rightarrow> store \<Rightarrow> (int \<times> time \<times> string \<times> string \<times> dict) list" where
  "error_events node component limit s =
     map (\<lambda>e. (ev_id e, ev_received_at e, opt_str (ev_node e), opt_str (ev_component e), ev_payload e))
       (sql_limit limit (newest_events (filter (\<lambda>e. ev_type e = EVENT_ERROR
          \<and> (opt_str node \<noteq> [] \<longrightarrow> ev_node e = node)
          \<and> (opt_str component \<noteq> [] \<longrightarrow> ev_component e = component)) (t_events s))))"

definition somes :: "'a option list \<Rightarrow> 'a list" where
  "somes xs = concat (map (\<lambda>x. case x of None \<Rightarrow> [] | Some y \<Rightarrow> [y]) xs)"

definition error_filters :: "store \<Rightarrow> string list \<times> string list" where
  "error_filters s =
     (let es = filter (\<lambda>e. ev_type e = EVENT_ERROR) (t_events s) in
      (sort (remdups (somes (map ev_node es))), sort (remdups (somes (map ev_component es)))))"

subsection \<open>Live claims\<close>

record live_claim =
  lc_repo :: repo
  lc_issue :: int
  lc_driver :: string
  lc_node :: string
  lc_run_id :: string
  lc_last_event_at :: time

definition claim_key :: "event_row \<Rightarrow> repo option \<times> int option" where
  "claim_key e = (ev_repo e, ev_issue e)"

definition issue_run :: "event_row \<Rightarrow> bool" where
  "issue_run e \<longleftrightarrow> ev_type e = EVENT_RUN \<and> ev_issue e \<noteq> None"

text \<open>The join with \<open>MAX (id) .. GROUP BY repo, issue\<close>, in rowid order.\<close>

definition latest_runs :: "event_row list \<Rightarrow> event_row list" where
  "latest_runs es = filter (\<lambda>e. issue_run e \<and>
     \<not> list_ex (\<lambda>e'. issue_run e' \<and> claim_key e' = claim_key e \<and> ev_id e < ev_id e') es) es"

definition is_live :: "event_row \<Rightarrow> bool" where
  "is_live e \<longleftrightarrow> (case ev_phase e of None \<Rightarrow> False | Some p \<Rightarrow> p \<in> set LIVE_RUN_PHASES)
     \<and> opt_str (ev_repo e) \<noteq> []"

definition claim_of :: "event_row \<Rightarrow> live_claim" where
  "claim_of e = \<lparr>lc_repo = opt_str (ev_repo e),
     lc_issue = (case ev_issue e of None \<Rightarrow> 0 | Some i \<Rightarrow> i),
     lc_driver = opt_str (ev_driver e), lc_node = opt_str (ev_node e),
     lc_run_id = opt_str (ev_run_id e), lc_last_event_at = ev_received_at e\<rparr>"

definition live_claims :: "store \<Rightarrow> live_claim list" where
  "live_claims s = map claim_of (filter is_live (latest_runs (t_events s)))"

record run_state =
  rs_repo :: "repo option"
  rs_issue :: "int option"
  rs_driver :: string
  rs_node :: string
  rs_run_id :: string
  rs_attempt :: "int option"
  rs_phase :: string
  rs_pr :: "int option"
  rs_last_event_at :: time
  rs_progress :: "dict option"

text \<open>The latest progress payload of a run id, and the Runs view joined with it.\<close>

definition latest_progress :: "event_row list \<Rightarrow> string \<Rightarrow> dict option" where
  "latest_progress es run_id =
     map_option ev_payload (find (\<lambda>e. ev_type e = EVENT_PROGRESS \<and> ev_run_id e = Some run_id)
       (newest_events es))"

definition run_states :: "store \<Rightarrow> run_state list" where
  "run_states s =
     map (\<lambda>e. \<lparr>rs_repo = ev_repo e, rs_issue = ev_issue e, rs_driver = opt_str (ev_driver e),
            rs_node = opt_str (ev_node e), rs_run_id = opt_str (ev_run_id e),
            rs_attempt = ev_attempt e, rs_phase = opt_str (ev_phase e), rs_pr = ev_pr e,
            rs_last_event_at = ev_received_at e,
            rs_progress = latest_progress (t_events s) (opt_str (ev_run_id e))\<rparr>)
       (sort_key (\<lambda>e. case ev_issue e of None \<Rightarrow> 0 | Some i \<Rightarrow> i) (latest_runs (t_events s)))"

definition driver_last_seen :: "string \<Rightarrow> store \<Rightarrow> time option" where
  "driver_last_seen driver s =
     (case map ev_received_at (filter (\<lambda>e. ev_driver e = Some driver) (t_events s)) of
        [] \<Rightarrow> None
      | t # ts \<Rightarrow> Some (fold max ts t))"

subsection \<open>Unbound obligations\<close>

record obligation =
  ob_kind :: string
  ob_repo :: repo
  ob_ref :: string
  ob_reason :: string
  ob_since :: time

definition issue_ref :: "repo \<Rightarrow> int \<Rightarrow> string" where
  "issue_ref repo n = repo @ ''#'' @ show_int n"

definition unbound_obligations :: "repo set \<Rightarrow> store \<Rightarrow> obligation list" where
  "unbound_obligations bound s =
     (let rows =
        map (\<lambda>g. \<lparr>ob_kind = ''grant'', ob_repo = gr_repo g,
               ob_ref = issue_ref (gr_repo g) (gr_issue g),
               ob_reason = ''pending grant to '' @ str_or (gr_worker g) ''a worker'' @ '' awaiting activation'',
               ob_since = gr_granted_at g\<rparr>) (grants s)
        @ map (\<lambda>c. \<lparr>ob_kind = ''claim'', ob_repo = lc_repo c,
               ob_ref = issue_ref (lc_repo c) (lc_issue c),
               ob_reason = ''live claim (run '' @ str_or (lc_run_id c) ''unknown'' @ '')'',
               ob_since = lc_last_event_at c\<rparr>) (live_claims s)
        @ map (\<lambda>z. \<lparr>ob_kind = ''zombie'', ob_repo = zf_repo z,
               ob_ref = issue_ref (zf_repo z) (zf_issue z),
               ob_reason = ''zombie flag (run '' @ str_or (zf_run_id z) ''unknown'' @ '')'',
               ob_since = zf_flagged_at z\<rparr>) (zombie_flags None s)
        @ map (\<lambda>w. \<lparr>ob_kind = ''wait'', ob_repo = dw_repo w,
               ob_ref = issue_ref (dw_repo w) (dw_issue w), ob_reason = dw_reason w,
               ob_since = dw_last_seen w\<rparr>) (dispatch_waits None s)
        @ map (\<lambda>m. \<lparr>ob_kind = ''malformed'', ob_repo = mf_repo m,
               ob_ref = issue_ref (mf_repo m) (mf_issue m), ob_reason = mf_detail m,
               ob_since = mf_last_seen m\<rparr>) (malformed_states None s)
        @ map (\<lambda>c. \<lparr>ob_kind = ''chained'', ob_repo = cd_repo c,
               ob_ref = cd_repo c @ '' PR #'' @ show_int (cd_dependent_pr c),
               ob_reason = ''chained dependent of #'' @ show_int (cd_blocker_issue c)
                 @ '' ('' @ cd_blocker_state c @ '')'',
               ob_since = cd_last_seen c\<rparr>) (chained_dependents None s)
        @ map (\<lambda>p. \<lparr>ob_kind = ''pause'', ob_repo = dp_repo p, ob_ref = dp_repo p,
               ob_reason = dp_reason p, ob_since = dp_last_seen p\<rparr>) (dispatch_pauses s)
      in sort_key (\<lambda>ob. (ob_repo ob, ob_kind ob, ob_ref ob))
           (filter (\<lambda>ob. ob_repo ob \<notin> bound) rows))"

subsection \<open>Eviction\<close>

definition payload_size :: "event_row \<Rightarrow> int" where
  "payload_size e = int (length (json_dumps (JObj (ev_payload e))))"

definition evictable :: "event_row \<Rightarrow> bool" where
  "evictable e \<longleftrightarrow> ev_type e = EVENT_PROGRESS \<or> ev_type e = EVENT_ERROR"

text \<open>The loop of \<open>evict_progress\<close>: oldest first, until the excess is gone.\<close>

fun doomed_rows :: "int \<Rightarrow> event_row list \<Rightarrow> event_row list" where
  "doomed_rows excess [] = []"
| "doomed_rows excess (e # es) =
     e # (if excess - payload_size e \<le> 0 then [] else doomed_rows (excess - payload_size e) es)"

record scope_acc =
  sa_count :: int
  sa_min_id :: int
  sa_max_id :: int
  sa_max_received :: time
  sa_samples :: "(int \<times> time) list"

type_synonym scope_key = "string \<times> string \<times> string"

definition scope_key_of :: "event_row \<Rightarrow> scope_key" where
  "scope_key_of e = (ev_type e, opt_str (ev_node e), opt_str (ev_component e))"

definition fresh_scope :: "int \<Rightarrow> scope_acc" where
  "fresh_scope i = \<lparr>sa_count = 0, sa_min_id = i, sa_max_id = 0, sa_max_received = 0, sa_samples = []\<rparr>"

definition bump_scope :: "event_row \<Rightarrow> scope_acc \<Rightarrow> scope_acc" where
  "bump_scope e a =
     \<lparr>sa_count = sa_count a + 1, sa_min_id = min (sa_min_id a) (ev_id e),
      sa_max_id = max (sa_max_id a) (ev_id e),
      sa_max_received = max (sa_max_received a) (ev_received_at e),
      sa_samples = sa_samples a @ [(ev_id e, ev_received_at e)]\<rparr>"

text \<open>\<open>scopes.setdefault (key, ..)\<close> followed by the updates: a dict in insertion order.\<close>

fun add_to_scope :: "event_row \<Rightarrow> (scope_key \<times> scope_acc) list \<Rightarrow> (scope_key \<times> scope_acc) list" where
  "add_to_scope e [] = [(scope_key_of e, bump_scope e (fresh_scope (ev_id e)))]"
| "add_to_scope e ((k, a) # scopes) =
     (if k = scope_key_of e then (k, bump_scope e a) # scopes
      else (k, a) # add_to_scope e scopes)"

definition scopes_of :: "event_row list \<Rightarrow> (scope_key \<times> scope_acc) list" where
  "scopes_of es = fold add_to_scope es []"

definition row_key :: "scope_row \<Rightarrow> scope_key" where
  "row_key r = (es_type r, es_node r, es_component r)"

definition wildcard_key :: scope_key where
  "wildcard_key = (EVICTION_WILDCARD, EVICTION_WILDCARD, EVICTION_WILDCARD)"

text \<open>Every earlier scope absorbed into the sentinel, last in the dict unless already there.\<close>

fun merge_wildcard ::
  "scope_acc \<Rightarrow> (scope_key \<times> scope_acc) list \<Rightarrow> (scope_key \<times> scope_acc) list" where
  "merge_wildcard w [] = [(wildcard_key, w)]"
| "merge_wildcard w ((k, a) # scopes) =
     (if k = wildcard_key
      then (k, a\<lparr>sa_count := sa_count a + sa_count w, sa_min_id := min (sa_min_id a) (sa_min_id w),
                 sa_max_id := max (sa_max_id a) (sa_max_id w),
                 sa_max_received := max (sa_max_received a) (sa_max_received w)\<rparr>) # scopes
      else (k, a) # merge_wildcard w scopes)"

definition absorbed :: "scope_row list \<Rightarrow> scope_acc" where
  "absorbed rows =
     \<lparr>sa_count = sum_list (map es_evicted_count rows),
      sa_min_id = Min (set (map es_first_evicted_id rows)),
      sa_max_id = max 0 (Max (set (map es_last_evicted_id rows))),
      sa_max_received = max 0 (Max (set (map es_last_evicted_received_at rows))),
      sa_samples = []\<rparr>"

definition fold_scope :: "scope_acc \<Rightarrow> scope_acc \<Rightarrow> scope_acc" where
  "fold_scope a f =
     \<lparr>sa_count = sa_count f + sa_count a,
      sa_min_id = (if sa_min_id f = 0 then sa_min_id a else min (sa_min_id f) (sa_min_id a)),
      sa_max_id = max (sa_max_id f) (sa_max_id a),
      sa_max_received = max (sa_max_received f) (sa_max_received a),
      sa_samples = []\<rparr>"

definition merged_scope :: "time \<Rightarrow> scope_row option \<Rightarrow> scope_key \<Rightarrow> scope_acc \<Rightarrow> scope_row" where
  "merged_scope now prior k a =
     (let first = (case prior of None \<Rightarrow> sa_min_id a
                   | Some p \<Rightarrow> if es_first_evicted_id p = 0 \<or> sa_min_id a = 0 then 0
                              else min (es_first_evicted_id p) (sa_min_id a));
          last = (case prior of None \<Rightarrow> sa_max_id a | Some p \<Rightarrow> max (es_last_evicted_id p) (sa_max_id a));
          n = (case prior of None \<Rightarrow> sa_count a | Some p \<Rightarrow> es_evicted_count p + sa_count a);
          recv = (case prior of None \<Rightarrow> sa_max_received a
                  | Some p \<Rightarrow> max (es_last_evicted_received_at p) (sa_max_received a));
          samples0 = (case prior of None \<Rightarrow> sa_samples a
                  | Some p \<Rightarrow> if es_samples_complete p then es_samples p @ sa_samples a else []);
          complete0 = (case prior of None \<Rightarrow> True | Some p \<Rightarrow> es_samples_complete p);
          overflow = (k = wildcard_key \<or> length samples0 > EVICTION_SAMPLE_CAP)
      in \<lparr>es_type = fst k, es_node = fst (snd k), es_component = snd (snd k),
          es_first_evicted_id = first, es_last_evicted_id = last, es_evicted_count = n,
          es_evicted_at = now, es_last_evicted_received_at = recv,
          es_samples = (if overflow then [] else samples0),
          es_samples_complete = (\<not> overflow \<and> complete0)\<rparr>)"

definition record_eviction_scopes ::
  "time \<Rightarrow> (scope_key \<times> scope_acc) list \<Rightarrow> scope_row list \<Rightarrow> scope_row list" where
  "record_eviction_scopes now scopes rows =
     (let prior_keys = remdups (map row_key rows);
          collapse = (wildcard_key \<in> set prior_keys
             \<or> length (remdups (prior_keys @ map fst scopes)) > EVICTION_SCOPE_CAP);
          absorb = (collapse \<and> set prior_keys \<noteq> {wildcard_key});
          scopes1 = (if absorb \<and> rows \<noteq> [] then merge_wildcard (absorbed rows) scopes else scopes);
          rows1 = (if absorb then [] else rows);
          scopes2 = (if collapse
             then [(wildcard_key, fold (\<lambda>(k, a). fold_scope a) scopes1 (fresh_scope 0))] else scopes1)
      in fold (\<lambda>(k, a) t. insert_or_replace row_key
                 (merged_scope now (row_of row_key k rows1) k a) t) scopes2 rows1)"

definition evict_progress :: "time \<Rightarrow> int \<Rightarrow> store \<Rightarrow> int \<times> store" where
  "evict_progress now budget_bytes s =
     (let candidates = sort_key ev_id (filter evictable (t_events s));
          excess = sum_list (map payload_size candidates) - budget_bytes
      in if excess \<le> 0 then (0, s)
         else let doomed = doomed_rows excess candidates in
           (int (length doomed),
            s\<lparr>t_events := delete_where (\<lambda>e. ev_id e \<in> set (map ev_id doomed)) (t_events s),
              t_eviction_scopes :=
                record_eviction_scopes now (scopes_of doomed) (t_eviction_scopes s)\<rparr>))"

subsection \<open>Eviction evidence and pages\<close>

definition eviction_mark :: "store \<Rightarrow> eviction_row option" where
  "eviction_mark s = t_event_evictions s"

definition matches_opt :: "'a option \<Rightarrow> 'a \<Rightarrow> bool" where
  "matches_opt q v \<longleftrightarrow> (case q of None \<Rightarrow> True | Some x \<Rightarrow> v = x)"

text \<open>The loop body of \<open>eviction_evidence\<close>: does this scope row reach \<open>incomplete = True\<close>?\<close>

definition scope_may_match ::
  "string option \<Rightarrow> string option \<Rightarrow> string option \<Rightarrow> time option \<Rightarrow> int option \<Rightarrow> scope_row \<Rightarrow> bool" where
  "scope_may_match type node component since before_id r \<longleftrightarrow>
     (es_type r \<noteq> EVICTION_WILDCARD \<longrightarrow>
        matches_opt type (es_type r) \<and> matches_opt node (es_node r)
        \<and> matches_opt component (es_component r)) \<and>
     (if es_samples_complete r
      then list_ex (\<lambda>(evicted_id, received).
             (case since of None \<Rightarrow> True | Some t \<Rightarrow> t \<le> received)
             \<and> (case before_id of None \<Rightarrow> True | Some b \<Rightarrow> evicted_id < b)) (es_samples r)
      else (case since of None \<Rightarrow> True | Some t \<Rightarrow> t \<le> es_last_evicted_received_at r)
           \<and> (case before_id of None \<Rightarrow> True
              | Some b \<Rightarrow> \<not> (0 < es_first_evicted_id r \<and> b \<le> es_first_evicted_id r)))"

definition eviction_evidence ::
  "string option \<Rightarrow> string option \<Rightarrow> string option \<Rightarrow> time option \<Rightarrow> int option \<Rightarrow> store \<Rightarrow>
   bool \<times> bool" where
  "eviction_evidence type node component since before_id s =
     (let legacy_incomplete = (case eviction_mark s of
            None \<Rightarrow> False
          | Some l \<Rightarrow> since = None \<or> el_last_evicted_received_at l = 0
              \<or> (case since of None \<Rightarrow> False | Some t \<Rightarrow> t \<le> el_last_evicted_received_at l))
      in (eviction_mark s \<noteq> None \<or> t_eviction_scopes s \<noteq> [],
          legacy_incomplete
          \<or> list_ex (scope_may_match type node component since before_id) (t_eviction_scopes s)))"

definition page_match ::
  "string option \<Rightarrow> string option \<Rightarrow> string option \<Rightarrow> time option \<Rightarrow> int option \<Rightarrow> event_row \<Rightarrow> bool" where
  "page_match type node component since before_id e \<longleftrightarrow>
     matches_opt type (ev_type e)
     \<and> (case node of None \<Rightarrow> True | Some n \<Rightarrow> ev_node e = Some n)
     \<and> (case component of None \<Rightarrow> True | Some c \<Rightarrow> ev_component e = Some c)
     \<and> (case since of None \<Rightarrow> True | Some t \<Rightarrow> t \<le> ev_received_at e)
     \<and> (case before_id of None \<Rightarrow> True | Some b \<Rightarrow> ev_id e < b)"

record events_page =
  pg_events :: "event_row list"
  pg_next_cursor :: "string option"
  pg_evicted :: bool
  pg_any_evicted :: bool

text \<open>With \<open>limit = 0\<close> the cursor expression reads \<open>rows[-1]\<close> of an empty page and raises.\<close>

definition events_page ::
  "string option \<Rightarrow> string option \<Rightarrow> string option \<Rightarrow> time option \<Rightarrow> int option \<Rightarrow> int \<Rightarrow> store \<Rightarrow>
   store_error + events_page" where
  "events_page node component type since before_id limit s =
     (let rows = sql_limit limit (newest_events
            (filter (page_match type node component since before_id) (t_events s)));
          ev = eviction_evidence type node component since before_id s
      in if int (length rows) = limit \<and> rows = [] then Inl IndexError
         else Inr \<lparr>pg_events = rows,
                pg_next_cursor = (if int (length rows) = limit
                   then Some (show_int (ev_id (last rows))) else None),
                pg_evicted = snd ev, pg_any_evicted = fst ev\<rparr>)"

end
