(* ===== verification/Store_Access.thy ===== *)
theory Store_Access
  imports Store_Nodes
begin

text \<open>
  Infrastructure commands, browser sessions, join tokens and unregistered-node sightings of the
  cache database. Random ids are arguments (the code draws them from \<open>secrets\<close>), and so is the
  digest function \<open>hashlib.sha256(..).hexdigest\<close>.
\<close>

subsection \<open>Commands\<close>

definition queue_command ::
  "time \<Rightarrow> string \<Rightarrow> string \<Rightarrow> string option \<Rightarrow> bool \<Rightarrow> store \<Rightarrow> int \<times> store" where
  "queue_command now node verb target force s =
     (let s' = insert_command now node verb target force s in (t_command_seq s', s'))"

definition open_for :: "string \<Rightarrow> command_row \<Rightarrow> bool" where
  "open_for node c \<longleftrightarrow> cm_node c = node \<and> cm_completed_at c = None"

definition pending_commands ::
  "time \<Rightarrow> string \<Rightarrow> store \<Rightarrow> (int \<times> string \<times> string option \<times> bool) list \<times> store" where
  "pending_commands now node s =
     (map (\<lambda>c. (cm_id c, cm_verb c, cm_target c, cm_force c))
        (sort_key cm_id (filter (open_for node) (t_commands s))),
      s\<lparr>t_commands := update_where (\<lambda>c. open_for node c \<and> cm_delivered_at c = None)
          (\<lambda>c. c\<lparr>cm_delivered_at := Some now\<rparr>) (t_commands s)\<rparr>)"

text \<open>The clock is read once per acknowledged id.\<close>

definition complete_commands :: "string \<Rightarrow> (time \<times> int) list \<Rightarrow> store \<Rightarrow> store" where
  "complete_commands node ids s =
     s\<lparr>t_commands := fold (\<lambda>(now, i). update_where (\<lambda>c. cm_id c = i \<and> cm_node c = node)
          (\<lambda>c. c\<lparr>cm_completed_at := Some now, cm_deferred_reason := None\<rparr>)) ids (t_commands s)\<rparr>"

fun int_of_json :: "json \<Rightarrow> int option" where
  "int_of_json (JInt i) = Some i"
| "int_of_json (JBool b) = Some (if b then 1 else 0)"
| "int_of_json _ = None"

definition deferral_reasons :: "json list \<Rightarrow> (int \<times> string) list" where
  "deferral_reasons ds = concat (map (\<lambda>j. case j of
       JObj d \<Rightarrow> (case int_of_json (dget d ''id'') of
                   None \<Rightarrow> [] | Some i \<Rightarrow> [(i, field_text d ''reason'')])
     | _ \<Rightarrow> []) ds)"

text \<open>A later deferral of the same id overrides, as in the dict comprehension.\<close>

definition record_deferrals :: "string \<Rightarrow> json list \<Rightarrow> store \<Rightarrow> store" where
  "record_deferrals node deferrals s =
     s\<lparr>t_commands := update_where (open_for node)
         (\<lambda>c. c\<lparr>cm_deferred_reason := map_of (rev (deferral_reasons deferrals)) (cm_id c)\<rparr>)
         (t_commands s)\<rparr>"

definition pending_lifecycle_commands :: "string \<Rightarrow> store \<Rightarrow> string list" where
  "pending_lifecycle_commands node s =
     sort (remdups (map cm_verb
       (filter (\<lambda>c. open_for node c \<and> cm_verb c \<in> set LIFECYCLE_VERBS) (t_commands s))))"

subsection \<open>Browser sessions\<close>

definition create_session ::
  "(string \<Rightarrow> string) \<Rightarrow> time \<Rightarrow> string \<Rightarrow> time \<Rightarrow> store \<Rightarrow> store_error + store" where
  "create_session digest now raw ttl_seconds s =
     (if has_key ss_id_hash (digest raw) (t_sessions s) then Inl IntegrityError
      else Inr (s\<lparr>t_sessions := t_sessions s @
             [\<lparr>ss_id_hash = digest raw, ss_created_at = now, ss_expires_at = now + ttl_seconds\<rparr>]\<rparr>))"

definition session_active ::
  "(string \<Rightarrow> string) \<Rightarrow> time \<Rightarrow> string \<Rightarrow> store \<Rightarrow> bool \<times> store" where
  "session_active digest now raw s =
     (if raw = [] then (False, s)
      else case row_of ss_id_hash (digest raw) (t_sessions s) of
             None \<Rightarrow> (False, s)
           | Some row \<Rightarrow>
               if ss_expires_at row \<le> now
               then (False, s\<lparr>t_sessions :=
                       delete_where (\<lambda>r. ss_id_hash r = digest raw) (t_sessions s)\<rparr>)
               else (True, s))"

definition delete_session :: "(string \<Rightarrow> string) \<Rightarrow> string \<Rightarrow> store \<Rightarrow> store" where
  "delete_session digest raw s =
     s\<lparr>t_sessions := delete_where (\<lambda>r. ss_id_hash r = digest raw) (t_sessions s)\<rparr>"

definition truncate_sessions :: "store \<Rightarrow> store" where
  "truncate_sessions s = s\<lparr>t_sessions := []\<rparr>"

subsection \<open>Join tokens\<close>

definition create_join_token ::
  "(string \<Rightarrow> string) \<Rightarrow> time \<Rightarrow> string \<Rightarrow> string \<Rightarrow> time \<Rightarrow> int \<Rightarrow> store \<Rightarrow> store_error + store" where
  "create_join_token digest now raw token_id ttl_seconds uses s =
     (if has_key jt_id token_id (t_join_tokens s)
         \<or> has_key jt_token_hash (digest raw) (t_join_tokens s)
      then Inl IntegrityError
      else Inr (s\<lparr>t_join_tokens := t_join_tokens s @
             [\<lparr>jt_id = token_id, jt_token_hash = digest raw, jt_created_at = now,
               jt_expires_at = now + ttl_seconds, jt_uses_left = max 1 uses\<rparr>]\<rparr>))"

definition redeem_join_token ::
  "(string \<Rightarrow> string) \<Rightarrow> time \<Rightarrow> string \<Rightarrow> store \<Rightarrow> bool \<times> store" where
  "redeem_join_token digest now raw s =
     (case row_of jt_token_hash (digest raw) (t_join_tokens s) of
        None \<Rightarrow> (False, s)
      | Some row \<Rightarrow>
          let gone = s\<lparr>t_join_tokens := delete_where (\<lambda>r. jt_id r = jt_id row) (t_join_tokens s)\<rparr> in
          if jt_expires_at row \<le> now \<or> jt_uses_left row \<le> 0 then (False, gone)
          else if jt_uses_left row = 1 then (True, gone)
          else (True, s\<lparr>t_join_tokens := update_where (\<lambda>r. jt_id r = jt_id row)
                 (\<lambda>r. r\<lparr>jt_uses_left := jt_uses_left r - 1\<rparr>) (t_join_tokens s)\<rparr>))"

definition revoke_join_token :: "string \<Rightarrow> store \<Rightarrow> bool \<times> store" where
  "revoke_join_token token_id s =
     (has_key jt_id token_id (t_join_tokens s),
      s\<lparr>t_join_tokens := delete_where (\<lambda>r. jt_id r = token_id) (t_join_tokens s)\<rparr>)"

definition join_tokens :: "time \<Rightarrow> store \<Rightarrow> (string \<times> time \<times> time \<times> int) list \<times> store" where
  "join_tokens now s =
     (let kept = delete_where (\<lambda>r. jt_expires_at r \<le> now) (t_join_tokens s) in
      (map (\<lambda>r. (jt_id r, jt_created_at r, jt_expires_at r, jt_uses_left r))
         (sort_key jt_created_at kept), s\<lparr>t_join_tokens := kept\<rparr>))"

subsection \<open>Unregistered-node sightings\<close>

definition unregistered_key :: "unregistered_row \<Rightarrow> string \<times> string" where
  "unregistered_key r = (ur_name r, ur_source r)"

text \<open>Newest first; rows seen at the same time keep their rowid order.\<close>

definition newest_first :: "unregistered_row list \<Rightarrow> unregistered_row list" where
  "newest_first rows = sort_key (\<lambda>r. - ur_last_seen r) rows"

definition record_unregistered :: "time \<Rightarrow> string \<Rightarrow> string \<Rightarrow> store \<Rightarrow> store" where
  "record_unregistered now name0 source0 s =
     (let name = take_points 64 (str_or name0 ''(unnamed)'');
          src = take_points 64 (str_or source0 ''?'');
          rows = upsert unregistered_key
            \<lparr>ur_name = name, ur_source = src, ur_first_seen = now, ur_last_seen = now, ur_beats = 1\<rparr>
            (\<lambda>r. r\<lparr>ur_last_seen := now, ur_beats := ur_beats r + 1\<rparr>) (t_unregistered s);
          doomed = drop UNREGISTERED_CAP (newest_first rows)
      in s\<lparr>t_unregistered := fold (\<lambda>d. delete_where (\<lambda>r. unregistered_key r = unregistered_key d))
             doomed rows\<rparr>)"

definition clear_unregistered :: "string \<Rightarrow> store \<Rightarrow> store" where
  "clear_unregistered name s =
     s\<lparr>t_unregistered := delete_where (\<lambda>r. ur_name r = name) (t_unregistered s)\<rparr>"

definition unregistered_nodes :: "store \<Rightarrow> unregistered_row list" where
  "unregistered_nodes s = newest_first (t_unregistered s)"

end
