(* ===== verification/Json_Parse.thy ===== *)
theory Json_Parse
  imports Json
begin

text \<open>
  \<open>json.loads\<close> as the sources use it: a recursive-descent reader of JSON text, \<open>None\<close> where Python
  raises \<open>JSONDecodeError\<close>. The fuel bounds the nesting of calls and twice the length of the text
  is enough, since two successive calls consume a character. A number with a fraction or exponent
  keeps its text and its truncation; \<open>\u\<close> escapes become UTF-8.
\<close>

definition dquote :: char where "dquote = char_of (34 :: nat)"
definition backslash :: char where "backslash = char_of (92 :: nat)"

definition json_space :: "char \<Rightarrow> bool" where
  "json_space c \<longleftrightarrow> (of_char c :: nat) \<in> {9, 10, 13, 32}"

definition skip_ws :: "string \<Rightarrow> string" where
  "skip_ws s = dropWhile json_space s"

subsection \<open>Strings\<close>

definition unescape :: "char \<Rightarrow> char option" where
  "unescape e =
     (let n = (of_char e :: nat) in
      if n = 34 \<or> n = 92 \<or> n = 47 then Some e
      else if n = 98 then Some (char_of (8 :: nat)) else if n = 102 then Some (char_of (12 :: nat))
      else if n = 110 then Some (char_of (10 :: nat)) else if n = 114 then Some (char_of (13 :: nat))
      else if n = 116 then Some (char_of (9 :: nat)) else None)"

definition hex_value :: "char \<Rightarrow> nat option" where
  "hex_value c =
     (let n = (of_char c :: nat) in
      if 48 \<le> n \<and> n \<le> 57 then Some (n - 48) else if 97 \<le> n \<and> n \<le> 102 then Some (n - 87)
      else if 65 \<le> n \<and> n \<le> 70 then Some (n - 55) else None)"

definition hex4 :: "char \<Rightarrow> char \<Rightarrow> char \<Rightarrow> char \<Rightarrow> nat option" where
  "hex4 a b c d =
     (case (hex_value a, hex_value b, hex_value c, hex_value d) of
        (Some w, Some x, Some y, Some z) \<Rightarrow> Some (((w * 16 + x) * 16 + y) * 16 + z)
      | _ \<Rightarrow> None)"

text \<open>The characters after an opening quote, up to the closing one.\<close>

fun read_chars :: "string \<Rightarrow> (string \<times> string) option" where
  "read_chars [] = None"
| "read_chars (c # cs) =
     (if c = dquote then Some ([], cs)
      else if c = backslash
      then (case cs of
              [] \<Rightarrow> None
            | e # r \<Rightarrow>
                (case unescape e of
                   Some ch \<Rightarrow> map_option (apfst (Cons ch)) (read_chars r)
                 | None \<Rightarrow>
                     if e \<noteq> CHR ''u'' then None
                     else (case r of
                             h1 # h2 # h3 # h4 # r1 \<Rightarrow>
                               (case hex4 h1 h2 h3 h4 of
                                  None \<Rightarrow> None
                                | Some n \<Rightarrow>
                                    (case r1 of
                                       b # u # l1 # l2 # l3 # l4 # r2 \<Rightarrow>
                                         if 55296 \<le> n \<and> n < 56320 \<and> b = backslash \<and> u = CHR ''u''
                                            \<and> (case hex4 l1 l2 l3 l4 of None \<Rightarrow> False
                                               | Some m \<Rightarrow> 56320 \<le> m \<and> m < 57344)
                                         then map_option (apfst (append (utf8 (65536 + (n - 55296) * 1024
                                                + (the (hex4 l1 l2 l3 l4) - 56320))))) (read_chars r2)
                                         else map_option (apfst (append (utf8 n))) (read_chars r1)
                                     | _ \<Rightarrow> map_option (apfst (append (utf8 n))) (read_chars r1)))
                           | _ \<Rightarrow> None)))
      else if (of_char c :: nat) < 32 then None
      else map_option (apfst (Cons c)) (read_chars cs))"

subsection \<open>Numbers\<close>

definition digits :: "string \<Rightarrow> string" where
  "digits s = takeWhile is_digit s"

definition read_fraction :: "string \<Rightarrow> string" where
  "read_fraction s = (case s of
       c # r \<Rightarrow> if c = CHR ''.'' \<and> digits r \<noteq> [] then c # digits r else []
     | [] \<Rightarrow> [])"

definition read_exponent :: "string \<Rightarrow> string" where
  "read_exponent s = (case s of
       c # r \<Rightarrow>
         if c = CHR ''e'' \<or> c = CHR ''E''
         then (case r of
                 g # r' \<Rightarrow> if (g = CHR ''+'' \<or> g = CHR ''-'')
                           then (if digits r' \<noteq> [] then c # g # digits r' else [])
                           else (if digits r \<noteq> [] then c # digits r else [])
               | [] \<Rightarrow> [])
         else []
     | [] \<Rightarrow> [])"

text \<open>The exponent's value, and the truncation of mantissa times its power of ten.\<close>

definition exponent_value :: "string \<Rightarrow> int" where
  "exponent_value s = (case s of
       _ # g # r \<Rightarrow> if g = CHR ''-'' then - int (read_nat r)
                   else if g = CHR ''+'' then int (read_nat r) else int (read_nat (g # r))
     | _ \<Rightarrow> 0)"

definition trunc_decimal :: "string \<Rightarrow> string \<Rightarrow> string \<Rightarrow> nat" where
  "trunc_decimal i f e =
     (let m = read_nat (i @ drop 1 f); x = exponent_value e - int (length (drop 1 f)) in
      if 0 \<le> x then m * 10 ^ nat x else m div 10 ^ nat (- x))"

definition read_number :: "string \<Rightarrow> (json \<times> string) option" where
  "read_number s =
     (let neg = (case s of c # _ \<Rightarrow> c = CHR ''-'' | [] \<Rightarrow> False);
          s1 = (if neg then drop 1 s else s);
          i = (case s1 of c # _ \<Rightarrow> if c = CHR ''0'' then [c] else digits s1 | [] \<Rightarrow> []);
          r1 = drop (length i) s1;
          f = read_fraction r1;
          r2 = drop (length f) r1;
          e = read_exponent r2;
          r3 = drop (length e) r2;
          sign = (\<lambda>n. if neg then - int n else int n)
      in if i = [] then None
         else if f = [] \<and> e = [] then Some (JInt (sign (read_nat i)), r3)
         else Some (JFloat (sign (trunc_decimal i f e)) ((if neg then ''-'' else []) @ i @ f @ e), r3))"

subsection \<open>Values\<close>

definition literals :: "(string \<times> json) list" where
  "literals = [(''null'', JNull), (''true'', JBool True), (''false'', JBool False),
     (''NaN'', JNonfinite ''NaN''), (''Infinity'', JNonfinite ''Infinity''), (''-Infinity'', JNonfinite ''-Infinity'')]"

definition read_literal :: "string \<Rightarrow> (json \<times> string) option" where
  "read_literal s =
     map_option (\<lambda>(t, v). (v, drop (length t) s)) (find (\<lambda>(t, v). startswith s t) literals)"

fun read_value :: "nat \<Rightarrow> string \<Rightarrow> (json \<times> string) option"
  and read_elements :: "nat \<Rightarrow> string \<Rightarrow> (json list \<times> string) option"
  and read_members :: "nat \<Rightarrow> string \<Rightarrow> (dict \<times> string) option" where
  "read_value 0 s = None"
| "read_value (Suc n) s =
     (case s of
        [] \<Rightarrow> None
      | c # r \<Rightarrow>
          if c = dquote then map_option (apfst JStr) (read_chars r)
          else if c = CHR ''{''
          then (case skip_ws r of
                  [] \<Rightarrow> None
                | d # r' \<Rightarrow> if d = CHR ''}'' then Some (JObj [], r')
                           else map_option (apfst (\<lambda>ms. JObj (fold (\<lambda>(k, v). dput k v) ms [])))
                                  (read_members n (d # r')))
          else if c = CHR ''[''
          then (case skip_ws r of
                  [] \<Rightarrow> None
                | d # r' \<Rightarrow> if d = CHR '']'' then Some (JList [], r')
                           else map_option (apfst JList) (read_elements n (d # r')))
          else (case read_literal s of Some p \<Rightarrow> Some p | None \<Rightarrow> read_number s))"
| "read_elements 0 s = None"
| "read_elements (Suc n) s =
     (case read_value n s of
        None \<Rightarrow> None
      | Some (v, r) \<Rightarrow>
          (case skip_ws r of
             [] \<Rightarrow> None
           | c # r' \<Rightarrow>
               if c = CHR '']'' then Some ([v], r')
               else if c = CHR '','' then map_option (apfst (Cons v)) (read_elements n (skip_ws r'))
               else None))"
| "read_members 0 s = None"
| "read_members (Suc n) s =
     (case s of
        [] \<Rightarrow> None
      | q # r \<Rightarrow>
          if q \<noteq> dquote then None
          else (case read_chars r of
                  None \<Rightarrow> None
                | Some (k, r1) \<Rightarrow>
                    (case skip_ws r1 of
                       [] \<Rightarrow> None
                     | c # r2 \<Rightarrow>
                         if c \<noteq> CHR '':'' then None
                         else (case read_value n (skip_ws r2) of
                                 None \<Rightarrow> None
                               | Some (v, r3) \<Rightarrow>
                                   (case skip_ws r3 of
                                      [] \<Rightarrow> None
                                    | d # r4 \<Rightarrow>
                                        if d = CHR ''}'' then Some ([(k, v)], r4)
                                        else if d = CHR '','' then
                                          map_option (apfst (Cons (k, v))) (read_members n (skip_ws r4))
                                        else None)))))"

definition json_loads :: "string \<Rightarrow> json option" where
  "json_loads s =
     (case read_value (2 * length s + 4) (skip_ws s) of
        None \<Rightarrow> None
      | Some (v, r) \<Rightarrow> if skip_ws r = [] then Some v else None)"

subsection \<open>Reading back what is written\<close>

lemma hex_value_digit [simp]: "d < 16 \<Longrightarrow> hex_value (hex_digit d) = Some d"
  by (auto simp: hex_value_def hex_digit_def Let_def of_char_of)

text \<open>What UTF-8 can encode: a code point that is no surrogate.\<close>

definition scalar :: "nat \<Rightarrow> bool" where
  "scalar n \<longleftrightarrow> n < 55296 \<or> (57344 \<le> n \<and> n < 1114112)"

lemma hex4_digits: "n < 65536 \<Longrightarrow>
  hex4 (hex_digit (n div 4096)) (hex_digit (n div 256 mod 16)) (hex_digit (n div 16 mod 16)) (hex_digit (n mod 16)) = Some n"
proof -
  assume n: "n < 65536"
  have "n = ((n div 4096 * 16 + n div 256 mod 16) * 16 + n div 16 mod 16) * 16 + n mod 16"
    using div_mult_mod_eq [of n 16] div_mult_mod_eq [of "n div 16" 16] div_mult_mod_eq [of "n div 256" 16]
    by (simp add: div_mult2_eq [symmetric])
  moreover have "n div 4096 < 16" using n by (simp add: less_mult_imp_div_less)
  ultimately show ?thesis by (simp add: hex4_def)
qed

lemma backslash_not_quote [simp]: "backslash \<noteq> dquote" "dquote \<noteq> backslash"
  by (simp_all add: backslash_def dquote_def)

lemma read_chars_single:
  "c \<noteq> dquote \<Longrightarrow> c \<noteq> backslash \<Longrightarrow> 32 \<le> (of_char c :: nat)
   \<Longrightarrow> read_chars (c # r) = map_option (apfst (Cons c)) (read_chars r)"
  by (subst read_chars.simps(2)) (simp del: read_chars.simps)

lemma read_chars_short:
  "unescape e = Some c \<Longrightarrow> read_chars (backslash # e # r) = map_option (apfst (Cons c)) (read_chars r)"
  by (subst read_chars.simps(2)) (simp del: read_chars.simps)

lemma unescape_u [simp]: "unescape (CHR ''u'') = None"
  by (simp add: unescape_def)

lemma read_chars_u:
  assumes "n < 55296 \<or> (56320 \<le> n \<and> n < 65536)"
  shows "read_chars (u_escape n @ r) = map_option (apfst (append (utf8 n))) (read_chars r)"
proof -
  have h: "hex4 (hex_digit (n div 4096)) (hex_digit (n div 256 mod 16)) (hex_digit (n div 16 mod 16)) (hex_digit (n mod 16)) = Some n"
    using assms by (intro hex4_digits) auto
  have "(55296 \<le> n \<and> n < 56320) = False" using assms by auto
  then have no: "(55296 \<le> n \<and> n < 56320 \<and> P) = False" for P by blast
  show ?thesis unfolding u_escape_def backslash_def [symmetric] append_Cons append_Nil
    by (subst read_chars.simps(2)) (simp add: h no split: list.split del: read_chars.simps)
qed

lemma read_chars_pair:
  assumes "65536 \<le> n" "n < 1114112"
  shows "read_chars (u_escape (55296 + (n - 65536) div 1024) @ u_escape (56320 + (n - 65536) mod 1024) @ r)
    = map_option (apfst (append (utf8 n))) (read_chars r)"
proof -
  let ?h = "55296 + (n - 65536) div 1024" and ?l = "56320 + (n - 65536) mod 1024"
  have hi: "?h < 56320" using assms by (auto simp: less_mult_imp_div_less)
  have lo: "?l < 57344" by simp
  have n: "65536 + (?h - 55296) * 1024 + (?l - 56320) = n" using assms by simp
  have hh: "hex4 (hex_digit (?h div 4096)) (hex_digit (?h div 256 mod 16)) (hex_digit (?h div 16 mod 16)) (hex_digit (?h mod 16)) = Some ?h"
    using hi by (intro hex4_digits) simp
  have hl: "hex4 (hex_digit (?l div 4096)) (hex_digit (?l div 256 mod 16)) (hex_digit (?l div 16 mod 16)) (hex_digit (?l mod 16)) = Some ?l"
    using lo by (intro hex4_digits) simp
  define h l where "h = ?h" and "l = ?l"
  show ?thesis
    using hh hl hi lo n unfolding h_def [symmetric] l_def [symmetric] u_escape_def backslash_def [symmetric] append_Cons append_Nil
    by (subst read_chars.simps(2)) (simp add: h_def l_def del: read_chars.simps)
qed

lemma of_char_small: "n < 256 \<Longrightarrow> (of_char (char_of n :: char) :: nat) = n"
  by (simp add: of_char_of)

lemma utf8_small: "n < 128 \<Longrightarrow> utf8 n = [char_of n]"
  by (simp add: utf8_def)

lemma read_chars_escape_point:
  assumes "scalar n"
  shows "read_chars (escape_point n @ r) = map_option (apfst (append (utf8 n))) (read_chars r)"
proof -
  have plain: "apfst (append (utf8 n)) = apfst (Cons (char_of n))" if "n < 128"
    using that by (simp add: utf8_small fun_eq_iff)
  have short: ?thesis if "unescape e = Some (char_of n)" "escape_point n = [backslash, e]" "n < 128" for e
    using that(2) read_chars_short [OF that(1), of r] unfolding plain [OF that(3)] by simp
  consider "n = 34" | "n = 92" | "n = 10" | "n = 13" | "n = 9" | "n = 8" | "n = 12"
    | "n \<notin> {34, 92, 10, 13, 9, 8, 12}" "32 \<le> n" "n \<le> 126"
    | "n \<notin> {34, 92, 10, 13, 9, 8, 12}" "n < 32 \<or> n > 126" "n < 65536"
    | "n \<ge> 65536" by force
  then show ?thesis
  proof cases
    case 8
    then have "escape_point n = [char_of n]" by (simp add: escape_point_def Let_def)
    moreover have "char_of n \<noteq> dquote" "char_of n \<noteq> backslash"
      using 8 of_char_small [of n] by (auto simp: dquote_def backslash_def dest!: arg_cong [where f = "of_char :: char \<Rightarrow> nat"])
    ultimately show ?thesis using 8 of_char_small [of n] read_chars_single [of "char_of n" r]
      by (subst plain) (simp_all del: read_chars.simps)
  next
    case 9
    then have "escape_point n = u_escape n" by (auto simp: escape_point_def Let_def)
    then show ?thesis using 9 assms read_chars_u [of n r] by (auto simp: scalar_def)
  next
    case 10
    then have "escape_point n = u_escape (55296 + (n - 65536) div 1024) @ u_escape (56320 + (n - 65536) mod 1024)"
      by (simp add: escape_point_def Let_def)
    then show ?thesis using 10 assms read_chars_pair [of n r] by (auto simp: scalar_def)
  qed (rule short; simp add: unescape_def escape_point_def backslash_def)+
qed

text \<open>Well-formed UTF-8: what decodes to code points that encode it.\<close>

definition is_text :: "string \<Rightarrow> bool" where
  "is_text s \<longleftrightarrow> list_all scalar (code_points s) \<and> concat (map utf8 (code_points s)) = s"

lemma read_chars_points:
  "list_all scalar ns \<Longrightarrow> read_chars (concat (map escape_point ns) @ dquote # r) = Some (concat (map utf8 ns), r)"
  by (induction ns) (simp_all add: read_chars_escape_point del: read_chars.simps, simp)

lemma read_chars_dumps:
  "is_text s \<Longrightarrow> read_chars (concat (map escape_point (code_points s)) @ dquote # r) = Some (s, r)"
  using read_chars_points [of "code_points s" r] by (simp add: is_text_def)

lemma code_points_utf8:
  assumes "n < 1114112"
  shows "code_points (utf8 n @ r) = n # code_points r"
proof -
  consider "n < 128" | "128 \<le> n" "n < 2048" | "2048 \<le> n" "n < 65536" | "65536 \<le> n" by linarith
  then show ?thesis
  proof cases
    case 2
    then have "n div 64 < 32" by (simp add: less_mult_imp_div_less)
    then show ?thesis using 2 by (simp add: utf8_def first_point_def of_char_small Let_def)
  next
    case 3
    then have d: "n div 4096 < 16" by (simp add: less_mult_imp_div_less)
    have "(n div 4096 * 64 + n div 64 mod 64) * 64 + n mod 64 = n"
      using div_mult_mod_eq [of n 64] div_mult_mod_eq [of "n div 64" 64] by (simp add: div_mult2_eq [symmetric])
    then show ?thesis using 3 d by (simp add: utf8_def first_point_def of_char_small Let_def)
  next
    case 4
    then have d: "n div 262144 < 8" using assms by (simp add: less_mult_imp_div_less)
    have "((n div 262144 * 64 + n div 4096 mod 64) * 64 + n div 64 mod 64) * 64 + n mod 64 = n"
      using div_mult_mod_eq [of n 64] div_mult_mod_eq [of "n div 64" 64] div_mult_mod_eq [of "n div 4096" 64]
      by (simp add: div_mult2_eq [symmetric])
    then show ?thesis using 4 d by (simp add: utf8_def first_point_def of_char_small Let_def)
  qed (simp add: utf8_def first_point_def of_char_small Let_def)
qed

lemma code_points_concat:
  "list_all scalar ns \<Longrightarrow> code_points (concat (map utf8 ns) @ r) = ns @ code_points r"
  by (induction ns) (auto simp: code_points_utf8 scalar_def)

lemma is_text_iff: "is_text s \<longleftrightarrow> (\<exists>ns. list_all scalar ns \<and> s = concat (map utf8 ns))"
  using code_points_concat [of _ "[]"] by (auto simp: is_text_def)

lemma is_text_append [simp]: "is_text s \<Longrightarrow> is_text t \<Longrightarrow> is_text (s @ t)"
  unfolding is_text_iff by (metis concat_append list_all_append map_append)

definition ascii :: "string \<Rightarrow> bool" where
  "ascii s \<longleftrightarrow> list_all (\<lambda>c. (of_char c :: nat) < 128) s"

lemma code_points_ascii: "ascii s \<Longrightarrow> code_points s = map of_char s"
  by (induction s) (auto simp: ascii_def first_point_def Let_def)

lemma ascii_is_text: "ascii s \<Longrightarrow> is_text s"
proof -
  assume s: "ascii s"
  then have "concat (map utf8 (map of_char s)) = s" by (induction s) (auto simp: ascii_def utf8_small)
  moreover have "list_all scalar (map of_char s)" using s by (auto simp: ascii_def list_all_iff scalar_def)
  ultimately show ?thesis using code_points_ascii [OF s] by (simp add: is_text_def)
qed

lemma show_nat_hd: "n = 0 \<or> hd (show_nat n) \<noteq> CHR ''0''"
proof (induction n rule: show_nat.induct)
  case (1 n)
  show ?case
  proof (cases "n < 10")
    case True
    then have "(of_char (digit_char n) :: nat) = 48 + n" "show_nat n = [digit_char n]" by (simp_all add: show_nat.simps [of n])
    then show ?thesis by fastforce
  next
    case False
    with 1 show ?thesis by (subst show_nat.simps) (simp add: hd_append div_eq_0_iff)
  qed
qed

lemma read_number_show_int:
  assumes "case r of [] \<Rightarrow> True | c # _ \<Rightarrow> \<not> is_digit c \<and> c \<noteq> CHR ''.'' \<and> c \<noteq> CHR ''e'' \<and> c \<noteq> CHR ''E''"
  shows "read_number (show_int i @ r) = Some (JInt i, r)"
proof -
  let ?n = "nat \<bar>i\<bar>"
  have dig: "digits (show_nat n @ r) = show_nat n" for n
  proof -
    have "list_all is_digit (show_nat n)" using isdigit_show_nat isdigit_def by blast
    then show ?thesis using assms by (auto simp: digits_def list_all_iff takeWhile_append split: list.splits)
  qed
  have "show_nat 0 = ''0''" by (subst show_nat.simps) (simp add: digit_char_def char_of_eq_iff)
  then have head: "\<exists>d ds. show_nat n = d # ds \<and> d \<noteq> CHR ''-'' \<and> (if d = CHR ''0'' then [d] else digits (d # ds @ r)) = d # ds" for n
    using show_nat_hd [of n] dig [of n] minus_not_digits [of n] by (cases "show_nat n") auto
  have fr: "read_fraction r = []" "read_exponent r = []"
    using assms by (auto simp: read_fraction_def read_exponent_def split: list.splits)
  obtain d ds where d: "show_nat ?n = d # ds" "d \<noteq> CHR ''-''"
    "(if d = CHR ''0'' then [d] else digits (d # ds @ r)) = d # ds" using head by blast
  have "read_nat (d # ds) = ?n" using d(1) read_show_nat by metis
  then show ?thesis using d fr by (cases "i < 0"; cases "d = CHR ''0''") (simp_all add: read_number_def show_int_def Let_def)
qed

end
