(* ===== verification/Github_Data.thy ===== *)
theory Github_Data
  imports Prelude
begin

text \<open>
  The typed records the client reads GitHub's payloads into (\<open>worker/.../githubapi.py\<close>): an issue or
  a pull request seen through the issues API, a pull request, and the merge settings of a repository.
  Label sets are lists.
\<close>

record issue =
  is_number :: int
  is_title :: string
  is_body :: string
  is_labels :: "string list"
  is_assignees :: "string list"
  is_is_pr :: bool
  is_state :: string
  is_state_reason :: string
  is_repo :: string

record pull_request =
  pr_number :: int
  pr_title :: string
  pr_body :: string
  pr_head_ref :: string
  pr_head_sha :: string
  pr_base_ref :: string
  pr_labels :: "string list"
  pr_state :: string
  pr_merged :: bool
  pr_merge_commit_sha :: string

record merge_settings =
  ms_merge_commit_allowed :: bool
  ms_squash_allowed :: bool
  ms_rebase_allowed :: bool
  ms_delete_branch_on_merge :: bool
  ms_complete :: bool

end
