(* ===== verification/Effects.thy ===== *)
theory Effects
  imports Store_Events Store_Access Json_Parse Github_Data
begin

text \<open>
  How the handlers run: a computation takes the world, the store together with the GitHub client's
  own state and the transcript of HTTP exchanges, and returns an exception or a result with the
  world it leaves, so that the effects made before an exception stay. GitHub is whatever answers
  the transport gives to the exchanges so far, and the clock is an arbitrary sequence of readings.
\<close>

subsection \<open>Exceptions and results\<close>

text \<open>
  \<open>Other_Error\<close> stands for the exceptions the handlers do not name (\<open>KeyError\<close>, \<open>TypeError\<close>,
  \<open>JSONDecodeError\<close>); \<open>Diverges\<close> marks a loop stopped by the fuel of the environment.
\<close>

datatype exn =
    GitHub_Error string "int option"
  | Cycle_Error "int list"
  | Cross_Repo_Error int string
  | Recursion_Error
  | Git_Error string
  | Session_Error string
  | Isolation_Error string
  | Run_Failed string string
  | Other_Error string
  | Diverges

subsection \<open>The world\<close>

record request =
  rq_method :: string
  rq_path :: string
  rq_body :: "json option"

record response =
  rp_status :: int
  rp_headers :: "(string \<times> string) list"
  rp_body :: string

text \<open>
  One git subprocess: its arguments, its directory and whether the credential helper is in its environment; what
  it exits with and prints.
\<close>

record git_call =
  gc_args :: "string list"
  gc_cwd :: string
  gc_auth :: bool

record git_result =
  gr_code :: int
  gr_out :: string
  gr_err :: string

text \<open>
  What happens to a checkout: a git command, a container that has it mounted, a file of its git directory written
  by the driver (\<open>Written workdir relpath text\<close>); \<open>en_touch\<close> says which of those writes raise.
\<close>

datatype checkout_op = Git git_call | Mounted string | Written string string string

record env =
  en_clock :: "nat \<Rightarrow> time"
  en_transport :: "request list \<Rightarrow> request \<Rightarrow> exn + response"
  en_git :: "checkout_op list \<Rightarrow> git_call \<Rightarrow> exn + git_result"
  en_touch :: "checkout_op list \<Rightarrow> string \<Rightarrow> exn option"
  en_emit :: "nat \<Rightarrow> bool"
  en_fuel :: nat
  en_depth :: nat

text \<open>The pass-scoped memo of one granting pass (\<open>_PassReads\<close> and its settings cache).\<close>

record pass_reads =
  ps_blocked :: "int \<rightharpoonup> issue list"
  ps_prs :: "string \<rightharpoonup> pull_request option"
  ps_settings :: "merge_settings option"

definition fresh_reads :: pass_reads where
  "fresh_reads = \<lparr>ps_blocked = Map.empty, ps_prs = Map.empty, ps_settings = None\<rparr>"

text \<open>
  An event a driver emits, with the number of requests sent before it; \<open>en_emit\<close> says which ones land. A push of
  evidence is recorded with the number of requests sent before it, its commit message and its files.
\<close>

record emission =
  em_after :: nat
  em_phase :: string
  em_issue :: int
  em_run :: string
  em_failure :: string

record world =
  wd_store :: store
  wd_ticks :: nat
  wd_requests :: "request list"
  wd_writes :: "(string \<times> string) list"
  wd_sleeps :: "int list"
  wd_branches :: "repo \<rightharpoonup> string"
  wd_logins :: "repo \<rightharpoonup> string"
  wd_pushes :: "(nat \<times> string \<times> (string \<times> string) list) list"
  wd_git :: "checkout_op list"
  wd_emits :: "emission list"
  wd_jobs :: "string \<rightharpoonup> (string \<times> string) list"
  wd_snaps :: "string \<rightharpoonup> (string \<times> string) list"
  wd_parked :: "string \<rightharpoonup> (string \<times> string) list"
  wd_reads :: pass_reads

type_synonym 'a run = "world \<Rightarrow> (exn + 'a) \<times> world"

definition world_of :: "store \<Rightarrow> world" where
  "world_of s = \<lparr>wd_store = s, wd_ticks = 0, wd_requests = [], wd_writes = [], wd_sleeps = [],
     wd_branches = Map.empty, wd_logins = Map.empty, wd_pushes = [], wd_git = [],
     wd_emits = [], wd_jobs = Map.empty, wd_snaps = Map.empty, wd_parked = Map.empty, wd_reads = fresh_reads\<rparr>"

subsection \<open>Sequencing\<close>

definition ret :: "'a \<Rightarrow> 'a run" where
  "ret x w = (Inr x, w)"

definition raise :: "exn \<Rightarrow> 'a run" where
  "raise e w = (Inl e, w)"

definition bindE :: "'a run \<Rightarrow> ('a \<Rightarrow> 'b run) \<Rightarrow> 'b run" where
  "bindE m f w = (case m w of (Inl e, w') \<Rightarrow> (Inl e, w') | (Inr x, w') \<Rightarrow> f x w')"

text \<open>\<open>try\<close>/\<open>except\<close>: the handler sees the exception and the world the body left.\<close>

definition catchE :: "'a run \<Rightarrow> (exn \<Rightarrow> 'a run) \<Rightarrow> 'a run" where
  "catchE m h w = (case m w of (Inl e, w') \<Rightarrow> h e w' | (Inr x, w') \<Rightarrow> (Inr x, w'))"

fun each :: "'a list \<Rightarrow> ('a \<Rightarrow> unit run) \<Rightarrow> unit run" where
  "each [] f = ret ()"
| "each (x # xs) f = bindE (f x) (\<lambda>_. each xs f)"

definition now :: "env \<Rightarrow> time run" where
  "now env w = (Inr (en_clock env (wd_ticks w)), w\<lparr>wd_ticks := wd_ticks w + 1\<rparr>)"

definition reading :: "(store \<Rightarrow> 'a) \<Rightarrow> 'a run" where
  "reading f w = (Inr (f (wd_store w)), w)"

definition changing :: "(store \<Rightarrow> store) \<Rightarrow> unit run" where
  "changing f w = (Inr (), w\<lparr>wd_store := f (wd_store w)\<rparr>)"

text \<open>A store operation that stamps its row: one reading of the clock.\<close>

definition stamping :: "env \<Rightarrow> (time \<Rightarrow> store \<Rightarrow> store) \<Rightarrow> unit run" where
  "stamping env f = bindE (now env) (\<lambda>t. changing (f t))"

text \<open>Kept in the applied form, so that \<open>bindE (ret x)\<close> stays visible to the rules below.\<close>

lemma ret_simps [simp]:
  "ret x w = (r, w') \<longleftrightarrow> r = Inr x \<and> w' = w"
  "(r, w') = ret x w \<longleftrightarrow> r = Inr x \<and> w' = w"
  "fst (ret x w) = Inr x" "snd (ret x w) = w"
  by (auto simp: ret_def)

lemma raise_simps [simp]:
  "raise e w = (r, w') \<longleftrightarrow> r = Inl e \<and> w' = w"
  "(r, w') = raise e w \<longleftrightarrow> r = Inl e \<and> w' = w"
  "fst (raise e w) = Inl e" "snd (raise e w) = w"
  by (auto simp: raise_def)

lemma reading_simps [simp]:
  "reading f w = (r, w') \<longleftrightarrow> r = Inr (f (wd_store w)) \<and> w' = w"
  "fst (reading f w) = Inr (f (wd_store w))" "snd (reading f w) = w"
  by (auto simp: reading_def)

lemma changing_simps [simp]:
  "changing f w = (r, w') \<longleftrightarrow> r = Inr () \<and> w' = w\<lparr>wd_store := f (wd_store w)\<rparr>"
  "fst (changing f w) = Inr ()" "snd (changing f w) = w\<lparr>wd_store := f (wd_store w)\<rparr>"
  by (auto simp: changing_def)

lemma bindE_ret [simp]: "bindE (ret x) f = f x"
  by (rule ext) (simp add: bindE_def ret_def)

lemma bindE_raise [simp]: "bindE (raise e) f = raise e"
  by (rule ext) (simp add: bindE_def raise_def)

lemma bindE_Inr: "m w = (Inr x, w') \<Longrightarrow> bindE m f w = f x w'"
  by (simp add: bindE_def)

lemma bindE_Inl: "m w = (Inl e, w') \<Longrightarrow> bindE m f w = (Inl e, w')"
  by (simp add: bindE_def)

lemma bindE_reading [simp]: "bindE (reading f) g w = g (f (wd_store w)) w"
  by (simp add: bindE_def reading_def)

lemma bindE_changing [simp]: "bindE (changing f) g w = g () (w\<lparr>wd_store := f (wd_store w)\<rparr>)"
  by (simp add: bindE_def changing_def)

definition stamped :: "env \<Rightarrow> (time \<Rightarrow> store \<Rightarrow> store) \<Rightarrow> world \<Rightarrow> world" where
  "stamped env f w = w\<lparr>wd_ticks := wd_ticks w + 1, wd_store := f (en_clock env (wd_ticks w)) (wd_store w)\<rparr>"

lemma stamped_simps [simp]:
  "wd_store (stamped env f w) = f (en_clock env (wd_ticks w)) (wd_store w)"
  "wd_ticks (stamped env f w) = wd_ticks w + 1" "wd_requests (stamped env f w) = wd_requests w"
  "wd_writes (stamped env f w) = wd_writes w" "wd_branches (stamped env f w) = wd_branches w"
  "wd_reads (stamped env f w) = wd_reads w"
  by (simp_all add: stamped_def)

lemma stamping_simps [simp]:
  "stamping env f w = (r, w') \<longleftrightarrow> r = Inr () \<and> w' = stamped env f w"
  "fst (stamping env f w) = Inr ()" "snd (stamping env f w) = stamped env f w"
  by (auto simp: stamping_def bindE_def now_def changing_def stamped_def)

lemma bindE_stamping [simp]:
  "bindE (stamping env f) g w = g () (stamped env f w)"
  by (simp add: bindE_def stamping_def now_def changing_def stamped_def)

lemma bindE_now:
  "bindE (now env) g w = g (en_clock env (wd_ticks w)) (w\<lparr>wd_ticks := wd_ticks w + 1\<rparr>)"
  by (simp add: bindE_def now_def)

lemma wd_store_ticks: "wd_store (w\<lparr>wd_ticks := n\<rparr>) = wd_store w"
  by simp

lemma bindE_assoc: "bindE (bindE m f) g = bindE m (\<lambda>x. bindE (f x) g)"
  by (rule ext) (simp add: bindE_def split: prod.split sum.split)

lemma bindE_cases:
  assumes "bindE m f w = (r, w')"
  obtains (fail) e where "m w = (Inl e, w')" "r = Inl e"
    | (step) x w1 where "m w = (Inr x, w1)" "f x w1 = (r, w')"
  using assms by (auto simp: bindE_def split: prod.splits sum.splits)

lemma catchE_cases:
  assumes "catchE m h w = (r, w')"
  obtains (caught) e w1 where "m w = (Inl e, w1)" "h e w1 = (r, w')"
    | (fine) x where "m w = (Inr x, w')" "r = Inr x"
  using assms by (auto simp: catchE_def split: prod.splits sum.splits)

subsection \<open>Frames\<close>

text \<open>
  A frame is a reflexive and transitive relation between the world before and after; what every
  step keeps, a whole handler keeps, on every path and through every exception.
\<close>

locale frame =
  fixes R :: "world \<Rightarrow> world \<Rightarrow> bool"
  assumes refl: "R w w"
  assumes trans: "R u v \<Longrightarrow> R v w \<Longrightarrow> R u w"
begin

definition kept_by :: "'a run \<Rightarrow> bool" where
  "kept_by m \<longleftrightarrow> (\<forall>w. R w (snd (m w)))"

lemma kept_byI: "(\<And>w. R w (snd (m w))) \<Longrightarrow> kept_by m"
  by (simp add: kept_by_def)

lemma kept_byD: "kept_by m \<Longrightarrow> m w = (r, w') \<Longrightarrow> R w w'"
  by (metis kept_by_def snd_conv)

lemma kept_ret [intro, simp]: "kept_by (ret x)"
  by (simp add: kept_by_def refl)

lemma kept_raise [intro, simp]: "kept_by (raise e)"
  by (simp add: kept_by_def refl)

lemma kept_reading [intro, simp]: "kept_by (reading f)"
  by (simp add: kept_by_def refl)

lemma kept_bind [intro]:
  assumes "kept_by m" "\<And>x. kept_by (f x)"
  shows "kept_by (bindE m f)"
proof (rule kept_byI)
  fix w
  obtain r w' where "bindE m f w = (r, w')" by (rule prod.exhaust)
  then show "R w (snd (bindE m f w))"
  proof (cases rule: bindE_cases)
    case (fail e)
    then show ?thesis using assms(1) kept_byD by (metis bindE_Inl snd_conv)
  next
    case (step x w1)
    then have "R w w1" "R w1 w'" using assms kept_byD by blast+
    then show ?thesis using step trans by (metis bindE_Inr snd_conv)
  qed
qed

lemma kept_catch [intro]:
  assumes "kept_by m" "\<And>e. kept_by (h e)"
  shows "kept_by (catchE m h)"
proof (rule kept_byI)
  fix w
  obtain r w' where c: "catchE m h w = (r, w')" by (rule prod.exhaust)
  then show "R w (snd (catchE m h w))"
  proof (cases rule: catchE_cases)
    case (caught e w1)
    then have "R w w1" "R w1 w'" using assms kept_byD by blast+
    then show ?thesis using c trans by simp
  next
    case (fine x)
    then show ?thesis using c assms(1) kept_byD by simp
  qed
qed

lemma kept_each [intro]:
  assumes "\<And>x. x \<in> set xs \<Longrightarrow> kept_by (f x)"
  shows "kept_by (each xs f)"
  using assms by (induction xs) auto

end

end
