(* ===== verification/Github.thy ===== *)
theory Github
  imports Effects
begin

text \<open>
  The REST client (\<open>worker/.../githubapi.py\<close>): the retry loop over the transport, paging, the
  records its payloads are read into, and the typed operations. A payload whose shape is not
  GitHub's documented one raises \<open>Other_Error\<close>, where Python raises \<open>KeyError\<close> or \<open>TypeError\<close>.
  Label sets are lists.
\<close>

subsection \<open>Requests and retries\<close>

definition MAX_RETRIES :: nat where "MAX_RETRIES = 8"
definition BACKOFF_BASE_SECONDS :: int where "BACKOFF_BASE_SECONDS = 2"
definition BACKOFF_CAP_SECONDS :: int where "BACKOFF_CAP_SECONDS = 120"

definition header :: "response \<Rightarrow> string \<Rightarrow> string option" where
  "header r name = map_of (rp_headers r) (lower name)"

fun contains :: "string \<Rightarrow> string \<Rightarrow> bool" where
  "contains [] p = (p = [])"
| "contains (c # s) p = (startswith (c # s) p \<or> contains s p)"

definition digits_header :: "string option \<Rightarrow> int option" where
  "digits_header h = (case h of None \<Rightarrow> None
     | Some v \<Rightarrow> if isdigit v then Some (int (read_nat v)) else None)"

definition backoff :: "nat \<Rightarrow> int" where
  "backoff attempt = min (BACKOFF_BASE_SECONDS * 2 ^ attempt) BACKOFF_CAP_SECONDS"

definition retry_delay :: "response \<Rightarrow> nat \<Rightarrow> time \<Rightarrow> int option" where
  "retry_delay r attempt t =
     (if 500 \<le> rp_status r then Some (backoff attempt)
      else if rp_status r = 403 \<or> rp_status r = 429
      then (case digits_header (header r ''retry-after'') of
              Some d \<Rightarrow> Some d
            | None \<Rightarrow>
                (case (if header r ''x-ratelimit-remaining'' = Some ''0''
                       then digits_header (header r ''x-ratelimit-reset'') else None) of
                   Some reset \<Rightarrow> Some (max (reset - t) 0 + 1)
                 | None \<Rightarrow> if contains (lower (rp_body r)) ''secondary rate limit''
                           then Some (backoff attempt) else None))
      else None)"

definition exchange :: "env \<Rightarrow> request \<Rightarrow> response run" where
  "exchange env rq w =
     (en_transport env (wd_requests w) rq, w\<lparr>wd_requests := wd_requests w @ [rq]\<rparr>)"

definition sleep :: "int \<Rightarrow> unit run" where
  "sleep d w = (Inr (), w\<lparr>wd_sleeps := wd_sleeps w @ [d]\<rparr>)"

definition note_write :: "request \<Rightarrow> unit run" where
  "note_write rq w =
     (Inr (), if rq_method rq \<noteq> ''GET'' \<and> rq_path rq \<noteq> ''/graphql''
              then w\<lparr>wd_writes := wd_writes w @ [(rq_method rq, rq_path rq)]\<rparr> else w)"

definition request_failed :: "request \<Rightarrow> response \<Rightarrow> exn" where
  "request_failed rq r = GitHub_Error
     (rq_method rq @ '' '' @ rq_path rq @ '' failed: HTTP '' @ show_int (rp_status r) @ '' ''
        @ take_points 300 (rp_body r)) (Some (rp_status r))"

text \<open>The loop of \<open>_request\<close>: \<open>left\<close> retries remain after attempt \<open>attempt\<close>.\<close>

fun attempts :: "env \<Rightarrow> request \<Rightarrow> nat \<Rightarrow> nat \<Rightarrow> response run" where
  "attempts env rq left attempt =
     bindE (exchange env rq) (\<lambda>r.
       if rp_status r < 400 then bindE (note_write rq) (\<lambda>_. ret r)
       else bindE (now env) (\<lambda>t.
         case (retry_delay r attempt t, left) of
           (Some d, Suc left') \<Rightarrow> bindE (sleep d) (\<lambda>_. attempts env rq left' (Suc attempt))
         | _ \<Rightarrow> raise (request_failed rq r)))"

declare attempts.simps [simp del]

definition request_m :: "env \<Rightarrow> string \<Rightarrow> string \<Rightarrow> json option \<Rightarrow> response run" where
  "request_m env meth path body =
     attempts env \<lparr>rq_method = meth, rq_path = path, rq_body = body\<rparr> (MAX_RETRIES - 1) 0"

definition lift :: "exn + 'a \<Rightarrow> 'a run" where
  "lift r w = (r, w)"

definition response_json :: "response \<Rightarrow> exn + json" where
  "response_json r = (if rp_body r = [] then Inr JNull
     else case json_loads (rp_body r) of None \<Rightarrow> Inl (Other_Error ''JSONDecodeError'') | Some v \<Rightarrow> Inr v)"

definition json_m :: "env \<Rightarrow> string \<Rightarrow> string \<Rightarrow> json option \<Rightarrow> json run" where
  "json_m env meth path body = bindE (request_m env meth path body) (\<lambda>r. lift (response_json r))"

definition batch_of :: "string option \<Rightarrow> json \<Rightarrow> exn + json list" where
  "batch_of key payload =
     (case key of
        None \<Rightarrow> (if \<not> truthy payload then Inr []
                 else case payload of JList xs \<Rightarrow> Inr xs | _ \<Rightarrow> Inl (Other_Error ''TypeError''))
      | Some k \<Rightarrow> (if \<not> truthy payload then Inr []
                   else case payload of
                          JObj d \<Rightarrow> (case dget_or d k (JList []) of JList xs \<Rightarrow> Inr xs
                                     | _ \<Rightarrow> Inl (Other_Error ''TypeError''))
                        | _ \<Rightarrow> Inl (Other_Error ''AttributeError'')))"

text \<open>\<open>_paged\<close>: page after page until a short one; the fuel bounds the pages.\<close>

fun paged_from :: "env \<Rightarrow> string \<Rightarrow> string option \<Rightarrow> nat \<Rightarrow> nat \<Rightarrow> json list \<Rightarrow> json list run" where
  "paged_from env path key 0 page items = raise Diverges"
| "paged_from env path key (Suc n) page items =
     bindE (json_m env ''GET'' (path @ (if CHR ''?'' \<in> set path then ''&'' else ''?'')
              @ ''per_page=100&page='' @ show_nat page) None) (\<lambda>payload.
     bindE (lift (batch_of key payload)) (\<lambda>batch.
       if length batch < 100 then ret (items @ batch)
       else paged_from env path key n (Suc page) (items @ batch)))"

definition paged :: "env \<Rightarrow> string \<Rightarrow> string option \<Rightarrow> json list run" where
  "paged env path key = paged_from env path key (en_fuel env) 1 []"

subsection \<open>Reading payloads\<close>

definition the_dict :: "json \<Rightarrow> exn + dict" where
  "the_dict j = (case j of JObj d \<Rightarrow> Inr d | _ \<Rightarrow> Inl (Other_Error ''TypeError''))"

fun bind_r :: "exn + 'a \<Rightarrow> ('a \<Rightarrow> exn + 'b) \<Rightarrow> exn + 'b" where
  "bind_r (Inl e) f = Inl e"
| "bind_r (Inr x) f = f x"

fun map_r :: "('a \<Rightarrow> exn + 'b) \<Rightarrow> 'a list \<Rightarrow> exn + 'b list" where
  "map_r f [] = Inr []"
| "map_r f (x # xs) = bind_r (f x) (\<lambda>y. bind_r (map_r f xs) (\<lambda>ys. Inr (y # ys)))"

text \<open>\<open>d[k]\<close> for a number, a string and an object of the documented payload.\<close>

definition item_int :: "dict \<Rightarrow> string \<Rightarrow> exn + int" where
  "item_int d k = (case map_of d k of Some (JInt i) \<Rightarrow> Inr i | _ \<Rightarrow> Inl (Other_Error k))"

definition item_str :: "dict \<Rightarrow> string \<Rightarrow> exn + string" where
  "item_str d k = (case map_of d k of Some (JStr s) \<Rightarrow> Inr s | _ \<Rightarrow> Inl (Other_Error k))"

definition item_dict :: "dict \<Rightarrow> string \<Rightarrow> exn + dict" where
  "item_dict d k = (case map_of d k of Some (JObj d') \<Rightarrow> Inr d' | _ \<Rightarrow> Inl (Other_Error k))"

text \<open>\<open>d.get (k) or default\<close>.\<close>

definition text_or :: "dict \<Rightarrow> string \<Rightarrow> string \<Rightarrow> string" where
  "text_or d k dflt = (if truthy (dget d k) then py_str (dget d k) else dflt)"

definition items_of :: "dict \<Rightarrow> string \<Rightarrow> exn + json list" where
  "items_of d k = (case map_of d k of None \<Rightarrow> Inr []
     | Some (JList xs) \<Rightarrow> Inr xs | _ \<Rightarrow> Inl (Other_Error ''TypeError''))"

definition named :: "string \<Rightarrow> json \<Rightarrow> exn + string" where
  "named k j = bind_r (the_dict j) (\<lambda>d. item_str d k)"

definition issue_from :: "json \<Rightarrow> exn + issue" where
  "issue_from j =
     bind_r (the_dict j) (\<lambda>d.
     bind_r (item_int d ''number'') (\<lambda>number.
     bind_r (bind_r (items_of d ''labels'') (map_r (named ''name''))) (\<lambda>labels.
     bind_r (bind_r (items_of d ''assignees'') (map_r (named ''login''))) (\<lambda>assignees.
       Inr \<lparr>is_number = number, is_title = text_or d ''title'' [], is_body = text_or d ''body'' [],
            is_labels = labels, is_assignees = assignees, is_is_pr = dhas d ''pull_request'',
            is_state = text_or d ''state'' ''open'', is_state_reason = text_or d ''state_reason'' [],
            is_repo = []\<rparr>))))"

definition pull_from :: "json \<Rightarrow> exn + pull_request" where
  "pull_from j =
     bind_r (the_dict j) (\<lambda>d.
     bind_r (item_int d ''number'') (\<lambda>number.
     bind_r (bind_r (item_dict d ''head'') (\<lambda>h. item_str h ''ref'')) (\<lambda>head_ref.
     bind_r (bind_r (item_dict d ''head'') (\<lambda>h. item_str h ''sha'')) (\<lambda>head_sha.
     bind_r (bind_r (item_dict d ''base'') (\<lambda>h. item_str h ''ref'')) (\<lambda>base_ref.
     bind_r (bind_r (items_of d ''labels'') (map_r (named ''name''))) (\<lambda>labels.
       Inr \<lparr>pr_number = number, pr_title = text_or d ''title'' [], pr_body = text_or d ''body'' [],
            pr_head_ref = head_ref, pr_head_sha = head_sha, pr_base_ref = base_ref,
            pr_labels = labels, pr_state = py_str (dget_or d ''state'' (JStr ''open'')),
            pr_merged = (truthy (dget d ''merged'') \<or> truthy (dget d ''merged_at'')),
            pr_merge_commit_sha = text_or d ''merge_commit_sha'' []\<rparr>))))))"

subsection \<open>Paths\<close>

definition hex_upper :: "nat \<Rightarrow> char" where
  "hex_upper d = (if d < 10 then char_of (48 + d) else char_of (55 + d))"

definition unreserved :: "char \<Rightarrow> bool" where
  "unreserved c \<longleftrightarrow> (let n = (of_char c :: nat) in
     (48 \<le> n \<and> n \<le> 57) \<or> (65 \<le> n \<and> n \<le> 90) \<or> (97 \<le> n \<and> n \<le> 122)
     \<or> c \<in> set ''_.-~'')"

text \<open>\<open>urllib.parse.quote (s, safe)\<close> on UTF-8 bytes.\<close>

definition quote :: "string \<Rightarrow> string \<Rightarrow> string" where
  "quote safe s = concat (map (\<lambda>c. if unreserved c \<or> c \<in> set safe then [c]
     else [CHR ''%'', hex_upper (of_char c div 16), hex_upper (of_char c mod 16)]) s)"

definition repo_path :: "repo \<Rightarrow> string \<Rightarrow> string" where
  "repo_path repo tail = ''/repos/'' @ repo @ tail"

definition creation_order :: string where
  "creation_order = ''&sort=created&direction=asc''"

definition issue_path :: "repo \<Rightarrow> int \<Rightarrow> string \<Rightarrow> string" where
  "issue_path repo number tail = repo_path repo (''/issues/'' @ show_int number @ tail)"

subsection \<open>Operations\<close>

definition new_client :: "repo \<Rightarrow> unit run" where
  "new_client repo = (if CHR ''/'' \<in> set repo then ret ()
     else raise (GitHub_Error (''expected repo as owner/name, got '' @ py_repr repo) None))"

definition default_branch :: "env \<Rightarrow> repo \<Rightarrow> string run" where
  "default_branch env repo w =
     (case wd_branches w repo of
        Some b \<Rightarrow> (Inr b, w)
      | None \<Rightarrow>
          bindE (json_m env ''GET'' (repo_path repo []) None) (\<lambda>j.
          bindE (lift (named ''default_branch'' j)) (\<lambda>b w'.
            (Inr b, w'\<lparr>wd_branches := (wd_branches w')(repo \<mapsto> b)\<rparr>))) w)"

definition repo_merge_settings :: "env \<Rightarrow> repo \<Rightarrow> merge_settings run" where
  "repo_merge_settings env repo =
     bindE (json_m env ''GET'' (repo_path repo []) None) (\<lambda>j.
     bindE (lift (if truthy j then the_dict j else Inr [])) (\<lambda>d.
       ret \<lparr>ms_merge_commit_allowed = truthy (dget d ''allow_merge_commit''),
            ms_squash_allowed = truthy (dget d ''allow_squash_merge''),
            ms_rebase_allowed = truthy (dget d ''allow_rebase_merge''),
            ms_delete_branch_on_merge = truthy (dget d ''delete_branch_on_merge''),
            ms_complete = list_all (dhas d) [''allow_merge_commit'', ''allow_squash_merge'',
              ''allow_rebase_merge'', ''delete_branch_on_merge'']\<rparr>))"

text \<open>\<open>except GitHubError as exc: if exc.status == code: .. else: raise\<close>.\<close>

definition on_status :: "int \<Rightarrow> 'a run \<Rightarrow> 'a run \<Rightarrow> 'a run" where
  "on_status code m h = catchE m (\<lambda>e. case e of
     GitHub_Error msg (Some st) \<Rightarrow> if st = code then h else raise e
   | _ \<Rightarrow> raise e)"

definition branch_head :: "env \<Rightarrow> repo \<Rightarrow> string \<Rightarrow> string option run" where
  "branch_head env repo branch =
     on_status 404
       (bindE (json_m env ''GET'' (repo_path repo (''/branches/'' @ quote [] branch)) None) (\<lambda>j.
        bindE (lift (if truthy j then the_dict j else Inr [])) (\<lambda>d.
        bindE (lift (if truthy (dget d ''commit'') then the_dict (dget d ''commit'') else Inr [])) (\<lambda>c.
          ret (Some (text_or c ''sha'' []))))))
       (ret None)"

definition listed_issues :: "env \<Rightarrow> repo \<Rightarrow> string \<Rightarrow> (dict \<Rightarrow> bool) \<Rightarrow> issue list run" where
  "listed_issues env repo label keep =
     bindE (paged env (repo_path repo (''/issues?state=open&labels='' @ quote ''/'' label @ creation_order)) None) (\<lambda>items.
     bindE (lift (map_r the_dict items)) (\<lambda>ds.
       lift (map_r (\<lambda>d. issue_from (JObj d)) (filter keep ds))))"

definition list_open_issues :: "env \<Rightarrow> repo \<Rightarrow> string \<Rightarrow> issue list run" where
  "list_open_issues env repo label = listed_issues env repo label (\<lambda>d. \<not> dhas d ''pull_request'')"

definition list_open_prs_by_label :: "env \<Rightarrow> repo \<Rightarrow> string \<Rightarrow> issue list run" where
  "list_open_prs_by_label env repo label = listed_issues env repo label (\<lambda>d. dhas d ''pull_request'')"

text \<open>\<open>url.split ("/repos/", 1)[1]\<close>, and empty text without the marker.\<close>

fun after_repos :: "string \<Rightarrow> string" where
  "after_repos [] = []"
| "after_repos (c # s) =
     (if startswith (c # s) ''/repos/'' then drop 7 (c # s) else after_repos s)"

definition blocker_from :: "json \<Rightarrow> exn + issue" where
  "blocker_from j =
     bind_r (the_dict j) (\<lambda>d.
     bind_r (issue_from j) (\<lambda>i. Inr (i\<lparr>is_repo := after_repos (text_or d ''repository_url'' [])\<rparr>)))"

definition list_blocked_by :: "env \<Rightarrow> repo \<Rightarrow> int \<Rightarrow> issue list run" where
  "list_blocked_by env repo number =
     bindE (paged env (issue_path repo number ''/dependencies/blocked_by'') None)
       (\<lambda>items. lift (map_r blocker_from items))"

definition get_issue :: "env \<Rightarrow> repo \<Rightarrow> int \<Rightarrow> issue run" where
  "get_issue env repo number =
     bindE (json_m env ''GET'' (issue_path repo number []) None) (\<lambda>j. lift (issue_from j))"

definition strs :: "string list \<Rightarrow> json" where
  "strs xs = JList (map JStr xs)"

definition add_labels :: "env \<Rightarrow> repo \<Rightarrow> int \<Rightarrow> string list \<Rightarrow> unit run" where
  "add_labels env repo number labels =
     bindE (json_m env ''POST'' (issue_path repo number ''/labels'') (Some (JObj [(''labels'', strs labels)])))
       (\<lambda>_. ret ())"

definition remove_label :: "env \<Rightarrow> repo \<Rightarrow> int \<Rightarrow> string \<Rightarrow> unit run" where
  "remove_label env repo number label =
     on_status 404
       (bindE (request_m env ''DELETE'' (issue_path repo number (''/labels/'' @ quote ''/'' label)) None)
          (\<lambda>_. ret ()))
       (ret ())"

definition add_assignees :: "env \<Rightarrow> repo \<Rightarrow> int \<Rightarrow> string list \<Rightarrow> unit run" where
  "add_assignees env repo number logins =
     bindE (json_m env ''POST'' (issue_path repo number ''/assignees'') (Some (JObj [(''assignees'', strs logins)])))
       (\<lambda>_. ret ())"

definition remove_assignee :: "env \<Rightarrow> repo \<Rightarrow> int \<Rightarrow> string \<Rightarrow> unit run" where
  "remove_assignee env repo number login =
     bindE (json_m env ''DELETE'' (issue_path repo number ''/assignees'') (Some (JObj [(''assignees'', strs [login])])))
       (\<lambda>_. ret ())"

definition add_comment :: "env \<Rightarrow> repo \<Rightarrow> int \<Rightarrow> string \<Rightarrow> unit run" where
  "add_comment env repo number body =
     bindE (json_m env ''POST'' (issue_path repo number ''/comments'') (Some (JObj [(''body'', JStr body)])))
       (\<lambda>_. ret ())"

definition path_exists :: "env \<Rightarrow> repo \<Rightarrow> string \<Rightarrow> string \<Rightarrow> bool run" where
  "path_exists env repo path ref =
     on_status 404
       (bindE (request_m env ''GET'' (repo_path repo (''/contents/'' @ quote ''/'' path @ ''?ref='' @ quote ''/'' ref)) None)
          (\<lambda>_. ret True))
       (ret False)"

definition get_pull :: "env \<Rightarrow> repo \<Rightarrow> int \<Rightarrow> pull_request run" where
  "get_pull env repo number =
     bindE (json_m env ''GET'' (repo_path repo (''/pulls/'' @ show_int number)) None) (\<lambda>j. lift (pull_from j))"

definition pulls_with_head :: "env \<Rightarrow> repo \<Rightarrow> string \<Rightarrow> string \<Rightarrow> json list run" where
  "pulls_with_head env repo state head_ref =
     bindE (json_m env ''GET'' (repo_path repo (''/pulls?state='' @ state @ ''&head=''
       @ quote ''/'' (takeWhile (\<lambda>c. c \<noteq> CHR ''/'') repo @ '':'' @ head_ref))) None)
     (\<lambda>j. lift (batch_of None j))"

definition find_open_pr_by_head :: "env \<Rightarrow> repo \<Rightarrow> string \<Rightarrow> pull_request option run" where
  "find_open_pr_by_head env repo head_ref =
     bindE (pulls_with_head env repo ''open'' head_ref) (\<lambda>items.
       case items of [] \<Rightarrow> ret None
       | item # _ \<Rightarrow> lift (bind_r (pull_from item) (\<lambda>p. Inr (Some p))))"

text \<open>\<open>max (pulls, key=number)\<close> keeps the first of equal numbers.\<close>

definition newest_pull :: "pull_request list \<Rightarrow> pull_request option" where
  "newest_pull pulls = (case pulls of [] \<Rightarrow> None
     | p # ps \<Rightarrow> Some (fold (\<lambda>q best. if pr_number best < pr_number q then q else best) ps p))"

definition find_pr_by_head :: "env \<Rightarrow> repo \<Rightarrow> string \<Rightarrow> string \<Rightarrow> pull_request option run" where
  "find_pr_by_head env repo head_ref state =
     bindE (pulls_with_head env repo state head_ref) (\<lambda>items.
     bindE (lift (map_r pull_from items)) (\<lambda>pulls.
       ret (case find (\<lambda>p. pr_state p = ''open'') pulls of
              Some p \<Rightarrow> Some p | None \<Rightarrow> newest_pull pulls)))"

definition list_open_prs :: "env \<Rightarrow> repo \<Rightarrow> pull_request list run" where
  "list_open_prs env repo =
     bindE (paged env (repo_path repo (''/pulls?state=open'' @ creation_order)) None)
       (\<lambda>items. lift (map_r pull_from items))"

definition create_pr :: "env \<Rightarrow> repo \<Rightarrow> string \<Rightarrow> string \<Rightarrow> string \<Rightarrow> string \<Rightarrow> pull_request run" where
  "create_pr env repo head base title body =
     catchE
       (bindE (json_m env ''POST'' (repo_path repo ''/pulls'')
          (Some (JObj [(''title'', JStr title), (''head'', JStr head), (''base'', JStr base), (''body'', JStr body)])))
          (\<lambda>j. lift (pull_from j)))
       (\<lambda>e. case e of
          GitHub_Error msg st \<Rightarrow>
            if st = Some 422
            then bindE (find_open_pr_by_head env repo head)
                   (\<lambda>existing. case existing of Some p \<Rightarrow> ret p | None \<Rightarrow> raise e)
            else raise e
        | _ \<Rightarrow> raise e)"

definition update_pr :: "env \<Rightarrow> repo \<Rightarrow> int \<Rightarrow> string option \<Rightarrow> string option \<Rightarrow> string option \<Rightarrow> unit run" where
  "update_pr env repo number title body base =
     (let field = (\<lambda>k v. case v of None \<Rightarrow> [] | Some s \<Rightarrow> [(k, JStr s)]);
          patch = field ''title'' title @ field ''body'' body @ field ''base'' base
      in if patch = [] then ret ()
         else bindE (json_m env ''PATCH'' (repo_path repo (''/pulls/'' @ show_int number)) (Some (JObj patch)))
                (\<lambda>_. ret ()))"

end
