(* ===== verification/Vocabulary.thy ===== *)
theory Vocabulary
  imports Prelude
begin

text \<open>
  The label vocabulary of \<open>worker/.../bootstrap/vocabulary.py\<close>. A set of labels is the list of its
  elements; only membership and order-independent folds are taken of it.
\<close>

definition ROUND_BUDGET :: int where "ROUND_BUDGET = 3"
definition PLAN_READY :: string where "PLAN_READY = ''plan_ready''"
definition IN_PROGRESS :: string where "IN_PROGRESS = ''in_progress''"
definition PR_READY :: string where "PR_READY = ''pr_ready''"
definition BLOCKED :: string where "BLOCKED = ''blocked''"
definition FAILED :: string where "FAILED = ''failed''"
definition NEEDS_HUMAN :: string where "NEEDS_HUMAN = ''needs_human''"
definition ATTEMPT_PREFIX :: string where "ATTEMPT_PREFIX = ''attempt-''"

lemmas label_defs = PLAN_READY_def IN_PROGRESS_def PR_READY_def BLOCKED_def FAILED_def NEEDS_HUMAN_def

lemma label_neqs [simp]:
  "FAILED \<noteq> IN_PROGRESS" "FAILED \<noteq> PLAN_READY" "IN_PROGRESS \<noteq> PLAN_READY" "PLAN_READY \<noteq> IN_PROGRESS"
  "PR_READY \<noteq> BLOCKED" "BLOCKED \<noteq> PR_READY" "NEEDS_HUMAN \<noteq> PR_READY"
  "IN_PROGRESS \<noteq> FAILED" "PLAN_READY \<noteq> FAILED" "PR_READY \<noteq> NEEDS_HUMAN" "BLOCKED \<noteq> NEEDS_HUMAN" "NEEDS_HUMAN \<noteq> BLOCKED"
  by (simp_all add: label_defs)

definition attempt_label :: "nat \<Rightarrow> string" where
  "attempt_label round_number = ATTEMPT_PREFIX @ show_nat round_number"

definition attempts_on :: "string list \<Rightarrow> nat" where
  "attempts_on labels =
     fold (\<lambda>name best.
        if startswith name ATTEMPT_PREFIX \<and> isdigit (removeprefix name ATTEMPT_PREFIX)
        then max best (read_nat (removeprefix name ATTEMPT_PREFIX)) else best) labels 0"

definition reviewable :: "string list \<Rightarrow> bool" where
  "reviewable labels \<longleftrightarrow>
     PR_READY \<in> set labels \<and> NEEDS_HUMAN \<notin> set labels \<and> BLOCKED \<notin> set labels"

lemma attempts_on_fold:
  "(if startswith x ATTEMPT_PREFIX \<and> isdigit (removeprefix x ATTEMPT_PREFIX)
    then max (b::nat) (read_nat (removeprefix x ATTEMPT_PREFIX)) else b)
   = max b (if startswith x ATTEMPT_PREFIX \<and> isdigit (removeprefix x ATTEMPT_PREFIX)
       then read_nat (removeprefix x ATTEMPT_PREFIX) else 0)"
  by simp

lemma attempts_on_append: "attempts_on (xs @ ys) = max (attempts_on xs) (attempts_on ys)"
proof -
  have "fold (\<lambda>x b. max b (g x)) zs (b::nat) = max b (fold (\<lambda>x b. max b (g x)) zs 0)" for g :: "string \<Rightarrow> nat" and zs b
    by (induction zs arbitrary: b) (simp, metis fold_simps(2) max.assoc max_0L)
  then show ?thesis unfolding attempts_on_def attempts_on_fold fold_append o_apply by metis
qed

lemma attempts_on_label [simp]: "attempts_on [attempt_label n] = n"
  by (simp add: attempts_on_def attempt_label_def)

end
