(* ===== verification/Deps.thy ===== *)
theory Deps
  imports Github Vocabulary
begin

text \<open>
  Dependency edges (\<open>worker/.../deps.py\<close>): the branch naming, the depth-first walk of the blocked-by
  closure, its resolution to a decision, and the preconditions of chaining. The client is duck-typed
  in the code, so the two reads are arguments here. The recursion of \<open>visit\<close> carries the frames
  Python has left; running out raises \<open>RecursionError\<close>.
\<close>

subsection \<open>Branches\<close>

definition BRANCH_PREFIX :: string where "BRANCH_PREFIX = ''ozolith/issue-''"

definition branch_for :: "int \<Rightarrow> string" where
  "branch_for issue_number = BRANCH_PREFIX @ show_int issue_number"

definition issue_for_branch :: "string \<Rightarrow> int option" where
  "issue_for_branch head_ref =
     (let suffix = removeprefix head_ref BRANCH_PREFIX in
      if head_ref \<noteq> suffix \<and> isdigit suffix then Some (int (read_nat suffix)) else None)"

lemma branch_for_inj [simp]: "branch_for m = branch_for n \<longleftrightarrow> m = n"
  by (auto simp: branch_for_def)

subsection \<open>The walk\<close>

record walk =
  wk_order :: "int list"
  wk_edges :: "int \<rightharpoonup> int list"
  wk_issues :: "int \<rightharpoonup> issue"
  wk_on_path :: "int list"
  wk_done :: "int list"

definition setdefault :: "(int \<rightharpoonup> issue) \<Rightarrow> issue list \<Rightarrow> (int \<rightharpoonup> issue)" where
  "setdefault = foldl (\<lambda>m b. if m (is_number b) = None then m(is_number b \<mapsto> b) else m)"

fun visit_each :: "(int \<Rightarrow> walk \<Rightarrow> walk run) \<Rightarrow> int list \<Rightarrow> walk \<Rightarrow> walk run" where
  "visit_each f [] k = ret k"
| "visit_each f (b # bs) k = bindE (f b k) (\<lambda>k'. visit_each f bs k')"

definition foreign :: "repo \<Rightarrow> issue \<Rightarrow> bool" where
  "foreign repo b \<longleftrightarrow> is_repo b \<noteq> [] \<and> is_repo b \<noteq> repo"

fun visit :: "(int \<Rightarrow> issue list run) \<Rightarrow> repo \<Rightarrow> nat \<Rightarrow> int \<Rightarrow> walk \<Rightarrow> walk run" where
  "visit blocked repo 0 current k = raise Recursion_Error"
| "visit blocked repo (Suc n) current k =
     (if current \<in> set (wk_on_path k)
      then raise (Cycle_Error (dropWhile (\<lambda>x. x \<noteq> current) (wk_on_path k) @ [current]))
      else if current \<in> set (wk_done k) then ret k
      else bindE (blocked current) (\<lambda>bs.
        let blockers = sort_key is_number bs in
        case find (foreign repo) blockers of
          Some b \<Rightarrow> raise (Cross_Repo_Error current (is_repo b))
        | None \<Rightarrow>
            bindE (visit_each (visit blocked repo n) (map is_number blockers)
                (k\<lparr>wk_on_path := wk_on_path k @ [current],
                   wk_issues := setdefault (wk_issues k) blockers,
                   wk_edges := (wk_edges k)(current \<mapsto> map is_number blockers)\<rparr>)) (\<lambda>k'.
              ret (k'\<lparr>wk_on_path := butlast (wk_on_path k'),
                      wk_done := current # wk_done k',
                      wk_order := wk_order k' @ [current]\<rparr>))))"

record dependency_closure =
  dc_order :: "int list"
  dc_edges :: "int \<rightharpoonup> int list"
  dc_issues :: "int \<rightharpoonup> issue"

definition start_walk :: walk where
  "start_walk = \<lparr>wk_order = [], wk_edges = Map.empty, wk_issues = Map.empty, wk_on_path = [],
     wk_done = []\<rparr>"

definition walk_closure :: "(int \<Rightarrow> issue list run) \<Rightarrow> repo \<Rightarrow> nat \<Rightarrow> int \<Rightarrow> dependency_closure run" where
  "walk_closure blocked repo depth number =
     bindE (visit blocked repo depth number start_walk) (\<lambda>k.
       ret \<lparr>dc_order = wk_order k, dc_edges = wk_edges k, dc_issues = wk_issues k\<rparr>)"

subsection \<open>The decision\<close>

datatype decision_kind = READY | CHAINED | WAIT | MALFORMED

record chain_decision =
  cd_kind :: decision_kind
  cd_reason :: string
  cd_base_branch :: string
  cd_base_is_chained :: bool
  cd_tip_issue :: int

definition decide :: "decision_kind \<Rightarrow> string \<Rightarrow> chain_decision" where
  "decide kind reason = \<lparr>cd_kind = kind, cd_reason = reason, cd_base_branch = [],
     cd_base_is_chained = False, cd_tip_issue = 0\<rparr>"

definition not_completed :: "issue \<Rightarrow> chain_decision" where
  "not_completed blocker = decide MALFORMED
     (''blocker #'' @ show_int (is_number blocker) @ '' is closed as ''
        @ str_or (is_state_reason blocker) ''(no reason)'' @ '' '' @ em_dash
        @ '' only a completed close satisfies a Dependency Edge (ADR-0053); re-edge or''
        @ '' abandon the dependent'')"

text \<open>
  The first loop of \<open>resolve\<close>: the open blockers in topological order, or the decision at the first
  blocker closed for another reason than completion; a missing payload would be a \<open>KeyError\<close>.
\<close>

fun open_blockers :: "(int \<rightharpoonup> issue) \<Rightarrow> int \<Rightarrow> int list \<Rightarrow> exn + (chain_decision + issue list)" where
  "open_blockers issues walked [] = Inr (Inr [])"
| "open_blockers issues walked (n # order) =
     (if n = walked then open_blockers issues walked order
      else case issues n of
             None \<Rightarrow> Inl (Other_Error ''KeyError'')
           | Some blocker \<Rightarrow>
               if is_state blocker = ''closed''
               then (if is_state_reason blocker \<noteq> ''completed'' then Inr (Inl (not_completed blocker))
                     else open_blockers issues walked order)
               else bind_r (open_blockers issues walked order) (\<lambda>r. Inr
                      (case r of Inl d \<Rightarrow> Inl d | Inr bs \<Rightarrow> Inr (blocker # bs))))"

definition awaiting_merge :: "pull_request \<Rightarrow> bool" where
  "awaiting_merge pr \<longleftrightarrow>
     PR_READY \<in> set (pr_labels pr) \<and> NEEDS_HUMAN \<in> set (pr_labels pr) \<and> BLOCKED \<notin> set (pr_labels pr)"

fun blocker_prs ::
  "(string \<Rightarrow> pull_request option run) \<Rightarrow> issue list \<Rightarrow> (int \<times> pull_request) list \<Rightarrow>
   (chain_decision + (int \<times> pull_request) list) run" where
  "blocker_prs open_pr [] prs = ret (Inr prs)"
| "blocker_prs open_pr (b # bs) prs =
     bindE (open_pr (branch_for (is_number b))) (\<lambda>found.
       case found of
         None \<Rightarrow> ret (Inl (decide WAIT (''open blocker #'' @ show_int (is_number b) @ '' has no PR yet'')))
       | Some pr \<Rightarrow>
           if \<not> awaiting_merge pr
           then ret (Inl (decide WAIT (''blocker #'' @ show_int (is_number b) @ '' PR #''
                  @ show_int (pr_number pr) @ '' is not approved-and-awaiting-merge'')))
           else blocker_prs open_pr bs (prs @ [(is_number b, pr)]))"

definition parallel_lines :: chain_decision where
  "parallel_lines = decide WAIT ''parallel open blocker lines; waiting for merges''"

text \<open>\<open>branch_of[ref]\<close>: the open blocker whose branch a pull request targets.\<close>

definition branch_of :: "(int \<times> pull_request) list \<Rightarrow> string \<Rightarrow> int option" where
  "branch_of prs ref = map_of (map (\<lambda>(n, pr). (branch_for n, n)) prs) ref"

text \<open>The loop from the tip down, \<open>None\<close> at a repeated branch; each turn adds a blocker.\<close>

fun follow_bases :: "(int \<times> pull_request) list \<Rightarrow> string \<Rightarrow> nat \<Rightarrow> int list \<Rightarrow> int \<Rightarrow> int list option" where
  "follow_bases prs trunk 0 chain here = None"
| "follow_bases prs trunk (Suc fuel) chain here =
     (case map_of prs here of
        None \<Rightarrow> None
      | Some pr \<Rightarrow>
          if pr_base_ref pr = trunk then Some chain
          else (case branch_of prs (pr_base_ref pr) of
                  None \<Rightarrow> None
                | Some nxt \<Rightarrow> if nxt \<in> set chain then None
                    else follow_bases prs trunk fuel (chain @ [nxt]) nxt))"

definition resolve_chain :: "(int \<times> pull_request) list \<Rightarrow> string \<Rightarrow> chain_decision" where
  "resolve_chain prs trunk =
     (case find (\<lambda>(n, pr). pr_base_ref pr \<noteq> trunk \<and> branch_of prs (pr_base_ref pr) = None) prs of
        Some (n, pr) \<Rightarrow> decide WAIT (''blocker #'' @ show_int n @ '' PR #'' @ show_int (pr_number pr)
           @ '' targets '' @ py_repr (pr_base_ref pr) @ '', outside the blocker chain; waiting for merges'')
      | None \<Rightarrow>
          (case filter (\<lambda>n. branch_for n \<notin> pr_base_ref ` snd ` set prs) (map fst prs) of
             [tip] \<Rightarrow>
               (case follow_bases prs trunk (Suc (length prs)) [tip] tip of
                  None \<Rightarrow> parallel_lines
                | Some chain \<Rightarrow>
                    if length chain \<noteq> length prs then parallel_lines
                    else \<lparr>cd_kind = CHAINED, cd_reason = [], cd_base_branch = branch_for tip,
                          cd_base_is_chained = True, cd_tip_issue = tip\<rparr>)
           | _ \<Rightarrow> parallel_lines))"

definition resolve ::
  "(string \<Rightarrow> pull_request option run) \<Rightarrow> dependency_closure \<Rightarrow> string \<Rightarrow> chain_decision run" where
  "resolve open_pr closure trunk =
     bindE (lift (open_blockers (dc_issues closure) (last (dc_order closure)) (dc_order closure))) (\<lambda>r.
       case r of
         Inl d \<Rightarrow> ret d
       | Inr [] \<Rightarrow> ret ((decide READY [])\<lparr>cd_base_branch := trunk\<rparr>)
       | Inr bs \<Rightarrow>
           bindE (blocker_prs open_pr bs []) (\<lambda>p.
             ret (case p of Inl d \<Rightarrow> d | Inr prs \<Rightarrow> resolve_chain prs trunk)))"

definition chain_preconditions :: "merge_settings \<Rightarrow> string option" where
  "chain_preconditions settings =
     (if \<not> ms_complete settings then Some ''chaining off: merge settings unreadable with this token''
      else
        let failing =
          (if \<not> ms_merge_commit_allowed settings then [''merge commits disabled''] else [])
          @ (if ms_squash_allowed settings then [''squash merge enabled''] else [])
          @ (if ms_rebase_allowed settings then [''rebase merge enabled''] else [])
          @ (if \<not> ms_delete_branch_on_merge settings then [''delete-branch-on-merge disabled''] else [])
        in if failing \<noteq> [] then Some (''chaining off: '' @ join '', '' failing) else None)"

lemma chain_preconditions_None:
  "chain_preconditions settings = None \<longleftrightarrow> ms_complete settings \<and> ms_merge_commit_allowed settings
     \<and> \<not> ms_squash_allowed settings \<and> \<not> ms_rebase_allowed settings \<and> ms_delete_branch_on_merge settings"
  by (simp add: chain_preconditions_def Let_def)

end
