(* ===== verification/Github_Lists.thy ===== *)
theory Github_Lists
  imports Github
begin

text \<open>
  The listings of the client (\<open>worker/.../githubapi.py\<close>): comments, reviews, review threads, checks and
  statuses, the issue's event timeline and the assignment order. The two GraphQL listings page on two
  levels and share the fuel of the environment.
\<close>

subsection \<open>Records\<close>

record comment =
  cm_id :: int
  cm_author :: string
  cm_body :: string
  cm_created_at :: string
  cm_url :: string
  cm_author_association :: string

record review_comment =
  rc_id :: int
  rc_author :: string
  rc_body :: string
  rc_created_at :: string
  rc_path :: string
  rc_line :: "int option"
  rc_url :: string
  rc_author_association :: string
  rc_original_line :: "int option"
  rc_start_line :: "int option"
  rc_original_start_line :: "int option"
  rc_side :: string
  rc_start_side :: string
  rc_commit_id :: string
  rc_original_commit_id :: string
  rc_in_reply_to_id :: "int option"
  rc_review_id :: "int option"
  rc_diff_hunk :: string
  rc_position :: "int option"
  rc_original_position :: "int option"
  rc_subject_type :: string
  rc_updated_at :: string

record review_thread =
  rt_id :: string
  rt_is_resolved :: bool
  rt_is_outdated :: bool
  rt_resolved_by :: string
  rt_comment_ids :: "int list"

record review =
  rv_id :: int
  rv_author :: string
  rv_state :: string
  rv_body :: string
  rv_submitted_at :: string
  rv_url :: string
  rv_author_association :: string
  rv_commit_id :: string

record check_run =
  ck_name :: string
  ck_status :: string
  ck_conclusion :: string
  ck_url :: string
  ck_id :: int
  ck_started_at :: string
  ck_completed_at :: string

record commit_status =
  st_id :: int
  st_context :: string
  st_state :: string
  st_description :: string
  st_target_url :: string
  st_created_at :: string
  st_creator :: string

subsection \<open>Reading one item\<close>

definition login_in :: "json \<Rightarrow> string" where
  "login_in user = (case user of JObj d \<Rightarrow> text_or d ''login'' [] | _ \<Rightarrow> [])"

definition login_of :: "dict \<Rightarrow> string" where
  "login_of data = login_in (dget data ''user'')"

definition association_of :: "dict \<Rightarrow> string" where
  "association_of data = text_or data ''author_association'' []"

definition int_or_none :: "json \<Rightarrow> int option" where
  "int_or_none v = (case v of JInt i \<Rightarrow> Some i | JBool b \<Rightarrow> Some (if b then 1 else 0) | _ \<Rightarrow> None)"

text \<open>\<open>item.get (k) or 0\<close>.\<close>

definition int_or_zero :: "dict \<Rightarrow> string \<Rightarrow> int" where
  "int_or_zero d k = (case int_or_none (dget d k) of Some i \<Rightarrow> i | None \<Rightarrow> 0)"

definition comment_from :: "dict \<Rightarrow> exn + comment" where
  "comment_from d = bind_r (item_int d ''id'') (\<lambda>i. Inr
     \<lparr>cm_id = i, cm_author = login_of d, cm_body = text_or d ''body'' [], cm_created_at = text_or d ''created_at'' [],
      cm_url = text_or d ''html_url'' [], cm_author_association = association_of d\<rparr>)"

definition review_comment_from :: "dict \<Rightarrow> exn + review_comment" where
  "review_comment_from d = bind_r (item_int d ''id'') (\<lambda>i. Inr
     \<lparr>rc_id = i, rc_author = login_of d, rc_body = text_or d ''body'' [], rc_created_at = text_or d ''created_at'' [],
      rc_path = text_or d ''path'' [], rc_line = int_or_none (dget d ''line''), rc_url = text_or d ''html_url'' [],
      rc_author_association = association_of d, rc_original_line = int_or_none (dget d ''original_line''),
      rc_start_line = int_or_none (dget d ''start_line''),
      rc_original_start_line = int_or_none (dget d ''original_start_line''),
      rc_side = text_or d ''side'' [], rc_start_side = text_or d ''start_side'' [],
      rc_commit_id = text_or d ''commit_id'' [], rc_original_commit_id = text_or d ''original_commit_id'' [],
      rc_in_reply_to_id = int_or_none (dget d ''in_reply_to_id''),
      rc_review_id = int_or_none (dget d ''pull_request_review_id''), rc_diff_hunk = text_or d ''diff_hunk'' [],
      rc_position = int_or_none (dget d ''position''), rc_original_position = int_or_none (dget d ''original_position''),
      rc_subject_type = text_or d ''subject_type'' [], rc_updated_at = text_or d ''updated_at'' []\<rparr>)"

definition review_from :: "dict \<Rightarrow> exn + review" where
  "review_from d = bind_r (item_int d ''id'') (\<lambda>i. Inr
     \<lparr>rv_id = i, rv_author = login_of d, rv_state = text_or d ''state'' [], rv_body = text_or d ''body'' [],
      rv_submitted_at = text_or d ''submitted_at'' [], rv_url = text_or d ''html_url'' [],
      rv_author_association = association_of d, rv_commit_id = text_or d ''commit_id'' []\<rparr>)"

definition check_run_from :: "dict \<Rightarrow> exn + check_run" where
  "check_run_from d = Inr
     \<lparr>ck_name = text_or d ''name'' [], ck_status = text_or d ''status'' [], ck_conclusion = text_or d ''conclusion'' [],
      ck_url = text_or d ''html_url'' [], ck_id = int_or_zero d ''id'', ck_started_at = text_or d ''started_at'' [],
      ck_completed_at = text_or d ''completed_at'' []\<rparr>"

definition status_from :: "dict \<Rightarrow> exn + commit_status" where
  "status_from d = Inr
     \<lparr>st_id = int_or_zero d ''id'', st_context = text_or d ''context'' [], st_state = text_or d ''state'' [],
      st_description = text_or d ''description'' [], st_target_url = text_or d ''target_url'' [],
      st_created_at = text_or d ''created_at'' [], st_creator = login_in (dget d ''creator'')\<rparr>"

text \<open>The logins of the assignment events, each at its first.\<close>

fun assigned_logins :: "dict list \<Rightarrow> string list \<Rightarrow> exn + string list" where
  "assigned_logins [] order = Inr order"
| "assigned_logins (e # rest) order =
     (if dget e ''event'' = JStr ''assigned'' \<and> truthy (dget e ''assignee'')
      then bind_r (named ''login'' (dget e ''assignee'')) (\<lambda>login.
             assigned_logins rest (if login \<in> set order then order else order @ [login]))
      else assigned_logins rest order)"

subsection \<open>Listings\<close>

definition viewer_login :: "env \<Rightarrow> repo \<Rightarrow> string run" where
  "viewer_login env repo w =
     (case wd_logins w repo of
        Some l \<Rightarrow> (Inr l, w)
      | None \<Rightarrow>
          bindE (json_m env ''GET'' ''/user'' None) (\<lambda>j.
          bindE (lift (named ''login'' j)) (\<lambda>l w'.
            (Inr l, w'\<lparr>wd_logins := (wd_logins w')(repo \<mapsto> l)\<rparr>))) w)"

text \<open>Every item of every page, read by \<open>f\<close>.\<close>

definition listed :: "env \<Rightarrow> string \<Rightarrow> string option \<Rightarrow> (dict \<Rightarrow> exn + 'a) \<Rightarrow> 'a list run" where
  "listed env path key f =
     bindE (paged env path key) (\<lambda>items. lift (map_r (\<lambda>j. bind_r (the_dict j) f) items))"

definition pulls_path :: "repo \<Rightarrow> int \<Rightarrow> string \<Rightarrow> string" where
  "pulls_path repo number tail = repo_path repo (''/pulls/'' @ show_int number @ tail)"

definition list_comments :: "env \<Rightarrow> repo \<Rightarrow> int \<Rightarrow> comment list run" where
  "list_comments env repo number = listed env (issue_path repo number ''/comments'') None comment_from"

definition list_timeline :: "env \<Rightarrow> repo \<Rightarrow> int \<Rightarrow> json list run" where
  "list_timeline env repo number = paged env (issue_path repo number ''/timeline'') None"

definition assign_order :: "env \<Rightarrow> repo \<Rightarrow> int \<Rightarrow> string list run" where
  "assign_order env repo number =
     bindE (paged env (issue_path repo number ''/events'') None) (\<lambda>items.
     bindE (lift (map_r the_dict items)) (\<lambda>es. lift (assigned_logins es [])))"

definition list_review_comments :: "env \<Rightarrow> repo \<Rightarrow> int \<Rightarrow> review_comment list run" where
  "list_review_comments env repo number = listed env (pulls_path repo number ''/comments'') None review_comment_from"

definition list_reviews :: "env \<Rightarrow> repo \<Rightarrow> int \<Rightarrow> review list run" where
  "list_reviews env repo number = listed env (pulls_path repo number ''/reviews'') None review_from"

definition list_check_runs :: "env \<Rightarrow> repo \<Rightarrow> string \<Rightarrow> check_run list run" where
  "list_check_runs env repo ref =
     listed env (repo_path repo (''/commits/'' @ quote [] ref @ ''/check-runs'')) (Some ''check_runs'') check_run_from"

definition list_statuses :: "env \<Rightarrow> repo \<Rightarrow> string \<Rightarrow> commit_status list run" where
  "list_statuses env repo ref =
     listed env (repo_path repo (''/commits/'' @ quote [] ref @ ''/statuses'')) None status_from"

subsection \<open>Review threads\<close>

definition REVIEW_THREADS_QUERY :: string where
  "REVIEW_THREADS_QUERY = join [newline]
     [[],
      ''query($owner: String!, $name: String!, $number: Int!, $cursor: String) {'',
      ''  repository(owner: $owner, name: $name) {'',
      ''    pullRequest(number: $number) {'',
      ''      reviewThreads(first: 100, after: $cursor) {'',
      ''        pageInfo { hasNextPage endCursor }'',
      ''        nodes {'',
      ''          id'',
      ''          isResolved'',
      ''          isOutdated'',
      ''          resolvedBy { login }'',
      ''          comments(first: 100) {'',
      ''            pageInfo { hasNextPage endCursor }'',
      ''            nodes { databaseId }'',
      ''          }'',
      ''        }'',
      ''      }'',
      ''    }'',
      ''  }'',
      ''}'',
      []]"

definition THREAD_COMMENTS_QUERY :: string where
  "THREAD_COMMENTS_QUERY = join [newline]
     [[],
      ''query($id: ID!, $cursor: String) {'',
      ''  node(id: $id) {'',
      ''    ... on PullRequestReviewThread {'',
      ''      comments(first: 100, after: $cursor) {'',
      ''        pageInfo { hasNextPage endCursor }'',
      ''        nodes { databaseId }'',
      ''      }'',
      ''    }'',
      ''  }'',
      ''}'',
      []]"

text \<open>Errors of a query arrive with status 200; they are raised here.\<close>

definition graphql :: "env \<Rightarrow> string \<Rightarrow> dict \<Rightarrow> dict run" where
  "graphql env query variables =
     bindE (json_m env ''POST'' ''/graphql'' (Some (JObj [(''query'', JStr query), (''variables'', JObj variables)]))) (\<lambda>payload.
       case payload of
         JObj d \<Rightarrow>
           if truthy (dget d ''errors'')
           then raise (GitHub_Error (''GraphQL query failed: '' @ py_repr_json (dget d ''errors'')) None)
           else (case dget d ''data'' of
                   JObj found \<Rightarrow> ret found
                 | _ \<Rightarrow> raise (GitHub_Error (''GraphQL query returned no data: '' @ py_repr_json payload) None))
       | _ \<Rightarrow> raise (GitHub_Error (''GraphQL query failed: '' @ py_repr_json payload) None))"

text \<open>\<open>d.get (k) or {}\<close> and \<open>d.get (k) or []\<close>.\<close>

definition sub_dict :: "dict \<Rightarrow> string \<Rightarrow> exn + dict" where
  "sub_dict d k = (if truthy (dget d k) then the_dict (dget d k) else Inr [])"

definition sub_list :: "dict \<Rightarrow> string \<Rightarrow> exn + json list" where
  "sub_list d k = batch_of None (dget d k)"

definition comment_ids :: "dict \<Rightarrow> exn + int list" where
  "comment_ids comments =
     bind_r (sub_list comments ''nodes'') (\<lambda>nodes.
     bind_r (map_r the_dict nodes) (\<lambda>ds.
       Inr (somes (map (\<lambda>d. int_or_none (dget d ''databaseId'')) ds))))"

fun thread_ids :: "env \<Rightarrow> json \<Rightarrow> nat \<Rightarrow> dict \<Rightarrow> int list \<Rightarrow> int list run" where
  "thread_ids env node_id 0 page ids = raise Diverges"
| "thread_ids env node_id (Suc n) page ids =
     (if \<not> truthy (dget page ''hasNextPage'') then ret ids
      else bindE (graphql env THREAD_COMMENTS_QUERY [(''id'', node_id), (''cursor'', dget page ''endCursor'')]) (\<lambda>data.
           bindE (lift (bind_r (sub_dict data ''node'') (\<lambda>node. sub_dict node ''comments''))) (\<lambda>comments.
           bindE (lift (comment_ids comments)) (\<lambda>more.
           bindE (lift (sub_dict comments ''pageInfo'')) (\<lambda>page'.
             thread_ids env node_id n page' (ids @ more))))))"

definition thread_from :: "env \<Rightarrow> json \<Rightarrow> review_thread run" where
  "thread_from env j =
     bindE (lift (the_dict j)) (\<lambda>node.
     bindE (lift (sub_dict node ''comments'')) (\<lambda>comments.
     bindE (lift (comment_ids comments)) (\<lambda>ids.
     bindE (lift (sub_dict comments ''pageInfo'')) (\<lambda>page.
     bindE (thread_ids env (dget node ''id'') (en_fuel env) page ids) (\<lambda>all_ids.
       ret \<lparr>rt_id = text_or node ''id'' [], rt_is_resolved = truthy (dget node ''isResolved''),
            rt_is_outdated = truthy (dget node ''isOutdated''), rt_resolved_by = login_in (dget node ''resolvedBy''),
            rt_comment_ids = all_ids\<rparr>)))))"

fun threads_from :: "env \<Rightarrow> json list \<Rightarrow> review_thread list run" where
  "threads_from env [] = ret []"
| "threads_from env (j # js) =
     bindE (thread_from env j) (\<lambda>t. bindE (threads_from env js) (\<lambda>ts. ret (t # ts)))"

fun threads_paged :: "env \<Rightarrow> repo \<Rightarrow> int \<Rightarrow> nat \<Rightarrow> json \<Rightarrow> review_thread list \<Rightarrow> review_thread list run" where
  "threads_paged env repo number 0 cursor threads = raise Diverges"
| "threads_paged env repo number (Suc n) cursor threads =
     bindE (graphql env REVIEW_THREADS_QUERY
       [(''owner'', JStr (takeWhile (\<lambda>c. c \<noteq> CHR ''/'') repo)), (''name'', JStr (drop 1 (dropWhile (\<lambda>c. c \<noteq> CHR ''/'') repo))),
        (''number'', JInt number), (''cursor'', cursor)]) (\<lambda>data.
     bindE (lift (bind_r (sub_dict data ''repository'') (\<lambda>r.
              bind_r (sub_dict r ''pullRequest'') (\<lambda>p. sub_dict p ''reviewThreads'')))) (\<lambda>connection.
     bindE (lift (sub_list connection ''nodes'')) (\<lambda>nodes.
     bindE (threads_from env nodes) (\<lambda>new.
     bindE (lift (sub_dict connection ''pageInfo'')) (\<lambda>page.
       if \<not> truthy (dget page ''hasNextPage'') then ret (threads @ new)
       else threads_paged env repo number n (dget page ''endCursor'') (threads @ new))))))"

definition list_review_threads :: "env \<Rightarrow> repo \<Rightarrow> int \<Rightarrow> review_thread list run" where
  "list_review_threads env repo number = threads_paged env repo number (en_fuel env) JNull []"

subsection \<open>No page is lost\<close>

definition page_request :: "string \<Rightarrow> nat \<Rightarrow> request" where
  "page_request path page = \<lparr>rq_method = ''GET'',
     rq_path = path @ (if CHR ''?'' \<in> set path then ''&'' else ''?'') @ ''per_page=100&page='' @ show_nat page, rq_body = None\<rparr>"

text \<open>GitHub serves a collection at a path: page by page, a hundred items each, whatever was asked before.\<close>

definition serves :: "env \<Rightarrow> string \<Rightarrow> string option \<Rightarrow> json list \<Rightarrow> bool" where
  "serves env path key xs \<longleftrightarrow> (\<forall>h k. \<exists>r. en_transport env h (page_request path (Suc k)) = Inr r \<and> rp_status r < 400
     \<and> bind_r (response_json r) (batch_of key) = Inr (take 100 (drop (100 * k) xs)))"

lemma served_page:
  assumes "serves env path key xs"
  shows "\<exists>payload w'. json_m env ''GET'' (rq_path (page_request path (Suc k))) None w = (Inr payload, w')
    \<and> batch_of key payload = Inr (take 100 (drop (100 * k) xs))
    \<and> wd_requests w' = wd_requests w @ [page_request path (Suc k)] \<and> wd_store w' = wd_store w"
proof -
  let ?rq = "page_request path (Suc k)"
  obtain r where r: "en_transport env (wd_requests w) ?rq = Inr r" "rp_status r < 400"
    "bind_r (response_json r) (batch_of key) = Inr (take 100 (drop (100 * k) xs))" using assms unfolding serves_def by blast
  then obtain payload where p: "response_json r = Inr payload" "batch_of key payload = Inr (take 100 (drop (100 * k) xs))"
    by (cases "response_json r") auto
  let ?w = "w\<lparr>wd_requests := wd_requests w @ [?rq]\<rparr>"
  have "attempts env ?rq (MAX_RETRIES - 1) 0 w = (Inr r, ?w)"
    using r by (subst attempts.simps)
      (simp add: bindE_def exchange_def note_write_def page_request_def ret_def)
  moreover have "\<lparr>rq_method = ''GET'', rq_path = rq_path ?rq, rq_body = None\<rparr> = ?rq" by (simp add: page_request_def)
  ultimately have "json_m env ''GET'' (rq_path ?rq) None w = (Inr payload, ?w)"
    using p(1) by (simp add: json_m_def request_m_def bindE_def lift_def)
  then show ?thesis using p(2) by auto
qed

lemma paged_from_served:
  assumes "serves env path key xs"
  shows "length xs div 100 < n + k \<Longrightarrow> 100 * k \<le> length xs \<Longrightarrow>
    \<exists>w'. paged_from env path key n (Suc k) (take (100 * k) xs) w = (Inr xs, w')
      \<and> wd_requests w' = wd_requests w @ map (page_request path) [Suc k..<length xs div 100 + 2] \<and> wd_store w' = wd_store w"
proof (induction n arbitrary: k w)
  case 0
  then show ?case by (simp add: div_less_iff_less_mult)
next
  case (Suc n)
  obtain payload w1 where one: "json_m env ''GET'' (rq_path (page_request path (Suc k))) None w = (Inr payload, w1)"
    "batch_of key payload = Inr (take 100 (drop (100 * k) xs))"
    "wd_requests w1 = wd_requests w @ [page_request path (Suc k)]" "wd_store w1 = wd_store w"
    using served_page [OF assms] by blast
  have items: "take (100 * k) xs @ take 100 (drop (100 * k) xs) = take (100 * Suc k) xs"
    using take_add [of "100 * k" 100 xs] by (simp add: add.commute)
  have path: "rq_path (page_request path (Suc k)) = path @ (if CHR ''?'' \<in> set path then ''&'' else ''?'') @ ''per_page=100&page='' @ show_nat (Suc k)"
    by (simp add: page_request_def)
  have step: "paged_from env path key (Suc n) (Suc k) (take (100 * k) xs) w =
      (if length (take 100 (drop (100 * k) xs)) < 100 then ret (take (100 * Suc k) xs)
       else paged_from env path key n (Suc (Suc k)) (take (100 * Suc k) xs)) w1"
    unfolding paged_from.simps path [symmetric] using one(1,2) by (simp add: bindE_def lift_def items)
  show ?case
  proof (cases "length xs < 100 * Suc k")
    case True
    then have "length xs div 100 = k" using Suc.prems(2) by (simp add: div_nat_eqI)
    moreover have "length xs - 100 * k < 100" using True by simp
    ultimately show ?thesis using True step one Suc.prems(2) by (simp add: ret_def)
  next
    case False
    then have "\<not> length (take 100 (drop (100 * k) xs)) < 100" by simp
    moreover have le: "Suc k \<le> length xs div 100" using False by (simp add: less_eq_div_iff_mult_less_eq)
    moreover obtain w' where "paged_from env path key n (Suc (Suc k)) (take (100 * Suc k) xs) w1 = (Inr xs, w')"
      "wd_requests w' = wd_requests w1 @ map (page_request path) [Suc (Suc k)..<length xs div 100 + 2]" "wd_store w' = wd_store w1"
      using Suc.IH [of "Suc k" w1] Suc.prems(1) False by auto
    moreover have "[Suc k..<length xs div 100 + 2] = Suc k # [Suc (Suc k)..<length xs div 100 + 2]"
      using le by (intro upt_conv_Cons) simp
    ultimately show ?thesis using step one(3,4) by simp
  qed
qed

text \<open>
  C30: A listing over pages returns every item of every page, in order, with one request for each page and
  one more when the last page is full, as long as the fuel covers the pages.
\<close>

theorem paged_collects_every_page:
  assumes "serves env path key xs" "length xs div 100 < en_fuel env"
  shows "\<exists>w'. paged env path key w = (Inr xs, w') \<and> wd_store w' = wd_store w
    \<and> wd_requests w' = wd_requests w @ map (page_request path) [1..<length xs div 100 + 2]"
  using paged_from_served [OF assms(1), of "en_fuel env" 0 w] assms(2) by (auto simp: paged_def)

definition demo_pages :: env where
  "demo_pages = \<lparr>en_clock = int, en_transport = (\<lambda>_ rq. Inr \<lparr>rp_status = 200, rp_headers = [],
     rp_body = (if rq_path rq = ''/x?per_page=100&page=1'' then ''[7]'' else ''[]'')\<rparr>), en_git = (\<lambda>_ _. Inl (Other_Error [])), en_touch = (\<lambda>_ _. None), en_emit = (\<lambda>_. True), en_fuel = 4, en_depth = 9\<rparr>"

lemma paged_collects_every_page_witness:
  "\<exists>w'. paged demo_pages ''/x'' None (world_of empty_store) = (Inr [JInt 7], w')"
proof -
  have one: "show_nat 1 = ''1''" by code_simp
  have body: "response_json \<lparr>rp_status = 200, rp_headers = [], rp_body = ''[7]''\<rparr> = Inr (JList [JInt 7])"
    "response_json \<lparr>rp_status = 200, rp_headers = [], rp_body = ''[]''\<rparr> = Inr (JList [])" by code_simp+
  have "show_nat (Suc k) = ''1'' \<longleftrightarrow> k = 0" for k using show_nat_inj [of "Suc k" 1] unfolding one by simp
  then have "serves demo_pages ''/x'' None [JInt 7]"
    using body by (auto simp: serves_def demo_pages_def page_request_def batch_of_def one)
  from paged_collects_every_page [OF this, of "world_of empty_store"] show ?thesis
    by (auto simp: demo_pages_def)
qed

end
