(* ===== verification/Json_Roundtrip.thy ===== *)
theory Json_Roundtrip
  imports Json_Parse "HOL-Library.Multiset"
begin

text \<open>
  Reading back what \<open>json.dumps\<close> writes. A relation says when a text renders a value, with any white space
  between its tokens; the reader answers the value of every such text, and both layouts of the printer
  render the value with its keys in order.
\<close>

definition ws :: "string \<Rightarrow> bool" where
  "ws w \<longleftrightarrow> list_all json_space w"

text \<open>The text of a float: a JSON number with a fraction or an exponent, read as it is written.\<close>

definition float_repr :: "int \<Rightarrow> string \<Rightarrow> bool" where
  "float_repr i s \<longleftrightarrow> read_number s = Some (JFloat i s, [])"

definition number_char :: "char \<Rightarrow> bool" where
  "number_char c \<longleftrightarrow> is_digit c \<or> c \<in> {CHR ''.'', CHR ''e'', CHR ''E'', CHR ''+'', CHR ''-''}"

text \<open>What may follow a number.\<close>

definition number_end :: "string \<Rightarrow> bool" where
  "number_end r \<longleftrightarrow> (case r of [] \<Rightarrow> True | c # _ \<Rightarrow> \<not> number_char c)"

lemma number_end_Nil [simp]: "number_end []"
  by (simp add: number_end_def)

lemma number_end_Cons [simp]:
  "number_end (c # r) \<longleftrightarrow> \<not> is_digit c \<and> c \<noteq> CHR ''.'' \<and> c \<noteq> CHR ''e'' \<and> c \<noteq> CHR ''E'' \<and> c \<noteq> CHR ''+'' \<and> c \<noteq> CHR ''-''"
  by (simp add: number_end_def number_char_def)

lemma digits_end: "number_end r \<Longrightarrow> digits (s @ r) = digits s"
  by (cases r) (auto simp: digits_def takeWhile_append takeWhile_eq_all_conv [THEN iffD2])

lemma read_fraction_end: "number_end r \<Longrightarrow> read_fraction (s @ r) = read_fraction s"
  using digits_end [of r] by (cases s; cases r) (auto simp: read_fraction_def)

lemma read_exponent_end: "number_end r \<Longrightarrow> read_exponent (s @ r) = read_exponent s"
proof -
  assume r: "number_end r"
  consider "s = []" | c where "s = [c]" | c d u where "s = c # d # u" by (metis list.exhaust)
  then show ?thesis
  proof cases
    case 1
    then show ?thesis using r by (cases r) (simp_all add: read_exponent_def)
  next
    case (2 c)
    then show ?thesis using r by (cases r) (simp_all add: read_exponent_def digits_def)
  next
    case (3 c d u)
    then show ?thesis using digits_end [OF r, of u] digits_end [OF r, of "d # u"] by (simp add: read_exponent_def)
  qed
qed

lemma digits_prefix: "drop (length (digits s)) s @ r = drop (length (digits s)) (s @ r)"
  by (simp add: digits_def length_takeWhile_le)

lemma part_lengths: "length (read_fraction s) \<le> length s" "length (read_exponent s) \<le> length s"
proof -
  have d: "length (digits r) \<le> length r" for r by (simp add: digits_def length_takeWhile_le)
  then show "length (read_fraction s) \<le> length s" by (cases s) (auto simp: read_fraction_def)
  consider "s = []" | c where "s = [c]" | c e u where "s = c # e # u" by (metis list.exhaust)
  then show "length (read_exponent s) \<le> length s"
  proof cases
    case (3 c e u)
    have "length (digits u) \<le> length u" "length (digits (e # u)) \<le> Suc (length u)"
      using d [of u] d [of "e # u"] by simp_all
    with 3 show ?thesis by (simp add: read_exponent_def)
  qed (simp_all add: read_exponent_def)
qed

lemma read_number_end:
  assumes "read_number s = Some (v, t)" "number_end r"
  shows "read_number (s @ r) = Some (v, t @ r)"
proof -
  define neg where "neg = (case s of c # _ \<Rightarrow> c = CHR ''-'' | [] \<Rightarrow> False)"
  define s1 where "s1 = (if neg then drop 1 s else s)"
  define i where "i = (case s1 of c # _ \<Rightarrow> if c = CHR ''0'' then [c] else digits s1 | [] \<Rightarrow> [])"
  define r1 where "r1 = drop (length i) s1"
  define r2 where "r2 = drop (length (read_fraction r1)) r1"
  have i: "i \<noteq> []" using assms(1) unfolding read_number_def Let_def neg_def [symmetric] s1_def [symmetric] i_def [symmetric]
    by (auto split: if_splits)
  then have s1: "s1 \<noteq> []" by (auto simp: i_def)
  then have s: "s \<noteq> []" by (auto simp: s1_def split: if_splits)
  have neg': "(case s @ r of c # _ \<Rightarrow> c = CHR ''-'' | [] \<Rightarrow> False) = neg" using s by (cases s) (simp_all add: neg_def)
  have s1': "(if neg then drop 1 (s @ r) else s @ r) = s1 @ r" using s by (cases s) (auto simp: s1_def)
  have i': "(case s1 @ r of c # _ \<Rightarrow> if c = CHR ''0'' then [c] else digits (s1 @ r) | [] \<Rightarrow> []) = i"
    using s1 digits_end [OF assms(2), of s1] by (cases s1) (simp_all add: i_def)
  have "length i \<le> length s1" by (cases s1) (auto simp: i_def digits_def length_takeWhile_le le_SucI)
  then have r1': "drop (length i) (s1 @ r) = r1 @ r" by (simp add: r1_def)
  have r2': "drop (length (read_fraction r1)) (r1 @ r) = r2 @ r" using part_lengths(1) [of r1] by (simp add: r2_def)
  have r3': "drop (length (read_exponent r2)) (r2 @ r) = drop (length (read_exponent r2)) r2 @ r" using part_lengths(2) [of r2] by simp
  have "read_number s = (if read_fraction r1 = [] \<and> read_exponent r2 = []
      then Some (JInt ((if neg then - int (read_nat i) else int (read_nat i))), drop (length (read_exponent r2)) r2)
      else Some (JFloat ((if neg then - int (trunc_decimal i (read_fraction r1) (read_exponent r2))
                          else int (trunc_decimal i (read_fraction r1) (read_exponent r2))))
                   ((if neg then ''-'' else []) @ i @ read_fraction r1 @ read_exponent r2), drop (length (read_exponent r2)) r2))"
    unfolding read_number_def Let_def neg_def [symmetric] s1_def [symmetric] i_def [symmetric] r1_def [symmetric] r2_def [symmetric]
    using i by simp
  moreover have "read_number (s @ r) = (if read_fraction r1 = [] \<and> read_exponent r2 = []
      then Some (JInt ((if neg then - int (read_nat i) else int (read_nat i))), drop (length (read_exponent r2)) r2 @ r)
      else Some (JFloat ((if neg then - int (trunc_decimal i (read_fraction r1) (read_exponent r2))
                          else int (trunc_decimal i (read_fraction r1) (read_exponent r2))))
                   ((if neg then ''-'' else []) @ i @ read_fraction r1 @ read_exponent r2), drop (length (read_exponent r2)) r2 @ r))"
    unfolding read_number_def Let_def neg' s1' i' r1' read_fraction_end [OF assms(2)] r2' read_exponent_end [OF assms(2)] r3'
    using i by simp
  ultimately show ?thesis using assms(1) by (auto split: if_splits)
qed

lemma number_marks [simp]:
  "number_char (CHR ''.'')" "number_char (CHR ''e'')" "number_char (CHR ''E'')" "number_char (CHR ''+'')"
  "number_char (CHR ''-'')" "number_char (CHR ''0'')"
  by (simp_all add: number_char_def is_digit_def)

lemma digits_number: "x \<in> set (digits s) \<Longrightarrow> number_char x"
  by (auto simp: digits_def number_char_def dest: set_takeWhileD)

lemma read_exponent_shape:
  "read_exponent t = []
   \<or> (\<exists>c g r. read_exponent t = c # g # digits r \<and> c \<in> {CHR ''e'', CHR ''E''} \<and> g \<in> {CHR ''+'', CHR ''-''})
   \<or> (\<exists>c r. read_exponent t = c # digits r \<and> c \<in> {CHR ''e'', CHR ''E''})"
proof -
  consider "t = []" | c where "t = [c]" | c d u where "t = c # d # u" by (metis list.exhaust)
  then show ?thesis
  proof cases
    case (3 c d u)
    consider "c \<notin> {CHR ''e'', CHR ''E''}" | "c \<in> {CHR ''e'', CHR ''E''}" "d \<in> {CHR ''+'', CHR ''-''}"
      | "c \<in> {CHR ''e'', CHR ''E''}" "d \<notin> {CHR ''+'', CHR ''-''}" by blast
    then show ?thesis
    proof cases
      case 2
      then show ?thesis using 3 by (cases "digits u = []") (auto simp: read_exponent_def)
    next
      case c: 3
      then have "read_exponent t = [] \<or> read_exponent t = c # digits (d # u)" using 3 by (simp add: read_exponent_def)
      then show ?thesis using c(1) by blast
    qed (simp add: 3 read_exponent_def)
  qed (simp_all add: read_exponent_def)
qed

lemma float_repr_chars: "float_repr i s \<Longrightarrow> x \<in> set s \<Longrightarrow> number_char x"
proof -
  assume f: "float_repr i s" and x: "x \<in> set s"
  have fr: "y \<in> set (read_fraction t) \<Longrightarrow> number_char y" for y t
    by (cases t) (auto simp: read_fraction_def dest: digits_number split: if_splits)
  have ex: "y \<in> set (read_exponent t) \<Longrightarrow> number_char y" for y t
    using read_exponent_shape [of t] by (auto dest: digits_number)
  have ip: "y \<in> set (case t of c # _ \<Rightarrow> if c = CHR ''0'' then [c] else digits t | [] \<Rightarrow> []) \<Longrightarrow> number_char y" for y t
    by (cases t) (auto dest: digits_number split: if_splits)
  define neg where "neg = (case s of c # _ \<Rightarrow> c = CHR ''-'' | [] \<Rightarrow> False)"
  define s1 where "s1 = (if neg then drop 1 s else s)"
  define j where "j = (case s1 of c # _ \<Rightarrow> if c = CHR ''0'' then [c] else digits s1 | [] \<Rightarrow> [])"
  define r1 where "r1 = drop (length j) s1"
  define r2 where "r2 = drop (length (read_fraction r1)) r1"
  have "s = (if neg then ''-'' else []) @ j @ read_fraction r1 @ read_exponent r2"
    using f unfolding float_repr_def read_number_def Let_def neg_def [symmetric] s1_def [symmetric] j_def [symmetric]
      r1_def [symmetric] r2_def [symmetric]
    by (auto split: if_splits)
  then have "x \<in> set (if neg then ''-'' else []) \<or> x \<in> set j \<or> x \<in> set (read_fraction r1) \<or> x \<in> set (read_exponent r2)"
    using x by (metis Un_iff set_append)
  moreover have "x \<in> set j \<Longrightarrow> number_char x" using ip [of x s1] unfolding j_def .
  ultimately show ?thesis using fr [of x r1] ex [of x r2] by (cases neg) auto
qed

lemma float_repr_hd: "float_repr i s \<Longrightarrow> \<exists>d ds. s = d # ds \<and> (is_digit d \<or> d = CHR ''-'' \<and> (\<exists>e es. ds = e # es \<and> is_digit e))"
proof -
  assume f: "float_repr i s"
  show ?thesis
  proof (cases s)
    case Nil
    then show ?thesis using f by (simp add: float_repr_def read_number_def)
  next
    case (Cons d ds)
    have "is_digit (CHR ''0'')" by (simp add: is_digit_def)
    then show ?thesis using f Cons by (cases "d = CHR ''0''"; cases "d = CHR ''-''"; cases ds)
      (auto simp: float_repr_def read_number_def digits_def Let_def split: if_splits)
  qed
qed

inductive renders :: "json \<Rightarrow> string \<Rightarrow> bool"
  and renders_elements :: "json list \<Rightarrow> string \<Rightarrow> bool"
  and renders_members :: "dict \<Rightarrow> string \<Rightarrow> bool" where
  null: "renders JNull ''null''"
| true: "renders (JBool True) ''true''"
| false: "renders (JBool False) ''false''"
| int: "renders (JInt i) (show_int i)"
| float: "float_repr i s \<Longrightarrow> renders (JFloat i s) s"
| nonfinite: "s \<in> {''NaN'', ''Infinity'', ''-Infinity''} \<Longrightarrow> renders (JNonfinite s) s"
| str: "is_text s \<Longrightarrow> renders (JStr s) (dumps_str s)"
| empty_list: "ws w \<Longrightarrow> renders (JList []) (CHR ''['' # w @ '']'')"
| elements: "ws w \<Longrightarrow> renders_elements vs t \<Longrightarrow> renders (JList vs) (CHR ''['' # w @ t)"
| empty_obj: "ws w \<Longrightarrow> renders (JObj []) (CHR ''{'' # w @ ''}'')"
| members: "ws w \<Longrightarrow> renders_members ms t \<Longrightarrow> renders (JObj (fold (\<lambda>(k, v). dput k v) ms [])) (CHR ''{'' # w @ t)"
| last: "renders v t \<Longrightarrow> ws w \<Longrightarrow> renders_elements [v] (t @ w @ '']'')"
| more: "renders v t \<Longrightarrow> ws w \<Longrightarrow> ws w' \<Longrightarrow> renders_elements vs u
     \<Longrightarrow> renders_elements (v # vs) (t @ w @ CHR '','' # w' @ u)"
| last_member: "is_text k \<Longrightarrow> ws w \<Longrightarrow> renders v t \<Longrightarrow> ws w'
     \<Longrightarrow> renders_members [(k, v)] (dumps_str k @ CHR '':'' # w @ t @ w' @ ''}'')"
| more_members: "is_text k \<Longrightarrow> ws w \<Longrightarrow> renders v t \<Longrightarrow> ws w' \<Longrightarrow> ws w'' \<Longrightarrow> renders_members ms u
     \<Longrightarrow> renders_members ((k, v) # ms) (dumps_str k @ CHR '':'' # w @ t @ w' @ CHR '','' # w'' @ u)"

text \<open>What may follow a value.\<close>

definition delimited :: "string \<Rightarrow> bool" where
  "delimited r \<longleftrightarrow> (case r of [] \<Rightarrow> True | c # _ \<Rightarrow> json_space c \<or> c \<in> {CHR '','', CHR '']'', CHR ''}''})"

lemma delimited_ws: "ws w \<Longrightarrow> c \<in> {CHR '','', CHR '']'', CHR ''}''} \<Longrightarrow> delimited (w @ c # r)"
  by (cases w) (auto simp: delimited_def ws_def)

lemma skip_ws_ws [simp]: "ws w \<Longrightarrow> skip_ws (w @ s) = skip_ws s"
  by (induction w) (auto simp: skip_ws_def ws_def)

lemma skip_ws_solid: "\<not> json_space c \<Longrightarrow> skip_ws (c # s) = c # s"
  by (simp add: skip_ws_def)

lemma solid [simp]:
  "\<not> json_space (CHR ''['')" "\<not> json_space (CHR '']'')" "\<not> json_space (CHR ''{'')" "\<not> json_space (CHR ''}'')"
  "\<not> json_space (CHR '','')" "\<not> json_space (CHR '':'')" "\<not> json_space dquote"
  by (simp_all add: json_space_def dquote_def)

lemma dquote_code: "dquote = CHR 0x22"
  by code_simp

lemma quote_codes [simp]:
  "dquote \<noteq> CHR ''{''" "dquote \<noteq> CHR ''[''" "dquote \<noteq> CHR ''}''" "dquote \<noteq> CHR '']''" "CHR ''{'' \<noteq> dquote" "CHR ''['' \<noteq> dquote"
  by (simp_all add: dquote_code)

lemma dumps_str_quote: "dumps_str s = dquote # concat (map escape_point (code_points s)) @ [dquote]"
  by (simp add: dumps_str_def dquote_def)

lemma show_int_hd: "\<exists>d ds. show_int i = d # ds \<and> (is_digit d \<or> d = CHR ''-'' \<and> (\<exists>e es. ds = e # es \<and> is_digit e))"
proof (cases "i < 0")
  case False
  then have "isdigit (show_int i)" by (simp add: show_int_def)
  then show ?thesis by (cases "show_int i") (auto simp: isdigit_def)
next
  case True
  have "isdigit (show_nat (nat (- i)))" by simp
  then show ?thesis using True by (cases "show_nat (nat (- i))") (auto simp: isdigit_def show_int_def)
qed

definition printable :: "char \<Rightarrow> bool" where
  "printable c \<longleftrightarrow> 32 \<le> (of_char c :: nat) \<and> (of_char c :: nat) < 127"

lemma hex_digit_printable: "d < 16 \<Longrightarrow> printable (hex_digit d)"
  by (auto simp: hex_digit_def of_char_of printable_def)

lemma u_escape_printable: "n < 65536 \<Longrightarrow> x \<in> set (u_escape n) \<Longrightarrow> printable x"
proof -
  assume "n < 65536"
  then have "n div 4096 < 16" by (simp add: less_mult_imp_div_less)
  moreover have "printable (CHR ''u'')" "printable (char_of (92 :: nat))" by (simp_all add: printable_def)
  ultimately show "x \<in> set (u_escape n) \<Longrightarrow> printable x"
    using hex_digit_printable by (auto simp: u_escape_def)
qed

lemma escape_point_printable:
  assumes "n < 10000000" "x \<in> set (escape_point n)"
  shows "printable x"
proof (cases "n < 65536")
  case True
  then show ?thesis using assms(2) u_escape_printable [OF True, of x]
    by (auto simp: escape_point_def Let_def of_char_of printable_def split: if_splits)
next
  case False
  then have "55296 + (n - 65536) div 1024 < 65536" "56320 + (n - 65536) mod 1024 < (65536 :: nat)"
    using assms(1) by (auto simp: less_mult_imp_div_less add_strict_mono)
  then show ?thesis using assms(2) False u_escape_printable [of "55296 + (n - 65536) div 1024" x]
      u_escape_printable [of "56320 + (n - 65536) mod 1024" x]
    by (auto simp: escape_point_def Let_def split: if_splits)
qed

lemma first_point_bound: "fst (first_point a s) < 10000000"
proof -
  have l: "(of_char c :: nat) - k \<le> 255" for c :: char and k
    using nat_of_char_less_256 [of c] by linarith
  have a: "(of_char a :: nat) \<le> 255" using l [of a 0] by simp
  consider "s = []" | x where "s = [x]" | x y where "s = [x, y]" | x y z r where "s = x # y # z # r"
    by (metis list.exhaust)
  then show ?thesis
  proof cases
    case (2 x)
    then show ?thesis using a l [of x 128] by (auto simp: first_point_def Let_def)
  next
    case (3 x y)
    then show ?thesis using a l [of x 128] l [of y 128] by (auto simp: first_point_def Let_def)
  next
    case (4 x y z r)
    then show ?thesis using a l [of x 128] l [of y 128] l [of z 128] by (auto simp: first_point_def Let_def)
  qed (use a in \<open>auto simp: first_point_def Let_def\<close>)
qed

lemma code_points_bound: "n \<in> set (code_points s) \<Longrightarrow> n < 10000000"
proof (induction s rule: code_points.induct)
  case (2 a s)
  then show ?case using first_point_bound [of a s] by (cases "first_point a s") auto
qed simp

lemma dumps_str_plain: "list_all printable (dumps_str s)"
  using escape_point_printable [OF code_points_bound] by (auto simp: dumps_str_def list_all_iff printable_def)

lemma dumps_str_printable: "x \<in> set (dumps_str s) \<Longrightarrow> 32 \<le> (of_char x :: nat)"
  using dumps_str_plain [of s] by (auto simp: list_all_iff printable_def)

text \<open>No rendering starts with white space or a closing bracket.\<close>

lemma digit_head:
  "is_digit d \<or> d = CHR ''-'' \<Longrightarrow> \<not> json_space d \<and> d \<notin> {CHR '']'', CHR ''}'', dquote, CHR ''{'', CHR ''['', CHR ''n'', CHR ''t'', CHR ''f'', CHR ''N'', CHR ''I''}"
  by (auto simp: is_digit_def json_space_def dquote_code)

lemma renders_hd:
  "renders v t \<Longrightarrow> \<exists>c s. t = c # s \<and> \<not> json_space c \<and> c \<noteq> CHR '']''"
  "renders_elements vs u \<Longrightarrow> \<exists>c s. u = c # s \<and> \<not> json_space c \<and> c \<noteq> CHR '']''"
  "renders_members ms m \<Longrightarrow> \<exists>s. m = dquote # s"
proof (induction rule: renders_renders_elements_renders_members.inducts)
  case (int i)
  obtain d ds where "show_int i = d # ds" "is_digit d \<or> d = CHR ''-''" using show_int_hd by blast
  then show ?case using digit_head [of d] by simp
next
  case (float i s)
  obtain d ds where "s = d # ds" "is_digit d \<or> d = CHR ''-''" using float_repr_hd [OF float] by blast
  then show ?case using digit_head [of d] by simp
next
  case (nonfinite s)
  then have "s = ''NaN'' \<or> s = ''Infinity'' \<or> s = ''-Infinity''" by simp
  then show ?case by (elim disjE) (simp_all add: json_space_def)
qed (auto simp: dumps_str_quote json_space_def dquote_code)

lemma no_literal:
  assumes "is_digit d \<or> d = CHR ''-'' \<and> (\<exists>e es. ds = e # es \<and> is_digit e)"
  shows "read_literal (d # ds @ r) = None"
proof -
  have "is_digit d \<or> d = CHR ''-''" using assms by blast
  from digit_head [OF this] have "d \<noteq> CHR ''n''" "d \<noteq> CHR ''t''" "d \<noteq> CHR ''f''" "d \<noteq> CHR ''N''" "d \<noteq> CHR ''I''"
    by simp_all
  moreover have "\<not> (d = CHR ''-'' \<and> startswith (ds @ r) ''Infinity'')"
  proof
    assume neg: "d = CHR ''-'' \<and> startswith (ds @ r) ''Infinity''"
    then obtain e es where "ds = e # es" "is_digit e" using assms by (auto simp: is_digit_def)
    then show False using neg digit_head [of e] by (auto simp: startswith_code)
  qed
  ultimately show ?thesis by (simp add: read_literal_def literals_def startswith_code)
qed

lemma delimited_number:
  "delimited r \<Longrightarrow> case r of [] \<Rightarrow> True | c # _ \<Rightarrow> \<not> is_digit c \<and> c \<noteq> CHR ''.'' \<and> c \<noteq> CHR ''e'' \<and> c \<noteq> CHR ''E''"
  by (auto simp: delimited_def is_digit_def json_space_def split: list.split)

lemma read_value_number:
  assumes "delimited r"
  shows "read_value (Suc n) (show_int i @ r) = Some (JInt i, r)"
proof -
  obtain d ds where d: "show_int i = d # ds" "is_digit d \<or> d = CHR ''-'' \<and> (\<exists>e es. ds = e # es \<and> is_digit e)"
    using show_int_hd [of i] by (elim exE conjE) (rule that)
  have "is_digit d \<or> d = CHR ''-''" using d(2) by blast
  from digit_head [OF this] have "d \<noteq> dquote" "d \<noteq> CHR ''{''" "d \<noteq> CHR ''[''" by simp_all
  moreover have "read_literal (d # ds @ r) = None" by (rule no_literal [OF d(2)])
  ultimately show ?thesis using read_number_show_int [OF delimited_number [OF assms], of i] d by simp
qed

lemma delimited_number_end: "delimited r \<Longrightarrow> number_end r"
  by (cases r) (auto simp: delimited_def is_digit_def json_space_def)

lemma read_value_float:
  assumes "delimited r" "float_repr i s"
  shows "read_value (Suc n) (s @ r) = Some (JFloat i s, r)"
proof -
  obtain d ds where d: "s = d # ds" "is_digit d \<or> d = CHR ''-'' \<and> (\<exists>e es. ds = e # es \<and> is_digit e)"
    using float_repr_hd [OF assms(2)] by (elim exE conjE) (rule that)
  have "is_digit d \<or> d = CHR ''-''" using d(2) by blast
  from digit_head [OF this] have "d \<noteq> dquote" "d \<noteq> CHR ''{''" "d \<noteq> CHR ''[''" by simp_all
  moreover have "read_literal (d # ds @ r) = None" by (rule no_literal [OF d(2)])
  ultimately show ?thesis
    using read_number_end [OF assms(2) [unfolded float_repr_def] delimited_number_end [OF assms(1)]] d by simp
qed

lemma read_value_string: "is_text s \<Longrightarrow> read_value (Suc n) (dumps_str s @ r) = Some (JStr s, r)"
  using read_chars_dumps [of s r] by (simp add: dumps_str_quote del: read_chars.simps)

lemma read_value_literals:
  "read_value (Suc n) (''null'' @ r) = Some (JNull, r)" "read_value (Suc n) (''true'' @ r) = Some (JBool True, r)"
  "read_value (Suc n) (''false'' @ r) = Some (JBool False, r)"
  "s \<in> {''NaN'', ''Infinity'', ''-Infinity''} \<Longrightarrow> read_value (Suc n) (s @ r) = Some (JNonfinite s, r)"
  by (auto simp: read_literal_def literals_def startswith_code dquote_code)

lemma fuel_Suc: "0 < k \<Longrightarrow> k \<le> n \<Longrightarrow> \<exists>m. n = Suc m \<and> k - 1 \<le> m"
  by (cases n) auto

theorem read_rendered:
  "renders v t \<Longrightarrow> 2 * length t \<le> n \<Longrightarrow> delimited r \<Longrightarrow> read_value n (t @ r) = Some (v, r)"
  "renders_elements vs u \<Longrightarrow> 2 * length u \<le> n \<Longrightarrow> read_elements n (u @ r) = Some (vs, r)"
  "renders_members ms m \<Longrightarrow> 2 * length m \<le> n \<Longrightarrow> read_members n (m @ r) = Some (ms, r)"
proof (induction arbitrary: n r and n r and n r rule: renders_renders_elements_renders_members.inducts)
  case null
  then show ?case using read_value_literals(1) fuel_Suc [of 1 n] by fastforce
next
  case true
  then show ?case using read_value_literals(2) fuel_Suc [of 1 n] by fastforce
next
  case false
  then show ?case using read_value_literals(3) fuel_Suc [of 1 n] by fastforce
next
  case (int i)
  then obtain k where "n = Suc k" using show_int_hd [of i] by (cases n) auto
  then show ?case using read_value_number int by blast
next
  case (float i s)
  then obtain k where "n = Suc k" using float_repr_hd [of i s] by (cases n) auto
  then show ?case using read_value_float float by blast
next
  case (nonfinite s)
  then obtain k where "n = Suc k" by (cases n) auto
  then show ?case using read_value_literals(4) nonfinite by blast
next
  case (str s)
  then obtain k where "n = Suc k" by (cases n) (auto simp: dumps_str_quote)
  then show ?case using read_value_string str by blast
next
  case (empty_list w)
  then obtain k where "n = Suc k" by (cases n) auto
  then show ?case using empty_list by (simp add: skip_ws_solid)
next
  case (elements w vs t)
  obtain k where k: "n = Suc k" "2 * length t \<le> k" using elements.prems by (cases n) auto
  obtain c s where c: "t = c # s" "\<not> json_space c" "c \<noteq> CHR '']''" using renders_hd(2) elements.hyps(2) by blast
  have "read_elements k (t @ r) = Some (vs, r)" using elements.IH k by blast
  then show ?case using k c elements.hyps(1) by (simp add: skip_ws_solid del: read_elements.simps)
next
  case (empty_obj w)
  then obtain k where "n = Suc k" by (cases n) auto
  then show ?case using empty_obj by (simp add: skip_ws_solid)
next
  case (members w ms t)
  obtain k where k: "n = Suc k" "2 * length t \<le> k" using members.prems by (cases n) auto
  obtain s where c: "t = dquote # s" using renders_hd(3) members.hyps(2) by blast
  have "read_members k (t @ r) = Some (ms, r)" using members.IH k by blast
  then show ?case using k c members.hyps(1) by (simp add: skip_ws_solid del: read_members.simps)
next
  case (last v t w)
  obtain k where k: "n = Suc k" "2 * length t \<le> k" using last.prems by (cases n) auto
  have "read_value k (t @ w @ CHR '']'' # r) = Some (v, w @ CHR '']'' # r)"
    using last.IH [OF k(2) delimited_ws [OF last.hyps(2)]] by simp
  then show ?case using k last.hyps(2) by (simp add: skip_ws_solid del: read_value.simps)
next
  case (more v t w w' vs u)
  obtain k where k: "n = Suc k" "2 * length t \<le> k" "2 * length u \<le> k" using more.prems by (cases n) auto
  obtain c s where c: "u = c # s" "\<not> json_space c" using renders_hd(2) more.hyps(4) by blast
  have "read_value k (t @ w @ CHR '','' # w' @ u @ r) = Some (v, w @ CHR '','' # w' @ u @ r)"
    using more.IH(1) [OF k(2) delimited_ws [OF more.hyps(2)]] by simp
  moreover have "read_elements k (skip_ws (u @ r)) = Some (vs, r)" using more.IH(2) [OF k(3)] c by (simp add: skip_ws_solid)
  ultimately show ?case using k more.hyps by (simp add: skip_ws_solid del: read_value.simps)
next
  case (last_member k w v t w')
  obtain m where m: "n = Suc m" "2 * length t \<le> m" using last_member.prems by (cases n) auto
  obtain c s where c: "t = c # s" "\<not> json_space c" using renders_hd(1) last_member.hyps(3) by blast
  have "read_value m (t @ w' @ CHR ''}'' # r) = Some (v, w' @ CHR ''}'' # r)"
    using last_member.IH [OF m(2) delimited_ws [OF last_member.hyps(4)]] by simp
  then show ?case using m c last_member.hyps read_chars_dumps [OF last_member.hyps(1)]
    by (simp add: dumps_str_quote skip_ws_solid del: read_value.simps read_chars.simps)
next
  case (more_members k w v t w' w'' ms u)
  obtain m where m: "n = Suc m" "2 * length t \<le> m" "2 * length u \<le> m" using more_members.prems by (cases n) auto
  obtain c s where c: "t = c # s" "\<not> json_space c" using renders_hd(1) more_members.hyps(3) by blast
  have "read_value m (t @ w' @ CHR '','' # w'' @ u @ r) = Some (v, w' @ CHR '','' # w'' @ u @ r)"
    using more_members.IH(1) [OF m(2) delimited_ws [OF more_members.hyps(4)]] by simp
  moreover have "read_members m (skip_ws (u @ r)) = Some (ms, r)"
    using more_members.IH(2) [OF m(3)] renders_hd(3) [OF more_members.hyps(6)] by (auto simp: skip_ws_solid)
  ultimately show ?case using m c more_members.hyps read_chars_dumps [OF more_members.hyps(1)]
    by (simp add: dumps_str_quote skip_ws_solid del: read_value.simps read_members.simps(1) read_chars.simps)
qed

theorem json_loads_rendered: "renders v t \<Longrightarrow> json_loads t = Some v"
proof -
  assume t: "renders v t"
  obtain c s where c: "t = c # s" "\<not> json_space c" using renders_hd(1) [OF t] by blast
  have "read_value (2 * length t + 4) (t @ []) = Some (v, [])"
    by (rule read_rendered(1) [OF t]) (simp_all add: delimited_def)
  then show ?thesis using c by (simp add: json_loads_def skip_ws_def del: read_value.simps)
qed

subsection \<open>The two layouts\<close>

text \<open>Values of text with distinct keys, and the value with its keys in order.\<close>

fun plain_json :: "json \<Rightarrow> bool" where
  "plain_json (JStr s) = is_text s"
| "plain_json (JFloat i s) = float_repr i s"
| "plain_json (JNonfinite s) = (s \<in> {''NaN'', ''Infinity'', ''-Infinity''})"
| "plain_json (JList vs) = list_all plain_json vs"
| "plain_json (JObj d) = (distinct (map fst d) \<and> list_all (\<lambda>(k, v). is_text k \<and> plain_json v) d)"
| "plain_json v = True"

fun in_order :: "json \<Rightarrow> json" where
  "in_order (JList vs) = JList (map in_order vs)"
| "in_order (JObj d) = JObj (sort_key fst (map (\<lambda>(k, v). (k, in_order v)) d))"
| "in_order v = v"

lemma dput_new: "k \<notin> fst ` set d \<Longrightarrow> dput k v d = d @ [(k, v)]"
  by (induction k v d rule: dput.induct) auto

lemma fold_dput: "distinct (map fst (d @ ms)) \<Longrightarrow> fold (\<lambda>(k, v). dput k v) ms d = d @ ms"
proof (induction ms arbitrary: d)
  case (Cons m ms)
  then have "dput (fst m) (snd m) d = d @ [m]" by (intro trans [OF dput_new]) auto
  then show ?case using Cons by (cases m) simp
qed simp

lemma sort_key_map_fst:
  "sort_key fst (map (\<lambda>(k, v). (k, f v)) d) = map (\<lambda>(k, v). (k, f v)) (sort_key fst d)"
proof -
  have ins: "insort_key fst (k, f v) (map (\<lambda>(k, v). (k, f v)) d) = map (\<lambda>(k, v). (k, f v)) (insort_key fst (k, v) d)" for k v d
    by (induction d) auto
  show ?thesis
  proof (induction d)
    case (Cons kv d)
    then show ?case by (cases kv) (simp add: ins)
  qed simp
qed

text \<open>Elements and members separated by a comma and white space.\<close>

lemma renders_elements_join:
  "vs \<noteq> [] \<Longrightarrow> list_all2 renders vs ts \<Longrightarrow> ws w \<Longrightarrow> ws w' \<Longrightarrow> renders_elements vs (join ('','' @ w) ts @ w' @ '']'')"
proof (induction vs arbitrary: ts)
  case (Cons v vs)
  then obtain t us where t: "ts = t # us" "renders v t" "list_all2 renders vs us" by (auto simp: list_all2_Cons1)
  show ?case
  proof (cases us)
    case Nil
    then show ?thesis using t Cons.prems renders_renders_elements_renders_members.last by simp
  next
    case (Cons u rest)
    then have "renders_elements vs (join ('','' @ w) us @ w' @ '']'')" using Cons.IH t Cons.prems by auto
    then show ?thesis using t Cons Cons.prems more [OF t(2), of "[]" w] by (simp add: ws_def)
  qed
qed simp

definition member :: "string \<times> string \<Rightarrow> string" where
  "member kt = dumps_str (fst kt) @ '': '' @ snd kt"

lemma renders_members_join:
  "ms \<noteq> [] \<Longrightarrow> list_all2 (\<lambda>(k, v) (k', t). k = k' \<and> is_text k \<and> renders v t) ms ts \<Longrightarrow> ws w \<Longrightarrow> ws w'
   \<Longrightarrow> renders_members ms (join ('','' @ w) (map member ts) @ w' @ ''}'')"
proof (induction ms arbitrary: ts)
  case (Cons m ms)
  then obtain k v t us where t: "m = (k, v)" "ts = (k, t) # us" "is_text k" "renders v t"
    "list_all2 (\<lambda>(k, v) (k', t). k = k' \<and> is_text k \<and> renders v t) ms us" by (cases m) (auto simp: list_all2_Cons1)
  have one: "ws '' ''" "ws []" by (simp_all add: ws_def json_space_def)
  show ?case
  proof (cases us)
    case Nil
    then show ?thesis using t Cons.prems last_member [OF t(3) one(1) t(4), of w'] by (simp add: member_def)
  next
    case (Cons u rest)
    then have "ms \<noteq> []" using t(5) by (cases ms) auto
    then have "renders_members ms (join ('','' @ w) (map member us) @ w' @ ''}'')" using Cons.IH [OF _ t(5)] Cons.prems by blast
    from more_members [OF t(3) one(1) t(4) one(2) Cons.prems(3) this]
    have "renders_members ((k, v) # ms) (member (k, t) @ ('','' @ w) @ join ('','' @ w) (map member us) @ w' @ ''}'')"
      by (simp add: member_def)
    then show ?thesis using t Cons by simp
  qed
qed simp

lemma ws_level [simp]: "ws (on_level l)"
  by (simp add: on_level_def ws_def newline_def json_space_def list_all_iff)

lemma ws_space [simp]: "ws []" "ws '' ''"
  by (simp_all add: ws_def json_space_def)

text \<open>A printer that encloses the elements in white space renders its value.\<close>

lemma in_order_members:
  assumes "distinct (map fst d)" "\<And>k v. (k, v) \<in> set d \<Longrightarrow> is_text k \<and> renders (in_order v) (f v)" "d \<noteq> []"
    "ws w" "ws w'" "ws b"
  shows "renders (in_order (JObj d))
    (''{'' @ b @ join ('','' @ w) (map member (sort_key fst (map (\<lambda>(k, v). (k, f v)) d))) @ w' @ ''}'')"
proof -
  let ?ms = "sort_key fst (map (\<lambda>(k, v). (k, in_order v)) d)" and ?ts = "sort_key fst (map (\<lambda>(k, v). (k, f v)) d)"
  have rel: "list_all2 (\<lambda>(k, v) (k', t). k = k' \<and> is_text k \<and> renders v t) ?ms ?ts"
    unfolding sort_key_map_fst list_all2_map1 list_all2_map2
    by (rule list.rel_refl_strong) (use assms(2) in auto)
  have "?ms \<noteq> []" using assms(3) by (metis length_0_conv length_map length_sort)
  then have m: "renders_members ?ms (join ('','' @ w) (map member ?ts) @ w' @ ''}'')"
    by (rule renders_members_join [OF _ rel assms(4,5)])
  have "mset (map fst ?ms) = mset (map fst d)"
    by (simp add: sort_key_map_fst o_def case_prod_beta)
  then have "distinct (map fst ?ms)" using assms(1) mset_eq_imp_distinct_iff by blast
  then have "fold (\<lambda>(k, v). dput k v) ?ms [] = ?ms" using fold_dput [of "[]" ?ms] by simp
  then show ?thesis using members [OF assms(6) m] by simp
qed

lemma in_order_elements:
  assumes "\<And>v. v \<in> set vs \<Longrightarrow> renders (in_order v) (f v)" "vs \<noteq> []" "ws w" "ws w'" "ws b"
  shows "renders (in_order (JList vs)) (''['' @ b @ join ('','' @ w) (map f vs) @ w' @ '']'')"
proof -
  have "list_all2 renders (map in_order vs) (map f vs)"
    unfolding list_all2_map1 list_all2_map2 by (rule list.rel_refl_strong) (use assms(1) in auto)
  then have "renders_elements (map in_order vs) (join ('','' @ w) (map f vs) @ w' @ '']'')"
    using renders_elements_join assms by simp
  then show ?thesis using elements [OF assms(5)] by simp
qed

lemma json_dumps_renders: "plain_json v \<Longrightarrow> renders (in_order v) (json_dumps v)"
proof (induction v)
  case (JList vs)
  show ?case
  proof (cases "vs = []")
    case False
    have "renders (in_order x) (json_dumps x)" if "x \<in> set vs" for x
      using JList that by (simp add: list_all_iff)
    from in_order_elements [OF this False, of "'' ''" "[]" "[]"] show ?thesis by simp
  qed (use empty_list [of "[]"] in simp)
next
  case (JObj d)
  have m: "(\<lambda>(k, t). dumps_str k @ '': '' @ t) = member" by (auto simp: member_def)
  show ?case
  proof (cases "d = []")
    case False
    have "is_text k \<and> renders (in_order x) (json_dumps x)" if "(k, x) \<in> set d" for k x
      using JObj that by (force simp: list_all_iff snds.simps)
    from in_order_members [OF _ this False, of "'' ''" "[]" "[]"] show ?thesis using JObj.prems m by simp
  qed (use empty_obj [of "[]"] in simp)
next
  case (JBool b)
  then show ?case by (cases b) (simp_all add: true false)
qed (simp_all add: null int str float nonfinite)

lemma json_dumps_indent_renders: "plain_json v \<Longrightarrow> renders (in_order v) (json_dumps_indent l v)"
proof (induction v arbitrary: l)
  case (JList vs)
  show ?case
  proof (cases "vs = []")
    case False
    have "renders (in_order x) (json_dumps_indent (Suc l) x)" if "x \<in> set vs" for x
      using JList that by (simp add: list_all_iff)
    from in_order_elements [OF this False ws_level [of "Suc l"] ws_level [of l] ws_level [of "Suc l"]] False
    show ?thesis by (simp add: enclose_def)
  qed (use empty_list [of "[]"] in \<open>simp add: enclose_def\<close>)
next
  case (JObj d)
  have m: "(\<lambda>(k, t). dumps_str k @ '': '' @ t) = member" by (auto simp: member_def)
  show ?case
  proof (cases "d = []")
    case False
    have "is_text k \<and> renders (in_order x) (json_dumps_indent (Suc l) x)" if "(k, x) \<in> set d" for k x
      using JObj that by (force simp: list_all_iff snds.simps)
    from in_order_members [OF _ this False ws_level [of "Suc l"] ws_level [of l] ws_level [of "Suc l"]] JObj.prems
    have r: "renders (in_order (JObj d)) (''{'' @ on_level (Suc l) @ join ('','' @ on_level (Suc l))
        (map member (sort_key fst (map (\<lambda>(k, v). (k, json_dumps_indent (Suc l) v)) d))) @ on_level l @ ''}'')" by simp
    have "sort_key fst (map (\<lambda>(k, v). (k, json_dumps_indent (Suc l) v)) d) \<noteq> []"
      using False by (metis length_0_conv length_map length_sort)
    then show ?thesis using r m by (simp add: enclose_def)
  qed (use empty_obj [of "[]"] in \<open>simp add: enclose_def\<close>)
next
  case (JBool b)
  then show ?case by (cases b) (simp_all add: true false)
qed (simp_all add: null int str float nonfinite)

theorem json_loads_dumps:
  "plain_json v \<Longrightarrow> json_loads (json_dumps v) = Some (in_order v)"
  "plain_json v \<Longrightarrow> json_loads (json_dumps_indent l v) = Some (in_order v)"
  using json_loads_rendered json_dumps_renders json_dumps_indent_renders by blast+

subsection \<open>What is written is ASCII on lines\<close>

definition on_lines :: "string \<Rightarrow> bool" where
  "on_lines t \<longleftrightarrow> list_all (\<lambda>c. c = newline \<or> printable c) t"

lemma on_lines_simps [simp]:
  "on_lines []" "on_lines (c # t) \<longleftrightarrow> (c = newline \<or> printable c) \<and> on_lines t"
  "on_lines (s @ t) \<longleftrightarrow> on_lines s \<and> on_lines t"
  by (simp_all add: on_lines_def)

lemma on_lines_marks [simp]:
  "printable (CHR '','')" "printable (CHR '':'')" "printable (CHR '' '')" "printable (CHR ''['')" "printable (CHR '']'')"
  "printable (CHR ''{'')" "printable (CHR ''}'')"
  by (simp_all add: printable_def)

lemma on_lines_join: "on_lines sep \<Longrightarrow> list_all on_lines ts \<Longrightarrow> on_lines (join sep ts)"
  by (induction sep ts rule: join.induct) auto

lemma on_lines_digits: "isdigit s \<Longrightarrow> on_lines s"
  by (auto simp: isdigit_def on_lines_def list_all_iff printable_def is_digit_def)

lemma on_lines_int: "on_lines (show_int i)"
  using on_lines_digits [OF isdigit_show_nat] by (auto simp: show_int_def printable_def)

lemma on_lines_str: "on_lines (dumps_str s)"
  using dumps_str_plain [of s] by (auto simp: on_lines_def list_all_iff)

lemma on_lines_float: "float_repr i s \<Longrightarrow> on_lines s"
proof -
  have "number_char x \<Longrightarrow> printable x" for x
    by (auto simp: number_char_def printable_def is_digit_def)
  then show "float_repr i s \<Longrightarrow> on_lines s"
    using float_repr_chars [of i s] by (auto simp: on_lines_def list_all_iff)
qed

lemma on_lines_level: "on_lines (on_level l)"
  by (simp add: on_level_def on_lines_def list_all_iff)

lemma on_lines_scalar:
  "on_lines ''null''" "on_lines ''true''" "on_lines ''false''" "s \<in> {''NaN'', ''Infinity'', ''-Infinity''} \<Longrightarrow> on_lines s"
  by (auto simp: printable_def)

lemma on_lines_enclose: "list_all on_lines ts \<Longrightarrow> printable p \<Longrightarrow> printable q \<Longrightarrow> on_lines (enclose l p q ts)"
  by (auto simp: enclose_def intro!: on_lines_join on_lines_level)

theorem written_on_lines: "plain_json v \<Longrightarrow> on_lines (json_dumps_indent l v)"
proof (induction v arbitrary: l)
  case (JList vs)
  then show ?case by (auto simp: list_all_iff intro!: on_lines_enclose)
next
  case (JObj d)
  have "list_all on_lines (map (\<lambda>(k, t). dumps_str k @ '': '' @ t) (sort_key fst (map (\<lambda>(k, v). (k, json_dumps_indent (Suc l) v)) d)))"
    using JObj by (force simp: list_all_iff snds.simps on_lines_str)
  then show ?case by (simp add: on_lines_enclose)
next
  case (JBool b)
  then show ?case by (cases b) (simp_all add: on_lines_scalar del: on_lines_simps)
qed (auto simp: on_lines_scalar on_lines_int on_lines_str on_lines_float simp del: on_lines_simps)

lemma on_lines_text: "on_lines t \<Longrightarrow> is_text t"
  by (rule ascii_is_text) (auto simp: on_lines_def ascii_def list_all_iff printable_def newline_def)

lemma on_lines_plain: "on_lines t \<Longrightarrow> char_of (13 :: nat) \<notin> set t"
  by (auto simp: on_lines_def list_all_iff printable_def newline_def)

end
