(* ===== verification/Text_Ops.thy ===== *)
theory Text_Ops
  imports Prelude
begin

text \<open>
  The Python text operations the worker's documents use: \<open>find\<close>, \<open>split\<close> on a character, \<open>in\<close> on text, and
  the search of a block between an opening and a closing text, which is what the regular expressions of
  the form \<open>open(.*?)close\<close> with \<open>DOTALL\<close> look for.
\<close>

text \<open>\<open>s.find (p)\<close>, with \<open>None\<close> for \<open>-1\<close>.\<close>

fun find_text :: "string \<Rightarrow> string \<Rightarrow> nat option" where
  "find_text p [] = (if p = [] then Some 0 else None)"
| "find_text p (c # s) = (if startswith (c # s) p then Some 0 else map_option Suc (find_text p s))"

definition contains_text :: "string \<Rightarrow> string \<Rightarrow> bool" where
  "contains_text s p \<longleftrightarrow> find_text p s \<noteq> None"

text \<open>\<open>s.split (c)\<close>, and \<open>s.split (c, n)\<close>.\<close>

fun split_on :: "char \<Rightarrow> string \<Rightarrow> string list" where
  "split_on c [] = [[]]"
| "split_on c (x # s) =
     (if x = c then [] # split_on c s
      else (case split_on c s of [] \<Rightarrow> [[x]] | p # ps \<Rightarrow> (x # p) # ps))"

definition split_max :: "nat \<Rightarrow> char \<Rightarrow> string \<Rightarrow> string list" where
  "split_max n c s =
     (let ps = split_on c s in if length ps \<le> Suc n then ps else take n ps @ [join [c] (drop n ps)])"

text \<open>Digits with single underscores between them, and a text without its sign.\<close>

fun digit_part :: "string \<Rightarrow> bool" where
  "digit_part [] = False"
| "digit_part [c] = is_digit c"
| "digit_part (c # d # s) = (is_digit c \<and> (if d = CHR ''_'' then digit_part s else digit_part (d # s)))"

definition unsigned :: "string \<Rightarrow> string" where
  "unsigned s = (case s of c # r \<Rightarrow> if c = CHR ''+'' \<or> c = CHR ''-'' then r else s | [] \<Rightarrow> [])"

text \<open>\<open>int (s)\<close>, with \<open>None\<close> for \<open>ValueError\<close>.\<close>

definition py_int :: "string \<Rightarrow> int option" where
  "py_int s =
     (let t = strip s; u = unsigned t in
      if digit_part u
      then Some ((if startswith t ''-'' then - 1 else 1) * int (read_nat (filter is_digit u)))
      else None)"

text \<open>What \<open>float (..)\<close> accepts of a text: digits, a fraction, an exponent.\<close>

definition float_text :: "string \<Rightarrow> bool" where
  "float_text s =
     (let u = unsigned (lower (strip s));
          m = takeWhile (\<lambda>c. c \<noteq> CHR ''e'') u; e = drop (length m) u;
          i = takeWhile (\<lambda>c. c \<noteq> CHR ''.'') m; f = drop (length i) m
      in u \<in> {''inf'', ''infinity'', ''nan''}
         \<or> ((e = [] \<or> digit_part (unsigned (drop 1 e)))
            \<and> (if f = [] then digit_part i
               else (i = [] \<or> digit_part i) \<and> (drop 1 f = [] \<or> digit_part (drop 1 f)) \<and> i @ drop 1 f \<noteq> [])))"

text \<open>The shortest text up to a closing one, and what follows it.\<close>

fun upto :: "string \<Rightarrow> string \<Rightarrow> (string \<times> string) option" where
  "upto cl [] = (if cl = [] then Some ([], []) else None)"
| "upto cl (c # s) =
     (if startswith (c # s) cl then Some ([], drop (length cl) (c # s))
      else map_option (apfst (Cons c)) (upto cl s))"

definition block_at :: "string \<Rightarrow> string \<Rightarrow> string \<Rightarrow> (string \<times> string) option" where
  "block_at op cl s = (if startswith s op then upto cl (drop (length op) s) else None)"

fun block_search :: "string \<Rightarrow> string \<Rightarrow> string \<Rightarrow> string option" where
  "block_search op cl [] = None"
| "block_search op cl (c # s) =
     (case block_at op cl (c # s) of Some (g, r) \<Rightarrow> Some g | None \<Rightarrow> block_search op cl s)"

text \<open>\<open>re.sub (pattern, "", s)\<close>; the counter skips the rest of a match.\<close>

fun sub_all :: "(string \<Rightarrow> string option) \<Rightarrow> nat \<Rightarrow> string \<Rightarrow> string" where
  "sub_all m k [] = []"
| "sub_all m (Suc k) (c # s) = sub_all m k s"
| "sub_all m 0 (c # s) =
     (case m (c # s) of Some t \<Rightarrow> sub_all m (length s - length t) s | None \<Rightarrow> c # sub_all m 0 s)"

subsection \<open>Facts\<close>

lemma find_text_Some: "find_text p s = Some n \<Longrightarrow> \<exists>r. drop n s = p @ r \<and> n \<le> length s"
proof (induction s arbitrary: n)
  case (Cons c s)
  then show ?case by (auto simp: startswith_iff split: if_splits)
qed (simp split: if_splits)

text \<open>A mark that does not occur before, and is not begun before either.\<close>

definition fresh_mark :: "string \<Rightarrow> string \<Rightarrow> bool" where
  "fresh_mark p s \<longleftrightarrow> p \<noteq> [] \<and> \<not> contains_text (s @ butlast p) p"

lemma fresh_mark_Cons:
  assumes "fresh_mark p (c # s)"
  shows "\<not> startswith (c # s @ p @ r) p" "fresh_mark p s"
proof -
  have p: "p = butlast p @ [last p]" using assms by (simp add: fresh_mark_def)
  have "take (length p) (c # s @ p @ r) = take (length p) ((c # s @ butlast p) @ [last p] @ r)"
    by (subst (2) p) simp
  also have "\<dots> = take (length p) (c # s @ butlast p)"
    using assms by (cases p) (simp_all add: fresh_mark_def)
  finally show "\<not> startswith (c # s @ p @ r) p"
    using assms by (auto simp: fresh_mark_def contains_text_def startswith_def)
  show "fresh_mark p s" using assms by (auto simp: fresh_mark_def contains_text_def split: if_splits)
qed

lemma find_text_fresh: "fresh_mark p s \<Longrightarrow> find_text p (s @ p @ r) = Some (length s)"
proof (induction s)
  case Nil
  then obtain c q where "p = c # q" by (cases p) (auto simp: fresh_mark_def)
  then show ?case by (simp add: startswith_def)
next
  case (Cons c s)
  then show ?case using fresh_mark_Cons(1) [OF Cons.prems, of r] fresh_mark_Cons(2) [OF Cons.prems] by simp
qed

lemma upto_fresh: "fresh_mark p s \<Longrightarrow> upto p (s @ p @ r) = Some (s, r)"
proof (induction s)
  case Nil
  then obtain c q where "p = c # q" by (cases p) (auto simp: fresh_mark_def)
  then show ?case by (simp add: startswith_def)
next
  case (Cons c s)
  then show ?case using fresh_mark_Cons(1) [OF Cons.prems, of r] fresh_mark_Cons(2) [OF Cons.prems] by simp
qed

lemma block_search_fresh:
  assumes "fresh_mark cl g"
  shows "fresh_mark op s \<Longrightarrow> block_search op cl (s @ op @ g @ cl @ r) = Some g"
proof (induction s)
  case Nil
  have "block_at op cl (op @ g @ cl @ r) = Some (g, r)" using upto_fresh [OF assms] by (simp add: block_at_def)
  moreover obtain c q where "op = c # q" using Nil by (cases op) (auto simp: fresh_mark_def)
  ultimately show ?case by simp
next
  case (Cons c s)
  then show ?case using fresh_mark_Cons(1) [OF Cons.prems, of "g @ cl @ r"] fresh_mark_Cons(2) [OF Cons.prems] by (simp add: block_at_def)
qed

lemma split_on_not_Nil [simp]: "split_on c s \<noteq> []"
  by (induction s) (auto split: list.split)

lemma join_split_on: "join [c] (split_on c s) = s"
proof (induction s)
  case (Cons x s)
  obtain p ps where "split_on c s = p # ps" by (cases "split_on c s") auto
  then show ?case using Cons by (cases ps) auto
qed simp

text \<open>The universal newlines of a file read as text.\<close>

fun universal_newlines :: "string \<Rightarrow> string" where
  "universal_newlines [] = []"
| "universal_newlines [c] = [if c = char_of (13 :: nat) then newline else c]"
| "universal_newlines (c # d # s) =
     (if c \<noteq> char_of (13 :: nat) then c # universal_newlines (d # s)
      else if d = newline then newline # universal_newlines s
      else newline # universal_newlines (d # s))"

lemma universal_newlines_plain: "char_of (13 :: nat) \<notin> set s \<Longrightarrow> universal_newlines s = s"
  by (induction s rule: universal_newlines.induct) auto

text \<open>\<open>splitlines\<close>: how many bytes of line break a text starts with.\<close>

definition break_at :: "string \<Rightarrow> nat" where
  "break_at s =
     (case map (of_char :: char \<Rightarrow> nat) (take 3 s) of
        [] \<Rightarrow> 0
      | n # r \<Rightarrow>
          if n = 13 then (if take 1 r = [10] then 2 else 1)
          else if n \<in> {10, 11, 12, 28, 29, 30} then 1
          else if n = 194 \<and> take 1 r = [133] then 2
          else if n = 226 \<and> (r = [128, 168] \<or> r = [128, 169]) then 3
          else 0)"

fun lines_from :: "string \<Rightarrow> string \<Rightarrow> string list" where
  "lines_from cur [] = (if cur = [] then [] else [rev cur])"
| "lines_from cur (c # s) =
     (if break_at (c # s) = 0 then lines_from (c # cur) s
      else rev cur # lines_from [] (drop (break_at (c # s) - 1) s))"

definition splitlines :: "string \<Rightarrow> string list" where
  "splitlines s = lines_from [] s"

end
