(* ===== verification/Jobdir.thy ===== *)
theory Jobdir
  imports Json_Roundtrip Text_Ops
begin

text \<open>
  The job directory between a driver and the harness (\<open>worker/.../jobdir.py\<close>): every document that crosses the
  container boundary, with its reader and writer. The directory is the list of its text files by relative path;
  a write replaces the file whole. A reader's outer \<open>None\<close> is an exception of \<open>int\<close> or \<open>float\<close>.
\<close>

type_synonym job_dir = "(string \<times> string) list"

definition CONTAINER_JOB_PATH :: string where "CONTAINER_JOB_PATH = ''/job''"
definition MODE_RUN :: string where "MODE_RUN = ''run''"
definition MODE_REVIEW :: string where "MODE_REVIEW = ''review''"
definition MODE_DRYRUN :: string where "MODE_DRYRUN = ''identity-dryrun''"
definition PHASE_STARTING :: string where "PHASE_STARTING = ''starting''"
definition PHASE_AGENT :: string where "PHASE_AGENT = ''agent''"
definition PHASE_SERVING_JOBS :: string where "PHASE_SERVING_JOBS = ''serving-jobs''"
definition PHASE_DONE :: string where "PHASE_DONE = ''done''"
definition PHASE_FAILED :: string where "PHASE_FAILED = ''failed''"
definition MANIFEST_FILE :: string where "MANIFEST_FILE = ''input/manifest.json''"
definition PROMPT_FILE :: string where "PROMPT_FILE = ''input/prompt.md''"
definition STATUS_FILE :: string where "STATUS_FILE = ''output/status.json''"
definition TRANSCRIPT_FILE :: string where "TRANSCRIPT_FILE = ''output/transcript.txt''"
definition IDENTITY_FILE :: string where "IDENTITY_FILE = ''output/identity.json''"
definition JOBS_IN_DIR :: string where "JOBS_IN_DIR = ''input/jobs''"
definition JOBS_OUT_DIR :: string where "JOBS_OUT_DIR = ''output/jobs''"
definition CHECKOUT_DIR :: string where "CHECKOUT_DIR = ''checkout''"

fun atomic_write :: "string \<Rightarrow> string \<Rightarrow> job_dir \<Rightarrow> job_dir" where
  "atomic_write path text [] = [(path, text)]"
| "atomic_write path text ((p, t) # job) = (if p = path then (p, text) # job else (p, t) # atomic_write path text job)"

definition write_json :: "string \<Rightarrow> json \<Rightarrow> job_dir \<Rightarrow> job_dir" where
  "write_json path v = atomic_write path (json_dumps_indent 0 v)"

text \<open>\<open>read_text (encoding="utf-8")\<close> of the bytes of a file; bytes that are no UTF-8 raise, which is \<open>None\<close>.\<close>

definition decoded :: "string \<Rightarrow> string option" where
  "decoded bytes = (if is_text bytes then Some (universal_newlines bytes) else None)"

text \<open>
  \<open>_read_json\<close> answers \<open>Some None\<close> for a missing file and for one that is no JSON object; it does not catch
  \<open>UnicodeDecodeError\<close>, and then the answer is \<open>None\<close>. The readers below hand that on.
\<close>

definition read_json :: "string \<Rightarrow> job_dir \<Rightarrow> dict option option" where
  "read_json path job =
     (case map_of job path of
        None \<Rightarrow> Some None
      | Some bytes \<Rightarrow>
          map_option (\<lambda>text. case json_loads text of Some (JObj d) \<Rightarrow> Some d | _ \<Rightarrow> None) (decoded bytes))"

subsection \<open>The manifest\<close>

record manifest =
  mf_run_id :: string
  mf_mode :: string
  mf_adapter :: string
  mf_workdir :: string
  mf_agent_timeout :: json
  mf_jobs_idle_timeout :: json
  mf_round :: int
  mf_round_budget :: int
  mf_schema_version :: int

definition serve_jobs_mode :: "manifest \<Rightarrow> bool" where
  "serve_jobs_mode m \<longleftrightarrow> mf_mode m = MODE_RUN"

definition final_round :: "manifest \<Rightarrow> bool" where
  "final_round m \<longleftrightarrow> 0 < mf_round_budget m \<and> mf_round_budget m \<le> mf_round m"

definition manifest_values :: "manifest \<Rightarrow> dict" where
  "manifest_values m =
     [(''run_id'', JStr (mf_run_id m)), (''mode'', JStr (mf_mode m)), (''adapter'', JStr (mf_adapter m)),
      (''workdir'', JStr (mf_workdir m)), (''agent_timeout_seconds'', mf_agent_timeout m),
      (''jobs_idle_timeout_seconds'', mf_jobs_idle_timeout m), (''round'', JInt (mf_round m)),
      (''round_budget'', JInt (mf_round_budget m)), (''schema_version'', JInt (mf_schema_version m))]"

definition write_manifest :: "manifest \<Rightarrow> job_dir \<Rightarrow> job_dir" where
  "write_manifest m = write_json MANIFEST_FILE (JObj (manifest_values m))"

text \<open>
  \<open>Manifest (**data)\<close> takes the values untyped, whatever their type: the read manifest is the list of its
  fields with the defaults filled in; a key it does not have or a missing one of the first three is an error.
\<close>

definition manifest_defaults :: dict where
  "manifest_defaults =
     [(''workdir'', JStr CHECKOUT_DIR), (''agent_timeout_seconds'', JFloat 3600 ''3600.0''),
      (''jobs_idle_timeout_seconds'', JFloat 600 ''600.0''), (''round'', JInt 0), (''round_budget'', JInt 0),
      (''schema_version'', JInt 0)]"

definition manifest_fields :: "string list" where
  "manifest_fields = [''run_id'', ''mode'', ''adapter''] @ map fst manifest_defaults"

definition read_manifest :: "job_dir \<Rightarrow> dict option" where
  "read_manifest job =
     (case read_json MANIFEST_FILE job of
        None \<Rightarrow> None
      | Some None \<Rightarrow> None
      | Some (Some d) \<Rightarrow>
          if list_all (\<lambda>k. k \<in> set manifest_fields) (map fst d) \<and> list_all (dhas d) [''run_id'', ''mode'', ''adapter'']
          then Some (map (\<lambda>k. (k, dget_or d k (dget manifest_defaults k))) manifest_fields)
          else None)"

subsection \<open>The status\<close>

record agent_outcome =
  ao_completed :: bool
  ao_timed_out :: bool
  ao_session_died :: bool
  ao_exit_code :: "int option"

definition no_outcome :: agent_outcome where
  "no_outcome = \<lparr>ao_completed = False, ao_timed_out = False, ao_session_died = False, ao_exit_code = None\<rparr>"

definition describe_outcome :: "agent_outcome \<Rightarrow> string" where
  "describe_outcome a =
     (if ao_completed a then ''completed''
      else if ao_timed_out a then ''timed out''
      else if ao_session_died a
      then ''session died'' @ (case ao_exit_code a of None \<Rightarrow> [] | Some c \<Rightarrow> '' (exit '' @ show_int c @ '')'')
      else ''unknown'')"

record status =
  st_phase :: string
  st_agent :: "agent_outcome option"
  st_error :: string

definition outcome_json :: "agent_outcome \<Rightarrow> json" where
  "outcome_json a = JObj
     [(''completed'', JBool (ao_completed a)), (''timed_out'', JBool (ao_timed_out a)),
      (''session_died'', JBool (ao_session_died a)),
      (''exit_code'', case ao_exit_code a of None \<Rightarrow> JNull | Some c \<Rightarrow> JInt c)]"

definition status_json :: "status \<Rightarrow> json" where
  "status_json s = JObj
     ([(''phase'', JStr (st_phase s)), (''error'', JStr (st_error s))]
      @ (case st_agent s of None \<Rightarrow> [] | Some a \<Rightarrow> [(''agent'', outcome_json a)]))"

definition write_status :: "status \<Rightarrow> job_dir \<Rightarrow> job_dir" where
  "write_status s = write_json STATUS_FILE (status_json s)"

definition code_of :: "json \<Rightarrow> int option" where
  "code_of v = (case v of JInt i \<Rightarrow> Some i | JBool b \<Rightarrow> Some (if b then 1 else 0) | _ \<Rightarrow> None)"

definition outcome_from :: "dict \<Rightarrow> agent_outcome" where
  "outcome_from d =
     \<lparr>ao_completed = truthy (dget d ''completed''), ao_timed_out = truthy (dget d ''timed_out''),
      ao_session_died = truthy (dget d ''session_died''), ao_exit_code = code_of (dget d ''exit_code'')\<rparr>"

definition status_read :: "dict \<Rightarrow> status option" where
  "status_read d =
     (case dget d ''phase'' of
        JStr phase \<Rightarrow> Some
          \<lparr>st_phase = phase,
           st_agent = (case dget d ''agent'' of JObj a \<Rightarrow> Some (outcome_from a) | _ \<Rightarrow> None),
           st_error = py_str (dget_or d ''error'' (JStr []))\<rparr>
      | _ \<Rightarrow> None)"

definition read_status :: "job_dir \<Rightarrow> status option option" where
  "read_status job = map_option (\<lambda>d. Option.bind d status_read) (read_json STATUS_FILE job)"

definition write_identity :: "dict \<Rightarrow> job_dir \<Rightarrow> job_dir" where
  "write_identity d = write_json IDENTITY_FILE (JObj d)"

definition read_identity :: "job_dir \<Rightarrow> dict option option" where
  "read_identity job = read_json IDENTITY_FILE job"

subsection \<open>Jobs\<close>

record job_request =
  jq_name :: string
  jq_command :: string
  jq_timeout :: json

record job_result =
  jr_name :: string
  jr_ok :: bool
  jr_exit_code :: int
  jr_output :: string

definition job_file :: "string \<Rightarrow> string \<Rightarrow> string" where
  "job_file dir name = dir @ ''/'' @ name @ ''.json''"

definition request_json :: "job_request \<Rightarrow> json" where
  "request_json q = JObj
     [(''name'', JStr (jq_name q)), (''command'', JStr (jq_command q)), (''timeout_seconds'', jq_timeout q)]"

definition write_job_request :: "job_request \<Rightarrow> job_dir \<Rightarrow> job_dir" where
  "write_job_request q = write_json (job_file JOBS_IN_DIR (jq_name q)) (request_json q)"

text \<open>\<open>float (v)\<close> of a JSON value; an accepted value stands for itself.\<close>

definition float_of :: "json \<Rightarrow> json option" where
  "float_of v = (case v of
       JFloat i s \<Rightarrow> Some v
     | JNonfinite s \<Rightarrow> Some v
     | JInt i \<Rightarrow> if \<bar>i\<bar> < 2 ^ 1024 - 2 ^ 970 then Some v else None
     | JBool b \<Rightarrow> Some v
     | JStr s \<Rightarrow> if float_text s then Some v else None
     | _ \<Rightarrow> None)"

definition request_from :: "dict \<Rightarrow> job_request option option" where
  "request_from d =
     (case dget d ''name'' of
        JStr name \<Rightarrow>
          (case float_of (dget_or d ''timeout_seconds'' (JFloat 900 ''900.0'')) of
             None \<Rightarrow> None
           | Some t \<Rightarrow> Some (Some \<lparr>jq_name = name, jq_command = py_str (dget_or d ''command'' (JStr [])), jq_timeout = t\<rparr>))
      | _ \<Rightarrow> Some None)"

definition read_job_request :: "string \<Rightarrow> job_dir \<Rightarrow> job_request option option" where
  "read_job_request path job = (case read_json path job of None \<Rightarrow> None | Some None \<Rightarrow> Some None | Some (Some d) \<Rightarrow> request_from d)"

definition result_json :: "job_result \<Rightarrow> json" where
  "result_json r = JObj
     [(''name'', JStr (jr_name r)), (''ok'', JBool (jr_ok r)), (''exit_code'', JInt (jr_exit_code r)),
      (''output'', JStr (jr_output r))]"

definition write_job_result :: "job_result \<Rightarrow> job_dir \<Rightarrow> job_dir" where
  "write_job_result r = write_json (job_file JOBS_OUT_DIR (jr_name r)) (result_json r)"

definition int_of_number :: "json \<Rightarrow> int option" where
  "int_of_number v = (case v of
       JInt i \<Rightarrow> Some i | JBool b \<Rightarrow> Some (if b then 1 else 0) | JFloat i s \<Rightarrow> Some i | JStr s \<Rightarrow> py_int s | _ \<Rightarrow> None)"

definition result_from :: "dict \<Rightarrow> job_result option option" where
  "result_from d =
     (case dget d ''name'' of
        JStr name \<Rightarrow>
          (case int_of_number (dget_or d ''exit_code'' (JInt (- 1))) of
             None \<Rightarrow> None
           | Some c \<Rightarrow> Some (Some \<lparr>jr_name = name, jr_ok = truthy (dget d ''ok''), jr_exit_code = c,
                                jr_output = py_str (dget_or d ''output'' (JStr []))\<rparr>))
      | _ \<Rightarrow> Some None)"

definition read_job_result :: "string \<Rightarrow> job_dir \<Rightarrow> job_result option option" where
  "read_job_result name job =
     (case read_json (job_file JOBS_OUT_DIR name) job of None \<Rightarrow> None | Some None \<Rightarrow> Some None | Some (Some d) \<Rightarrow> result_from d)"

text \<open>The names (with their suffix) of the \<open>*.json\<close> files directly under a directory.\<close>

definition json_names :: "string \<Rightarrow> job_dir \<Rightarrow> string list" where
  "json_names dir job =
     filter (\<lambda>n. CHR ''/'' \<notin> set n \<and> endswith n ''.json'')
       (map (drop (length dir + 1)) (filter (\<lambda>p. startswith p (dir @ ''/'')) (map fst job)))"

definition pending_job_requests :: "job_dir \<Rightarrow> string list" where
  "pending_job_requests job =
     sort (filter (\<lambda>n. n \<notin> set (json_names JOBS_OUT_DIR job) \<and> \<not> startswith n ''.'') (json_names JOBS_IN_DIR job))"

subsection \<open>Reading back\<close>

lemma read_written: "map_of (atomic_write path text job) p = (if p = path then Some text else map_of job p)"
  by (induction path "text" job rule: atomic_write.induct) auto

lemma decoded_rendered: "plain_json v \<Longrightarrow> decoded (json_dumps_indent l v) = Some (json_dumps_indent l v)"
  using written_on_lines [of v l] by (simp add: decoded_def on_lines_text universal_newlines_plain on_lines_plain)

lemma read_write_json:
  assumes "plain_json (JObj d)"
  shows "read_json path (write_json path (JObj d) job)
     = Some (Some (sort_key fst (map (\<lambda>(k, v). (k, in_order v)) d)))"
  using json_loads_dumps(2) [OF assms, of 0] decoded_rendered [OF assms, of 0]
  by (simp add: read_json_def write_json_def read_written del: json_dumps_indent.simps)

lemma read_other_json: "p \<noteq> path \<Longrightarrow> read_json p (write_json path v job) = read_json p job"
  by (simp add: read_json_def write_json_def read_written)

text \<open>A timeout as the drivers write it, and text that is well-formed UTF-8.\<close>

definition timeout_value :: "json \<Rightarrow> bool" where
  "timeout_value v \<longleftrightarrow> (case v of JFloat i s \<Rightarrow> float_repr i s | JInt i \<Rightarrow> \<bar>i\<bar> < 2 ^ 1024 - 2 ^ 970 | _ \<Rightarrow> False)"

lemma timeout_value_simps:
  "timeout_value v \<Longrightarrow> plain_json v" "timeout_value v \<Longrightarrow> in_order v = v" "timeout_value v \<Longrightarrow> float_of v = Some v"
  by (cases v; simp add: timeout_value_def float_of_def)+

lemma job_keys [simp]:
  "is_text ''run_id''" "is_text ''mode''" "is_text ''adapter''" "is_text ''workdir''" "is_text ''agent_timeout_seconds''"
  "is_text ''jobs_idle_timeout_seconds''" "is_text ''round''" "is_text ''round_budget''" "is_text ''schema_version''"
  "is_text ''phase''" "is_text ''error''" "is_text ''agent''" "is_text ''completed''" "is_text ''timed_out''"
  "is_text ''session_died''" "is_text ''exit_code''" "is_text ''name''" "is_text ''command''" "is_text ''timeout_seconds''"
  "is_text ''ok''" "is_text ''output''" "is_text []"
  by (simp_all add: ascii_is_text ascii_def)

definition text_manifest :: "manifest \<Rightarrow> bool" where
  "text_manifest m \<longleftrightarrow>
     list_all is_text [mf_run_id m, mf_mode m, mf_adapter m, mf_workdir m]
     \<and> timeout_value (mf_agent_timeout m) \<and> timeout_value (mf_jobs_idle_timeout m)"

lemma manifest_reads_back:
  assumes "text_manifest m"
  shows "read_manifest (write_manifest m job) = Some (manifest_values m)"
proof -
  have "plain_json (JObj (manifest_values m))"
    using assms by (simp add: text_manifest_def manifest_values_def timeout_value_simps)
  from read_write_json [OF this, of MANIFEST_FILE job] show ?thesis
    using assms by (simp add: read_manifest_def write_manifest_def manifest_values_def manifest_fields_def
        manifest_defaults_def text_manifest_def timeout_value_simps dget_or_def dhas_def)
qed

lemma status_reads_back:
  assumes "is_text (st_phase s)" "is_text (st_error s)"
  shows "read_status (write_status s job) = Some (Some s)"
proof -
  have "plain_json (status_json s)"
    using assms by (auto simp: status_json_def outcome_json_def split: option.splits)
  then have "read_json STATUS_FILE (write_status s job)
      = Some (Some (sort_key fst (map (\<lambda>(k, v). (k, in_order v)) ([(''phase'', JStr (st_phase s)), (''error'', JStr (st_error s))]
      @ (case st_agent s of None \<Rightarrow> [] | Some a \<Rightarrow> [(''agent'', outcome_json a)])))))"
    unfolding write_status_def status_json_def by (rule read_write_json)
  then show ?thesis
  proof (cases "st_agent s")
    case (Some a)
    then show ?thesis using \<open>read_json STATUS_FILE (write_status s job) = _\<close>
      by (cases s; cases a; cases "ao_exit_code a")
        (simp_all add: read_status_def status_read_def outcome_from_def outcome_json_def code_of_def dget_or_def py_str_def)
  qed (cases s, simp add: read_status_def status_read_def dget_or_def py_str_def)
qed

definition text_request :: "job_request \<Rightarrow> bool" where
  "text_request q \<longleftrightarrow> is_text (jq_name q) \<and> is_text (jq_command q) \<and> timeout_value (jq_timeout q)"

lemma request_reads_back:
  assumes "text_request q"
  shows "read_job_request (job_file JOBS_IN_DIR (jq_name q)) (write_job_request q job) = Some (Some q)"
proof -
  have "plain_json (request_json q)"
    using assms by (simp add: request_json_def text_request_def timeout_value_simps)
  from read_write_json [OF this [unfolded request_json_def], of "job_file JOBS_IN_DIR (jq_name q)" job] show ?thesis
    using assms by (cases q) (simp add: read_job_request_def write_job_request_def request_json_def request_from_def
        text_request_def timeout_value_simps dget_or_def py_str_def)
qed

lemma result_reads_back:
  assumes "is_text (jr_name r)" "is_text (jr_output r)"
  shows "read_job_result (jr_name r) (write_job_result r job) = Some (Some r)"
proof -
  have "plain_json (result_json r)" using assms by (simp add: result_json_def)
  from read_write_json [OF this [unfolded result_json_def], of "job_file JOBS_OUT_DIR (jr_name r)" job] show ?thesis
    by (cases r) (simp add: read_job_result_def write_job_result_def result_json_def result_from_def
        int_of_number_def dget_or_def py_str_def)
qed

end
