(* ===== verification/Git_Ops.thy ===== *)
theory Git_Ops
  imports Github
begin

text \<open>
  The driver's git operations on a checkout (\<open>worker/.../gitops.py\<close>): every one is a subprocess whose exit code
  and output the environment answers, and the trace of the world keeps them in order with the containers that
  had the checkout mounted and the files of its git directory the driver wrote..
\<close>

subsection \<open>The subprocess\<close>

definition MAINTENANCE_OFF :: "string list" where
  "MAINTENANCE_OFF = [''-c'', ''maintenance.auto=false'', ''-c'', ''gc.auto=0'']"

definition run_git :: "env \<Rightarrow> bool \<Rightarrow> string list \<Rightarrow> string \<Rightarrow> git_result run" where
  "run_git env auth args cwd w =
     (let call = \<lparr>gc_args = MAINTENANCE_OFF @ args, gc_cwd = cwd, gc_auth = auth\<rparr>
      in (en_git env (wd_git w) call, w\<lparr>wd_git := wd_git w @ [Git call]\<rparr>))"

definition git_failed :: "string list \<Rightarrow> git_result \<Rightarrow> exn" where
  "git_failed args r = Git_Error (''git '' @ join '' '' args @ '' failed: '' @ strip (gr_err r))"

definition git_checked :: "env \<Rightarrow> bool \<Rightarrow> string list \<Rightarrow> string \<Rightarrow> string run" where
  "git_checked env auth args cwd =
     bindE (run_git env auth args cwd) (\<lambda>r.
       if gr_code r \<noteq> 0 then raise (git_failed args r) else ret (strip (gr_out r)))"

text \<open>\<open>check=False\<close> keeps the output whatever the exit code.\<close>

definition git_unchecked :: "env \<Rightarrow> bool \<Rightarrow> string list \<Rightarrow> string \<Rightarrow> string run" where
  "git_unchecked env auth args cwd = bindE (run_git env auth args cwd) (\<lambda>r. ret (strip (gr_out r)))"

definition git_do :: "env \<Rightarrow> bool \<Rightarrow> string list \<Rightarrow> string \<Rightarrow> unit run" where
  "git_do env auth args cwd = bindE (git_checked env auth args cwd) (\<lambda>_. ret ())"

definition git_ok :: "env \<Rightarrow> string list \<Rightarrow> string \<Rightarrow> bool run" where
  "git_ok env args cwd = bindE (run_git env False args cwd) (\<lambda>r. ret (gr_code r = 0))"

subsection \<open>Operations\<close>

definition clone_args :: "string \<Rightarrow> string \<Rightarrow> string \<Rightarrow> string option \<Rightarrow> string list" where
  "clone_args url dest branch reference =
     (case reference of None \<Rightarrow> [] | Some m \<Rightarrow> [''-c'', ''core.commitGraph=false''])
     @ [''clone'', ''--quiet'']
     @ (case reference of None \<Rightarrow> [] | Some m \<Rightarrow> [''--reference'', m, ''--dissociate''])
     @ (if branch = [] then [] else [''--branch'', branch]) @ [url, dest]"

definition clone :: "env \<Rightarrow> string \<Rightarrow> string \<Rightarrow> string \<Rightarrow> string option \<Rightarrow> unit run" where
  "clone env url dest branch reference =
     bindE (run_git env True (clone_args url dest branch reference) []) (\<lambda>r.
       if gr_code r \<noteq> 0 then raise (Git_Error (''git clone failed: '' @ strip (gr_err r))) else ret ())"

definition git_version :: "env \<Rightarrow> string run" where
  "git_version env =
     catchE (bindE (run_git env False [''--version''] []) (\<lambda>r. ret (if gr_code r = 0 then strip (gr_out r) else [])))
       (\<lambda>e. ret [])"

definition tabbed :: "string \<Rightarrow> string" where "tabbed s = char_of (9 :: nat) # s"

definition checkout_config :: "string \<Rightarrow> string \<Rightarrow> string" where
  "checkout_config workdir url =
     join [newline]
       [''[core]'', tabbed ''repositoryformatversion = 0'', tabbed ''filemode = true'', tabbed ''bare = false'',
        tabbed ''logallrefupdates = true'', tabbed (''hooksPath = '' @ workdir @ ''/.git/theozolith-no-hooks''),
        ''[remote '' @ [dquote] @ ''origin'' @ [dquote] @ '']'', tabbed (''url = '' @ url),
        tabbed ''fetch = +refs/heads/*:refs/remotes/origin/*'', []]"

definition write_git_file :: "env \<Rightarrow> string \<Rightarrow> string \<Rightarrow> string \<Rightarrow> unit run" where
  "write_git_file env workdir relpath contents w =
     (case en_touch env (wd_git w) relpath of
        Some e \<Rightarrow> (Inl e, w)
      | None \<Rightarrow> (Inr (), w\<lparr>wd_git := wd_git w @ [Written workdir relpath contents]\<rparr>))"

definition sanitize_checkout :: "env \<Rightarrow> string \<Rightarrow> string \<Rightarrow> unit run" where
  "sanitize_checkout env workdir url = write_git_file env workdir ''.git/config'' (checkout_config workdir url)"

definition checkout_branch :: "env \<Rightarrow> string \<Rightarrow> string \<Rightarrow> bool \<Rightarrow> unit run" where
  "checkout_branch env cwd branch create =
     git_do env False ([''checkout'', ''--quiet''] @ (if create then [''-b''] else []) @ [branch]) cwd"

definition ref_exists :: "env \<Rightarrow> string \<Rightarrow> string \<Rightarrow> bool run" where
  "ref_exists env cwd ref = git_ok env [''rev-parse'', ''--verify'', ''--quiet'', ref] cwd"

definition reset_hard :: "env \<Rightarrow> string \<Rightarrow> string \<Rightarrow> unit run" where
  "reset_hard env cwd ref = git_do env False [''reset'', ''--hard'', ''--quiet'', ref] cwd"

definition identity_args :: "string \<Rightarrow> string \<Rightarrow> string list" where
  "identity_args name email = [''-c'', ''user.name='' @ name, ''-c'', ''user.email='' @ email]"

definition cherry_pick :: "env \<Rightarrow> string \<Rightarrow> string \<Rightarrow> string \<Rightarrow> string list \<Rightarrow> unit run" where
  "cherry_pick env cwd name email commits =
     git_do env False (identity_args name email @ [''cherry-pick'', ''-x''] @ commits) cwd"

definition commit_all :: "env \<Rightarrow> string \<Rightarrow> string \<Rightarrow> string \<Rightarrow> string \<Rightarrow> bool run" where
  "commit_all env cwd message name email =
     bindE (git_do env False [''add'', ''--all''] cwd) (\<lambda>_.
     bindE (git_checked env False [''status'', ''--porcelain''] cwd) (\<lambda>status.
       if status = [] then ret False
       else bindE (git_do env False (identity_args name email @ [''commit'', ''--quiet'', ''-m'', message]) cwd)
              (\<lambda>_. ret True)))"

definition commit_empty :: "env \<Rightarrow> string \<Rightarrow> string \<Rightarrow> string \<Rightarrow> string \<Rightarrow> unit run" where
  "commit_empty env cwd message name email =
     git_do env False (identity_args name email @ [''commit'', ''--quiet'', ''--allow-empty'', ''-m'', message]) cwd"

definition git_fetch :: "env \<Rightarrow> string \<Rightarrow> string \<Rightarrow> unit run" where
  "git_fetch env cwd ref = git_do env True [''fetch'', ''--quiet'', ''origin'', ref] cwd"

definition git_push :: "env \<Rightarrow> string \<Rightarrow> string \<Rightarrow> bool \<Rightarrow> unit run" where
  "git_push env cwd branch force =
     git_do env True ([''push'', ''--quiet''] @ (if force then [''--force-with-lease''] else [])
       @ [''origin'', ''HEAD:refs/heads/'' @ branch]) cwd"

definition head_sha :: "env \<Rightarrow> string \<Rightarrow> string run" where
  "head_sha env cwd = git_checked env False [''rev-parse'', ''HEAD''] cwd"

definition commit_exists :: "env \<Rightarrow> string \<Rightarrow> string \<Rightarrow> bool run" where
  "commit_exists env cwd sha = git_ok env [''cat-file'', ''-e'', sha @ ''^{commit}''] cwd"

definition is_ancestor :: "env \<Rightarrow> string \<Rightarrow> string \<Rightarrow> string \<Rightarrow> bool run" where
  "is_ancestor env cwd ancestor descendant =
     git_ok env [''merge-base'', ''--is-ancestor'', ancestor, descendant] cwd"

definition diff_stat :: "env \<Rightarrow> string \<Rightarrow> string \<Rightarrow> string run" where
  "diff_stat env cwd base_ref = git_unchecked env False [''diff'', ''--numstat'', base_ref @ ''...HEAD''] cwd"

end
