(* ===== verification/Contexttree.thy ===== *)
theory Contexttree
  imports Deps Github_Lists Jobdir Git_Ops
begin

text \<open>
  The Context Tree (\<open>worker/.../contexttree.py\<close>): the snapshot of an issue and its pull request read fresh from
  GitHub, and its files under \<open>input/\<close>. A rendering that meets
  a timeline payload of another shape raises \<open>Other_Error\<close>.
\<close>

definition AUTHORIZED_ASSOCIATIONS :: "string list" where
  "AUTHORIZED_ASSOCIATIONS = [''OWNER'', ''MEMBER'']"

definition UNKNOWN_AUTHOR :: string where "UNKNOWN_AUTHOR = ''unknown''"

record pr_commit =
  pc_sha :: string
  pc_author :: string
  pc_authored_at :: string
  pc_message :: string

record context_snapshot =
  cs_issue :: issue
  cs_issue_comments :: "comment list"
  cs_timeline :: "json list"
  cs_pr :: "pull_request option"
  cs_pr_conversation :: "comment list"
  cs_pr_review_comments :: "review_comment list"
  cs_pr_reviews :: "review list"
  cs_pr_commits :: "pr_commit list"
  cs_pr_checks :: "check_run list"
  cs_pr_statuses :: "commit_status list"
  cs_pr_review_threads :: "review_thread list"
  cs_pr_commits_note :: string

definition authorized :: "('a \<Rightarrow> string) \<Rightarrow> 'a list \<Rightarrow> 'a list" where
  "authorized association items = filter (\<lambda>i. association i \<in> set AUTHORIZED_ASSOCIATIONS) items"

subsection \<open>Fetching\<close>

definition bare_snapshot :: "issue \<Rightarrow> comment list \<Rightarrow> json list \<Rightarrow> context_snapshot" where
  "bare_snapshot i comments timeline =
     \<lparr>cs_issue = i, cs_issue_comments = comments, cs_timeline = timeline, cs_pr = None, cs_pr_conversation = [],
      cs_pr_review_comments = [], cs_pr_reviews = [], cs_pr_commits = [], cs_pr_checks = [], cs_pr_statuses = [],
      cs_pr_review_threads = [], cs_pr_commits_note = []\<rparr>"

definition fetch_snapshot :: "env \<Rightarrow> repo \<Rightarrow> int \<Rightarrow> pull_request option \<Rightarrow> context_snapshot run" where
  "fetch_snapshot env repo issue_number pr =
     bindE (get_issue env repo issue_number) (\<lambda>i.
     bindE (list_comments env repo issue_number) (\<lambda>comments.
     bindE (list_timeline env repo issue_number) (\<lambda>timeline.
       let base = bare_snapshot i (authorized cm_author_association comments) timeline in
       case pr of
         None \<Rightarrow> ret base
       | Some p \<Rightarrow>
           bindE (list_comments env repo (pr_number p)) (\<lambda>conversation.
           bindE (list_review_comments env repo (pr_number p)) (\<lambda>review_comments.
           bindE (list_reviews env repo (pr_number p)) (\<lambda>reviews.
           bindE (if pr_head_sha p = [] then ret [] else list_check_runs env repo (pr_head_sha p)) (\<lambda>checks.
           bindE (if pr_head_sha p = [] then ret [] else list_statuses env repo (pr_head_sha p)) (\<lambda>statuses.
           bindE (list_review_threads env repo (pr_number p)) (\<lambda>threads.
             ret (base\<lparr>cs_pr := Some p,
               cs_pr_conversation := authorized cm_author_association conversation,
               cs_pr_review_comments := authorized rc_author_association review_comments,
               cs_pr_reviews := authorized rv_author_association reviews,
               cs_pr_checks := checks, cs_pr_statuses := statuses, cs_pr_review_threads := threads\<rparr>)))))))))) "

text \<open>The commits of a pull request, from the trusted checkout.\<close>

definition strip_char :: "char \<Rightarrow> string \<Rightarrow> string" where
  "strip_char c s = rev (dropWhile (\<lambda>x. x = c) (rev (dropWhile (\<lambda>x. x = c) s)))"

definition rstrip_char :: "char \<Rightarrow> string \<Rightarrow> string" where
  "rstrip_char c s = rev (dropWhile (\<lambda>x. x = c) (rev s))"

definition commit_of :: "string \<Rightarrow> pr_commit option" where
  "commit_of line =
     (case split_max 3 (char_of (1 :: nat)) line of
        [sha, author, moment, message] \<Rightarrow>
          Some \<lparr>pc_sha = sha, pc_author = author, pc_authored_at = moment, pc_message = rstrip_char newline message\<rparr>
      | _ \<Rightarrow> None)"

text \<open>\<open>None\<close> is the \<open>ValueError\<close> of a record without its four parts.\<close>

definition commits_in :: "string \<Rightarrow> pr_commit list option" where
  "commits_in out =
     those (map commit_of
       (filter (\<lambda>line. line \<noteq> []) (map (strip_char newline) (split_on (char_of (0 :: nat)) out))))"

definition git_pr_commits :: "env \<Rightarrow> string \<Rightarrow> string \<Rightarrow> string \<Rightarrow> pr_commit list run" where
  "git_pr_commits env workdir base head =
     bindE (git_checked env False
         [''log'', ''--reverse'', ''-z'', ''--format=%H%x01%an%x01%aI%x01%B'', base @ ''..'' @ head] workdir)
       (\<lambda>out. case commits_in out of None \<Rightarrow> raise (Other_Error ''ValueError'') | Some cs \<Rightarrow> ret cs)"

text \<open>A dependency's commits with the note; a \<open>GitError\<close> of any read is a stated gap.\<close>

definition deleted_note :: "pull_request \<Rightarrow> string" where
  "deleted_note pr =
     ''(commit enumeration unavailable '' @ em_dash @ '' branch deleted; merged as '' @ pr_merge_commit_sha pr @ '')''"

definition commits_gap :: "pull_request \<Rightarrow> pr_commit list \<times> string" where
  "commits_gap pr =
     ([], if pr_merged pr \<and> pr_merge_commit_sha pr \<noteq> [] then deleted_note pr
          else ''(commit enumeration unavailable from this checkout)'')"

definition merged_commits :: "env \<Rightarrow> string \<Rightarrow> pull_request \<Rightarrow> (pr_commit list \<times> string) run" where
  "merged_commits env workdir pr =
     bindE (commit_exists env workdir (pr_merge_commit_sha pr @ ''^2'')) (\<lambda>b.
       if b then bindE (git_pr_commits env workdir (pr_merge_commit_sha pr @ ''^1'') (pr_merge_commit_sha pr @ ''^2''))
              (\<lambda>cs. ret (cs, []))
       else ret ([], deleted_note pr))"

definition live_head :: "env \<Rightarrow> string \<Rightarrow> pull_request \<Rightarrow> string run" where
  "live_head env workdir pr =
     bindE (if pr_head_sha pr = [] then ret False else commit_exists env workdir (pr_head_sha pr)) (\<lambda>known.
       if known then ret (pr_head_sha pr)
       else bindE (ref_exists env workdir (''origin/'' @ pr_head_ref pr)) (\<lambda>b.
              ret (if b then ''origin/'' @ pr_head_ref pr else [])))"

definition live_commits :: "env \<Rightarrow> string \<Rightarrow> pull_request \<Rightarrow> (pr_commit list \<times> string) run" where
  "live_commits env workdir pr =
     bindE (live_head env workdir pr) (\<lambda>head.
       if head = [] then ret (commits_gap pr)
       else bindE (ref_exists env workdir (''origin/'' @ pr_base_ref pr)) (\<lambda>b.
              if b then bindE (git_pr_commits env workdir (''origin/'' @ pr_base_ref pr) head) (\<lambda>cs. ret (cs, []))
              else ret (commits_gap pr)))"

definition dep_pr_commits :: "env \<Rightarrow> string option \<Rightarrow> pull_request \<Rightarrow> (pr_commit list \<times> string) run" where
  "dep_pr_commits env workdir pr =
     (case workdir of
        None \<Rightarrow> ret (commits_gap pr)
      | Some wd \<Rightarrow>
          catchE (if pr_merged pr \<and> pr_merge_commit_sha pr \<noteq> [] then merged_commits env wd pr else live_commits env wd pr)
            (\<lambda>e. case e of Git_Error m \<Rightarrow> ret (commits_gap pr) | _ \<Rightarrow> raise e))"

fun fetch_each :: "env \<Rightarrow> repo \<Rightarrow> string option \<Rightarrow> int list \<Rightarrow> (int \<times> context_snapshot) list run" where
  "fetch_each env repo workdir [] = ret []"
| "fetch_each env repo workdir (n # ns) =
     bindE (find_pr_by_head env repo (branch_for n) ''all'') (\<lambda>pr.
     bindE (fetch_snapshot env repo n pr) (\<lambda>s.
     bindE (case pr of
              None \<Rightarrow> ret s
            | Some p \<Rightarrow> bindE (dep_pr_commits env workdir p) (\<lambda>(commits, note).
                ret (s\<lparr>cs_pr_commits := commits, cs_pr_commits_note := note\<rparr>))) (\<lambda>snapshot.
     bindE (fetch_each env repo workdir ns) (\<lambda>rest. ret ((n, snapshot) # rest)))))"

definition fetch_deps :: "env \<Rightarrow> repo \<Rightarrow> int list \<Rightarrow> int \<Rightarrow> string option \<Rightarrow> (int \<times> context_snapshot) list run" where
  "fetch_deps env repo order primary workdir =
     fetch_each env repo workdir (filter (\<lambda>n. n \<noteq> primary) order)"

subsection \<open>Serialization\<close>

text \<open>Runs of other characters fold to one dash.\<close>

definition safe_char :: "char \<Rightarrow> bool" where
  "safe_char c \<longleftrightarrow>
     is_digit c \<or> (97 \<le> (of_char (lower_char c) :: nat) \<and> (of_char (lower_char c) :: nat) \<le> 122) \<or> c = CHR ''_'' \<or> c = CHR ''-''"

fun fold_unsafe :: "bool \<Rightarrow> string \<Rightarrow> string" where
  "fold_unsafe inside [] = []"
| "fold_unsafe inside (c # s) =
     (if safe_char c then c # fold_unsafe False s
      else if inside then fold_unsafe True s else CHR ''-'' # fold_unsafe True s)"

definition slug :: "string \<Rightarrow> string" where
  "slug author = str_or (fold_unsafe False author) UNKNOWN_AUTHOR"

definition first_line :: "string \<Rightarrow> string" where
  "first_line body =
     (case find (\<lambda>line. strip line \<noteq> []) (splitlines body) of
        Some line \<Rightarrow> take_points 120 (strip line)
      | None \<Rightarrow> ''(empty)'')"

type_synonym field_list = "(string \<times> json) list"

definition kept_field :: "json \<Rightarrow> bool" where
  "kept_field v \<longleftrightarrow> v \<noteq> JStr [] \<and> v \<noteq> JNull"

definition header_lines :: "string \<Rightarrow> field_list \<Rightarrow> string list" where
  "header_lines title fs =
     [''# '' @ title, []] @ map (\<lambda>(name, v). ''- '' @ name @ '': '' @ py_str v) (filter (\<lambda>(name, v). kept_field v) fs)"

definition item_file :: "string \<Rightarrow> field_list \<Rightarrow> string \<Rightarrow> string \<Rightarrow> string" where
  "item_file title fs body context_text =
     join [newline] (header_lines title fs @ (if context_text = [] then [] else [[], context_text])
       @ [[], str_or body ''(no body)'', []])"

record item =
  im_author :: string
  im_timestamp :: string
  im_body :: string
  im_title :: string
  im_fields :: field_list
  im_context :: string

definition pad4 :: "nat \<Rightarrow> string" where
  "pad4 n = replicate (4 - length (show_nat n)) (CHR ''0'') @ show_nat n"

definition item_name :: "nat \<Rightarrow> item \<Rightarrow> string" where
  "item_name seq i = pad4 seq @ ''-'' @ slug (im_author i) @ ''.md''"

definition index_line :: "nat \<Rightarrow> item \<Rightarrow> string" where
  "index_line seq i =
     ''- ['' @ pad4 seq @ ''](''  @ item_name seq i @ '') '' @ im_author i @ '' '' @ im_timestamp i @ '' '' @ em_dash
       @ '' '' @ first_line (im_body i)"

definition write_under :: "string \<Rightarrow> string \<Rightarrow> string \<Rightarrow> job_dir \<Rightarrow> job_dir" where
  "write_under base_dir relpath = atomic_write (base_dir @ ''/'' @ relpath)"

fun write_each :: "string \<Rightarrow> string \<Rightarrow> nat \<Rightarrow> item list \<Rightarrow> job_dir \<Rightarrow> job_dir" where
  "write_each base_dir sub seq [] job = job"
| "write_each base_dir sub seq (i # is) job =
     write_each base_dir sub (Suc seq) is
       (write_under base_dir (sub @ ''/'' @ item_name seq i) (item_file (im_title i) (im_fields i) (im_body i) (im_context i)) job)"

definition INDEX_FILE :: string where "INDEX_FILE = ''INDEX.md''"

definition numbered_from :: "nat \<Rightarrow> 'a list \<Rightarrow> (nat \<times> 'a) list" where
  "numbered_from n xs = zip [n..<n + length xs] xs"

definition write_items :: "string \<Rightarrow> string \<Rightarrow> string \<Rightarrow> item list \<Rightarrow> job_dir \<Rightarrow> job_dir" where
  "write_items base_dir sub label is job =
     write_under base_dir (sub @ ''/'' @ INDEX_FILE)
       (join [newline]
          ([''# '' @ label @ '' ('' @ show_nat (length is) @ '')'', []] @ (if is = [] then [''(none)''] else [])
           @ map (\<lambda>(seq, i). index_line seq i) (numbered_from 1 is)) @ [newline])
       (write_each base_dir sub 1 is job)"

definition author_or_unknown :: "string \<Rightarrow> string" where
  "author_or_unknown a = str_or a UNKNOWN_AUTHOR"

definition opt_int :: "int option \<Rightarrow> json" where
  "opt_int v = (case v of None \<Rightarrow> JNull | Some i \<Rightarrow> JInt i)"

definition comment_item :: "string \<Rightarrow> nat \<times> comment \<Rightarrow> item" where
  "comment_item kind = (\<lambda>(seq, c).
     \<lparr>im_author = author_or_unknown (cm_author c), im_timestamp = cm_created_at c, im_body = cm_body c,
      im_title = kind @ '' '' @ show_nat seq,
      im_fields = [(''id'', JInt (cm_id c)), (''author'', JStr (author_or_unknown (cm_author c))),
        (''association'', JStr (cm_author_association c)), (''created'', JStr (cm_created_at c)), (''url'', JStr (cm_url c))],
      im_context = []\<rparr>)"

definition comment_items :: "comment list \<Rightarrow> string \<Rightarrow> item list" where
  "comment_items comments kind =
     map (comment_item kind) (numbered_from 1 (sort_key (\<lambda>c. (cm_created_at c, cm_id c)) comments))"

text \<open>The thread a comment belongs to: of the threads naming it, the last.\<close>

definition thread_of :: "review_thread list \<Rightarrow> int \<Rightarrow> review_thread option" where
  "thread_of threads cid = find (\<lambda>t. cid \<in> set (rt_comment_ids t)) (rev threads)"

definition anchor_fields :: "int list \<Rightarrow> review_comment \<Rightarrow> field_list" where
  "anchor_fields visible c =
     [(''id'', JInt (rc_id c)), (''author'', JStr (author_or_unknown (rc_author c))),
      (''association'', JStr (rc_author_association c)), (''created'', JStr (rc_created_at c)),
      (''updated'', if rc_updated_at c \<noteq> rc_created_at c then JStr (rc_updated_at c) else JNull),
      (''path'', JStr (rc_path c)), (''subject'', JStr (rc_subject_type c)), (''line'', opt_int (rc_line c)),
      (''side'', JStr (rc_side c)), (''start-line'', opt_int (rc_start_line c)), (''start-side'', JStr (rc_start_side c)),
      (''original-line'', opt_int (rc_original_line c)), (''original-start-line'', opt_int (rc_original_start_line c)),
      (''position'', opt_int (rc_position c)), (''original-position'', opt_int (rc_original_position c)),
      (''commit'', JStr (rc_commit_id c)), (''original-commit'', JStr (rc_original_commit_id c)),
      (''in-reply-to'', case rc_in_reply_to_id c of
          Some i \<Rightarrow> if i \<in> set visible then JInt i else JNull | None \<Rightarrow> JNull),
      (''review'', opt_int (rc_review_id c)), (''url'', JStr (rc_url c))]"

definition thread_fields :: "review_thread option \<Rightarrow> field_list" where
  "thread_fields t =
     (case t of
        None \<Rightarrow> []
      | Some t \<Rightarrow>
          [(''thread'', JStr (rt_id t)), (''thread-resolved'', JStr (if rt_is_resolved t then ''yes'' else ''no'')),
           (''thread-resolved-by'', JStr (rt_resolved_by t)),
           (''thread-outdated'', if rt_is_outdated t then JStr ''yes'' else JNull)])"

definition ticks3 :: string where "ticks3 = replicate 3 (char_of (96 :: nat))"

definition review_comment_item :: "int list \<Rightarrow> review_thread list \<Rightarrow> nat \<times> review_comment \<Rightarrow> item" where
  "review_comment_item visible threads = (\<lambda>(seq, c).
     \<lparr>im_author = author_or_unknown (rc_author c), im_timestamp = rc_created_at c, im_body = rc_body c,
      im_title = ''Review comment '' @ show_nat seq,
      im_fields = anchor_fields visible c @ thread_fields (thread_of threads (rc_id c)),
      im_context = (if rc_diff_hunk c = [] then []
        else ticks3 @ ''diff'' @ [newline] @ rc_diff_hunk c @ [newline] @ ticks3)\<rparr>)"

definition review_comment_items :: "review_comment list \<Rightarrow> review_thread list \<Rightarrow> item list" where
  "review_comment_items comments threads =
     map (review_comment_item (map rc_id comments) threads)
       (numbered_from 1 (sort_key (\<lambda>c. (rc_created_at c, rc_id c)) comments))"

definition review_item :: "nat \<times> review \<Rightarrow> item" where
  "review_item = (\<lambda>(seq, r).
     \<lparr>im_author = author_or_unknown (rv_author r), im_timestamp = rv_submitted_at r, im_body = rv_body r,
      im_title = ''Review '' @ show_nat seq @ '': '' @ rv_state r,
      im_fields = [(''id'', JInt (rv_id r)), (''author'', JStr (author_or_unknown (rv_author r))),
        (''association'', JStr (rv_author_association r)), (''state'', JStr (rv_state r)),
        (''submitted'', JStr (rv_submitted_at r)), (''commit'', JStr (rv_commit_id r)), (''url'', JStr (rv_url r))],
      im_context = []\<rparr>)"

definition review_items :: "review list \<Rightarrow> item list" where
  "review_items reviews = map review_item (numbered_from 1 (sort_key (\<lambda>r. (rv_submitted_at r, rv_id r)) reviews))"

subsection \<open>The timeline\<close>

definition COMMENT_EVENTS :: "string list" where
  "COMMENT_EVENTS = [''commented'', ''reviewed'', ''line-commented'', ''commit-commented'']"

definition or_json :: "json \<Rightarrow> json \<Rightarrow> json" where
  "or_json a b = (if truthy a then a else b)"

definition payload_authorized :: "dict \<Rightarrow> bool" where
  "payload_authorized d \<longleftrightarrow> py_str (or_json (dget d ''author_association'') (JStr [])) \<in> set AUTHORIZED_ASSOCIATIONS"

definition login_at :: "dict \<Rightarrow> string \<Rightarrow> string option" where
  "login_at d key = (case dget d key of
       JObj u \<Rightarrow> if truthy (dget u ''login'') then Some (py_str (dget u ''login'')) else None
     | _ \<Rightarrow> None)"

definition payload_author :: "dict \<Rightarrow> string" where
  "payload_author d =
     (case login_at d ''user'' of
        Some l \<Rightarrow> l
      | None \<Rightarrow> (case login_at d ''actor'' of Some l \<Rightarrow> l | None \<Rightarrow> UNKNOWN_AUTHOR))"

text \<open>The present parts joined with spaces; a part that is no text raises.\<close>

definition join_present :: "json list \<Rightarrow> exn + string" where
  "join_present parts =
     (let ps = filter truthy parts in
      if list_all is_str ps then Inr (join '' '' (map py_str ps)) else Inl (Other_Error ''TypeError''))"

definition upper :: "string \<Rightarrow> string" where
  "upper s = map (\<lambda>c. if 97 \<le> (of_char c :: nat) \<and> (of_char c :: nat) \<le> 122 then char_of ((of_char c :: nat) - 32) else c) s"

definition authorized_payloads :: "dict \<Rightarrow> exn + dict list" where
  "authorized_payloads event =
     bind_r (sub_list event ''comments'') (\<lambda>items.
     bind_r (map_r the_dict items) (\<lambda>ds. Inr (filter payload_authorized ds)))"

definition commit_comment_lines :: "dict \<Rightarrow> exn + string list" where
  "commit_comment_lines c =
     bind_r (join_present [or_json (dget c ''created_at'') (JStr []), JStr ''commit comment by'', JStr (payload_author c),
         if truthy (dget c ''commit_id'') then JStr (''on '' @ py_str (dget c ''commit_id'')) else JStr []]) (\<lambda>head.
       case or_json (dget c ''body'') (JStr ''(no body)'') of
         JStr body \<Rightarrow> Inr ((''- '' @ head @ '' (id '' @ py_str (dget c ''id'') @ ''):'') # map (append ''  '') (splitlines body))
       | _ \<Rightarrow> Inl (Other_Error ''AttributeError''))"

definition timeline_comment_entry :: "string \<Rightarrow> dict \<Rightarrow> exn + string list option" where
  "timeline_comment_entry kind event =
     (let moment = or_json (or_json (dget event ''created_at'') (dget event ''submitted_at'')) (JStr []) in
      if kind = ''commented''
      then (if \<not> payload_authorized event then Inr None
            else bind_r (join_present [moment, JStr ''commented by'', JStr (payload_author event)]) (\<lambda>head.
              Inr (Some [''- '' @ head @ '' '' @ em_dash @ '' issue comment id '' @ py_str (dget event ''id'')
                @ '': full text in issue/comments/''])))
      else if kind = ''reviewed''
      then (if \<not> payload_authorized event then Inr None
            else bind_r (join_present [moment, JStr ''reviewed by'', JStr (payload_author event)]) (\<lambda>head.
              let state = upper (py_str (or_json (dget event ''state'') (JStr []))) in
              Inr (Some [''- '' @ head @ '' '' @ em_dash @ '' '' @ (if state = [] then [] else state @ '', '')
                @ ''review id '' @ py_str (dget event ''id'') @ '': full text in pr/reviews/''])))
      else if kind = ''line-commented''
      then bind_r (authorized_payloads event) (\<lambda>cs.
             Inr (if cs = [] then None
                  else Some [''- line-commented '' @ em_dash @ '' review comment ids ''
                    @ join '', '' (map (\<lambda>c. py_str (dget c ''id'')) cs) @ '': full text in pr/review-comments/'']))
      else bind_r (authorized_payloads event) (\<lambda>cs.
             if cs = [] then Inr None
             else bind_r (map_r commit_comment_lines cs) (\<lambda>ls. Inr (Some (concat ls)))))"

definition nested :: "dict \<Rightarrow> string \<Rightarrow> string \<Rightarrow> string \<Rightarrow> exn + (string \<times> json)" where
  "nested e key inner_key name = bind_r (sub_dict e key) (\<lambda>d. Inr (name, dget d inner_key))"

definition collect :: "(exn + (string \<times> json)) list \<Rightarrow> exn + field_list" where
  "collect = map_r (\<lambda>x. x)"

definition cross_reference_details :: "dict \<Rightarrow> exn + field_list" where
  "cross_reference_details event =
     bind_r (sub_dict event ''source'') (\<lambda>source.
     bind_r (sub_dict source ''issue'') (\<lambda>s.
     bind_r (sub_dict s ''repository'') (\<lambda>repository.
       Inr [(''kind'', JStr (if dhas s ''pull_request'' then ''pull request'' else ''issue'')),
            (''repository'', dget repository ''full_name''), (''number'', dget s ''number''), (''title'', dget s ''title''),
            (''state'', dget s ''state''), (''url'', dget s ''html_url'')])))"

definition label_details :: "dict \<Rightarrow> exn + field_list" where
  "label_details e = bind_r (sub_dict e ''label'') (\<lambda>l. Inr [(''label'', dget l ''name''), (''color'', dget l ''color'')])"

definition BARE_EVENTS :: "string list" where
  "BARE_EVENTS =
     [''reopened'', ''merged'', ''referenced'', ''head_ref_deleted'', ''head_ref_restored'', ''head_ref_force_pushed'',
      ''base_ref_changed'', ''ready_for_review'', ''convert_to_draft'', ''unlocked'', ''pinned'', ''unpinned'', ''connected'',
      ''disconnected'', ''mentioned'', ''subscribed'', ''unsubscribed'', ''marked_as_duplicate'', ''unmarked_as_duplicate'',
      ''transferred'', ''converted_to_discussion'', ''converted_note_to_issue'', ''added_to_project'',
      ''removed_from_project'', ''moved_columns_in_project'', ''comment_deleted'', ''automatic_base_change_succeeded'',
      ''automatic_base_change_failed'', ''deployed'', ''user_blocked'']"

text \<open>The details of an event; \<open>None\<close> for a kind without an extractor.\<close>

definition event_details :: "string \<Rightarrow> dict \<Rightarrow> (exn + field_list) option" where
  "event_details kind e =
     (if kind \<in> {''labeled'', ''unlabeled''} then Some (label_details e)
      else if kind \<in> {''assigned'', ''unassigned''}
      then Some (collect [nested e ''assignee'' ''login'' ''assignee'', nested e ''assigner'' ''login'' ''assigner''])
      else if kind \<in> {''milestoned'', ''demilestoned''} then Some (collect [nested e ''milestone'' ''title'' ''milestone''])
      else if kind = ''renamed'' then Some (collect [nested e ''rename'' ''from'' ''from'', nested e ''rename'' ''to'' ''to''])
      else if kind \<in> {''review_requested'', ''review_request_removed''}
      then Some (collect [nested e ''requested_reviewer'' ''login'' ''reviewer'', nested e ''requested_team'' ''name'' ''team'',
             nested e ''review_requester'' ''login'' ''requested-by''])
      else if kind = ''cross-referenced'' then Some (cross_reference_details e)
      else if kind = ''locked'' then Some (Inr [(''reason'', dget e ''lock_reason'')])
      else if kind = ''closed'' then Some (Inr [(''state_reason'', dget e ''state_reason'')])
      else if kind = ''committed'' then Some (Inr [(''sha'', dget e ''sha'')])
      else if kind \<in> set BARE_EVENTS then Some (Inr [])
      else None)"

definition withheld :: field_list where
  "withheld = [(''note'', JStr ''unrecognized event type; payload withheld (authority unknown)'')]"

definition rendered_details :: "field_list \<Rightarrow> string" where
  "rendered_details fs = join ''; '' (map (\<lambda>(name, v). name @ '': '' @ py_str v) (filter (\<lambda>(name, v). kept_field v) fs))"

definition event_kind :: "dict \<Rightarrow> string" where
  "event_kind event = py_str (or_json (dget event ''event'') (JStr ''unknown''))"

definition timeline_entry :: "json \<Rightarrow> exn + string list option" where
  "timeline_entry j =
     bind_r (the_dict j) (\<lambda>event.
       let kind = event_kind event in
       if kind \<in> set COMMENT_EVENTS then timeline_comment_entry kind event
       else
         bind_r (sub_dict event ''actor'') (\<lambda>actor.
         bind_r (join_present [or_json (dget event ''created_at'') (JStr []), JStr kind,
             if truthy (dget actor ''login'') then JStr (''by '' @ py_str (dget actor ''login'')) else JStr []]) (\<lambda>head.
         bind_r (case event_details kind event of None \<Rightarrow> Inr withheld | Some d \<Rightarrow> d) (\<lambda>details.
           let rendered = rendered_details (details @ [(''commit'', dget event ''commit_id''), (''event-id'', dget event ''id'')]) in
           Inr (Some [''- '' @ head @ (if rendered = [] then [] else '' '' @ em_dash @ '' '' @ rendered)])))))"

definition timeline_md :: "json list \<Rightarrow> exn + string" where
  "timeline_md timeline =
     bind_r (map_r timeline_entry timeline) (\<lambda>es.
       let entries = somes es in
       Inr (join [newline]
         ([''# Issue timeline ('' @ show_nat (length entries) @ '')'', []]
          @ (if concat entries = [] then [''(none)''] else concat entries)) @ [newline]))"

subsection \<open>The tree\<close>

definition sorted_labels :: "string list \<Rightarrow> string" where
  "sorted_labels labels = join '', '' (sort (remdups labels))"

definition issue_body_md :: "issue \<Rightarrow> string" where
  "issue_body_md i =
     item_file (''Issue #'' @ show_int (is_number i) @ '': '' @ is_title i)
       [(''state'', if is_state i = ''closed'' then JStr (is_state i) else JNull),
        (''state-reason'', if is_state i = ''closed'' then JStr (is_state_reason i) else JNull),
        (''labels'', JStr (sorted_labels (is_labels i))), (''assignees'', JStr (join '', '' (is_assignees i)))]
       (is_body i) []"

definition pr_body_md :: "pull_request \<Rightarrow> string" where
  "pr_body_md p =
     item_file (''PR #'' @ show_int (pr_number p) @ '': '' @ pr_title p)
       [(''state'', JStr (pr_state p)), (''merged'', if pr_merged p then JStr ''yes'' else JNull),
        (''merge-sha'', if pr_merged p then JStr (pr_merge_commit_sha p) else JNull),
        (''head'', JStr (pr_head_ref p @ '' @ '' @ pr_head_sha p)), (''base'', JStr (pr_base_ref p)),
        (''labels'', JStr (sorted_labels (pr_labels p)))]
       (pr_body p) []"

definition commit_lines :: "pr_commit \<Rightarrow> string list" where
  "commit_lines c =
     [''## '' @ pc_sha c, []]
     @ map (\<lambda>(name, v). ''- '' @ name @ '': '' @ v)
         (filter (\<lambda>(name, v). v \<noteq> []) [(''author'', pc_author c), (''authored'', pc_authored_at c)])
     @ [[], str_or (pc_message c) ''(no message)'', []]"

definition commits_md :: "pr_commit list \<Rightarrow> string \<Rightarrow> string" where
  "commits_md commits note =
     join [newline]
       ([''# PR commits ('' @ show_nat (length commits) @ '')'', []]
        @ (if commits = [] then [str_or note ''(none)''] else []) @ concat (map commit_lines commits)) @ [newline]"

definition check_line :: "check_run \<Rightarrow> string" where
  "check_line c =
     (let window = join ''..'' (filter (\<lambda>t. t \<noteq> []) [ck_started_at c, ck_completed_at c]) in
      ''- '' @ ck_name c @ '' [id '' @ show_int (ck_id c) @ '']: '' @ ck_status c
      @ (if ck_conclusion c = [] then [] else '' ('' @ ck_conclusion c @ '')'')
      @ (if window = [] then [] else '' '' @ window)
      @ (if ck_url c = [] then [] else '' '' @ em_dash @ '' '' @ ck_url c))"

definition status_line :: "commit_status \<Rightarrow> string" where
  "status_line s =
     ''- '' @ st_context s @ '' [id '' @ show_int (st_id s) @ '']: '' @ st_state s
     @ (if st_created_at s = [] then [] else '' at '' @ st_created_at s)
     @ (if st_creator s = [] then [] else '' by '' @ st_creator s)
     @ (if st_description s = [] then [] else '' '' @ em_dash @ '' '' @ st_description s)
     @ (if st_target_url s = [] then [] else '' '' @ em_dash @ '' '' @ st_target_url s)"

definition checks_md :: "pull_request \<Rightarrow> check_run list \<Rightarrow> commit_status list \<Rightarrow> string" where
  "checks_md p checks statuses =
     join [newline]
       ([''# Checks on '' @ pr_head_sha p, [], ''## Check runs ('' @ show_nat (length checks) @ '')'', []]
        @ (if checks = [] then [''(none)''] else [])
        @ map check_line (sort_key (\<lambda>c. (ck_name c, ck_id c)) checks)
        @ [[], ''## Commit statuses ('' @ show_nat (length statuses) @ '')'', []]
        @ (if statuses = [] then [''(none)''] else [])
        @ map status_line (sort_key (\<lambda>s. (st_created_at s, st_id s)) statuses)) @ [newline]"

text \<open>The files of a pull request.\<close>

definition write_pr :: "string \<Rightarrow> context_snapshot \<Rightarrow> pull_request \<Rightarrow> job_dir \<Rightarrow> job_dir" where
  "write_pr base_dir s p job =
     write_under base_dir ''checks.md'' (checks_md p (cs_pr_checks s) (cs_pr_statuses s))
       (write_under base_dir ''commits.md'' (commits_md (cs_pr_commits s) (cs_pr_commits_note s))
       (write_items base_dir ''reviews'' ''PR reviews'' (review_items (authorized rv_author_association (cs_pr_reviews s)))
       (write_items base_dir ''review-comments'' ''PR review comments''
          (review_comment_items (authorized rc_author_association (cs_pr_review_comments s)) (cs_pr_review_threads s))
       (write_items base_dir ''conversation'' ''PR conversation''
          (comment_items (authorized cm_author_association (cs_pr_conversation s)) ''PR comment'')
       (write_under base_dir ''body.md'' (pr_body_md p) job)))))"

text \<open>A raised exception leaves a tree its callers abandon, so it carries no files.\<close>

definition write_tree :: "string \<Rightarrow> context_snapshot \<Rightarrow> job_dir \<Rightarrow> exn + job_dir" where
  "write_tree input_dir s job =
     (let issue_root = input_dir @ ''/issue'' in
      bind_r (timeline_md (cs_timeline s)) (\<lambda>timeline.
        let job1 = write_under issue_root ''timeline.md'' timeline
          (write_items issue_root ''comments'' ''Issue comments''
             (comment_items (authorized cm_author_association (cs_issue_comments s)) ''Issue comment'')
             (write_under issue_root ''body.md'' (issue_body_md (cs_issue s)) job))
        in Inr (case cs_pr s of None \<Rightarrow> job1 | Some p \<Rightarrow> write_pr (input_dir @ ''/pr'') s p job1)))"

definition dep_index_line :: "int \<Rightarrow> context_snapshot \<Rightarrow> int list \<Rightarrow> string" where
  "dep_index_line number s blockers =
     (let i = cs_issue s; n = show_int number;
          state = (if is_state i = ''closed'' then ''closed ('' @ str_or (is_state_reason i) ''no reason'' @ '')'' else ''open'');
          pr_part = (case cs_pr s of
              None \<Rightarrow> ''no PR''
            | Some p \<Rightarrow>
                if pr_merged p
                then ''PR #'' @ show_int (pr_number p) @ '' merged''
                  @ (if pr_merge_commit_sha p = [] then [] else '' as '' @ pr_merge_commit_sha p)
                else ''PR #'' @ show_int (pr_number p) @ '' '' @ pr_state p);
          blocked_by = str_or (join '', '' (map (\<lambda>b. ''#'' @ show_int b) blockers)) ''none''
      in ''- [issue-'' @ n @ ''](issue-'' @ n @ ''/) #'' @ n @ '' '' @ is_title i @ '' '' @ em_dash @ '' '' @ state @ ''; ''
         @ pr_part @ ''; blocked by: '' @ blocked_by)"

fun write_dep_trees :: "string \<Rightarrow> (int \<times> context_snapshot) list \<Rightarrow> job_dir \<Rightarrow> exn + job_dir" where
  "write_dep_trees base_dir [] job = Inr job"
| "write_dep_trees base_dir ((n, s) # rest) job =
     bind_r (write_tree (base_dir @ ''/issue-'' @ show_int n) s job) (write_dep_trees base_dir rest)"

definition write_deps :: "string \<Rightarrow> (int \<times> context_snapshot) list \<Rightarrow> (int \<rightharpoonup> int list) \<Rightarrow> job_dir \<Rightarrow> exn + job_dir" where
  "write_deps input_dir dep_snapshots edges job =
     (let base_dir = input_dir @ ''/deps'' in
      bind_r (write_dep_trees base_dir dep_snapshots job) (\<lambda>job'.
        Inr (write_under base_dir INDEX_FILE
          (join [newline]
             ([''# Dependency closure ('' @ show_nat (length dep_snapshots) @ '')'', []]
              @ (if dep_snapshots = [] then [''(none)''] else [])
              @ map (\<lambda>(n, s). dep_index_line n s (case edges n of None \<Rightarrow> [] | Some bs \<Rightarrow> bs)) dep_snapshots)
             @ [newline]) job')))"

subsection \<open>The authority boundary\<close>

text \<open>
  What of a snapshot an author of standing wrote: the owner's and members' comments and reviews, their replies to
  each other, the threads and timeline entries that carry any of them.
\<close>

definition may_be_seen :: "string \<Rightarrow> bool" where
  "may_be_seen association \<longleftrightarrow> association = ''OWNER'' \<or> association = ''MEMBER''"

definition seen_payload :: "json \<Rightarrow> bool" where
  "seen_payload j = (case j of
       JObj d \<Rightarrow> may_be_seen (py_str (or_json (dget d ''author_association'') (JStr []))) | _ \<Rightarrow> True)"

definition set_value :: "string \<Rightarrow> json \<Rightarrow> dict \<Rightarrow> dict" where
  "set_value key v d = map (\<lambda>(k, x). (k, if k = key then v else x)) d"

definition visible_event :: "json \<Rightarrow> json option" where
  "visible_event j =
     (case j of
        JObj e \<Rightarrow>
          if event_kind e \<in> {''commented'', ''reviewed''} then (if seen_payload j then Some j else None)
          else if event_kind e \<in> {''line-commented'', ''commit-commented''}
          then (case dget e ''comments'' of
                  JList cs \<Rightarrow> if filter seen_payload cs = [] then None
                             else Some (JObj (set_value ''comments'' (JList (filter seen_payload cs)) e))
                | _ \<Rightarrow> Some j)
          else Some j
      | _ \<Rightarrow> Some j)"

definition visible_reply :: "int list \<Rightarrow> review_comment \<Rightarrow> review_comment" where
  "visible_reply ids c = c\<lparr>rc_in_reply_to_id :=
     (case rc_in_reply_to_id c of Some i \<Rightarrow> if i \<in> set ids then Some i else None | None \<Rightarrow> None)\<rparr>"

definition visible_threads :: "int list \<Rightarrow> review_thread list \<Rightarrow> review_thread list" where
  "visible_threads ids threads =
     filter (\<lambda>t. rt_comment_ids t \<noteq> []) (map (\<lambda>t. t\<lparr>rt_comment_ids := filter (\<lambda>i. i \<in> set ids) (rt_comment_ids t)\<rparr>) threads)"

definition visible :: "context_snapshot \<Rightarrow> context_snapshot" where
  "visible s =
     (let cs = filter (\<lambda>c. may_be_seen (rc_author_association c)) (cs_pr_review_comments s); ids = map rc_id cs in
      s\<lparr>cs_issue_comments := filter (\<lambda>c. may_be_seen (cm_author_association c)) (cs_issue_comments s),
        cs_timeline := somes (map visible_event (cs_timeline s)),
        cs_pr_conversation := filter (\<lambda>c. may_be_seen (cm_author_association c)) (cs_pr_conversation s),
        cs_pr_review_comments := map (visible_reply ids) cs,
        cs_pr_reviews := filter (\<lambda>r. may_be_seen (rv_author_association r)) (cs_pr_reviews s),
        cs_pr_review_threads := visible_threads ids (cs_pr_review_threads s)\<rparr>)"

lemma authorized_seen: "authorized f = filter (\<lambda>x. may_be_seen (f x))"
  by (rule ext) (simp add: authorized_def AUTHORIZED_ASSOCIATIONS_def may_be_seen_def)

lemma payload_seen: "payload_authorized d \<longleftrightarrow> seen_payload (JObj d)"
  by (simp add: payload_authorized_def AUTHORIZED_ASSOCIATIONS_def seen_payload_def may_be_seen_def)

lemma dget_set_value: "dget (set_value key v d) k = (if k = key \<and> dhas d key then v else dget d k)"
proof -
  have "map_of (set_value key v d) k = (case map_of d k of None \<Rightarrow> None | Some x \<Rightarrow> Some (if k = key then v else x))"
    by (induction d) (auto simp: set_value_def)
  moreover have "dhas d key \<longleftrightarrow> map_of d key \<noteq> None" by (simp add: dhas_def map_of_eq_None_iff)
  ultimately show ?thesis by (auto simp: dget_def split: option.splits)
qed

lemma seen_dicts: "map_r the_dict (filter seen_payload items)
    = (case map_r the_dict items of Inl e \<Rightarrow> Inl e | Inr ds \<Rightarrow> Inr (filter payload_authorized ds))"
proof (induction items)
  case (Cons i items)
  show ?case
  proof (cases "\<exists>d. i = JObj d")
    case True
    then obtain d where "i = JObj d" by blast
    then have "the_dict i = Inr d" "seen_payload i = payload_authorized d" by (simp_all add: the_dict_def payload_seen)
    then show ?thesis using Cons by (cases "map_r the_dict items") auto
  next
    case False
    then have "the_dict i = Inl (Other_Error ''TypeError'')" "seen_payload i"
      by (cases i; simp add: the_dict_def seen_payload_def)+
    then show ?thesis by simp
  qed
qed simp

lemma event_kind_set_value: "event_kind (set_value ''comments'' v e) = event_kind e"
  by (simp add: event_kind_def dget_set_value)

lemma authorized_payloads_visible:
  assumes "dget e ''comments'' = JList cs"
  shows "filter seen_payload cs = [] \<Longrightarrow> authorized_payloads e = Inr []"
    and "filter seen_payload cs \<noteq> [] \<Longrightarrow> authorized_payloads (set_value ''comments'' (JList (filter seen_payload cs)) e) = authorized_payloads e"
proof -
  have here: "dhas e ''comments''"
    using assms map_of_eq_None_iff [of e "''comments''"] by (auto simp: dhas_def dget_def split: option.splits)
  note d = seen_dicts [of cs]
  show "filter seen_payload cs = [] \<Longrightarrow> authorized_payloads e = Inr []"
    using d assms by (cases "map_r the_dict cs") (auto simp: authorized_payloads_def sub_list_def batch_of_def)
  show "filter seen_payload cs \<noteq> [] \<Longrightarrow> authorized_payloads (set_value ''comments'' (JList (filter seen_payload cs)) e) = authorized_payloads e"
    using d assms here
    by (cases "map_r the_dict cs"; cases "cs = []") (auto simp: authorized_payloads_def sub_list_def batch_of_def dget_set_value)
qed

lemma comment_entry_visible:
  assumes "event_kind e \<in> {''line-commented'', ''commit-commented''}"
  shows "timeline_comment_entry (event_kind e) e =
    (case visible_event (JObj e) of Some (JObj e') \<Rightarrow> timeline_comment_entry (event_kind e) e' | _ \<Rightarrow> Inr None)"
proof (cases "dget e ''comments''")
  case (JList cs)
  let ?e = "set_value ''comments'' (JList (filter seen_payload cs)) e"
  have same: "k \<noteq> ''comments'' \<Longrightarrow> dget ?e k = dget e k" for k by (simp add: dget_set_value)
  show ?thesis
  proof (cases "filter seen_payload cs = []")
    case True
    then have "authorized_payloads e = Inr []" by (rule authorized_payloads_visible(1) [OF JList])
    then show ?thesis using assms True JList by (auto simp: timeline_comment_entry_def visible_event_def Let_def)
  next
    case False
    then have "authorized_payloads ?e = authorized_payloads e" by (rule authorized_payloads_visible(2) [OF JList])
    then show ?thesis using assms False JList by (auto simp: timeline_comment_entry_def visible_event_def Let_def)
  qed
qed (use assms in \<open>auto simp: visible_event_def\<close>)

lemma timeline_entry_visible:
  "timeline_entry j = (case visible_event j of None \<Rightarrow> Inr None | Some j' \<Rightarrow> timeline_entry j')"
proof (cases "\<exists>e. j = JObj e")
  case True
  then obtain e where j: "j = JObj e" by blast
  consider "event_kind e \<in> {''commented'', ''reviewed''}" | "event_kind e \<in> {''line-commented'', ''commit-commented''}"
    | "event_kind e \<notin> set COMMENT_EVENTS" by (auto simp: COMMENT_EVENTS_def)
  then show ?thesis
  proof cases
    case 1
    then show ?thesis
      by (auto simp: j visible_event_def timeline_entry_def the_dict_def COMMENT_EVENTS_def timeline_comment_entry_def payload_seen Let_def)
  next
    case 2
    then have k: "event_kind e \<in> set COMMENT_EVENTS" "event_kind e \<notin> {''commented'', ''reviewed''}" by (auto simp: COMMENT_EVENTS_def)
    have "timeline_entry j = timeline_comment_entry (event_kind e) e" using k by (simp add: j timeline_entry_def the_dict_def Let_def)
    moreover have "timeline_entry (JObj e') = timeline_comment_entry (event_kind e) e'" if "visible_event j = Some (JObj e')" for e'
    proof -
      have "event_kind e' = event_kind e"
        using that 2 k by (auto simp: j visible_event_def event_kind_set_value split: json.splits if_splits)
      then show ?thesis using k by (simp add: timeline_entry_def the_dict_def Let_def)
    qed
    moreover have "visible_event j = None \<or> (\<exists>e'. visible_event j = Some (JObj e'))"
      using 2 k by (auto simp: j visible_event_def split: json.splits)
    ultimately show ?thesis using comment_entry_visible [OF 2] j by auto
  next
    case 3
    then show ?thesis by (auto simp: j visible_event_def COMMENT_EVENTS_def)
  qed
next
  case False
  then show ?thesis by (cases j) (simp_all add: visible_event_def)
qed

lemma timeline_md_visible: "timeline_md (somes (map visible_event es)) = timeline_md es"
proof -
  have "(case map_r timeline_entry (somes (map visible_event es)) of Inl e \<Rightarrow> Inl e | Inr xs \<Rightarrow> Inr (somes xs))
      = (case map_r timeline_entry es of Inl e \<Rightarrow> Inl e | Inr xs \<Rightarrow> Inr (somes xs))" for es
  proof (induction es)
    case (Cons j es)
    show ?case
    proof (cases "visible_event j")
      case None
      then have "timeline_entry j = Inr None" by (subst timeline_entry_visible) simp
      then show ?thesis using Cons None by (auto simp: somes_def split: sum.splits)
    next
      case (Some j')
      then have "timeline_entry j = timeline_entry j'" by (subst timeline_entry_visible) simp
      then show ?thesis using Cons Some
        by (cases "timeline_entry j'"; cases "map_r timeline_entry (somes (map visible_event es))"; cases "map_r timeline_entry es")
          (auto simp: somes_def)
    qed
  qed (simp add: somes_def)
  note this [of es]
  then show ?thesis
    by (cases "map_r timeline_entry (somes (map visible_event es))"; cases "map_r timeline_entry es")
      (simp_all add: timeline_md_def Let_def)
qed

lemma thread_fields_visible:
  assumes "i \<in> set ids"
  shows "thread_fields (thread_of (visible_threads ids threads) i) = thread_fields (thread_of threads i)"
proof -
  let ?f = "\<lambda>t. t\<lparr>rt_comment_ids := filter (\<lambda>i. i \<in> set ids) (rt_comment_ids t)\<rparr>"
  have "find (\<lambda>t. i \<in> set (rt_comment_ids t)) (filter (\<lambda>t. rt_comment_ids t \<noteq> []) (map ?f ts))
      = map_option ?f (find (\<lambda>t. i \<in> set (rt_comment_ids t)) ts)" for ts
    using assms by (induction ts) (auto simp: filter_empty_conv)
  then have "thread_of (visible_threads ids threads) i = map_option ?f (thread_of threads i)"
    unfolding thread_of_def visible_threads_def by (simp add: rev_filter rev_map)
  then show ?thesis by (cases "thread_of threads i") (simp_all add: thread_fields_def)
qed

lemma sort_key_map_same: "(\<And>x. key (f x) = key x) \<Longrightarrow> sort_key key (map f xs) = map f (sort_key key xs)"
proof -
  assume k: "\<And>x. key (f x) = key x"
  have "insort_key key (f x) (map f ys) = map f (insort_key key x ys)" for x ys
    by (induction ys) (simp_all add: k)
  then show ?thesis by (induction xs) simp_all
qed

lemma review_items_visible:
  "review_comment_items (map (visible_reply (map rc_id cs)) cs) (visible_threads (map rc_id cs) threads)
     = review_comment_items cs threads"
proof -
  let ?ids = "map rc_id cs"
  have ids: "map rc_id (map (visible_reply ?ids) cs) = ?ids" by (simp add: visible_reply_def)
  have item: "review_comment_item ?ids (visible_threads ?ids threads) (n, visible_reply ?ids c) = review_comment_item ?ids threads (n, c)"
    if "c \<in> set cs" for n c
  proof -
    have "anchor_fields ?ids (visible_reply ?ids c) = anchor_fields ?ids c"
      by (simp add: anchor_fields_def visible_reply_def split: option.split)
    then show ?thesis using thread_fields_visible [of "rc_id c" ?ids threads] that
      by (simp add: review_comment_item_def visible_reply_def)
  qed
  have sorted: "sort_key (\<lambda>c. (rc_created_at c, rc_id c)) (map (visible_reply ?ids) cs)
      = map (visible_reply ?ids) (sort_key (\<lambda>c. (rc_created_at c, rc_id c)) cs)"
    by (rule sort_key_map_same) (simp add: visible_reply_def)
  have num: "numbered_from 1 (map f xs) = map (\<lambda>(n, x). (n, f x)) (numbered_from 1 xs)" for f :: "review_comment \<Rightarrow> review_comment" and xs
    by (simp add: numbered_from_def zip_map2)
  show ?thesis unfolding review_comment_items_def ids sorted num
    using item by (auto simp: numbered_from_def dest!: set_zip_rightD intro!: map_cong)
qed

text \<open>
  C35: What authors without standing wrote leaves no trace in the tree: the tree of a snapshot is the tree of the
  snapshot without their comments, reviews, replies, thread entries and timeline entries.
\<close>

theorem unauthorized_leaves_no_trace: "write_tree input_dir s job = write_tree input_dir (visible s) job"
proof -
  have r: "filter (\<lambda>c. may_be_seen (rc_author_association c)) (map (visible_reply ids) cs)
      = map (visible_reply ids) (filter (\<lambda>c. may_be_seen (rc_author_association c)) cs)" for ids cs
    by (simp add: visible_reply_def filter_map o_def)
  show ?thesis
    by (cases "cs_pr s") (simp_all add: write_tree_def visible_def Let_def timeline_md_visible write_pr_def r
        review_items_visible authorized_seen)
qed

end
