(* ===== verification/Machine_Block.thy ===== *)
theory Machine_Block
  imports Json_Roundtrip Text_Ops
begin

text \<open>
  Machine blocks: the JSON copy of a record in an HTML comment of a GitHub text,
  \<open><!-- theozolith:...\<close>, a line feed, \<open>json.dumps (.., indent=2, sort_keys=True)\<close>, a line feed and \<open>-->\<close>, found again by a
  lazy regular expression. A document format promises an encoding without floats that decodes from its
  sorted form; the block of such a document reads back wherever it is embedded.
\<close>

definition block_close :: string where "block_close = newline # ''-->''"

definition machine_text :: "string \<Rightarrow> json \<Rightarrow> string" where
  "machine_text op v = op @ newline # json_dumps_indent 0 v @ block_close"

definition machine_search :: "string \<Rightarrow> string \<Rightarrow> string option" where
  "machine_search op body = block_search (op @ [newline]) block_close body"

subsection \<open>A block closes only at its end\<close>

text \<open>Every line feed is followed by a space or a closing bracket.\<close>

fun calm :: "string \<Rightarrow> bool" where
  "calm [] = True"
| "calm (c # s) \<longleftrightarrow>
     (c = newline \<longrightarrow> (case s of [] \<Rightarrow> False | d # _ \<Rightarrow> d \<in> {CHR '' '', CHR '']'', CHR ''}''})) \<and> calm s"

lemma calm_append: "calm s \<Longrightarrow> calm t \<Longrightarrow> calm (s @ t)"
  by (induction s) (auto split: list.splits)

lemma calm_plain: "newline \<notin> set s \<Longrightarrow> calm s"
  by (induction s) auto

lemma calm_join: "calm sep \<Longrightarrow> list_all calm xs \<Longrightarrow> calm (join sep xs)"
  by (induction sep xs rule: join.induct) (auto intro: calm_append)

lemma newline_code: "newline = CHR 0x0A"
  by code_simp

lemma calm_spaces: "calm (replicate n (CHR '' ''))"
  by (induction n) (auto simp: newline_code)

lemma calm_level: "calm (on_level (Suc l))" "q \<in> {CHR '']'', CHR ''}''} \<Longrightarrow> calm (on_level l @ [q])"
proof -
  show "calm (on_level (Suc l))" using calm_spaces by (simp add: on_level_def newline_code)
  assume q: "q \<in> {CHR '']'', CHR ''}''}"
  then have "calm [q]" by (auto simp: newline_code)
  then have "calm (replicate (2 * l) (CHR '' '') @ [q])" by (rule calm_append [OF calm_spaces])
  then show "calm (on_level l @ [q])" using q by (cases l) (auto simp: on_level_def)
qed

lemma calm_enclose:
  assumes "list_all calm xs" "p \<noteq> newline" "q \<in> {CHR '']'', CHR ''}''}"
  shows "calm (enclose l p q xs)"
proof (cases "xs = []")
  case True
  then show ?thesis using assms by (auto simp: enclose_def newline_code)
next
  case False
  have p: "calm [p]" using assms(2) by simp
  have c: "calm ('','' @ on_level (Suc l))" using calm_level(1) [of l] by (auto simp: newline_code)
  have "calm ([p] @ on_level (Suc l) @ join ('','' @ on_level (Suc l)) xs @ (on_level l @ [q]))"
    by (intro calm_append p c calm_join calm_level assms)
  then show ?thesis using False by (simp add: enclose_def)
qed

lemma dumps_str_calm: "calm (dumps_str s)"
proof -
  have "\<not> 32 \<le> (of_char newline :: nat)" by (simp add: newline_code)
  then show ?thesis using dumps_str_printable by (blast intro: calm_plain)
qed

lemma show_int_calm: "calm (show_int i)"
proof (rule calm_plain)
  have "newline \<notin> set (show_nat n)" for n
    using isdigit_show_nat [of n] by (auto simp: isdigit_def list_all_iff is_digit_def newline_def of_char_of)
  then show "newline \<notin> set (show_int i)" by (simp add: show_int_def newline_code)
qed

lemma float_repr_calm: "float_repr i s \<Longrightarrow> calm s"
proof (rule calm_plain)
  have "\<not> number_char newline" by (simp add: number_char_def is_digit_def newline_code)
  then show "float_repr i s \<Longrightarrow> newline \<notin> set s" using float_repr_chars by blast
qed

lemma json_dumps_indent_calm: "plain_json v \<Longrightarrow> calm (json_dumps_indent l v)"
proof (induction v arbitrary: l)
  case (JList vs)
  then have "list_all calm (map (json_dumps_indent (Suc l)) vs)" by (auto simp: list_all_iff)
  then show ?case by (simp add: calm_enclose newline_code)
next
  case (JObj d)
  have "calm (member (k, t))" if "is_text k" "calm t" for k t
    unfolding member_def using that dumps_str_calm [of k] by (intro calm_append) (simp_all add: newline_code)
  then have "list_all calm (map member (map (\<lambda>(k, v). (k, json_dumps_indent (Suc l) v)) d))"
    using JObj by (fastforce simp: list_all_iff snds.simps)
  then have "list_all calm (map member (sort_key fst (map (\<lambda>(k, v). (k, json_dumps_indent (Suc l) v)) d)))"
    by (simp add: list_all_iff)
  moreover have "(\<lambda>(k, t). dumps_str k @ '': '' @ t) = member" by (auto simp: member_def)
  ultimately show ?case by (simp add: calm_enclose newline_code)
qed (auto simp: dumps_str_calm show_int_calm float_repr_calm newline_code)

lemma calm_no_close: "calm g \<Longrightarrow> fresh_mark block_close g"
proof -
  have "\<not> contains_text (g @ newline # ''--'') (newline # ''-->'')" if "calm g"
    using that
  proof (induction g)
    case Nil
    then show ?case by (simp add: contains_text_def startswith_def newline_code)
  next
    case (Cons c g)
    then have "\<not> startswith (c # g @ newline # ''--'') (newline # ''-->'')"
      by (cases g) (auto simp: startswith_def)
    then show ?case using Cons by (simp add: contains_text_def)
  qed
  then show "calm g \<Longrightarrow> fresh_mark block_close g" by (simp add: fresh_mark_def block_close_def)
qed

subsection \<open>The contract of a document format\<close>

locale machine_document =
  fixes mark :: string
    and encode :: "'a \<Rightarrow> json"
    and decode :: "json \<Rightarrow> 'b"
    and valid :: "'a \<Rightarrow> bool"
    and result :: "'a \<Rightarrow> 'b"
  assumes encodes: "valid x \<Longrightarrow> plain_json (encode x)"
    and decodes: "valid x \<Longrightarrow> decode (in_order (encode x)) = result x"
begin

lemma found: "valid x \<Longrightarrow> fresh_mark (mark @ [newline]) before
   \<Longrightarrow> machine_search mark (before @ machine_text mark (encode x) @ after) = Some (json_dumps_indent 0 (encode x))"
  using block_search_fresh [OF calm_no_close [OF json_dumps_indent_calm [OF encodes, of x 0]], of "mark @ [newline]" before after]
  by (simp add: machine_search_def machine_text_def)

lemma loaded: "valid x \<Longrightarrow> json_loads (json_dumps_indent 0 (encode x)) = Some (in_order (encode x))"
  using json_loads_dumps(2) encodes by blast

lemma reads_back:
  "valid x \<Longrightarrow> fresh_mark (mark @ [newline]) before
   \<Longrightarrow> map_option (map_option decode \<circ> json_loads) (machine_search mark (before @ machine_text mark (encode x) @ after))
      = Some (Some (result x))"
  using found loaded decodes by simp

end

end
