(* ===== verification/Gate.thy ===== *)
theory Gate
  imports Json Text_Ops
begin

text \<open>
  The quality gate (\<open>worker/.../gate/pipeline.py\<close>) and the diff signals (\<open>signals.py\<close>). The gate's
  configuration is what reading \<open>.theozolith/gate.toml\<close> gave: the file is missing, unreadable (with the
  text of the \<open>OSError\<close> or \<open>TOMLDecodeError\<close>), not UTF-8, or the parsed table. A runner answers a command
  from the commands before it, or raises; a run records every command it handed out.
\<close>

subsection \<open>Steps\<close>

record finding =
  fi_step :: json
  fi_severity :: json
  fi_summary :: json
  fi_detail :: json
  fi_fixed :: json

definition new_finding :: "string \<Rightarrow> string \<Rightarrow> string \<Rightarrow> string \<Rightarrow> bool \<Rightarrow> finding" where
  "new_finding step severity summary detail fixed =
     \<lparr>fi_step = JStr step, fi_severity = JStr severity, fi_summary = JStr summary, fi_detail = JStr detail,
      fi_fixed = JBool fixed\<rparr>"

record step_spec =
  ss_name :: string
  ss_run :: string
  ss_fix :: "string option"
  ss_timeout :: json

record gate_result =
  gt_steps_run :: "string list"
  gt_findings :: "finding list"

definition clean :: "gate_result \<Rightarrow> bool" where
  "clean r \<longleftrightarrow> \<not> list_ex (\<lambda>f. fi_severity f = JStr ''error'') (gt_findings r)"

datatype gate_exn = Gate_Config_Error string | Value_Error | Type_Error | Overflow_Error | Runner_Error string

datatype gate_file = Missing | Unreadable string | Not_Utf8 | Table dict

definition CONFIG_PATH :: string where "CONFIG_PATH = ''.theozolith/gate.toml''"

definition STEP_ORDER :: "string list" where "STEP_ORDER = [''test'', ''docs'', ''lint'']"

definition DEFAULT_TIMEOUT_SECONDS :: int where "DEFAULT_TIMEOUT_SECONDS = 900"

text \<open>\<open>float (v)\<close>; an accepted value stands for itself.\<close>

definition py_float :: "json \<Rightarrow> gate_exn + json" where
  "py_float v =
     (case v of
        JStr s \<Rightarrow> if float_text s then Inr v else Inl Value_Error
      | JInt i \<Rightarrow> if \<bar>i\<bar> < 2 ^ 1024 - 2 ^ 970 then Inr v else Inl Overflow_Error
      | JBool b \<Rightarrow> Inr v
      | JFloat i s \<Rightarrow> Inr v
      | JNonfinite s \<Rightarrow> Inr v
      | _ \<Rightarrow> Inl Type_Error)"

definition ordered_steps :: "dict \<Rightarrow> string list" where
  "ordered_steps raw_steps =
     filter (\<lambda>name. name \<in> set (map fst raw_steps)) STEP_ORDER
     @ sort (filter (\<lambda>name. name \<notin> set STEP_ORDER) (map fst raw_steps))"

definition step_of :: "dict \<Rightarrow> string \<Rightarrow> gate_exn + step_spec" where
  "step_of raw_steps name =
     (case dget raw_steps name of
        JObj entry \<Rightarrow>
          if \<not> truthy (dget entry ''run'')
          then Inl (Gate_Config_Error (CONFIG_PATH @ '': steps.'' @ name @ '' needs a run command''))
          else (case py_float (dget_or entry ''timeout'' (JInt DEFAULT_TIMEOUT_SECONDS)) of
                  Inl e \<Rightarrow> Inl e
                | Inr t \<Rightarrow> Inr \<lparr>ss_name = name, ss_run = py_str (dget entry ''run''),
                    ss_fix = (if truthy (dget entry ''fix'') then Some (py_str (dget entry ''fix'')) else None),
                    ss_timeout = t\<rparr>)
      | _ \<Rightarrow> Inl (Gate_Config_Error (CONFIG_PATH @ '': steps.'' @ name @ '' needs a run command'')))"

fun specs_of :: "dict \<Rightarrow> string list \<Rightarrow> gate_exn + step_spec list" where
  "specs_of raw_steps [] = Inr []"
| "specs_of raw_steps (name # names) =
     (case step_of raw_steps name of
        Inl e \<Rightarrow> Inl e
      | Inr spec \<Rightarrow> (case specs_of raw_steps names of Inl e \<Rightarrow> Inl e | Inr specs \<Rightarrow> Inr (spec # specs)))"

definition load_steps :: "gate_file \<Rightarrow> gate_exn + step_spec list" where
  "load_steps file =
     (case file of
        Missing \<Rightarrow> Inr []
      | Unreadable exc \<Rightarrow> Inl (Gate_Config_Error (''unreadable '' @ CONFIG_PATH @ '': '' @ exc))
      | Not_Utf8 \<Rightarrow> Inl Value_Error
      | Table data \<Rightarrow>
          (case dget_or data ''steps'' (JObj []) of
             JObj raw_steps \<Rightarrow> specs_of raw_steps (ordered_steps raw_steps)
           | _ \<Rightarrow> Inl (Gate_Config_Error (CONFIG_PATH @ '': [steps.*] tables expected''))))"

subsection \<open>Running the gate\<close>

type_synonym command = "string \<times> json"
type_synonym runner = "command list \<Rightarrow> command \<Rightarrow> gate_exn + (bool \<times> string)"

definition fixed_finding :: "step_spec \<Rightarrow> string \<Rightarrow> finding" where
  "fixed_finding spec output =
     new_finding (ss_name spec) ''warning'' (ss_name spec @ '' failed; declared mechanical fix applied'') output True"

definition failed_finding :: "step_spec \<Rightarrow> string \<Rightarrow> finding" where
  "failed_finding spec output =
     new_finding (ss_name spec) ''error'' (ss_name spec @ '' failed ('' @ ss_run spec @ '')'') output False"

text \<open>One step: its finding, if any, and the commands handed out so far.\<close>

definition run_step :: "runner \<Rightarrow> step_spec \<Rightarrow> command list \<Rightarrow> (gate_exn + finding option) \<times> command list" where
  "run_step runner spec calls =
     (let run = (ss_run spec, ss_timeout spec) in
      case runner calls run of
        Inl e \<Rightarrow> (Inl e, calls @ [run])
      | Inr (ok, output) \<Rightarrow>
          if ok then (Inr None, calls @ [run])
          else (case ss_fix spec of
                  None \<Rightarrow> (Inr (Some (failed_finding spec output)), calls @ [run])
                | Some fix_command \<Rightarrow>
                    let mend = (fix_command, ss_timeout spec) in
                    case runner (calls @ [run]) mend of
                      Inl e \<Rightarrow> (Inl e, calls @ [run, mend])
                    | Inr _ \<Rightarrow>
                        (case runner (calls @ [run, mend]) run of
                           Inl e \<Rightarrow> (Inl e, calls @ [run, mend, run])
                         | Inr (fixed_ok, fixed_output) \<Rightarrow>
                             (Inr (Some (if fixed_ok then fixed_finding spec output
                                         else failed_finding spec fixed_output)), calls @ [run, mend, run]))))"

fun run_steps :: "runner \<Rightarrow> step_spec list \<Rightarrow> gate_result \<Rightarrow> command list \<Rightarrow> (gate_exn + gate_result) \<times> command list" where
  "run_steps runner [] result calls = (Inr result, calls)"
| "run_steps runner (spec # specs) result calls =
     (case run_step runner spec calls of
        (Inl e, calls') \<Rightarrow> (Inl e, calls')
      | (Inr found, calls') \<Rightarrow>
          run_steps runner specs
            \<lparr>gt_steps_run = gt_steps_run result @ [ss_name spec],
             gt_findings = gt_findings result @ (case found of None \<Rightarrow> [] | Some f \<Rightarrow> [f])\<rparr> calls')"

definition run_gate :: "runner \<Rightarrow> gate_file \<Rightarrow> (gate_exn + gate_result) \<times> command list" where
  "run_gate runner file =
     (case load_steps file of
        Inl (Gate_Config_Error message) \<Rightarrow>
          (Inr \<lparr>gt_steps_run = [], gt_findings = [new_finding ''gate'' ''error'' message [] False]\<rparr>, [])
      | Inl e \<Rightarrow> (Inl e, [])
      | Inr [] \<Rightarrow>
          (Inr \<lparr>gt_steps_run = [], gt_findings =
             [new_finding ''gate'' ''info'' (''no gate config ('' @ CONFIG_PATH @ ''); test/docs/lint not run'') [] False]\<rparr>, [])
      | Inr specs \<Rightarrow> run_steps runner specs \<lparr>gt_steps_run = [], gt_findings = []\<rparr> [])"

subsection \<open>Which commands a step runs\<close>

text \<open>
  The commands of one step after those of the earlier steps, and whether the step ended green: the run
  command alone, or, when it failed and a fix is declared, the run, the fix and the run again.
\<close>

inductive step_trace :: "runner \<Rightarrow> command list \<Rightarrow> step_spec \<Rightarrow> command list \<Rightarrow> bool \<Rightarrow> bool" for runner where
  green: "runner calls (ss_run s, ss_timeout s) = Inr (True, out)
     \<Longrightarrow> step_trace runner calls s [(ss_run s, ss_timeout s)] True"
| red: "runner calls (ss_run s, ss_timeout s) = Inr (False, out) \<Longrightarrow> ss_fix s = None
     \<Longrightarrow> step_trace runner calls s [(ss_run s, ss_timeout s)] False"
| mended: "runner calls (ss_run s, ss_timeout s) = Inr (False, out) \<Longrightarrow> ss_fix s = Some f
     \<Longrightarrow> runner (calls @ [(ss_run s, ss_timeout s), (f, ss_timeout s)]) (ss_run s, ss_timeout s) = Inr (ok, out')
     \<Longrightarrow> step_trace runner calls s [(ss_run s, ss_timeout s), (f, ss_timeout s), (ss_run s, ss_timeout s)] ok"

inductive gate_trace :: "runner \<Rightarrow> command list \<Rightarrow> step_spec list \<Rightarrow> command list \<Rightarrow> bool list \<Rightarrow> bool" for runner where
  finished: "gate_trace runner calls [] [] []"
| step: "step_trace runner calls s cs ok \<Longrightarrow> gate_trace runner (calls @ cs) specs rest oks
     \<Longrightarrow> gate_trace runner calls (s # specs) (cs @ rest) (ok # oks)"

lemma severities [simp]:
  "fi_severity (fixed_finding s out) \<noteq> JStr ''error''" "fi_severity (failed_finding s out) = JStr ''error''"
  by (simp_all add: fixed_finding_def failed_finding_def new_finding_def)

lemma run_step_trace:
  assumes "run_step runner s calls = (Inr found, calls')"
  shows "\<exists>cs ok. calls' = calls @ cs \<and> step_trace runner calls s cs ok
     \<and> (ok \<longleftrightarrow> (case found of None \<Rightarrow> True | Some f \<Rightarrow> fi_severity f \<noteq> JStr ''error''))"
proof -
  let ?run = "(ss_run s, ss_timeout s)"
  obtain ok out where a: "runner calls ?run = Inr (ok, out)"
    using assms by (auto simp: run_step_def Let_def split: sum.splits)
  show ?thesis
  proof (cases "ok \<or> ss_fix s = None")
    case True
    then show ?thesis using assms a step_trace.green [of runner calls s out] step_trace.red [of runner calls s out]
      by (cases ok) (auto simp: run_step_def Let_def)
  next
    case False
    then obtain f where f: "\<not> ok" "ss_fix s = Some f" by auto
    then obtain ok' out' where b: "runner (calls @ [?run, (f, ss_timeout s)]) ?run = Inr (ok', out')"
      using assms a by (auto simp: run_step_def Let_def split: sum.splits)
    have "calls' = calls @ [?run, (f, ss_timeout s), ?run]"
      "found = Some (if ok' then fixed_finding s out else failed_finding s out')"
      using assms a b f by (auto simp: run_step_def Let_def split: sum.splits)
    moreover have "step_trace runner calls s [?run, (f, ss_timeout s), ?run] ok'"
      using step_trace.mended [where runner = runner and s = s and f = f, OF _ f(2) b] a f by simp
    ultimately show ?thesis by (cases ok') auto
  qed
qed

lemma run_steps_trace:
  "run_steps runner specs result calls = (Inr r, calls') \<Longrightarrow>
     \<exists>cs oks. calls' = calls @ cs \<and> gate_trace runner calls specs cs oks
       \<and> gt_steps_run r = gt_steps_run result @ map ss_name specs
       \<and> (clean r \<longleftrightarrow> clean result \<and> list_all (\<lambda>ok. ok) oks)"
proof (induction specs arbitrary: result calls)
  case Nil
  then show ?case using gate_trace.finished [of runner calls] by (intro exI [of _ "[]"]) simp
next
  case (Cons s specs)
  obtain found calls1 where one: "run_step runner s calls = (Inr found, calls1)"
    using Cons.prems by (auto split: prod.splits sum.splits)
  let ?result = "\<lparr>gt_steps_run = gt_steps_run result @ [ss_name s],
    gt_findings = gt_findings result @ (case found of None \<Rightarrow> [] | Some f \<Rightarrow> [f])\<rparr>"
  obtain cs ok where cs: "calls1 = calls @ cs" "step_trace runner calls s cs ok"
    "ok \<longleftrightarrow> (case found of None \<Rightarrow> True | Some f \<Rightarrow> fi_severity f \<noteq> JStr ''error'')"
    using run_step_trace [OF one] by blast
  have "run_steps runner specs ?result calls1 = (Inr r, calls')" using Cons.prems one by simp
  from Cons.IH [OF this] obtain rest oks where rest: "calls' = calls1 @ rest" "gate_trace runner calls1 specs rest oks"
    "gt_steps_run r = gt_steps_run ?result @ map ss_name specs" "clean r \<longleftrightarrow> clean ?result \<and> list_all (\<lambda>ok. ok) oks" by blast
  have "clean ?result \<longleftrightarrow> clean result \<and> ok" using cs(3) by (auto simp: clean_def split: option.splits)
  then show ?case using rest cs gate_trace.step [OF cs(2), of specs rest oks]
    by (intro exI [of _ "cs @ rest"] exI [of _ "ok # oks"]) simp
qed

text \<open>
  C27: A gate that returns with declared steps ran each of them once, in order, with the declared commands
  only: the run command, and after a failure the declared fix followed by the run command again. Its
  result is clean exactly when the last run command of every step succeeded.
\<close>

theorem gate_runs_declared_commands:
  assumes "load_steps file = Inr specs" "specs \<noteq> []" "run_gate runner file = (Inr r, calls)"
  shows "gt_steps_run r = map ss_name specs
    \<and> (\<exists>oks. gate_trace runner [] specs calls oks \<and> (clean r \<longleftrightarrow> list_all (\<lambda>ok. ok) oks))"
proof -
  have "run_steps runner specs \<lparr>gt_steps_run = [], gt_findings = []\<rparr> [] = (Inr r, calls)"
    using assms by (cases specs) (auto simp: run_gate_def)
  from run_steps_trace [OF this] show ?thesis by (auto simp: clean_def)
qed

definition demo_toml :: dict where
  "demo_toml = [(''steps'', JObj [(''lint'', JObj [(''run'', JStr ''a''), (''fix'', JStr ''b'')])])]"

definition demo_runner :: runner where
  "demo_runner calls command = Inr (fst command = ''a'' \<and> (''b'', snd command) \<in> set calls, [])"

lemma demo_steps: "load_steps (Table demo_toml) = Inr [\<lparr>ss_name = ''lint'', ss_run = ''a'', ss_fix = Some ''b'', ss_timeout = JInt 900\<rparr>]"
  by code_simp

lemma gate_runs_declared_commands_witness:
  "\<exists>r. run_gate demo_runner (Table demo_toml) = (Inr r, [(''a'', JInt 900), (''b'', JInt 900), (''a'', JInt 900)])
     \<and> gt_steps_run r = [''lint'']"
proof -
  have calls: "snd (run_gate demo_runner (Table demo_toml)) = [(''a'', JInt 900), (''b'', JInt 900), (''a'', JInt 900)]"
    and ok: "\<exists>r. fst (run_gate demo_runner (Table demo_toml)) = Inr r"
    unfolding run_gate_def demo_steps by (simp_all add: run_step_def demo_runner_def Let_def)
  then obtain r where r: "run_gate demo_runner (Table demo_toml) = (Inr r, [(''a'', JInt 900), (''b'', JInt 900), (''a'', JInt 900)])"
    by (metis prod.collapse)
  then show ?thesis using gate_runs_declared_commands [OF demo_steps _ r] by simp
qed

subsection \<open>Which steps are run\<close>

lemma specs_of_names: "specs_of raw names = Inr specs \<Longrightarrow> map ss_name specs = names"
proof (induction names arbitrary: specs)
  case (Cons n names)
  then obtain s rest where "step_of raw n = Inr s" "specs_of raw names = Inr rest" "specs = s # rest"
    by (auto split: sum.splits)
  moreover from this(1) have "ss_name s = n" by (auto simp: step_of_def split: json.splits if_splits sum.splits)
  ultimately show ?case using Cons.IH by simp
qed simp

lemma set_ordered_steps: "set (ordered_steps raw) = set (map fst raw)"
  by (auto simp: ordered_steps_def)

lemma distinct_ordered_steps: "distinct (map fst raw) \<Longrightarrow> distinct (ordered_steps raw)"
  by (auto simp: ordered_steps_def STEP_ORDER_def)

text \<open>The place of a step: test, docs and lint first, the others after them by name.\<close>

definition comes_before :: "string \<Rightarrow> string \<Rightarrow> bool" where
  "comes_before a b \<longleftrightarrow>
     (a, b) \<in> {(''test'', ''docs''), (''test'', ''lint''), (''docs'', ''lint'')}
     \<or> (a \<in> set STEP_ORDER \<and> b \<notin> set STEP_ORDER)
     \<or> (a \<notin> set STEP_ORDER \<and> b \<notin> set STEP_ORDER \<and> a < b)"

lemma ordered_steps_sorted:
  assumes "distinct (map fst raw)"
  shows "sorted_wrt comes_before (ordered_steps raw)"
proof -
  let ?rest = "sort (filter (\<lambda>name. name \<notin> set STEP_ORDER) (map fst raw))"
  have "sorted_wrt (<) ?rest" using assms by (simp add: strict_sorted_iff)
  then have "sorted_wrt comes_before ?rest"
    by (rule sorted_wrt_mono_rel [rotated]) (auto simp: comes_before_def)
  moreover have "sorted_wrt comes_before (filter (\<lambda>name. name \<in> set (map fst raw)) STEP_ORDER)"
    by (simp add: STEP_ORDER_def comes_before_def)
  ultimately show ?thesis by (auto simp: ordered_steps_def sorted_wrt_append comes_before_def)
qed

text \<open>
  The loaded steps are exactly the declared ones, each once: test, docs and lint first, the others after
  them in the order of their names.
\<close>

theorem declared_steps_once_in_order:
  assumes "load_steps (Table data) = Inr specs" "dget_or data ''steps'' (JObj []) = JObj raw" "distinct (map fst raw)"
  shows "set (map ss_name specs) = fst ` set raw \<and> sorted_wrt comes_before (map ss_name specs)
    \<and> distinct (map ss_name specs)"
proof -
  have "map ss_name specs = ordered_steps raw"
    using assms(1,2) by (intro specs_of_names) (simp add: load_steps_def)
  then show ?thesis
    using set_ordered_steps ordered_steps_sorted [OF assms(3)] distinct_ordered_steps [OF assms(3)] by simp
qed

lemma declared_steps_once_in_order_witness:
  "set (map ss_name [\<lparr>ss_name = ''lint'', ss_run = ''a'', ss_fix = Some ''b'', ss_timeout = JInt 900\<rparr>]) = {''lint''}"
  using declared_steps_once_in_order [OF demo_steps, of "[(''lint'', JObj [(''run'', JStr ''a''), (''fix'', JStr ''b'')])]"]
  by (simp add: demo_toml_def dget_or_def)

subsection \<open>What escapes the gate\<close>

lemma run_steps_raises:
  "run_steps runner specs result calls = (Inl e, calls') \<Longrightarrow> \<exists>h c. runner h c = Inl e"
proof (induction specs arbitrary: result calls)
  case (Cons s specs)
  show ?case
  proof (cases "run_step runner s calls")
    case (Pair x calls1)
    show ?thesis
    proof (cases x)
      case (Inl e')
      then have "e' = e" using Cons.prems Pair by simp
      then show ?thesis using Pair Inl by (auto simp: run_step_def Let_def split: sum.splits if_splits option.splits) blast+
    next
      case (Inr found)
      then show ?thesis using Cons Pair by auto
    qed
  qed
qed simp

lemma specs_of_raises:
  "specs_of raw names = Inl e \<Longrightarrow> (\<exists>m. e = Gate_Config_Error m)
     \<or> (\<exists>name entry. name \<in> set names \<and> dget raw name = JObj entry \<and> truthy (dget entry ''run'')
          \<and> py_float (dget_or entry ''timeout'' (JInt DEFAULT_TIMEOUT_SECONDS)) = Inl e)"
proof (induction names)
  case (Cons n names)
  show ?case
  proof (cases "step_of raw n")
    case (Inl e')
    then have "e' = e" using Cons.prems by simp
    then show ?thesis using Inl by (auto simp: step_of_def split: json.splits if_splits sum.splits)
  next
    case (Inr s)
    then show ?thesis using Cons by (auto split: sum.splits)
  qed
qed simp

text \<open>A step that declares a run command and a timeout \<open>float\<close> raises on.\<close>

definition untimed :: "gate_exn \<Rightarrow> json \<Rightarrow> bool" where
  "untimed e v = (case v of
       JObj entry \<Rightarrow> truthy (dget entry ''run'') \<and> py_float (dget_or entry ''timeout'' (JInt DEFAULT_TIMEOUT_SECONDS)) = Inl e
     | _ \<Rightarrow> False)"

lemma dget_member: "dget d k = JObj x \<Longrightarrow> (k, JObj x) \<in> set d"
  by (auto simp: dget_def split: option.splits dest: map_of_SomeD)

text \<open>
  C28: The gate returns a result unless the runner itself raised, the configuration is not UTF-8, or a step
  declares a run command with a timeout that is no number: these escape, whatever its description says;
  a missing, malformed or incomplete configuration is a finding.
\<close>

theorem gate_raises_only:
  assumes "run_gate runner config = (Inl e, calls)"
  shows "(\<exists>h c. runner h c = Inl e) \<or> (config = Not_Utf8 \<and> e = Value_Error \<and> calls = [])
    \<or> (\<exists>data raw. config = Table data \<and> dget_or data ''steps'' (JObj []) = JObj raw
         \<and> list_ex (\<lambda>(name, v). untimed e v) raw \<and> calls = [])"
proof (cases "load_steps config")
  case (Inl x)
  then have x: "x = e" "calls = []" "\<nexists>m. e = Gate_Config_Error m"
    using assms by (auto simp: run_gate_def split: gate_exn.splits)
  show ?thesis
  proof (cases config)
    case (Table data)
    then obtain raw where raw: "dget_or data ''steps'' (JObj []) = JObj raw" "specs_of raw (ordered_steps raw) = Inl e"
      using Inl x by (auto simp: load_steps_def split: json.splits)
    obtain name entry where "dget raw name = JObj entry" "untimed e (JObj entry)"
      using specs_of_raises [OF raw(2)] x(3) by (auto simp: untimed_def)
    then have "list_ex (\<lambda>(name, v). untimed e v) raw"
      using dget_member unfolding list_ex_iff by fast
    then show ?thesis using raw(1) x(2) Table by blast
  qed (use Inl x in \<open>auto simp: load_steps_def\<close>)
next
  case (Inr specs)
  then have "run_steps runner specs \<lparr>gt_steps_run = [], gt_findings = []\<rparr> [] = (Inl e, calls)"
    using assms by (cases specs) (auto simp: run_gate_def)
  then show ?thesis using run_steps_raises by blast
qed

definition bad_timeout :: dict where
  "bad_timeout = [(''steps'', JObj [(''test'', JObj [(''run'', JStr ''a''), (''timeout'', JStr ''soon'')])])]"

lemma bad_timeout_raises: "run_gate (\<lambda>_ _. Inr (True, [])) (Table bad_timeout) = (Inl Value_Error, [])"
  by code_simp

lemma gate_raises_only_witness:
  "\<exists>raw. dget_or bad_timeout ''steps'' (JObj []) = JObj raw \<and> list_ex (\<lambda>(name, v). untimed Value_Error v) raw"
  using gate_raises_only [OF bad_timeout_raises] by auto

end
