(* ===== verification/Decisions.thy ===== *)
theory Decisions
  imports Machine_Block Gate
begin

text \<open>
  The Decisions Section of a pull request (\<open>worker/.../decisions.py\<close>): its rendering, the replacement in a
  pull-request body, and the parser of the machine copy. \<open>section_from_dict\<close> answers \<open>None\<close> where the source
  raises \<open>TypeError\<close>.
\<close>

definition BEGIN_MARK :: string where "BEGIN_MARK = ''<!-- theozolith:decisions:begin -->''"
definition END_MARK :: string where "END_MARK = ''<!-- theozolith:decisions:end -->''"
definition DATA_MARK :: string where "DATA_MARK = ''<!-- theozolith:decisions:data''"

record decision =
  dn_what :: string
  dn_why :: string

record process_issue =
  pi_friction :: string
  pi_suggested_fix :: string

record decisions_section =
  ds_decisions :: "decision list"
  ds_open_questions :: "string list"
  ds_remaining_work :: "string list"
  ds_dead_ends :: "string list"
  ds_gate_findings :: "finding list"
  ds_process_issues :: "process_issue list"

subsection \<open>The machine copy\<close>

definition decision_json :: "decision \<Rightarrow> json" where
  "decision_json d = JObj [(''what'', JStr (dn_what d)), (''why'', JStr (dn_why d))]"

definition issue_json :: "process_issue \<Rightarrow> json" where
  "issue_json i = JObj [(''friction'', JStr (pi_friction i)), (''suggested_fix'', JStr (pi_suggested_fix i))]"

definition finding_json :: "finding \<Rightarrow> json" where
  "finding_json f = JObj [(''step'', fi_step f), (''severity'', fi_severity f), (''summary'', fi_summary f),
     (''detail'', fi_detail f), (''fixed'', fi_fixed f)]"

definition section_json :: "decisions_section \<Rightarrow> json" where
  "section_json s = JObj
     [(''decisions'', JList (map decision_json (ds_decisions s))),
      (''open_questions'', JList (map JStr (ds_open_questions s))),
      (''remaining_work'', JList (map JStr (ds_remaining_work s))),
      (''dead_ends'', JList (map JStr (ds_dead_ends s))),
      (''gate_findings'', JList (map finding_json (ds_gate_findings s))),
      (''process_issues'', JList (map issue_json (ds_process_issues s)))]"

definition to_json :: "decisions_section \<Rightarrow> string" where
  "to_json s = json_dumps_indent 0 (section_json s)"

definition strings :: "json \<Rightarrow> string list" where
  "strings raw = (case raw of
       JList items \<Rightarrow> map py_str (filter (\<lambda>i. is_str i \<or> is_int i \<or> (case i of JFloat _ _ \<Rightarrow> True | JNonfinite _ \<Rightarrow> True | _ \<Rightarrow> False)) items)
     | _ \<Rightarrow> [])"

definition decision_from :: "json \<Rightarrow> decision list" where
  "decision_from entry = (case entry of
       JObj d \<Rightarrow> if truthy (dget d ''what'')
                 then [\<lparr>dn_what = py_str (dget d ''what''), dn_why = py_str (dget_or d ''why'' (JStr []))\<rparr>] else []
     | JStr s \<Rightarrow> [\<lparr>dn_what = s, dn_why = []\<rparr>]
     | _ \<Rightarrow> [])"

definition decisions_from :: "json \<Rightarrow> decision list" where
  "decisions_from raw = (case raw of JList entries \<Rightarrow> concat (map decision_from entries) | _ \<Rightarrow> [])"

definition process_issue_from :: "json \<Rightarrow> process_issue list" where
  "process_issue_from entry = (case entry of
       JObj d \<Rightarrow> if truthy (dget d ''friction'')
                 then [\<lparr>pi_friction = py_str (dget d ''friction''),
                        pi_suggested_fix = py_str (dget_or d ''suggested_fix'' (JStr []))\<rparr>] else []
     | JStr s \<Rightarrow> if s = [] then [] else [\<lparr>pi_friction = s, pi_suggested_fix = []\<rparr>]
     | _ \<Rightarrow> [])"

definition process_issues_from :: "json \<Rightarrow> process_issue list" where
  "process_issues_from raw = (case raw of JList entries \<Rightarrow> concat (map process_issue_from entries) | _ \<Rightarrow> [])"

text \<open>\<open>Finding (**entry)\<close>.\<close>

definition finding_of :: "dict \<Rightarrow> finding option" where
  "finding_of entry =
     (if fst ` set entry \<subseteq> {''step'', ''severity'', ''summary'', ''detail'', ''fixed''}
         \<and> {''step'', ''severity'', ''summary''} \<subseteq> fst ` set entry
      then Some \<lparr>fi_step = dget entry ''step'', fi_severity = dget entry ''severity'', fi_summary = dget entry ''summary'',
        fi_detail = dget_or entry ''detail'' (JStr []), fi_fixed = dget_or entry ''fixed'' (JBool False)\<rparr>
      else None)"

fun findings_of :: "json list \<Rightarrow> finding list option" where
  "findings_of [] = Some []"
| "findings_of (JObj entry # rest) =
     (case (finding_of entry, findings_of rest) of (Some f, Some fs) \<Rightarrow> Some (f # fs) | _ \<Rightarrow> None)"
| "findings_of (_ # rest) = findings_of rest"

text \<open>Iterating a text or an object yields texts, which are no entries; other values are not iterable.\<close>

definition findings_from :: "json \<Rightarrow> finding list option" where
  "findings_from raw = (case raw of
       JList entries \<Rightarrow> findings_of entries | JStr _ \<Rightarrow> Some [] | JObj _ \<Rightarrow> Some [] | _ \<Rightarrow> None)"

definition section_from_dict :: "dict \<Rightarrow> decisions_section option" where
  "section_from_dict data =
     map_option (\<lambda>findings.
       \<lparr>ds_decisions = decisions_from (dget data ''decisions''),
        ds_open_questions = strings (dget data ''open_questions''),
        ds_remaining_work = strings (dget data ''remaining_work''),
        ds_dead_ends = strings (dget data ''dead_ends''),
        ds_gate_findings = findings,
        ds_process_issues = process_issues_from (dget data ''process_issues'')\<rparr>)
       (findings_from (dget_or data ''gate_findings'' (JList [])))"

subsection \<open>The rendered section\<close>

definition bullets :: "string list \<Rightarrow> string \<Rightarrow> string list" where
  "bullets items none = (if items = [] then [''- '' @ none] else map (\<lambda>i. ''- '' @ i) items)"

definition render_process_issue :: "process_issue \<Rightarrow> string" where
  "render_process_issue i =
     (if pi_suggested_fix i \<noteq> []
      then ''- '' @ pi_friction i @ '' '' @ em_dash @ '' suggested fix: '' @ pi_suggested_fix i
      else ''- '' @ pi_friction i)"

definition decision_line :: "decision \<Rightarrow> string" where
  "decision_line d =
     (if dn_why d \<noteq> [] then ''- **'' @ dn_what d @ ''** '' @ em_dash @ '' '' @ dn_why d else ''- **'' @ dn_what d @ ''**'')"

definition finding_line :: "finding \<Rightarrow> string" where
  "finding_line f = ''- ['' @ py_str (fi_step f) @ ''] '' @ py_str (fi_severity f)
     @ (if truthy (fi_fixed f) then '' (auto-fixed)'' else []) @ '': '' @ py_str (fi_summary f)"

definition human_lines :: "decisions_section \<Rightarrow> string list" where
  "human_lines s =
     [BEGIN_MARK, ''## Decisions'', [], ''### Decisions made'']
     @ (if ds_decisions s = [] then [''- none recorded''] else map decision_line (ds_decisions s))
     @ [[], ''### Open questions''] @ bullets (ds_open_questions s) ''none''
     @ [[], ''### Remaining work''] @ bullets (ds_remaining_work s) ''none''
     @ [[], ''### Dead ends tried''] @ bullets (ds_dead_ends s) ''none''
     @ [[], ''### Gate findings'']
     @ (if ds_gate_findings s = [] then [''- none''] else map finding_line (ds_gate_findings s))
     @ (if ds_process_issues s = [] then [] else [[], ''### Process issues''] @ map render_process_issue (ds_process_issues s))"

definition render_section :: "decisions_section \<Rightarrow> string" where
  "render_section s = join [newline] (human_lines s @ [[], DATA_MARK, to_json s, ''-->'', END_MARK])"

text \<open>\<open>body[:begin] + block + body[end + len (END):]\<close> when both marks are found.\<close>

definition upsert_section :: "string \<Rightarrow> decisions_section \<Rightarrow> string" where
  "upsert_section body s =
     (case (find_text BEGIN_MARK body, find_text END_MARK body) of
        (Some b, Some e) \<Rightarrow> take b body @ render_section s @ drop (e + length END_MARK) body
      | _ \<Rightarrow> if strip body \<noteq> [] then rstrip body @ [newline, newline] @ render_section s @ [newline]
             else render_section s @ [newline])"

text \<open>The outer \<open>None\<close> is a raised \<open>TypeError\<close>.\<close>

definition parse_section :: "string \<Rightarrow> decisions_section option option" where
  "parse_section body =
     (case machine_search DATA_MARK body of
        None \<Rightarrow> Some None
      | Some g \<Rightarrow>
          (case json_loads g of
             Some (JObj data) \<Rightarrow> map_option Some (section_from_dict data)
           | _ \<Rightarrow> Some None))"

definition section_text :: "string \<Rightarrow> string" where
  "section_text body =
     (case (find_text BEGIN_MARK body, find_text END_MARK body) of
        (Some b, Some e) \<Rightarrow>
          strip (sub_all (\<lambda>s. map_option snd (block_at (DATA_MARK @ [newline]) block_close s)) 0
            (drop (b + length BEGIN_MARK) (take e body)))
      | _ \<Rightarrow> [])"

definition fallback_section :: "string \<Rightarrow> decisions_section" where
  "fallback_section reason =
     \<lparr>ds_decisions = [], ds_open_questions = [''No agent-recorded decisions: '' @ reason],
      ds_remaining_work = [''Review the diff without a decision record for this round.''], ds_dead_ends = [],
      ds_gate_findings = [], ds_process_issues = []\<rparr>"

subsection \<open>Reading the section back\<close>

definition text_finding :: "finding \<Rightarrow> bool" where
  "text_finding f \<longleftrightarrow> list_all (\<lambda>v. is_str v \<and> plain_json v) [fi_step f, fi_severity f, fi_summary f, fi_detail f]
     \<and> (case fi_fixed f of JBool _ \<Rightarrow> True | _ \<Rightarrow> False)"

definition valid_section :: "decisions_section \<Rightarrow> bool" where
  "valid_section s \<longleftrightarrow>
     list_all (\<lambda>d. dn_what d \<noteq> [] \<and> is_text (dn_what d) \<and> is_text (dn_why d)) (ds_decisions s)
     \<and> list_all is_text (ds_open_questions s) \<and> list_all is_text (ds_remaining_work s) \<and> list_all is_text (ds_dead_ends s)
     \<and> list_all text_finding (ds_gate_findings s)
     \<and> list_all (\<lambda>i. pi_friction i \<noteq> [] \<and> is_text (pi_friction i) \<and> is_text (pi_suggested_fix i)) (ds_process_issues s)"

definition decode_section :: "json \<Rightarrow> decisions_section option option" where
  "decode_section v = (case v of JObj data \<Rightarrow> map_option Some (section_from_dict data) | _ \<Rightarrow> Some None)"

lemma key_texts [simp]:
  "is_text ''what''" "is_text ''why''" "is_text ''friction''" "is_text ''suggested_fix''" "is_text ''step''" "is_text ''severity''"
  "is_text ''summary''" "is_text ''detail''" "is_text ''fixed''" "is_text ''decisions''" "is_text ''open_questions''"
  "is_text ''remaining_work''" "is_text ''dead_ends''" "is_text ''gate_findings''" "is_text ''process_issues''"
  by (simp_all add: ascii_is_text ascii_def)

lemma in_order_parts:
  "in_order (decision_json d) = decision_json d" "in_order (issue_json i) = issue_json i"
  by (simp_all add: decision_json_def issue_json_def)

lemma decisions_back:
  "list_all (\<lambda>d. dn_what d \<noteq> []) ds \<Longrightarrow> decisions_from (JList (map decision_json ds)) = ds"
  by (induction ds) (simp_all add: decisions_from_def decision_from_def decision_json_def py_str_def dget_or_def)

lemma issues_back:
  "list_all (\<lambda>i. pi_friction i \<noteq> []) is \<Longrightarrow> process_issues_from (JList (map issue_json is)) = is"
  by (induction "is") (simp_all add: process_issues_from_def process_issue_from_def issue_json_def py_str_def dget_or_def)

lemma strings_back: "strings (JList (map JStr xs)) = xs"
  by (induction xs) (simp_all add: strings_def py_str_def)

lemma findings_back:
  "list_all text_finding fs \<Longrightarrow> findings_of (map (in_order \<circ> finding_json) fs) = Some fs"
proof (induction fs)
  case (Cons f fs)
  obtain a b c d e where f: "fi_step f = JStr a" "fi_severity f = JStr b" "fi_summary f = JStr c" "fi_detail f = JStr d" "fi_fixed f = JBool e"
    using Cons.prems by (auto simp: text_finding_def split: json.splits elim!: is_str.elims)
  have "in_order (finding_json f) = JObj [(''detail'', JStr d), (''fixed'', JBool e), (''severity'', JStr b), (''step'', JStr a), (''summary'', JStr c)]"
    by (simp add: finding_json_def f)
  moreover have "finding_of [(''detail'', JStr d), (''fixed'', JBool e), (''severity'', JStr b), (''step'', JStr a), (''summary'', JStr c)] = Some f"
    using f by (cases f) (simp add: finding_of_def dget_or_def)
  ultimately show ?case using Cons by simp
qed simp

lemma text_finding_plain: "text_finding f \<Longrightarrow> plain_json (finding_json f)"
  by (cases "fi_fixed f") (simp_all add: text_finding_def finding_json_def)

interpretation section_block: machine_document DATA_MARK section_json decode_section valid_section "\<lambda>s. Some (Some s)"
proof
  fix s assume v: "valid_section s"
  show "plain_json (section_json s)"
    using v text_finding_plain
    by (simp add: valid_section_def section_json_def decision_json_def issue_json_def list_all_iff)
  have "in_order (section_json s) = JObj
     [(''dead_ends'', JList (map JStr (ds_dead_ends s))),
      (''decisions'', JList (map decision_json (ds_decisions s))),
      (''gate_findings'', JList (map (in_order \<circ> finding_json) (ds_gate_findings s))),
      (''open_questions'', JList (map JStr (ds_open_questions s))),
      (''process_issues'', JList (map issue_json (ds_process_issues s))),
      (''remaining_work'', JList (map JStr (ds_remaining_work s)))]"
    by (simp add: section_json_def in_order_parts o_def)
  then show "decode_section (in_order (section_json s)) = Some (Some s)"
    using v decisions_back [of "ds_decisions s"] issues_back [of "ds_process_issues s"] findings_back [of "ds_gate_findings s"]
    by (cases s) (simp add: decode_section_def section_from_dict_def findings_from_def strings_back valid_section_def list_all_iff dget_or_def)
qed

text \<open>What stands before the machine copy in a rendered section.\<close>

definition human_text :: "decisions_section \<Rightarrow> string" where
  "human_text s = join [newline] (human_lines s @ [[]]) @ [newline]"

lemma join_append: "xs \<noteq> [] \<Longrightarrow> ys \<noteq> [] \<Longrightarrow> join sep (xs @ ys) = join sep xs @ sep @ join sep ys"
  by (induction sep xs rule: join.induct) (auto simp: neq_Nil_conv)

lemma render_section_split:
  "render_section s = human_text s @ machine_text DATA_MARK (section_json s) @ newline # END_MARK"
proof -
  have "render_section s = join [newline] ((human_lines s @ [[]]) @ [DATA_MARK, to_json s, ''-->'', END_MARK])"
    by (simp add: render_section_def)
  also have "\<dots> = human_text s @ join [newline] [DATA_MARK, to_json s, ''-->'', END_MARK]"
    by (subst join_append) (simp_all add: human_text_def)
  finally show ?thesis by (simp add: machine_text_def to_json_def block_close_def)
qed

text \<open>The text in front of the section: the body up to an older section, or all of it.\<close>

definition front :: "string \<Rightarrow> string" where
  "front body =
     (case (find_text BEGIN_MARK body, find_text END_MARK body) of
        (Some b, Some e) \<Rightarrow> take b body
      | _ \<Rightarrow> if strip body \<noteq> [] then rstrip body @ [newline, newline] else [])"

lemma upsert_front: "\<exists>r. upsert_section body s = front body @ render_section s @ r"
  by (auto simp: upsert_section_def front_def split: option.splits)

lemma parse_decode:
  "parse_section body = (case machine_search DATA_MARK body of None \<Rightarrow> Some None
     | Some g \<Rightarrow> (case json_loads g of None \<Rightarrow> Some None | Some v \<Rightarrow> decode_section v))"
  by (simp add: parse_section_def decode_section_def split: option.split json.split)

text \<open>
  C26: The machine copy of a valid section written into a body reads back as that section, whatever follows. Valid
  means that its texts are UTF-8, its decisions and frictions are not empty and its findings are as the gate makes
  them; and no text in front of it, in the body before the section or in the section's readable part, may open a
  machine copy of its own.
\<close>

theorem section_reads_back:
  assumes "valid_section s" "fresh_mark (DATA_MARK @ [newline]) (front body @ human_text s)"
  shows "parse_section (upsert_section body s) = Some (Some s)"
proof -
  obtain r where "upsert_section body s = front body @ render_section s @ r" using upsert_front by blast
  then have "upsert_section body s = (front body @ human_text s) @ machine_text DATA_MARK (section_json s) @ (newline # END_MARK @ r)"
    by (simp add: render_section_split)
  then show ?thesis
    using section_block.found [OF assms] section_block.loaded [OF assms(1)] section_block.decodes [OF assms(1)]
    by (simp add: parse_decode)
qed

lemma section_reads_back_witness:
  "parse_section (upsert_section ''x'' (fallback_section ''y'')) = Some (Some (fallback_section ''y''))"
proof (rule section_reads_back)
  show "valid_section (fallback_section ''y'')"
    by (simp add: valid_section_def fallback_section_def ascii_is_text ascii_def)
  show "fresh_mark (DATA_MARK @ [newline]) (front ''x'' @ human_text (fallback_section ''y''))" by code_simp
qed

subsection \<open>Replacing the section\<close>

definition rear :: "string \<Rightarrow> string" where
  "rear body =
     (case (find_text BEGIN_MARK body, find_text END_MARK body) of
        (Some b, Some e) \<Rightarrow> drop (e + length END_MARK) body
      | _ \<Rightarrow> [newline])"

lemma upsert_parts: "upsert_section body s = front body @ render_section s @ rear body"
  by (auto simp: upsert_section_def front_def rear_def split: option.splits)

text \<open>The section from its opening mark up to its closing one.\<close>

definition inner :: "decisions_section \<Rightarrow> string" where
  "inner s = human_text s @ machine_text DATA_MARK (section_json s) @ [newline]"

lemma render_inner: "render_section s = inner s @ END_MARK"
  by (simp add: render_section_split inner_def)

lemma render_begins: "\<exists>r. render_section s = BEGIN_MARK @ r"
proof -
  obtain x xs where "human_lines s @ [[], DATA_MARK, to_json s, ''-->'', END_MARK] = BEGIN_MARK # x # xs"
    by (simp add: human_lines_def)
  then show ?thesis by (auto simp: render_section_def)
qed

text \<open>
  A newer section takes the place of the older one: writing two sections one after the other leaves the
  body that writing the second alone leaves, with the text around it unchanged, provided the older
  section's own texts hold no closing mark and the text in front no mark.
\<close>

theorem newer_section_replaces:
  assumes "fresh_mark BEGIN_MARK (front body)" "fresh_mark END_MARK (front body @ inner older)"
  shows "upsert_section (upsert_section body older) newer = upsert_section body newer
    \<and> upsert_section body newer = front body @ render_section newer @ rear body"
proof -
  let ?once = "upsert_section body older"
  obtain r where r: "render_section older = BEGIN_MARK @ r" using render_begins by blast
  have b: "find_text BEGIN_MARK ?once = Some (length (front body))"
    using find_text_fresh [OF assms(1), of "r @ rear body"] by (simp add: upsert_parts r)
  have split: "?once = (front body @ inner older) @ END_MARK @ rear body" by (simp add: upsert_parts render_inner)
  have e: "find_text END_MARK ?once = Some (length (front body @ inner older))"
    using find_text_fresh [OF assms(2)] by (simp add: split)
  have "take (length (front body)) ?once = front body" by (simp add: upsert_parts)
  moreover have "drop (length (front body @ inner older) + length END_MARK) ?once = rear body" unfolding split by simp
  ultimately show ?thesis
    using b e by (simp add: upsert_section_def [of ?once] upsert_parts [of body newer])
qed

lemma newer_section_replaces_witness:
  "upsert_section (upsert_section ''x'' (fallback_section ''y'')) (fallback_section ''z'') = upsert_section ''x'' (fallback_section ''z'')"
proof (rule newer_section_replaces [THEN conjunct1])
  show "fresh_mark BEGIN_MARK (front ''x'')" by code_simp
  show "fresh_mark END_MARK (front ''x'' @ inner (fallback_section ''y''))" by code_simp
qed


text \<open>A closing mark quoted in a decision cuts the section short: the rest of the older one stays behind.\<close>

definition quoted :: decisions_section where
  "quoted = (fallback_section [])\<lparr>ds_open_questions := [END_MARK]\<rparr>"

lemma quoted_mark_leaves_rest:
  "length (upsert_section (upsert_section [] quoted) quoted) > length (upsert_section [] quoted) + 100"
proof -
  let ?h = "human_text quoted"
  have h: "?h = take 107 ?h @ END_MARK @ drop 140 ?h" and fresh: "fresh_mark END_MARK (take 107 ?h)" and long: "length (drop 140 ?h) > 100"
    by code_simp+
  obtain r where r: "render_section quoted = BEGIN_MARK @ r" using render_begins by blast
  have once: "upsert_section [] quoted = render_section quoted @ [newline]" by (simp add: upsert_section_def strip_def lstrip_def rstrip_def BEGIN_MARK_def)
  have b: "find_text BEGIN_MARK (upsert_section [] quoted) = Some 0"
    using find_text_fresh [of BEGIN_MARK "[]" "r @ [newline]"] by (simp add: once r fresh_mark_def contains_text_def BEGIN_MARK_def startswith_def)
  let ?m = "machine_text DATA_MARK (section_json quoted) @ newline # END_MARK @ [newline]"
  have t: "upsert_section [] quoted = take 107 ?h @ END_MARK @ drop 140 ?h @ ?m"
    using arg_cong [OF h, of "\<lambda>x. x @ ?m"] by (simp add: once render_section_split)
  have e: "find_text END_MARK (upsert_section [] quoted) = Some (length (take 107 ?h))"
    using find_text_fresh [OF fresh] t by simp
  have "drop (length (take 107 ?h) + length END_MARK) (upsert_section [] quoted) = drop 140 ?h @ ?m" unfolding t by simp
  then have "upsert_section (upsert_section [] quoted) quoted = render_section quoted @ drop 140 ?h @ ?m"
    using b e by (simp only: upsert_section_def [of "upsert_section [] quoted"] option.case prod.case take_0 append_Nil)
  then show ?thesis using long unfolding once by simp
qed

end
