(* ===== verification/Deps_Walk.thy ===== *)
theory Deps_Walk
  imports Deps
begin

text \<open>
  The closure walk is right: a walk that returns has a topological order of exactly the reachable
  issues, and over a graph that does not change under it, it returns exactly when no cycle and no
  foreign edge is reachable, naming a real one otherwise.
\<close>

subsection \<open>A walk that returns\<close>

definition edge_rel :: "(int \<rightharpoonup> int list) \<Rightarrow> (int \<times> int) set" where
  "edge_rel edges = {(a, b). \<exists>bs. edges a = Some bs \<and> b \<in> set bs}"

definition topological :: "(int \<rightharpoonup> int list) \<Rightarrow> int list \<Rightarrow> bool" where
  "topological edges order \<longleftrightarrow>
     (\<forall>xs n ys. order = xs @ n # ys \<longrightarrow> (\<exists>bs. edges n = Some bs \<and> set bs \<subseteq> set xs))"

lemma topological_snoc:
  "topological edges (order @ [n]) \<longleftrightarrow>
     topological edges order \<and> (\<exists>bs. edges n = Some bs \<and> set bs \<subseteq> set order)"
proof
  assume t: "topological edges (order @ [n])"
  have "topological edges order"
    unfolding topological_def
  proof (intro allI impI)
    fix xs m ys
    assume "order = xs @ m # ys"
    then have "order @ [n] = xs @ m # (ys @ [n])" by simp
    with t show "\<exists>bs. edges m = Some bs \<and> set bs \<subseteq> set xs" unfolding topological_def by blast
  qed
  moreover have "\<exists>bs. edges n = Some bs \<and> set bs \<subseteq> set order"
    using t unfolding topological_def by blast
  ultimately show "topological edges order \<and> (\<exists>bs. edges n = Some bs \<and> set bs \<subseteq> set order)" by blast
next
  assume t: "topological edges order \<and> (\<exists>bs. edges n = Some bs \<and> set bs \<subseteq> set order)"
  show "topological edges (order @ [n])"
    unfolding topological_def
  proof (intro allI impI)
    fix xs m ys
    assume eq: "order @ [n] = xs @ m # ys"
    show "\<exists>bs. edges m = Some bs \<and> set bs \<subseteq> set xs"
    proof (cases ys rule: rev_cases)
      case Nil
      with eq t show ?thesis by auto
    next
      case (snoc zs z)
      with eq have "order = xs @ m # zs" by auto
      with t show ?thesis unfolding topological_def by blast
    qed
  qed
qed

lemma topological_mono: "topological e order \<Longrightarrow> e \<subseteq>\<^sub>m e' \<Longrightarrow> topological e' order"
  unfolding topological_def map_le_def dom_def by (metis (mono_tags, lifting) mem_Collect_eq option.discI)

lemma edge_rel_mono: "e \<subseteq>\<^sub>m e' \<Longrightarrow> edge_rel e \<subseteq> edge_rel e'"
  by (force simp: edge_rel_def map_le_def dom_def)

text \<open>\<open>answers n bs\<close>: \<open>bs\<close> is an answer the read of \<open>n\<close> can give.\<close>

definition walk_inv :: "(int \<Rightarrow> issue list \<Rightarrow> bool) \<Rightarrow> repo \<Rightarrow> walk \<Rightarrow> bool" where
  "walk_inv answers repo k \<longleftrightarrow>
     distinct (wk_order k) \<and> set (wk_done k) = set (wk_order k)
     \<and> topological (wk_edges k) (wk_order k)
     \<and> dom (wk_edges k) = set (wk_order k) \<union> set (wk_on_path k)
     \<and> set (wk_order k) \<inter> set (wk_on_path k) = {}
     \<and> (\<forall>n bs. wk_edges k n = Some bs \<longrightarrow> (\<exists>as. answers n as \<and> bs = map is_number (sort_key is_number as)
          \<and> (\<forall>a \<in> set as. \<not> foreign repo a) \<and> (\<forall>b \<in> set bs. wk_issues k b \<noteq> None)))
     \<and> (\<forall>n i. wk_issues k n = Some i \<longrightarrow> is_number i = n \<and> \<not> foreign repo i)"

definition extends :: "int set \<Rightarrow> walk \<Rightarrow> walk \<Rightarrow> bool" where
  "extends roots k k' \<longleftrightarrow> wk_on_path k' = wk_on_path k \<and> wk_edges k \<subseteq>\<^sub>m wk_edges k'
     \<and> roots \<subseteq> set (wk_order k')
     \<and> (\<exists>ext. wk_order k' = wk_order k @ ext
          \<and> (\<forall>m \<in> set ext. \<exists>r \<in> roots. (r, m) \<in> (edge_rel (wk_edges k'))\<^sup>*))"

lemma setdefault_simps [simp]:
  "setdefault m [] = m"
  "setdefault m (b # bs) = setdefault (if m (is_number b) = None then m(is_number b \<mapsto> b) else m) bs"
  by (simp_all add: setdefault_def)

lemma setdefault_keeps: "m n = Some i \<Longrightarrow> setdefault m bs n = Some i"
proof (induction bs arbitrary: m)
  case (Cons b bs)
  then have "(if m (is_number b) = None then m(is_number b \<mapsto> b) else m) n = Some i" by auto
  then show ?case using Cons.IH by simp
qed simp

lemma setdefault_known: "b \<in> set bs \<Longrightarrow> setdefault m bs (is_number b) \<noteq> None"
proof (induction bs arbitrary: m)
  case (Cons a bs)
  show ?case
  proof (cases "b \<in> set bs")
    case True
    then show ?thesis using Cons.IH by simp
  next
    case False
    with Cons.prems have "b = a" by simp
    moreover obtain i where "(if m (is_number a) = None then m(is_number a \<mapsto> a) else m) (is_number a) = Some i"
      by (cases "m (is_number a)") auto
    ultimately show ?thesis using setdefault_keeps by force
  qed
qed simp

lemma setdefault_SomeD:
  "setdefault m bs n = Some i \<Longrightarrow> m n = Some i \<or> i \<in> set bs \<and> is_number i = n"
  by (induction bs arbitrary: m) (force split: if_splits)+

lemma extends_trans:
  assumes "extends A k k1" "extends B k1 k2"
  shows "extends (A \<union> B) k k2"
proof -
  have sub: "(edge_rel (wk_edges k1))\<^sup>* \<subseteq> (edge_rel (wk_edges k2))\<^sup>*"
    using assms(2) by (intro rtrancl_mono edge_rel_mono) (simp add: extends_def)
  show ?thesis
    using assms sub unfolding extends_def
    by (auto intro: map_le_trans) blast+
qed

lemma visit_each_extends:
  assumes step: "\<And>b k w k' w'. b \<in> set bs \<Longrightarrow> f b k w = (Inr k', w') \<Longrightarrow> walk_inv answers repo k \<Longrightarrow>
      walk_inv answers repo k' \<and> extends {b} k k'"
    and "visit_each f bs k w = (Inr k', w')" "walk_inv answers repo k"
  shows "walk_inv answers repo k' \<and> extends (set bs) k k'"
  using assms
proof (induction bs arbitrary: k w)
  case Nil
  then show ?case by (simp add: extends_def)
next
  case (Cons b bs)
  from Cons.prems(2) obtain k1 w1 where 1: "f b k w = (Inr k1, w1)" "visit_each f bs k1 w1 = (Inr k', w')"
    by (auto elim!: bindE_cases)
  then have k1: "walk_inv answers repo k1" "extends {b} k k1"
    using Cons.prems(1,3) by (meson list.set_intros(1))+
  have "walk_inv answers repo k' \<and> extends (set bs) k1 k'"
    using Cons.IH [OF _ 1(2) k1(1)] Cons.prems(1) by (meson list.set_intros(2))
  with k1 extends_trans show ?case by fastforce
qed

lemma walk_inv_enter:
  assumes inv: "walk_inv answers repo k" and new: "cur \<notin> set (wk_done k)" "cur \<notin> set (wk_on_path k)"
    and read: "answers cur as" and own: "\<forall>a \<in> set as. \<not> foreign repo a"
  shows "walk_inv answers repo (k\<lparr>wk_on_path := wk_on_path k @ [cur],
     wk_issues := setdefault (wk_issues k) (sort_key is_number as),
     wk_edges := (wk_edges k)(cur \<mapsto> map is_number (sort_key is_number as))\<rparr>)"
proof -
  let ?bs = "map is_number (sort_key is_number as)"
  let ?k = "k\<lparr>wk_on_path := wk_on_path k @ [cur], wk_issues := setdefault (wk_issues k) (sort_key is_number as),
             wk_edges := (wk_edges k)(cur \<mapsto> ?bs)\<rparr>"
  have fresh: "wk_edges k cur = None"
    using inv new by (auto simp: walk_inv_def)
  then have le: "wk_edges k \<subseteq>\<^sub>m wk_edges ?k" by (auto simp: map_le_def)
  have "topological (wk_edges ?k) (wk_order k)"
    using inv le topological_mono by (auto simp: walk_inv_def)
  moreover have "\<exists>as. answers m as \<and> bs = map is_number (sort_key is_number as)
      \<and> (\<forall>a \<in> set as. \<not> foreign repo a) \<and> (\<forall>b \<in> set bs. wk_issues ?k b \<noteq> None)"
    if "wk_edges ?k m = Some bs" for m bs
  proof (cases "m = cur")
    case True
    then have bs: "bs = ?bs" using that by simp
    have "\<forall>b \<in> set ?bs. wk_issues ?k b \<noteq> None" using setdefault_known by fastforce
    then show ?thesis using True own read bs by blast
  next
    case False
    then have "wk_edges k m = Some bs" using that by simp
    then obtain as' where "answers m as'" "bs = map is_number (sort_key is_number as')"
        "\<forall>a \<in> set as'. \<not> foreign repo a" "\<forall>b \<in> set bs. wk_issues k b \<noteq> None"
      using inv unfolding walk_inv_def by blast
    moreover from this have "\<forall>b \<in> set bs. wk_issues ?k b \<noteq> None"
      using setdefault_keeps by fastforce
    ultimately show ?thesis by blast
  qed
  moreover have "is_number i = m \<and> \<not> foreign repo i" if "wk_issues ?k m = Some i" for m i
    using setdefault_SomeD [of "wk_issues k" "sort_key is_number as" m i] that own inv
    by (auto simp: walk_inv_def)
  ultimately show ?thesis
    using inv new unfolding walk_inv_def by auto
qed

lemma visit_extends:
  assumes reads: "\<And>n w bs w'. blocked n w = (Inr bs, w') \<Longrightarrow> answers n bs"
  shows "visit blocked repo n cur k w = (Inr k', w') \<Longrightarrow> walk_inv answers repo k \<Longrightarrow>
    walk_inv answers repo k' \<and> extends {cur} k k'"
proof (induction n arbitrary: cur k w k' w')
  case (Suc n)
  show ?case
  proof (cases "cur \<in> set (wk_done k)")
    case True
    then have "k' = k" using Suc.prems by (auto split: if_splits)
    with True Suc.prems(2) show ?thesis by (auto simp: extends_def walk_inv_def)
  next
    case False
    with Suc.prems(1) have path: "cur \<notin> set (wk_on_path k)" by (auto split: if_splits)
    from False path Suc.prems(1) obtain as w1 k1 w2 where
        as: "blocked cur w = (Inr as, w1)" "find (foreign repo) (sort_key is_number as) = None"
      and each: "visit_each (visit blocked repo n) (map is_number (sort_key is_number as))
          (k\<lparr>wk_on_path := wk_on_path k @ [cur], wk_issues := setdefault (wk_issues k) (sort_key is_number as),
             wk_edges := (wk_edges k)(cur \<mapsto> map is_number (sort_key is_number as))\<rparr>) w1 = (Inr k1, w2)"
      and k': "k' = k1\<lparr>wk_on_path := butlast (wk_on_path k1), wk_done := cur # wk_done k1,
          wk_order := wk_order k1 @ [cur]\<rparr>"
      by (auto simp: Let_def elim!: bindE_cases split: option.splits)
    let ?bs = "map is_number (sort_key is_number as)"
    let ?k = "k\<lparr>wk_on_path := wk_on_path k @ [cur], wk_issues := setdefault (wk_issues k) (sort_key is_number as),
             wk_edges := (wk_edges k)(cur \<mapsto> ?bs)\<rparr>"
    have fresh: "wk_edges k cur = None"
      using Suc.prems(2) False path by (auto simp: walk_inv_def)
    then have le: "wk_edges k \<subseteq>\<^sub>m wk_edges ?k" by (auto simp: map_le_def)
    have own: "\<forall>a \<in> set as. \<not> foreign repo a" using as(2) by (simp add: find_None_iff)
    have "walk_inv answers repo ?k"
      by (rule walk_inv_enter [OF Suc.prems(2) False path reads [OF as(1)] own])
    then have "walk_inv answers repo k1 \<and> extends (set ?bs) ?k k1"
      using visit_each_extends [where f = "visit blocked repo n" and answers = answers and repo = repo,
          OF _ each] Suc.IH by blast
    then have k1: "walk_inv answers repo k1" "extends (set ?bs) ?k k1" by blast+
    obtain ext where ext: "wk_order k1 = wk_order k @ ext"
        "\<forall>m \<in> set ext. \<exists>r \<in> set ?bs. (r, m) \<in> (edge_rel (wk_edges k1))\<^sup>*"
      using k1(2) by (auto simp: extends_def)
    have on_path: "wk_on_path k1 = wk_on_path k @ [cur]" using k1(2) by (simp add: extends_def)
    have edge: "wk_edges k1 cur = Some ?bs"
      using k1(2) by (auto simp: extends_def map_le_def)
    have "topological (wk_edges k1) (wk_order k1 @ [cur])"
      using k1 edge by (auto simp: topological_snoc walk_inv_def extends_def)
    then have inv: "walk_inv answers repo k'"
      using k1(1) on_path path unfolding k' walk_inv_def by auto
    have "(cur, m) \<in> (edge_rel (wk_edges k1))\<^sup>*" if m: "m \<in> set ext" for m
    proof -
      obtain r where "r \<in> set ?bs" "(r, m) \<in> (edge_rel (wk_edges k1))\<^sup>*" using ext(2) m by blast
      moreover from this have "(cur, r) \<in> edge_rel (wk_edges k1)" using edge by (auto simp: edge_rel_def)
      ultimately show ?thesis by (meson converse_rtrancl_into_rtrancl)
    qed
    moreover have "wk_edges k \<subseteq>\<^sub>m wk_edges k1" using le k1(2) map_le_trans by (auto simp: extends_def)
    ultimately have "extends {cur} k k'"
      using on_path ext(1) unfolding k' extends_def by auto
    with inv show ?thesis by blast
  qed
qed simp

lemma visit_last:
  assumes "visit blocked repo n cur k w = (Inr k', w')" "cur \<notin> set (wk_done k)"
  shows "\<exists>order. wk_order k' = order @ [cur]"
proof (cases n)
  case (Suc m)
  then show ?thesis using assms
    by (auto simp: Let_def split: if_splits option.splits elim!: bindE_cases)
qed (use assms in simp)

lemma start_walk_inv: "walk_inv answers repo start_walk"
  by (simp add: walk_inv_def start_walk_def topological_def)

lemma topological_closed:
  assumes "topological edges order" "(n, m) \<in> (edge_rel edges)\<^sup>*" "n \<in> set order"
  shows "m \<in> set order"
  using assms(2,3)
proof (induction rule: rtrancl_induct)
  case (step a b)
  then obtain xs ys where "order = xs @ a # ys" by (meson split_list)
  with assms(1) obtain bs where "edges a = Some bs" "set bs \<subseteq> set order"
    unfolding topological_def by (metis Un_iff order_trans set_append subsetI)
  with step(2) show ?case by (auto simp: edge_rel_def)
qed

definition closure_ok :: "(int \<Rightarrow> issue list \<Rightarrow> bool) \<Rightarrow> repo \<Rightarrow> int \<Rightarrow> dependency_closure \<Rightarrow> bool" where
  "closure_ok answers repo number dc \<longleftrightarrow>
     distinct (dc_order dc) \<and> dc_order dc \<noteq> [] \<and> last (dc_order dc) = number
     \<and> topological (dc_edges dc) (dc_order dc)
     \<and> set (dc_order dc) = {m. (number, m) \<in> (edge_rel (dc_edges dc))\<^sup>*}
     \<and> dom (dc_edges dc) = set (dc_order dc)
     \<and> (\<forall>n bs. dc_edges dc n = Some bs \<longrightarrow> (\<exists>as. answers n as \<and> bs = map is_number (sort_key is_number as)
          \<and> (\<forall>a \<in> set as. \<not> foreign repo a) \<and> (\<forall>b \<in> set bs. dc_issues dc b \<noteq> None)))
     \<and> (\<forall>n i. dc_issues dc n = Some i \<longrightarrow> is_number i = n \<and> \<not> foreign repo i)"

lemma walk_closure_ok:
  assumes reads: "\<And>n w bs w'. blocked n w = (Inr bs, w') \<Longrightarrow> answers n bs"
    and "walk_closure blocked repo depth number w = (Inr dc, w')"
  shows "closure_ok answers repo number dc"
proof -
  from assms(2) obtain k where k: "visit blocked repo depth number start_walk w = (Inr k, w')"
      "dc = \<lparr>dc_order = wk_order k, dc_edges = wk_edges k, dc_issues = wk_issues k\<rparr>"
    by (auto simp: walk_closure_def elim!: bindE_cases)
  have inv: "walk_inv answers repo k" and ext: "extends {number} start_walk k"
    using visit_extends [OF reads k(1) start_walk_inv] by auto
  obtain order where order: "wk_order k = order @ [number]"
    using visit_last [OF k(1)] by (auto simp: start_walk_def)
  have topo: "topological (wk_edges k) (wk_order k)" using inv by (simp add: walk_inv_def)
  have "set (wk_order k) = {m. (number, m) \<in> (edge_rel (wk_edges k))\<^sup>*}"
    using ext topological_closed [OF topo] by (auto simp: extends_def start_walk_def)
  then show ?thesis
    using inv ext order topo unfolding closure_ok_def k(2) walk_inv_def extends_def start_walk_def
    by (auto simp del: set_append)
qed

lemma topological_before:
  assumes "topological edges order" "(a, m) \<in> (edge_rel edges)\<^sup>+" "order = xs @ a # ys"
  shows "m \<in> set xs"
  using assms(2,3)
proof (induction rule: trancl_induct)
  case (base b)
  then show ?case using assms(1) by (fastforce simp: topological_def edge_rel_def)
next
  case (step b c)
  then obtain us vs where xs: "xs = us @ b # vs" by (meson split_list)
  with step.prems have "order = us @ b # (vs @ a # ys)" by simp
  then obtain bs where "edges b = Some bs" "set bs \<subseteq> set us"
    using assms(1) unfolding topological_def by blast
  with step(2) xs show ?case by (auto simp: edge_rel_def)
qed

lemma closure_ok_acyclic:
  assumes "closure_ok answers repo number dc" "(a, m) \<in> (edge_rel (dc_edges dc))\<^sup>+"
    "a \<in> set (dc_order dc)"
  shows "m \<noteq> a"
proof -
  obtain xs ys where o: "dc_order dc = xs @ a # ys" using assms(3) by (meson split_list)
  then have "m \<in> set xs"
    using topological_before [OF _ assms(2) o] assms(1) by (simp add: closure_ok_def)
  moreover have "a \<notin> set xs" using assms(1) o by (auto simp: closure_ok_def)
  ultimately show ?thesis by blast
qed

lemma closure_ok_payload:
  assumes "closure_ok answers repo number dc" "(n, m) \<in> (edge_rel (dc_edges dc))\<^sup>+"
  shows "\<exists>i. dc_issues dc m = Some i \<and> is_number i = m \<and> \<not> foreign repo i"
proof -
  obtain p where "(p, m) \<in> edge_rel (dc_edges dc)" using assms(2) by (meson tranclE)
  then obtain bs where "dc_edges dc p = Some bs" "m \<in> set bs" by (auto simp: edge_rel_def)
  then have "dc_issues dc m \<noteq> None" using assms(1) unfolding closure_ok_def by blast
  then show ?thesis using assms(1) unfolding closure_ok_def by blast
qed

text \<open>
  C5: whatever GitHub answers, a closure walk that returns has listed every issue reachable over
  the edges it read exactly once, every blocker before its dependents and the walked issue last,
  with a payload of the own repository for every blocker; a reachable cycle therefore never returns.
\<close>

theorem closure_is_topological_order_of_reachable:
  assumes "walk_closure blocked repo depth number w = (Inr dc, w')"
  shows "distinct (dc_order dc) \<and> last (dc_order dc) = number
    \<and> topological (dc_edges dc) (dc_order dc)
    \<and> set (dc_order dc) = {m. (number, m) \<in> (edge_rel (dc_edges dc))\<^sup>*}
    \<and> (\<forall>a m. a \<in> set (dc_order dc) \<and> (a, m) \<in> (edge_rel (dc_edges dc))\<^sup>+ \<longrightarrow>
         m \<noteq> a \<and> (\<exists>i. dc_issues dc m = Some i \<and> is_number i = m \<and> \<not> foreign repo i))"
proof -
  have ok: "closure_ok (\<lambda>_ _. True) repo number dc"
    by (rule walk_closure_ok [OF TrueI assms])
  then show ?thesis
    using closure_ok_acyclic [OF ok] closure_ok_payload [OF ok] unfolding closure_ok_def by blast
qed

subsection \<open>A graph that does not change under the walk\<close>

definition steps :: "(int \<Rightarrow> issue list) \<Rightarrow> (int \<times> int) set" where
  "steps f = {(a, b). b \<in> is_number ` set (f a)}"

definition linked :: "(int \<Rightarrow> issue list) \<Rightarrow> int list \<Rightarrow> bool" where
  "linked f path \<longleftrightarrow> successively (\<lambda>a b. (a, b) \<in> steps f) path"

text \<open>What an exception of the walk says of the graph.\<close>

fun explains :: "(int \<Rightarrow> issue list) \<Rightarrow> repo \<Rightarrow> int set \<Rightarrow> exn \<Rightarrow> bool" where
  "explains f repo R (Cycle_Error c) \<longleftrightarrow> 2 \<le> length c \<and> hd c = last c \<and> linked f c \<and> set c \<subseteq> R"
| "explains f repo R (Cross_Repo_Error m r) \<longleftrightarrow> m \<in> R \<and> (\<exists>b \<in> set (f m). is_repo b = r \<and> foreign repo b)"
| "explains f repo R _ \<longleftrightarrow> False"

lemma cycle_on_path:
  assumes "cur \<in> set path" "linked f (path @ [cur])" "set path \<subseteq> R"
  shows "explains f repo R (Cycle_Error (dropWhile (\<lambda>x. x \<noteq> cur) path @ [cur]))"
proof -
  let ?d = "dropWhile (\<lambda>x. x \<noteq> cur) path"
  have d: "?d \<noteq> []" using assms(1) by (simp add: dropWhile_eq_Nil_conv)
  then have "hd ?d = cur" using hd_dropWhile [OF d] by simp
  moreover have "linked f (?d @ [cur])"
  proof -
    have "linked f (takeWhile (\<lambda>x. x \<noteq> cur) path @ (?d @ [cur]))"
      using assms(2) by (metis append_assoc takeWhile_dropWhile_id)
    then show ?thesis by (simp only: linked_def successively_append_iff)
  qed
  moreover have "set (?d @ [cur]) \<subseteq> R" using assms set_dropWhileD by fastforce
  moreover have "2 \<le> length (?d @ [cur])" using d by (cases ?d) simp_all
  ultimately show ?thesis using d by simp
qed

lemma visit_fails:
  assumes "finite R" and closed: "\<And>a b. a \<in> R \<Longrightarrow> (a, b) \<in> steps f \<Longrightarrow> b \<in> R"
  shows "visit (\<lambda>n. ret (f n)) repo n cur k w = (Inl e, w') \<Longrightarrow> walk_inv (\<lambda>n as. as = f n) repo k \<Longrightarrow>
    cur \<in> R \<Longrightarrow> set (wk_on_path k) \<subseteq> R \<Longrightarrow> distinct (wk_on_path k) \<Longrightarrow> linked f (wk_on_path k @ [cur]) \<Longrightarrow>
    explains f repo R e \<or> e = Recursion_Error \<and> n + length (wk_on_path k) \<le> card R"
proof (induction n arbitrary: cur k w)
  case 0
  then have "length (wk_on_path k) \<le> card R"
    using assms(1) by (metis card_mono distinct_card)
  then show ?case using 0 by simp
next
  case (Suc n)
  show ?case
  proof (cases "cur \<in> set (wk_on_path k)")
    case True
    then show ?thesis using Suc.prems cycle_on_path by (auto simp: )
  next
    case path: False
    with Suc.prems(1) have undone: "cur \<notin> set (wk_done k)" by (auto split: if_splits)
    let ?as = "sort_key is_number (f cur)"
    show ?thesis
    proof (cases "find (foreign repo) ?as")
      case (Some b)
      then have "b \<in> set (f cur)" "foreign repo b"
        by (auto simp: find_Some_iff) (metis nth_mem set_sort length_sort)
      moreover have "e = Cross_Repo_Error cur (is_repo b)"
        using Suc.prems(1) path undone Some by (simp add: Let_def)
      ultimately show ?thesis using Suc.prems(3) by auto
    next
      case None
      let ?bs = "map is_number ?as"
      let ?k = "k\<lparr>wk_on_path := wk_on_path k @ [cur], wk_issues := setdefault (wk_issues k) ?as,
             wk_edges := (wk_edges k)(cur \<mapsto> ?bs)\<rparr>"
      let ?P = "\<lambda>k. walk_inv (\<lambda>n as. as = f n) repo k \<and> wk_on_path k = wk_on_path ?k"
      have each: "visit_each (visit (\<lambda>n. ret (f n)) repo n) ?bs ?k w = (Inl e, w')"
        using Suc.prems(1) path undone None by (auto simp: Let_def elim!: bindE_cases)
      have step: "explains f repo R e \<or> e = Recursion_Error \<and> Suc n + length (wk_on_path k) \<le> card R"
        if "visit (\<lambda>n. ret (f n)) repo n b k1 w1 = (Inl e, w')" "b \<in> set ?bs" "?P k1" for b k1 w1
      proof -
        have cb: "(cur, b) \<in> steps f" using that(2) by (auto simp: steps_def)
        then have "b \<in> R" using closed Suc.prems(3) by blast
        moreover have "linked f (wk_on_path k1 @ [b])"
          using that(3) Suc.prems(6) cb by (simp add: linked_def successively_append_iff)
        ultimately show ?thesis
          using Suc.IH [OF that(1)] that(3) Suc.prems(3-5) path by auto
      qed
      have "visit_each (visit (\<lambda>n. ret (f n)) repo n) bs k1 w1 = (Inl e, w') \<Longrightarrow> set bs \<subseteq> set ?bs \<Longrightarrow> ?P k1 \<Longrightarrow>
          explains f repo R e \<or> e = Recursion_Error \<and> Suc n + length (wk_on_path k) \<le> card R" for bs k1 w1
      proof (induction bs arbitrary: k1 w1)
        case (Cons b bs)
        from Cons.prems(1) show ?case unfolding visit_each.simps
        proof (cases rule: bindE_cases)
          case (fail e')
          then show ?thesis using step [of b k1 w1] Cons.prems by auto
        next
          case (step k2 w2)
          have "walk_inv (\<lambda>n as. as = f n) repo k2 \<and> extends {b} k1 k2"
            by (rule visit_extends [OF _ step(1)]) (use Cons.prems(3) in auto)
          then show ?thesis
            using Cons.IH [OF step(2)] Cons.prems by (auto simp: extends_def)
        qed
      qed simp
      moreover have "?P ?k"
        using walk_inv_enter [OF Suc.prems(2) undone path, of "f cur"] None by (simp add: find_None_iff)
      ultimately show ?thesis using each by blast
    qed
  qed
qed

lemma linked_trancl: "linked f c \<Longrightarrow> 2 \<le> length c \<Longrightarrow> (hd c, last c) \<in> (steps f)\<^sup>+"
proof (induction c)
  case (Cons a c)
  then obtain b d where c: "c = b # d" by (cases c) auto
  with Cons.prems have ab: "(a, b) \<in> steps f" "linked f c" by (auto simp: linked_def)
  show ?case
  proof (cases "d = []")
    case True
    with ab c show ?thesis by auto
  next
    case False
    then have "(b, last c) \<in> (steps f)\<^sup>+" using Cons.IH [OF ab(2)] c by (cases d) auto
    with ab c show ?thesis by (auto intro: trancl_into_trancl2)
  qed
qed simp

lemma static_edges:
  assumes "closure_ok (\<lambda>n as. as = f n) repo number dc" "a \<in> set (dc_order dc)"
  shows "(a, b) \<in> edge_rel (dc_edges dc) \<longleftrightarrow> (a, b) \<in> steps f"
    and "\<forall>x \<in> set (f a). \<not> foreign repo x"
proof -
  obtain bs where bs: "dc_edges dc a = Some bs"
    using assms unfolding closure_ok_def by (metis domD)
  then have "bs = map is_number (sort_key is_number (f a)) \<and> (\<forall>x \<in> set (f a). \<not> foreign repo x)"
    using assms(1) unfolding closure_ok_def by blast
  with bs show "(a, b) \<in> edge_rel (dc_edges dc) \<longleftrightarrow> (a, b) \<in> steps f"
    and "\<forall>x \<in> set (f a). \<not> foreign repo x"
    by (auto simp: edge_rel_def steps_def)
qed

lemma static_order:
  assumes ok: "closure_ok (\<lambda>n as. as = f n) repo number dc"
  shows "set (dc_order dc) = {m. (number, m) \<in> (steps f)\<^sup>*}"
    and "a \<in> set (dc_order dc) \<Longrightarrow> (a, m) \<in> (steps f)\<^sup>+ \<Longrightarrow> (a, m) \<in> (edge_rel (dc_edges dc))\<^sup>+"
proof -
  have order: "set (dc_order dc) = {m. (number, m) \<in> (edge_rel (dc_edges dc))\<^sup>*}"
    using ok by (simp add: closure_ok_def)
  have topo: "topological (dc_edges dc) (dc_order dc)" using ok by (simp add: closure_ok_def)
  have sub: "edge_rel (dc_edges dc) \<subseteq> steps f"
  proof -
    have "a \<in> set (dc_order dc)" if "(a, b) \<in> edge_rel (dc_edges dc)" for a b
      using that ok by (auto simp: edge_rel_def closure_ok_def)
    then show ?thesis using static_edges(1) [OF ok] by auto
  qed
  have star: "(a, m) \<in> (edge_rel (dc_edges dc))\<^sup>*" if "(a, m) \<in> (steps f)\<^sup>*" "a \<in> set (dc_order dc)" for a m
    using that
  proof (induction rule: rtrancl_induct)
    case (step b c)
    then have "b \<in> set (dc_order dc)" using topological_closed [OF topo] by blast
    with step static_edges(1) [OF ok] show ?case by (meson rtrancl.rtrancl_into_rtrancl)
  qed simp
  have "number \<in> set (dc_order dc)" using order by auto
  then show "set (dc_order dc) = {m. (number, m) \<in> (steps f)\<^sup>*}"
    using order star rtrancl_mono [OF sub] by auto
  show "(a, m) \<in> (edge_rel (dc_edges dc))\<^sup>+" if a: "a \<in> set (dc_order dc)" "(a, m) \<in> (steps f)\<^sup>+"
  proof -
    obtain p where p: "(a, p) \<in> (steps f)\<^sup>*" "(p, m) \<in> steps f" using a(2) by (meson tranclD2)
    then have "(a, p) \<in> (edge_rel (dc_edges dc))\<^sup>*" using star a(1) by blast
    moreover from this have "p \<in> set (dc_order dc)" using topological_closed [OF topo] a(1) by blast
    ultimately show ?thesis using p(2) static_edges(1) [OF ok] by (meson rtrancl_into_trancl1)
  qed
qed

lemma walk_closure_static:
  assumes "finite {m. (number, m) \<in> (steps f)\<^sup>*}" "card {m. (number, m) \<in> (steps f)\<^sup>*} < depth"
    and "walk_closure (\<lambda>n. ret (f n)) repo depth number w = (Inl e, w')"
  shows "explains f repo {m. (number, m) \<in> (steps f)\<^sup>*} e"
proof -
  let ?R = "{m. (number, m) \<in> (steps f)\<^sup>*}"
  have "visit (\<lambda>n. ret (f n)) repo depth number start_walk w = (Inl e, w')"
    using assms(3) by (auto simp: walk_closure_def elim!: bindE_cases)
  then have "explains f repo ?R e \<or> e = Recursion_Error \<and> depth + length (wk_on_path start_walk) \<le> card ?R"
    by (rule visit_fails [OF assms(1), rotated])
      (auto simp: start_walk_def linked_def walk_inv_def topological_def intro: rtrancl.rtrancl_into_rtrancl)
  with assms(2) show ?thesis by auto
qed

text \<open>
  C4: over a graph that does not change under the walk, with more stack frames than reachable
  issues, the walk returns exactly when no reachable issue is on a cycle or carries a foreign edge;
  otherwise it raises the cycle error with the path of a real reachable cycle or the cross-repository
  error with a real edge.
\<close>

theorem walk_decides_static_graph:
  fixes w :: world and repo :: repo
  assumes "finite {m. (number, m) \<in> (steps f)\<^sup>*}" "card {m. (number, m) \<in> (steps f)\<^sup>*} < depth"
  defines "R \<equiv> {m. (number, m) \<in> (steps f)\<^sup>*}"
  defines "result \<equiv> fst (walk_closure (\<lambda>n. ret (f n)) repo depth number w)"
  shows "((\<exists>dc. result = Inr dc) \<longleftrightarrow>
      (\<forall>m \<in> R. (m, m) \<notin> (steps f)\<^sup>+ \<and> (\<forall>b \<in> set (f m). \<not> foreign repo b)))
    \<and> (\<forall>e. result = Inl e \<longrightarrow> explains f repo R e)"
proof -
  obtain r w' where run: "walk_closure (\<lambda>n. ret (f n)) repo depth number w = (r, w')"
    by (rule prod.exhaust)
  then have r: "result = r" by (simp add: result_def)
  show ?thesis
  proof (cases r)
    case (Inl e)
    have e: "explains f repo R e"
      using walk_closure_static [OF assms(1,2)] run Inl by (simp add: R_def)
    have "\<not> (\<forall>m \<in> R. (m, m) \<notin> (steps f)\<^sup>+ \<and> (\<forall>b \<in> set (f m). \<not> foreign repo b))"
    proof (cases e)
      case (Cycle_Error c)
      then have c: "linked f c" "2 \<le> length c" "hd c = last c" "set c \<subseteq> R" using e by auto
      then have "hd c \<in> R" by (metis hd_in_set list.size(3) not_numeral_le_zero subsetD)
      then show ?thesis using linked_trancl [OF c(1,2)] c(3) by metis
    qed (use e in auto)
    then show ?thesis using e Inl r by auto
  next
    case (Inr dc)
    have ok: "closure_ok (\<lambda>n as. as = f n) repo number dc"
      by (rule walk_closure_ok [where blocked = "\<lambda>n. ret (f n)" and w = w and w' = w' and depth = depth])
        (use run Inr in auto)
    have "(m, m) \<notin> (steps f)\<^sup>+ \<and> (\<forall>b \<in> set (f m). \<not> foreign repo b)" if "m \<in> R" for m
    proof -
      have "m \<in> set (dc_order dc)" using that static_order(1) [OF ok] by (simp add: R_def)
      then show ?thesis
        using static_order(2) [OF ok] closure_ok_acyclic [OF ok] static_edges(2) [OF ok] by blast
    qed
    then show ?thesis using Inr r by auto
  qed
qed

definition demo_issue :: "int \<Rightarrow> issue" where
  "demo_issue n = \<lparr>is_number = n, is_title = [], is_body = [], is_labels = [], is_assignees = [],
     is_is_pr = False, is_state = ''open'', is_state_reason = [], is_repo = []\<rparr>"

fun demo_graph :: "int \<Rightarrow> issue list" where
  "demo_graph n = (if n = 4 then [demo_issue 3, demo_issue 2] else if n = 3 then [demo_issue 1]
     else if n = 2 then [demo_issue 1] else [])"

lemma demo_reach: "{m. (4, m) \<in> (steps demo_graph)\<^sup>*} = {1, 2, 3, 4}"
proof
  show "{m. (4, m) \<in> (steps demo_graph)\<^sup>*} \<subseteq> {1, 2, 3, 4}"
  proof
    fix m :: int assume "m \<in> {m. (4, m) \<in> (steps demo_graph)\<^sup>*}"
    then have "(4, m) \<in> (steps demo_graph)\<^sup>*" by simp
    then show "m \<in> {1, 2, 3, 4}"
      by (induction rule: rtrancl_induct) (auto simp: steps_def demo_issue_def split: if_splits)
  qed
  have "(4, 3) \<in> steps demo_graph" "(4, 2) \<in> steps demo_graph" "(3, 1) \<in> steps demo_graph"
    by (simp_all add: steps_def demo_issue_def)
  then show "{1, 2, 3, 4} \<subseteq> {m. (4, m) \<in> (steps demo_graph)\<^sup>*}"
    by (auto intro: rtrancl_trans r_into_rtrancl)
qed

theorem walk_decides_static_graph_witness:
  "(\<exists>dc. fst (walk_closure (\<lambda>n. ret (demo_graph n)) ''o/r'' 100 4 (world_of empty_store)) = Inr dc)
   \<longleftrightarrow> (\<forall>m \<in> {1, 2, 3, 4}. (m, m) \<notin> (steps demo_graph)\<^sup>+ \<and> (\<forall>b \<in> set (demo_graph m). \<not> foreign ''o/r'' b))"
  using walk_decides_static_graph [of 4 demo_graph 100 "''o/r''" "world_of empty_store"]
  unfolding demo_reach by simp

theorem closure_is_topological_order_of_reachable_witness:
  "\<exists>dc. fst (walk_closure (\<lambda>n. ret (demo_graph n)) ''o/r'' 100 4 (world_of empty_store)) = Inr dc
     \<and> dc_order dc = [1, 2, 3, 4] \<and> topological (dc_edges dc) [1, 2, 3, 4]"
proof -
  have "case fst (walk_closure (\<lambda>n. ret (demo_graph n)) ''o/r'' 100 4 (world_of empty_store)) of
      Inl _ \<Rightarrow> False | Inr dc \<Rightarrow> dc_order dc = [1, 2, 3, 4]"
    by code_simp
  then obtain dc w' where dc: "walk_closure (\<lambda>n. ret (demo_graph n)) ''o/r'' 100 4 (world_of empty_store) = (Inr dc, w')"
      "dc_order dc = [1, 2, 3, 4]"
    by (cases "walk_closure (\<lambda>n. ret (demo_graph n)) ''o/r'' 100 4 (world_of empty_store)")
      (auto split: sum.splits)
  from closure_is_topological_order_of_reachable [OF dc(1)] dc show ?thesis by auto
qed

end
