(* ===== verification/Deps_Resolve.thy ===== *)
theory Deps_Resolve
  imports Deps_Walk
begin

text \<open>
  The go-ahead of \<open>resolve\<close>: what each decision says of the blockers and of their pull requests, and
  the chain check by base branches against its definition as a path.
\<close>

subsection \<open>The chain check\<close>

definition base_of :: "(int \<times> pull_request) list \<Rightarrow> int \<Rightarrow> string" where
  "base_of prs n = (case map_of prs n of None \<Rightarrow> [] | Some pr \<Rightarrow> pr_base_ref pr)"

text \<open>A path from the tip to the trunk through the branches of all open blockers.\<close>

definition single_chain :: "(int \<times> pull_request) list \<Rightarrow> string \<Rightarrow> int list \<Rightarrow> bool" where
  "single_chain prs trunk xs \<longleftrightarrow> xs \<noteq> [] \<and> distinct xs \<and> set xs = fst ` set prs
     \<and> successively (\<lambda>m n. base_of prs m = branch_for n) xs \<and> base_of prs (last xs) = trunk"

lemma single_chain_set: "single_chain prs trunk xs \<Longrightarrow> set xs = fst ` set prs"
  by (simp add: single_chain_def)

lemma single_chain_last: "single_chain prs trunk xs \<Longrightarrow> base_of prs (last xs) = trunk"
  by (simp add: single_chain_def)

lemma filter_eq_single: "distinct ns \<Longrightarrow> t \<in> set ns \<Longrightarrow> filter (\<lambda>n. n = t) ns = [t]"
  by (induction ns) (auto simp: filter_empty_conv)

lemma single_chain_link:
  "single_chain prs trunk xs \<Longrightarrow> xs = us @ m # n # vs \<Longrightarrow> base_of prs m = branch_for n"
  by (simp add: single_chain_def successively_append_iff)

lemma branch_of_iff:
  assumes "distinct (map fst prs)"
  shows "branch_of prs ref = Some n \<longleftrightarrow> n \<in> fst ` set prs \<and> ref = branch_for n"
proof -
  have "distinct (map fst (map (\<lambda>(n, pr). (branch_for n, n)) prs))"
    using assms by (auto simp: distinct_map o_def case_prod_beta inj_on_def)
  then show ?thesis
    unfolding branch_of_def by (force simp: map_of_eq_Some_iff)
qed

lemma base_of_eq:
  assumes "distinct (map fst prs)" "(n, pr) \<in> set prs"
  shows "base_of prs n = pr_base_ref pr" "map_of prs n = Some pr"
  using assms by (simp_all add: base_of_def)

lemma map_of_known: "n \<in> fst ` set prs \<Longrightarrow> \<exists>pr. map_of prs n = Some pr \<and> (n, pr) \<in> set prs"
  by (metis domD dom_map_of_conv_image_fst map_of_SomeD)

lemma follow_bases_sound:
  assumes "distinct (map fst prs)"
  shows "follow_bases prs trunk fuel chain here = Some xs \<Longrightarrow> chain \<noteq> [] \<Longrightarrow> last chain = here \<Longrightarrow>
    distinct chain \<Longrightarrow> set chain \<subseteq> fst ` set prs \<Longrightarrow>
    successively (\<lambda>m n. base_of prs m = branch_for n) chain \<Longrightarrow>
    hd xs = hd chain \<and> xs \<noteq> [] \<and> distinct xs \<and> set xs \<subseteq> fst ` set prs
      \<and> successively (\<lambda>m n. base_of prs m = branch_for n) xs \<and> base_of prs (last xs) = trunk"
proof (induction fuel arbitrary: chain here)
  case (Suc fuel)
  from Suc.prems(1) obtain pr where pr: "map_of prs here = Some pr" by (auto split: option.splits)
  then have base: "base_of prs here = pr_base_ref pr" by (simp add: base_of_def)
  show ?case
  proof (cases "pr_base_ref pr = trunk")
    case True
    then have "xs = chain" using Suc.prems(1) pr by simp
    with Suc.prems True base show ?thesis by simp
  next
    case False
    with Suc.prems(1) pr obtain n where n: "branch_of prs (pr_base_ref pr) = Some n" "n \<notin> set chain"
        "follow_bases prs trunk fuel (chain @ [n]) n = Some xs"
      by (auto split: option.splits if_splits)
    have "n \<in> fst ` set prs" "pr_base_ref pr = branch_for n"
      using n(1) branch_of_iff [OF assms] by auto
    then show ?thesis
      using Suc.IH [OF n(3)] Suc.prems n(2) base
      by (simp add: successively_append_iff)
  qed
qed simp

lemma follow_bases_complete:
  assumes "distinct (map fst prs)" "single_chain prs trunk xs"
    and trunk: "\<And>n. n \<in> fst ` set prs \<Longrightarrow> branch_for n \<noteq> trunk"
  shows "xs = us @ here # vs \<Longrightarrow> length vs < fuel \<Longrightarrow>
    follow_bases prs trunk fuel (us @ [here]) here = Some xs"
proof (induction vs arbitrary: us here fuel)
  case Nil
  then obtain f where f: "fuel = Suc f" by (cases fuel) auto
  have "here \<in> fst ` set prs" unfolding single_chain_set [OF assms(2), symmetric] using Nil by simp
  then obtain pr where pr: "map_of prs here = Some pr" using map_of_known [of here prs] by auto
  moreover have "base_of prs here = trunk"
    using single_chain_last [OF assms(2)] unfolding Nil(1) by simp
  ultimately have "pr_base_ref pr = trunk" by (simp add: base_of_def)
  then show ?case using pr f Nil by simp
next
  case (Cons n vs)
  then obtain f where f: "fuel = Suc f" by (cases fuel) auto
  have "here \<in> fst ` set prs" and n: "n \<in> fst ` set prs"
    unfolding single_chain_set [OF assms(2), symmetric] using Cons.prems(1) by simp_all
  then obtain pr where pr: "map_of prs here = Some pr" using map_of_known [of here prs] by auto
  have "base_of prs here = branch_for n"
    by (rule single_chain_link [OF assms(2) Cons.prems(1)])
  then have base: "pr_base_ref pr = branch_for n" using pr by (simp add: base_of_def)
  have "n \<notin> set (us @ [here])" using assms(2) Cons.prems(1) by (auto simp: single_chain_def)
  moreover have "branch_of prs (branch_for n) = Some n" using n branch_of_iff [OF assms(1)] by simp
  moreover have "follow_bases prs trunk f ((us @ [here]) @ [n]) n = Some xs"
    using Cons.prems f by (intro Cons.IH) simp_all
  ultimately show ?case using pr base trunk [OF n] f by simp
qed

lemma single_chain_tip:
  assumes "distinct (map fst prs)" "single_chain prs trunk xs"
    and trunk: "\<And>n. n \<in> fst ` set prs \<Longrightarrow> branch_for n \<noteq> trunk"
  shows "filter (\<lambda>n. branch_for n \<notin> pr_base_ref ` snd ` set prs) (map fst prs) = [hd xs]"
proof -
  have bases: "pr_base_ref ` snd ` set prs = base_of prs ` fst ` set prs"
    using base_of_eq [OF assms(1)] by force
  obtain t vs where xs: "xs = t # vs" using assms(2) by (cases xs) (auto simp: single_chain_def)
  have set_xs: "set xs = fst ` set prs" using assms(2) by (simp add: single_chain_def)
  have tail: "branch_for n \<in> base_of prs ` set xs" if n: "n \<in> set vs" for n
  proof -
    obtain as bs where "vs = as @ n # bs" using n by (meson split_list)
    moreover obtain q p where "t # as = q @ [p]" by (metis list.distinct(1) rev_exhaust)
    ultimately have split: "xs = q @ p # n # bs"
      using xs by (metis append.assoc append_Cons append_Nil)
    then have "base_of prs p = branch_for n" by (rule single_chain_link [OF assms(2)])
    moreover have "p \<in> set xs" using split by simp
    ultimately show ?thesis by (metis imageI)
  qed
  have head: "branch_for t \<notin> base_of prs ` set xs"
  proof
    assume "branch_for t \<in> base_of prs ` set xs"
    then obtain m where m: "m \<in> set xs" "base_of prs m = branch_for t" by auto
    show False
    proof (cases "m = last xs")
      case True
      then have "trunk = branch_for t" using m assms(2) by (simp add: single_chain_def)
      then show False using trunk [of t] set_xs xs by auto
    next
      case False
      then obtain as n bs where split: "xs = as @ m # n # bs"
        using m(1) by (metis append.right_neutral last_snoc list.exhaust split_list)
      then have "branch_for n = branch_for t"
        using single_chain_link [OF assms(2) split] m(2) by simp
      then have "n = t" by simp
      then show False using split xs assms(2) by (cases as) (auto simp: single_chain_def)
    qed
  qed
  have "n = t" if "n \<in> set xs" "branch_for n \<notin> base_of prs ` set xs" for n
    using that tail xs by auto
  then have "\<And>n. n \<in> fst ` set prs \<Longrightarrow> (branch_for n \<notin> pr_base_ref ` snd ` set prs) = (n = t)"
    using head unfolding bases set_xs [symmetric] by auto
  then have "filter (\<lambda>n. branch_for n \<notin> pr_base_ref ` snd ` set prs) (map fst prs) = filter (\<lambda>n. n = t) (map fst prs)"
    by (intro filter_cong) auto
  also have "\<dots> = [t]"
  proof -
    have "t \<in> set (map fst prs)" using set_xs xs by auto
    with assms(1) show ?thesis by (rule filter_eq_single)
  qed
  finally show ?thesis by (simp add: xs)
qed

lemma resolve_chain_kind: "cd_kind (resolve_chain prs trunk) \<in> {CHAINED, WAIT}"
  by (auto simp: resolve_chain_def decide_def parallel_lines_def split: option.splits list.splits)

lemma resolve_chain_sound:
  assumes "distinct (map fst prs)" "cd_kind (resolve_chain prs trunk) = CHAINED"
  shows "\<exists>xs. single_chain prs trunk xs \<and> hd xs = cd_tip_issue (resolve_chain prs trunk)
    \<and> cd_base_branch (resolve_chain prs trunk) = branch_for (hd xs)"
proof -
  from assms(2) obtain tip xs where
      tip: "filter (\<lambda>n. branch_for n \<notin> pr_base_ref ` snd ` set prs) (map fst prs) = [tip]"
    and xs: "follow_bases prs trunk (Suc (length prs)) [tip] tip = Some xs" "length xs = length prs"
    and d: "cd_tip_issue (resolve_chain prs trunk) = tip"
      "cd_base_branch (resolve_chain prs trunk) = branch_for tip"
    by (auto simp: resolve_chain_def decide_def parallel_lines_def
        split: option.splits list.splits if_splits simp del: follow_bases.simps)
  have "tip \<in> fst ` set prs" 
  proof -
    have "tip \<in> set (filter (\<lambda>n. branch_for n \<notin> pr_base_ref ` snd ` set prs) (map fst prs))"
      unfolding tip by simp
    then show ?thesis by auto
  qed
  then have f: "hd xs = tip \<and> xs \<noteq> [] \<and> distinct xs \<and> set xs \<subseteq> fst ` set prs
      \<and> successively (\<lambda>m n. base_of prs m = branch_for n) xs \<and> base_of prs (last xs) = trunk"
    using follow_bases_sound [OF assms(1) xs(1)] by simp
  have "card (set xs) = card (fst ` set prs)"
    using f xs(2) assms(1) by (metis distinct_card length_map list.set_map)
  then have "set xs = fst ` set prs" using f by (meson card_subset_eq finite_imageI finite_set)
  with f d show ?thesis by (auto simp: single_chain_def)
qed

lemma resolve_chain_complete:
  assumes "distinct (map fst prs)" "single_chain prs trunk xs"
    and trunk: "\<And>n. n \<in> fst ` set prs \<Longrightarrow> branch_for n \<noteq> trunk"
  shows "resolve_chain prs trunk = \<lparr>cd_kind = CHAINED, cd_reason = [], cd_base_branch = branch_for (hd xs),
    cd_base_is_chained = True, cd_tip_issue = hd xs\<rparr>"
proof -
  obtain t vs where t: "xs = t # vs" using assms(2) by (cases xs) (auto simp: single_chain_def)
  have set_xs: "set xs = fst ` set prs" and dist: "distinct xs" using assms(2) by (auto simp: single_chain_def)
  have len: "length xs = length prs"
    using set_xs dist assms(1) by (metis distinct_card length_map list.set_map)
  have inside: "pr_base_ref pr = trunk \<or> branch_of prs (pr_base_ref pr) \<noteq> None" if pr: "(n, pr) \<in> set prs" for n pr
  proof (cases "n = last xs")
    case True
    then show ?thesis using assms(2) base_of_eq [OF assms(1) pr] by (simp add: single_chain_def)
  next
    case False
    moreover have "n \<in> set xs" using pr set_xs by force
    ultimately obtain as m bs where "xs = as @ n # m # bs"
      by (metis append.right_neutral last_snoc list.exhaust split_list)
    then have m: "base_of prs n = branch_for m" "m \<in> set xs"
      using single_chain_link [OF assms(2)] by simp_all
    then have "branch_of prs (branch_for m) = Some m"
      using branch_of_iff [OF assms(1)] unfolding set_xs by blast
    then show ?thesis
      using base_of_eq [OF assms(1) pr] m(1) by simp
  qed
  then have "find (\<lambda>(n, pr). pr_base_ref pr \<noteq> trunk \<and> branch_of prs (pr_base_ref pr) = None) prs = None"
    by (auto simp: find_None_iff)
  moreover have "follow_bases prs trunk (Suc (length prs)) [t] t = Some xs"
    using follow_bases_complete [OF assms, of "[]" t vs "Suc (length prs)"] t len by simp
  ultimately show ?thesis
    using single_chain_tip [OF assms] t len by (simp add: resolve_chain_def del: follow_bases.simps)
qed

subsection \<open>The go-ahead\<close>

definition blocker_of :: "dependency_closure \<Rightarrow> int \<Rightarrow> issue" where
  "blocker_of closure n = (case dc_issues closure n of Some i \<Rightarrow> i | None \<Rightarrow> demo_issue n)"

definition blockers_of :: "dependency_closure \<Rightarrow> int list" where
  "blockers_of closure = filter (\<lambda>n. n \<noteq> last (dc_order closure)) (dc_order closure)"

definition completed :: "issue \<Rightarrow> bool" where
  "completed i \<longleftrightarrow> is_state i = ''closed'' \<and> is_state_reason i = ''completed''"

definition rejected :: "issue \<Rightarrow> bool" where
  "rejected i \<longleftrightarrow> is_state i = ''closed'' \<and> is_state_reason i \<noteq> ''completed''"

definition open_ones :: "dependency_closure \<Rightarrow> int list" where
  "open_ones closure = filter (\<lambda>n. is_state (blocker_of closure n) \<noteq> ''closed'') (blockers_of closure)"

definition prs_of :: "(string \<Rightarrow> pull_request option) \<Rightarrow> int list \<Rightarrow> (int \<times> pull_request) list" where
  "prs_of g ns = concat (map (\<lambda>n. case g (branch_for n) of None \<Rightarrow> [] | Some pr \<Rightarrow> [(n, pr)]) ns)"

text \<open>The payloads of a closure the walk returned: one for every blocker, under its own number.\<close>

definition has_payloads :: "dependency_closure \<Rightarrow> bool" where
  "has_payloads closure \<longleftrightarrow> distinct (dc_order closure)
     \<and> (\<forall>n \<in> set (blockers_of closure). \<exists>i. dc_issues closure n = Some i \<and> is_number i = n)"

lemma open_blockers_eq:
  assumes "\<forall>n \<in> set order. n \<noteq> walked \<longrightarrow> (\<exists>i. issues n = Some i \<and> is_number i = n)"
  shows "\<exists>r. open_blockers issues walked order = Inr r \<and>
    (case r of
       Inl d \<Rightarrow> cd_kind d = MALFORMED \<and> (\<exists>n \<in> set order. n \<noteq> walked \<and> rejected (the (issues n)))
     | Inr bs \<Rightarrow> bs = map (the \<circ> issues) (filter (\<lambda>n. is_state (the (issues n)) \<noteq> ''closed'')
                 (filter (\<lambda>n. n \<noteq> walked) order))
         \<and> (\<forall>n \<in> set order. n \<noteq> walked \<longrightarrow> \<not> rejected (the (issues n))))"
  using assms
proof (induction order)
  case (Cons n order)
  then obtain r where r: "open_blockers issues walked order = Inr r"
    "case r of
       Inl d \<Rightarrow> cd_kind d = MALFORMED \<and> (\<exists>n \<in> set order. n \<noteq> walked \<and> rejected (the (issues n)))
     | Inr bs \<Rightarrow> bs = map (the \<circ> issues) (filter (\<lambda>n. is_state (the (issues n)) \<noteq> ''closed'')
                 (filter (\<lambda>n. n \<noteq> walked) order))
         \<and> (\<forall>n \<in> set order. n \<noteq> walked \<longrightarrow> \<not> rejected (the (issues n)))" by auto
  show ?case
  proof (cases "n = walked")
    case True
    then show ?thesis using r by (auto split: sum.splits)
  next
    case False
    then obtain i where i: "issues n = Some i" using Cons.prems by auto
    show ?thesis
      using r False i
      by (cases r; cases "is_state i = ''closed''"; cases "is_state_reason i = ''completed''")
        (auto simp: rejected_def not_completed_def decide_def)
  qed
qed simp

lemma blocker_prs_eq:
  assumes "\<forall>b \<in> set bs. True"
  shows "\<exists>r. blocker_prs (\<lambda>ref. ret (g ref)) bs acc w = (Inr r, w) \<and>
    (if \<forall>b \<in> set bs. \<exists>pr. g (branch_for (is_number b)) = Some pr \<and> awaiting_merge pr
     then r = Inr (acc @ prs_of g (map is_number bs))
     else \<exists>d. r = Inl d \<and> cd_kind d = WAIT)"
  using assms
proof (induction bs arbitrary: acc)
  case (Cons b bs)
  show ?case
  proof (cases "\<exists>pr. g (branch_for (is_number b)) = Some pr \<and> awaiting_merge pr")
    case True
    then obtain pr where pr: "g (branch_for (is_number b)) = Some pr" "awaiting_merge pr" by blast
    obtain r where "blocker_prs (\<lambda>ref. ret (g ref)) bs (acc @ [(is_number b, pr)]) w = (Inr r, w)"
      "if \<forall>b \<in> set bs. \<exists>pr. g (branch_for (is_number b)) = Some pr \<and> awaiting_merge pr
       then r = Inr ((acc @ [(is_number b, pr)]) @ prs_of g (map is_number bs))
       else \<exists>d. r = Inl d \<and> cd_kind d = WAIT"
      using Cons.IH [of "acc @ [(is_number b, pr)]"] by auto
    with pr show ?thesis by (auto simp: prs_of_def)
  next
    case False
    then show ?thesis by (auto simp: decide_def split: option.split)
  qed
qed (simp add: prs_of_def)

lemma prs_of_fst: "\<forall>n \<in> set ns. g (branch_for n) \<noteq> None \<Longrightarrow> map fst (prs_of g ns) = ns"
  by (induction ns) (auto simp: prs_of_def)

text \<open>The four outcomes of \<open>resolve\<close>.\<close>

definition any_rejected :: "dependency_closure \<Rightarrow> bool" where
  "any_rejected closure \<longleftrightarrow> (\<exists>n \<in> set (blockers_of closure). rejected (blocker_of closure n))"

definition all_approved :: "(string \<Rightarrow> pull_request option) \<Rightarrow> dependency_closure \<Rightarrow> bool" where
  "all_approved g closure \<longleftrightarrow> (\<forall>n \<in> set (open_ones closure). \<exists>pr. g (branch_for n) = Some pr \<and> awaiting_merge pr)"

lemma completed_iff:
  "(\<forall>n \<in> set (blockers_of closure). completed (blocker_of closure n)) \<longleftrightarrow> \<not> any_rejected closure \<and> open_ones closure = []"
  by (auto simp: any_rejected_def open_ones_def completed_def rejected_def filter_empty_conv)

lemma open_blockers_outcome:
  assumes "has_payloads closure"
  obtains (bad) d where "open_blockers (dc_issues closure) (last (dc_order closure)) (dc_order closure) = Inr (Inl d)"
      "cd_kind d = MALFORMED" "any_rejected closure"
    | (good) "open_blockers (dc_issues closure) (last (dc_order closure)) (dc_order closure)
        = Inr (Inr (map (blocker_of closure) (open_ones closure)))"
      "\<not> any_rejected closure" "map is_number (map (blocker_of closure) (open_ones closure)) = open_ones closure"
proof -
  let ?walked = "last (dc_order closure)"
  have pay: "\<forall>n \<in> set (dc_order closure). n \<noteq> ?walked \<longrightarrow> (\<exists>i. dc_issues closure n = Some i \<and> is_number i = n)"
    using assms by (auto simp: has_payloads_def blockers_of_def)
  have bo: "blocker_of closure n = the (dc_issues closure n)" "is_number (blocker_of closure n) = n"
    if "n \<in> set (blockers_of closure)" for n
    using that assms by (auto simp: has_payloads_def blocker_of_def)
  have mal: "any_rejected closure \<longleftrightarrow> (\<exists>n \<in> set (dc_order closure). n \<noteq> ?walked \<and> rejected (the (dc_issues closure n)))"
    unfolding any_rejected_def using bo by (auto simp: blockers_of_def)
  have opens: "open_ones closure = filter (\<lambda>n. is_state (the (dc_issues closure n)) \<noteq> ''closed'') (blockers_of closure)"
    unfolding open_ones_def using bo by (intro filter_cong) auto
  have bs: "map (the \<circ> dc_issues closure) (open_ones closure) = map (blocker_of closure) (open_ones closure)"
    using bo by (auto simp: open_ones_def)
  have nums: "map is_number (map (blocker_of closure) (open_ones closure)) = open_ones closure"
    using bo by (auto simp: open_ones_def intro!: map_idI)
  obtain r where r: "open_blockers (dc_issues closure) ?walked (dc_order closure) = Inr r"
    "case r of
       Inl d \<Rightarrow> cd_kind d = MALFORMED \<and> (\<exists>n \<in> set (dc_order closure). n \<noteq> ?walked \<and> rejected (the (dc_issues closure n)))
     | Inr bs \<Rightarrow> bs = map (the \<circ> dc_issues closure) (filter (\<lambda>n. is_state (the (dc_issues closure n)) \<noteq> ''closed'')
                 (filter (\<lambda>n. n \<noteq> ?walked) (dc_order closure)))
         \<and> (\<forall>n \<in> set (dc_order closure). n \<noteq> ?walked \<longrightarrow> \<not> rejected (the (dc_issues closure n)))"
    using open_blockers_eq [OF pay] by blast
  then show thesis
    using bad good mal nums bs opens by (cases r) (auto simp: blockers_of_def)
qed

definition decided :: "(string \<Rightarrow> pull_request option) \<Rightarrow> dependency_closure \<Rightarrow> string \<Rightarrow> chain_decision \<Rightarrow> bool" where
  "decided g closure trunk d \<longleftrightarrow>
     (if any_rejected closure then cd_kind d = MALFORMED
      else if open_ones closure = [] then cd_kind d = READY \<and> cd_base_branch d = trunk
      else if all_approved g closure then d = resolve_chain (prs_of g (open_ones closure)) trunk
      else cd_kind d = WAIT)"

lemma resolve_outcome:
  assumes "has_payloads closure"
  shows "\<exists>d. resolve (\<lambda>ref. ret (g ref)) closure trunk w = (Inr d, w) \<and> decided g closure trunk d"
  using assms
proof (cases rule: open_blockers_outcome)
  case (bad d)
  then show ?thesis by (intro exI [of _ d]) (simp add: resolve_def lift_def bindE_def ret_def decided_def)
next
  case good
  let ?bs = "map (blocker_of closure) (open_ones closure)"
  show ?thesis
  proof (cases "open_ones closure = []")
    case True
    then show ?thesis using good
      by (intro exI [of _ "(decide READY [])\<lparr>cd_base_branch := trunk\<rparr>"])
        (simp add: resolve_def lift_def bindE_def ret_def decide_def decided_def)
  next
    case False
    have "(\<forall>b \<in> set ?bs. P (is_number b)) \<longleftrightarrow> (\<forall>n \<in> set (map is_number ?bs). P n)" for P by simp
    then have all: "(\<forall>b \<in> set ?bs. P (is_number b)) \<longleftrightarrow> (\<forall>n \<in> set (open_ones closure). P n)" for P
      unfolding good(3) by blast
    obtain q where q: "blocker_prs (\<lambda>ref. ret (g ref)) ?bs [] w = (Inr q, w)"
      "if all_approved g closure then q = Inr (prs_of g (open_ones closure)) else \<exists>d. q = Inl d \<and> cd_kind d = WAIT"
      using blocker_prs_eq [of ?bs g "[]" w] unfolding good(3) all [of "\<lambda>n. \<exists>pr. g (branch_for n) = Some pr \<and> awaiting_merge pr"]
        all_approved_def append_Nil by blast
    let ?d = "case q of Inl d \<Rightarrow> d | Inr prs \<Rightarrow> resolve_chain prs trunk"
    have "resolve (\<lambda>ref. ret (g ref)) closure trunk w = (Inr ?d, w)"
      using good(1) q(1) False
      by (cases ?bs) (simp_all add: resolve_def lift_def bindE_def ret_def del: blocker_prs.simps split: sum.split)
    moreover have "decided g closure trunk ?d"
      using good(2) False q(2) by (auto simp: decided_def split: if_splits)
    ultimately show ?thesis by blast
  qed
qed

lemma prs_of_distinct:
  assumes "has_payloads closure" "all_approved g closure"
  shows "distinct (map fst (prs_of g (open_ones closure)))"
proof -
  have "map fst (prs_of g (open_ones closure)) = open_ones closure"
    using assms(2) unfolding all_approved_def by (intro prs_of_fst) auto
  then show ?thesis using assms(1) by (simp add: open_ones_def blockers_of_def has_payloads_def)
qed

text \<open>What a decision to go ahead says, for any default branch.\<close>

lemma resolve_sound:
  assumes pay: "has_payloads closure" and run: "resolve (\<lambda>ref. ret (g ref)) closure trunk w = (Inr d, w')"
    and kind: "cd_kind d = READY \<or> cd_kind d = CHAINED"
  shows "(cd_kind d = READY \<and> (\<forall>n \<in> set (blockers_of closure). completed (blocker_of closure n)))
    \<or> (cd_kind d = CHAINED \<and> \<not> any_rejected closure \<and> all_approved g closure
       \<and> (\<exists>xs. single_chain (prs_of g (open_ones closure)) trunk xs))"
proof -
  have d: "decided g closure trunk d" using resolve_outcome [OF pay, of g trunk w] run by auto
  show ?thesis
  proof (cases "any_rejected closure \<or> open_ones closure = []")
    case True
    then show ?thesis using d kind unfolding completed_iff by (auto simp: decided_def split: if_splits)
  next
    case False
    then have chained: "\<not> any_rejected closure" "all_approved g closure" "d = resolve_chain (prs_of g (open_ones closure)) trunk"
      using d kind by (auto simp: decided_def split: if_splits)
    then have "cd_kind d = CHAINED" using kind resolve_chain_kind [of "prs_of g (open_ones closure)" trunk] by auto
    then show ?thesis using chained resolve_chain_sound [OF prs_of_distinct [OF pay chained(2)], of trunk] by blast
  qed
qed

text \<open>
  C6: the go-ahead over a closure with a payload for every blocker: READY on the default branch
  exactly when every blocker was closed as completed; MALFORMED exactly when some blocker was closed
  for another reason; CHAINED on a tip's branch exactly when the open blockers all have a pull
  request approved and awaiting merge and those form one chain from that tip down to the default
  branch; and WAIT in every other case.
\<close>

theorem resolve_is_the_go_ahead:
  fixes g :: "string \<Rightarrow> pull_request option" and w :: world
  assumes "has_payloads closure" and trunk: "\<And>n. branch_for n \<noteq> trunk"
  defines "opens \<equiv> open_ones closure"
  defines "prs \<equiv> prs_of g (open_ones closure)"
  defines "malformed \<equiv> \<exists>n \<in> set (blockers_of closure). rejected (blocker_of closure n)"
  defines "approved \<equiv> \<forall>n \<in> set (open_ones closure). \<exists>pr. g (branch_for n) = Some pr \<and> awaiting_merge pr"
  shows "\<exists>d. resolve (\<lambda>ref. ret (g ref)) closure trunk w = (Inr d, w)
    \<and> (cd_kind d = READY \<longleftrightarrow> (\<forall>n \<in> set (blockers_of closure). completed (blocker_of closure n)))
    \<and> (cd_kind d = READY \<longrightarrow> cd_base_branch d = trunk)
    \<and> (cd_kind d = MALFORMED \<longleftrightarrow> malformed)
    \<and> (\<forall>t. cd_kind d = CHAINED \<and> cd_tip_issue d = t \<longleftrightarrow>
          \<not> malformed \<and> approved \<and> (\<exists>xs. single_chain prs trunk xs \<and> hd xs = t))
    \<and> (cd_kind d = CHAINED \<longrightarrow> cd_base_branch d = branch_for (cd_tip_issue d))"
proof -
  have same: "malformed = any_rejected closure" "approved = all_approved g closure"
    by (simp_all add: malformed_def any_rejected_def approved_def all_approved_def)
  obtain d where run: "resolve (\<lambda>ref. ret (g ref)) closure trunk w = (Inr d, w)" and o: "decided g closure trunk d"
    using resolve_outcome [OF assms(1), of g trunk w] by blast
  have none: "\<not> single_chain prs trunk xs" if "open_ones closure = []" for xs
    using that by (auto simp: single_chain_def prs_def prs_of_def)
  show ?thesis
  proof (cases "malformed \<or> open_ones closure = [] \<or> \<not> approved")
    case True
    then show ?thesis using run o none unfolding completed_iff same by (auto simp: decided_def intro!: exI [of _ d] split: if_splits)
  next
    case False
    then have d: "d = resolve_chain prs trunk" using o by (auto simp: decided_def same prs_def)
    have dist: "distinct (map fst prs)"
      unfolding prs_def using prs_of_distinct [OF assms(1)] False same(2) by blast
    have "cd_kind d = CHAINED \<and> cd_tip_issue d = t \<longleftrightarrow> (\<exists>xs. single_chain prs trunk xs \<and> hd xs = t)" for t
      using resolve_chain_sound [OF dist, of trunk] resolve_chain_complete [OF dist _ trunk] unfolding d by fastforce
    moreover have "cd_kind d = CHAINED \<longrightarrow> cd_base_branch d = branch_for (cd_tip_issue d)"
      using resolve_chain_sound [OF dist, of trunk] unfolding d by auto
    moreover have "cd_kind d \<in> {CHAINED, WAIT}" unfolding d by (rule resolve_chain_kind)
    ultimately show ?thesis
      unfolding completed_iff same using run False [unfolded same] by (intro exI [of _ d] conjI allI) auto
  qed
qed

definition demo_pull :: "int \<Rightarrow> string \<Rightarrow> pull_request" where
  "demo_pull n base = \<lparr>pr_number = n + 100, pr_title = [], pr_body = [], pr_head_ref = branch_for n,
     pr_head_sha = ''abc'', pr_base_ref = base, pr_labels = [PR_READY, NEEDS_HUMAN],
     pr_state = ''open'', pr_merged = False, pr_merge_commit_sha = []\<rparr>"

text \<open>A stack of two open blockers under the walked issue, on a merged one.\<close>

definition demo_closure :: dependency_closure where
  "demo_closure = \<lparr>dc_order = [1, 2, 3, 4],
     dc_edges = [1 \<mapsto> [], 2 \<mapsto> [1], 3 \<mapsto> [2], 4 \<mapsto> [3]],
     dc_issues = [1 \<mapsto> (demo_issue 1)\<lparr>is_state := ''closed'', is_state_reason := ''completed''\<rparr>,
                  2 \<mapsto> demo_issue 2, 3 \<mapsto> demo_issue 3]\<rparr>"

definition demo_pulls :: "string \<Rightarrow> pull_request option" where
  "demo_pulls = [branch_for 2 \<mapsto> demo_pull 2 ''main'', branch_for 3 \<mapsto> demo_pull 3 (branch_for 2)]"

theorem resolve_is_the_go_ahead_witness:
  "\<exists>d. resolve (\<lambda>ref. ret (demo_pulls ref)) demo_closure ''main'' (world_of empty_store)
      = (Inr d, world_of empty_store)
     \<and> cd_kind d = CHAINED \<and> cd_tip_issue d = 3 \<and> cd_base_branch d = branch_for 3"
proof -
  have pay: "has_payloads demo_closure"
    by (simp add: has_payloads_def demo_closure_def blockers_of_def demo_issue_def)
  have trunk: "branch_for n \<noteq> ''main''" for n
    by (simp add: branch_for_def BRANCH_PREFIX_def)
  have opens: "open_ones demo_closure = [2, 3]"
    by (simp add: open_ones_def blockers_of_def blocker_of_def demo_closure_def demo_issue_def)
  have "\<not> (\<exists>n \<in> set (blockers_of demo_closure). rejected (blocker_of demo_closure n))"
    by (simp add: blockers_of_def blocker_of_def demo_closure_def demo_issue_def rejected_def)
  moreover have "\<forall>n \<in> set (open_ones demo_closure). \<exists>pr. demo_pulls (branch_for n) = Some pr \<and> awaiting_merge pr"
    unfolding opens by (simp add: demo_pulls_def demo_pull_def awaiting_merge_def)
  moreover have "single_chain (prs_of demo_pulls (open_ones demo_closure)) ''main'' [3, 2]"
    unfolding opens
    by (auto simp: single_chain_def prs_of_def demo_pulls_def base_of_def demo_pull_def)
  ultimately show ?thesis
    using resolve_is_the_go_ahead [OF pay trunk, of demo_pulls "world_of empty_store"]
    by (metis list.sel(1))
qed

end
