(* ===== verification/Dispatch.thy ===== *)
theory Dispatch
  imports Deps
begin

text \<open>
  Claim dispatch (\<open>control/.../dispatch.py\<close>): the gates, the dependency lanes over pass-scoped
  reads, and the granting pass with its write-through to GitHub. The global lock makes a request
  one computation.
\<close>

subsection \<open>Pass-scoped reads\<close>

definition pass_list_blocked_by :: "env \<Rightarrow> repo \<Rightarrow> int \<Rightarrow> issue list run" where
  "pass_list_blocked_by env repo number w =
     (case ps_blocked (wd_reads w) number of
        Some bs \<Rightarrow> (Inr bs, w)
      | None \<Rightarrow> bindE (list_blocked_by env repo number) (\<lambda>bs w'.
          (Inr bs, w'\<lparr>wd_reads := (wd_reads w')\<lparr>ps_blocked := (ps_blocked (wd_reads w'))(number \<mapsto> bs)\<rparr>\<rparr>)) w)"

definition pass_find_open_pr_by_head :: "env \<Rightarrow> repo \<Rightarrow> string \<Rightarrow> pull_request option run" where
  "pass_find_open_pr_by_head env repo head_ref w =
     (case ps_prs (wd_reads w) head_ref of
        Some p \<Rightarrow> (Inr p, w)
      | None \<Rightarrow> bindE (find_open_pr_by_head env repo head_ref) (\<lambda>p w'.
          (Inr p, w'\<lparr>wd_reads := (wd_reads w')\<lparr>ps_prs := (ps_prs (wd_reads w'))(head_ref \<mapsto> p)\<rparr>\<rparr>)) w)"

definition pass_merge_settings :: "env \<Rightarrow> repo \<Rightarrow> merge_settings run" where
  "pass_merge_settings env repo w =
     (case ps_settings (wd_reads w) of
        Some s \<Rightarrow> (Inr s, w)
      | None \<Rightarrow> bindE (repo_merge_settings env repo) (\<lambda>s w'.
          (Inr s, w'\<lparr>wd_reads := (wd_reads w')\<lparr>ps_settings := Some s\<rparr>\<rparr>)) w)"

definition new_pass :: "unit run" where
  "new_pass w = (Inr (), w\<lparr>wd_reads := fresh_reads\<rparr>)"

subsection \<open>Gates\<close>

definition version_block :: "string \<Rightarrow> string \<Rightarrow> store \<Rightarrow> string option" where
  "version_block node pin s =
     (if pin = [] \<or> node_version node s = [] \<or> node_version node s = pin then None
      else Some (''node '' @ py_repr node @ '' runs product version '' @ node_version node s
        @ '', the pin is '' @ pin @ ''; no new work until it converges''))"

definition drivers_block :: "string \<Rightarrow> string \<Rightarrow> store \<Rightarrow> string option" where
  "drivers_block node drivers_hash s =
     (if drivers_hash = [] then None
      else case node_drivers_hash node s of
             None \<Rightarrow> None
           | Some reported \<Rightarrow>
               if reported = drivers_hash then None
               else Some (''node '' @ py_repr node @ '' runs config distribution ''
                 @ (if reported = [] then ''(none applied)'' else take_points 12 reported)
                 @ '', the deployment is '' @ take_points 12 drivers_hash @ ''; no new work until it converges''))"

text \<open>\<open>str (exc)\<close> of the two errors of a malformed graph.\<close>

definition cycle_text :: "int list \<Rightarrow> string" where
  "cycle_text c = ''dependency cycle in the blocked-by closure: ''
     @ join '' -> '' (map (\<lambda>n. ''#'' @ show_int n) c) @ '' '' @ em_dash
     @ '' re-edge the relations on GitHub (ADR-0053)''"

definition cross_repo_text :: "int \<Rightarrow> string \<Rightarrow> string" where
  "cross_repo_text n foreign_repo = ''issue #'' @ show_int n @ '' is blocked by an issue in ''
     @ py_repr foreign_repo @ '' '' @ em_dash @ '' a cross-repo Dependency Edge on a claimable issue''
     @ '' is malformed (ADR-0053); replace it with a locally created stand-in issue''"

datatype lane = Malformed_Lane | Wait_Lane

text \<open>The exceptions of the closure walk: malformed graphs are answers, failing reads are re-raised.\<close>

definition walk_errors :: "int \<Rightarrow> exn \<Rightarrow> ((lane \<times> string) + dependency_closure) run" where
  "walk_errors number e =
     (case e of
        Cycle_Error c \<Rightarrow> ret (Inl (Malformed_Lane, cycle_text c))
      | Cross_Repo_Error n r \<Rightarrow> ret (Inl (Malformed_Lane, cross_repo_text n r))
      | GitHub_Error msg st \<Rightarrow> raise (GitHub_Error
          (''dependency read for issue #'' @ show_int number @ '' failed '' @ em_dash
           @ '' dispatch pauses rather than granting with unknown ordering (ADR-0053): '' @ msg) st)
      | _ \<Rightarrow> raise e)"

definition dependency_block :: "env \<Rightarrow> repo \<Rightarrow> int \<Rightarrow> (lane \<times> string) option run" where
  "dependency_block env repo number =
     bindE (catchE (bindE (walk_closure (pass_list_blocked_by env repo) repo (en_depth env) number)
                     (\<lambda>dc. ret (Inr dc))) (walk_errors number)) (\<lambda>walked.
       case walked of
         Inl block \<Rightarrow> ret (Some block)
       | Inr dc \<Rightarrow>
           if dc_order dc = [number] then ret None
           else bindE (default_branch env repo) (\<lambda>trunk.
             bindE (resolve (pass_find_open_pr_by_head env repo) dc trunk) (\<lambda>d.
               case cd_kind d of
                 MALFORMED \<Rightarrow> ret (Some (Malformed_Lane, cd_reason d))
               | WAIT \<Rightarrow> ret (Some (Wait_Lane, cd_reason d))
               | CHAINED \<Rightarrow>
                   bindE (pass_merge_settings env repo) (\<lambda>settings.
                     ret (case chain_preconditions settings of
                            None \<Rightarrow> None
                          | Some off \<Rightarrow> Some (Wait_Lane,
                              off @ ''; dependents wait for full merge (ADR-0053)'')))
               | READY \<Rightarrow> ret None)))"

subsection \<open>The granting pass\<close>

record granted_issue =
  gi_number :: int
  gi_title :: string
  gi_body :: string
  gi_labels :: "string list"

record answer =
  an_issue :: "granted_issue option"
  an_reason :: "string option"

definition nothing :: answer where
  "nothing = \<lparr>an_issue = None, an_reason = None\<rparr>"

definition refused :: "string \<Rightarrow> answer" where
  "refused reason = \<lparr>an_issue = None, an_reason = Some reason\<rparr>"

definition handed_out :: "issue \<Rightarrow> granted_issue" where
  "handed_out i = \<lparr>gi_number = is_number i, gi_title = is_title i, gi_body = is_body i,
     gi_labels = sort (remdups (filter (\<lambda>l. l \<noteq> PLAN_READY) (IN_PROGRESS # is_labels i)))\<rparr>"

definition failed_detail :: string where
  "failed_detail = ''carries failed + plan_ready; dispatch refuses to grant (ADR-0016)''"

text \<open>The three write-throughs, after the grant row.\<close>

definition write_grant :: "env \<Rightarrow> repo \<Rightarrow> string \<Rightarrow> string \<Rightarrow> string \<Rightarrow> issue \<Rightarrow> answer run" where
  "write_grant env repo worker node login i =
     bindE (stamping env (\<lambda>t. record_grant t repo (is_number i) worker node login)) (\<lambda>_.
     bindE (add_assignees env repo (is_number i) [login]) (\<lambda>_.
     bindE (add_labels env repo (is_number i) [IN_PROGRESS]) (\<lambda>_.
     bindE (remove_label env repo (is_number i) PLAN_READY) (\<lambda>_.
       ret \<lparr>an_issue = Some (handed_out i), an_reason = None\<rparr>))))"

text \<open>\<open>if number in waiting: clear\<close>.\<close>

definition clear_if :: "bool \<Rightarrow> (store \<Rightarrow> store) \<Rightarrow> unit run" where
  "clear_if b f = (if b then changing f else ret ())"

definition record_block ::
  "env \<Rightarrow> repo \<Rightarrow> int set \<Rightarrow> int set \<Rightarrow> int \<Rightarrow> lane \<times> string \<Rightarrow> unit run" where
  "record_block env repo flagged waiting number block =
     (case block of
        (Malformed_Lane, detail) \<Rightarrow>
          bindE (stamping env (\<lambda>t. record_malformed t repo number detail)) (\<lambda>_.
            clear_if (number \<in> waiting) (clear_wait repo number))
      | (Wait_Lane, detail) \<Rightarrow>
          bindE (stamping env (\<lambda>t. record_wait t repo number detail)) (\<lambda>_.
            clear_if (number \<in> flagged) (clear_malformed repo number)))"

definition spoken_for :: "int set \<Rightarrow> int set \<Rightarrow> issue \<Rightarrow> bool" where
  "spoken_for granted live i \<longleftrightarrow>
     is_assignees i \<noteq> [] \<or> IN_PROGRESS \<in> set (is_labels i)
     \<or> is_number i \<in> granted \<or> is_number i \<in> live"

fun grant_loop ::
  "env \<Rightarrow> repo \<Rightarrow> string \<Rightarrow> string \<Rightarrow> string \<Rightarrow> int set \<Rightarrow> int set \<Rightarrow> int set \<Rightarrow> int set \<Rightarrow>
   issue list \<Rightarrow> answer run" where
  "grant_loop env repo worker node login granted live flagged waiting [] = ret nothing"
| "grant_loop env repo worker node login granted live flagged waiting (i # rest) =
     (let number = is_number i;
          next_one = grant_loop env repo worker node login granted live flagged waiting rest
      in if FAILED \<in> set (is_labels i)
         then bindE (stamping env (\<lambda>t. record_malformed t repo number failed_detail)) (\<lambda>_.
              bindE (clear_if (number \<in> waiting) (clear_wait repo number)) (\<lambda>_. next_one))
         else if spoken_for granted live i then next_one
         else bindE (dependency_block env repo number) (\<lambda>block.
                case block of
                  Some b \<Rightarrow> bindE (record_block env repo flagged waiting number b) (\<lambda>_. next_one)
                | None \<Rightarrow>
                    bindE (clear_if (number \<in> flagged) (clear_malformed repo number)) (\<lambda>_.
                    bindE (clear_if (number \<in> waiting) (clear_wait repo number)) (\<lambda>_.
                      write_grant env repo worker node login i))))"

definition malformed_numbers :: "repo \<Rightarrow> store \<Rightarrow> int list" where
  "malformed_numbers repo s = map mf_issue (malformed_states (Some repo) s)"

definition wait_numbers :: "repo \<Rightarrow> store \<Rightarrow> int list" where
  "wait_numbers repo s = map dw_issue (dispatch_waits (Some repo) s)"

text \<open>Advisory rows of issues that left the pool go with them, in this repository only.\<close>

definition drop_departed :: "repo \<Rightarrow> int set \<Rightarrow> store \<Rightarrow> store" where
  "drop_departed repo listed s =
     (let s1 = fold (\<lambda>n t. if n \<in> listed then t else clear_malformed repo n t) (malformed_numbers repo s) s
      in fold (\<lambda>n t. if n \<in> listed then t else clear_wait repo n t) (wait_numbers repo s1) s1)"

definition live_issues :: "repo \<Rightarrow> store \<Rightarrow> int set" where
  "live_issues repo s = set (map lc_issue (filter (\<lambda>c. lc_repo c = repo) (live_claims s)))"

definition granting_pass :: "env \<Rightarrow> repo \<Rightarrow> string \<Rightarrow> string \<Rightarrow> string \<Rightarrow> answer run" where
  "granting_pass env repo worker node login =
     bindE (reading (granted_issues repo)) (\<lambda>granted.
     bindE (reading (live_issues repo)) (\<lambda>live.
     bindE (list_open_issues env repo PLAN_READY) (\<lambda>candidates.
     bindE (changing (drop_departed repo (is_number ` set candidates))) (\<lambda>_.
     bindE (reading (malformed_numbers repo)) (\<lambda>flagged.
     bindE (reading (wait_numbers repo)) (\<lambda>waiting.
     bindE new_pass (\<lambda>_.
       grant_loop env repo worker node login (set granted) live (set flagged) (set waiting) candidates)))))))"

text \<open>\<open>except GitHubError\<close>: the pause is recorded for this repository and answered as a reason.\<close>

definition paused :: "env \<Rightarrow> repo \<Rightarrow> (string \<Rightarrow> 'a) \<Rightarrow> exn \<Rightarrow> 'a run" where
  "paused env repo mk e =
     (case e of
        GitHub_Error msg st \<Rightarrow>
          bindE (stamping env (\<lambda>t. record_dispatch_pause t repo msg)) (\<lambda>_.
            ret (mk (''dispatch paused for '' @ repo @ '': '' @ msg)))
      | _ \<Rightarrow> raise e)"

definition gate_reason :: "string \<Rightarrow> string \<Rightarrow> string \<Rightarrow> store \<Rightarrow> string option" where
  "gate_reason node pin drivers_hash s =
     (case node_quarantine node s of
        Some q \<Rightarrow> Some (''node '' @ py_repr node @ '' quarantined: '' @ q)
      | None \<Rightarrow>
          (case version_block node pin s of
             Some r \<Rightarrow> Some r
           | None \<Rightarrow>
               (case drivers_block node drivers_hash s of
                  Some r \<Rightarrow> Some r
                | None \<Rightarrow>
                    let pending = pending_lifecycle_commands node s in
                    if pending \<noteq> []
                    then Some (''node '' @ py_repr node @ '' has pending '' @ join ''/'' pending @ ''; no new work'')
                    else None)))"

definition grant_work ::
  "env \<Rightarrow> repo \<Rightarrow> string \<Rightarrow> string \<Rightarrow> string \<Rightarrow> string \<Rightarrow> string \<Rightarrow> string \<Rightarrow> answer run" where
  "grant_work env repo worker node login stack pin drivers_hash =
     bindE (stamping env (\<lambda>t. upsert_driver t worker node login ''implementer'' repo stack)) (\<lambda>_.
     bindE (reading (gate_reason node pin drivers_hash)) (\<lambda>gate.
       case gate of
         Some reason \<Rightarrow> ret (refused reason)
       | None \<Rightarrow>
           bindE (new_client repo) (\<lambda>_.
             catchE
               (bindE (granting_pass env repo worker node login) (\<lambda>answer.
                bindE (changing (clear_dispatch_pause repo)) (\<lambda>_. ret answer)))
               (paused env repo refused))))"

record review_answer =
  ra_prs :: "int list"
  ra_reason :: "string option"

definition review_targets ::
  "env \<Rightarrow> repo \<Rightarrow> string \<Rightarrow> string \<Rightarrow> string \<Rightarrow> string \<Rightarrow> string \<Rightarrow> string \<Rightarrow> review_answer run" where
  "review_targets env repo worker node login stack pin drivers_hash =
     (let no_prs = (\<lambda>reason. \<lparr>ra_prs = [], ra_reason = Some reason\<rparr>) in
     bindE (stamping env (\<lambda>t. upsert_driver t worker node login ''reviewer'' repo stack)) (\<lambda>_.
     bindE (reading (\<lambda>s. case version_block node pin s of Some r \<Rightarrow> Some r
                         | None \<Rightarrow> drivers_block node drivers_hash s)) (\<lambda>gate.
       case gate of
         Some reason \<Rightarrow> ret (no_prs reason)
       | None \<Rightarrow>
           bindE (new_client repo) (\<lambda>_.
             catchE
               (bindE (list_open_prs_by_label env repo PR_READY) (\<lambda>candidates.
                bindE (changing (clear_dispatch_pause repo)) (\<lambda>_.
                  ret \<lparr>ra_prs = map is_number (filter (\<lambda>c. reviewable (is_labels c)) candidates),
                       ra_reason = None\<rparr>)))
               (paused env repo no_prs)))))"

end
