(* ===== verification/Client_Facts.thy ===== *)
theory Client_Facts
  imports Dispatch
begin

text \<open>
  What the client's operations leave alone, proved once over the frame interface: reads send only
  \<open>GET\<close> requests and touch neither the store nor the transcript of writes; a write sends only its
  own request, at most \<open>MAX_RETRIES\<close> times, and is in the transcript when it succeeds.
\<close>

subsection \<open>Reads\<close>

definition all_gets :: "request list \<Rightarrow> bool" where
  "all_gets rs \<longleftrightarrow> list_all (\<lambda>rq. rq_method rq = ''GET'') rs"

definition reads_only :: "world \<Rightarrow> world \<Rightarrow> bool" where
  "reads_only w w' \<longleftrightarrow> wd_store w' = wd_store w \<and> wd_writes w' = wd_writes w
     \<and> (\<exists>rs. wd_requests w' = wd_requests w @ rs \<and> (\<forall>rq \<in> set rs. rq_method rq = ''GET''))"

interpretation gets: frame reads_only
proof unfold_locales
  show "reads_only w w" for w by (simp add: reads_only_def)
  show "reads_only u v \<Longrightarrow> reads_only v w \<Longrightarrow> reads_only u w" for u v w
    by (auto simp: reads_only_def)
qed

lemma gets_lift [intro, simp]: "gets.kept_by (lift r)"
  by (rule gets.kept_byI) (simp add: lift_def gets.refl)

lemma gets_now [intro, simp]: "gets.kept_by (now env)"
  by (rule gets.kept_byI) (simp add: now_def reads_only_def)

lemma gets_sleep [intro, simp]: "gets.kept_by (sleep d)"
  by (rule gets.kept_byI) (simp add: sleep_def reads_only_def)

lemma gets_exchange [intro]: "rq_method rq = ''GET'' \<Longrightarrow> gets.kept_by (exchange env rq)"
  by (rule gets.kept_byI) (simp add: exchange_def reads_only_def)

lemma gets_note_write [intro]: "rq_method rq = ''GET'' \<Longrightarrow> gets.kept_by (note_write rq)"
  by (rule gets.kept_byI) (simp add: note_write_def gets.refl)

lemma gets_attempts: "rq_method rq = ''GET'' \<Longrightarrow> gets.kept_by (attempts env rq left a)"
proof (induction left arbitrary: a)
  case 0
  show ?case
    by (subst attempts.simps)
      (auto intro!: gets.kept_bind gets_exchange gets_note_write 0 split: option.split)
next
  case (Suc left)
  note rec = Suc.IH [OF Suc.prems]
  show ?case
    by (subst attempts.simps)
      (auto intro!: gets.kept_bind gets_exchange gets_note_write Suc.prems rec split: option.split)
qed

lemma gets_request [intro]: "gets.kept_by (request_m env ''GET'' path body)"
  by (simp add: request_m_def gets_attempts)

lemma gets_json [intro]: "gets.kept_by (json_m env ''GET'' path body)"
  unfolding json_m_def by (intro gets.kept_bind gets_request gets_lift)

lemma gets_paged_from: "gets.kept_by (paged_from env path key n page items)"
  by (induction n arbitrary: page items) (auto intro!: gets.kept_bind)

lemma gets_paged [intro]: "gets.kept_by (paged env path key)"
  by (simp add: paged_def gets_paged_from)

lemma gets_on_status [intro]:
  "gets.kept_by m \<Longrightarrow> gets.kept_by h \<Longrightarrow> gets.kept_by (on_status code m h)"
  unfolding on_status_def by (auto intro!: gets.kept_catch split: exn.split option.split)

lemma gets_default_branch [intro]: "gets.kept_by (default_branch env repo)"
proof (rule gets.kept_byI)
  fix w
  have "gets.kept_by (\<lambda>w'. (Inr b, w'\<lparr>wd_branches := (wd_branches w')(repo \<mapsto> b)\<rparr>))" for b
    by (rule gets.kept_byI) (simp add: reads_only_def)
  then have "gets.kept_by (bindE (json_m env ''GET'' (repo_path repo []) None) (\<lambda>j.
          bindE (lift (named ''default_branch'' j)) (\<lambda>b w'.
            (Inr b, w'\<lparr>wd_branches := (wd_branches w')(repo \<mapsto> b)\<rparr>))))"
    by (intro gets.kept_bind gets_json gets_lift)
  then show "reads_only w (snd (default_branch env repo w))"
    unfolding default_branch_def by (auto simp: gets.kept_by_def gets.refl split: option.split)
qed

lemma gets_reads [intro]:
  "gets.kept_by (repo_merge_settings env repo)"
  "gets.kept_by (branch_head env repo branch)"
  "gets.kept_by (list_open_issues env repo label)"
  "gets.kept_by (list_open_prs_by_label env repo label)"
  "gets.kept_by (list_blocked_by env repo number)"
  "gets.kept_by (get_issue env repo number)"
  "gets.kept_by (path_exists env repo path ref)"
  "gets.kept_by (get_pull env repo number)"
  "gets.kept_by (find_open_pr_by_head env repo head_ref)"
  "gets.kept_by (find_pr_by_head env repo head_ref state)"
  "gets.kept_by (list_open_prs env repo)"
  unfolding repo_merge_settings_def branch_head_def list_open_issues_def list_open_prs_by_label_def
    listed_issues_def list_blocked_by_def get_issue_def path_exists_def get_pull_def
    find_open_pr_by_head_def find_pr_by_head_def pulls_with_head_def list_open_prs_def
  by (auto intro!: gets.kept_bind split: list.split)

subsection \<open>The dependency lane only reads\<close>

lemma gets_memo:
  assumes "gets.kept_by m" "\<And>x w. wd_store (f x w) = wd_store w \<and> wd_writes (f x w) = wd_writes w
      \<and> wd_requests (f x w) = wd_requests w"
  shows "reads_only w (snd (bindE m (\<lambda>x w'. (Inr x, f x w')) w))"
proof -
  have "gets.kept_by (\<lambda>w'. (Inr x, f x w'))" for x
    by (rule gets.kept_byI) (simp add: reads_only_def assms(2))
  then have "gets.kept_by (bindE m (\<lambda>x w'. (Inr x, f x w')))" using assms(1) by blast
  then show ?thesis by (simp add: gets.kept_by_def)
qed

lemma gets_pass_reads [intro]:
  "gets.kept_by (pass_list_blocked_by env repo number)"
  "gets.kept_by (pass_find_open_pr_by_head env repo head_ref)"
  "gets.kept_by (pass_merge_settings env repo)"
proof -
  show "gets.kept_by (pass_list_blocked_by env repo number)"
    by (rule gets.kept_byI)
      (auto simp: pass_list_blocked_by_def gets.refl intro!: gets_memo gets_reads split: option.split)
  show "gets.kept_by (pass_find_open_pr_by_head env repo head_ref)"
    by (rule gets.kept_byI)
      (auto simp: pass_find_open_pr_by_head_def gets.refl intro!: gets_memo gets_reads split: option.split)
  show "gets.kept_by (pass_merge_settings env repo)"
    by (rule gets.kept_byI)
      (auto simp: pass_merge_settings_def gets.refl intro!: gets_memo gets_reads split: option.split)
qed

lemma gets_visit_each: "(\<And>b k. gets.kept_by (f b k)) \<Longrightarrow> gets.kept_by (visit_each f bs k)"
  by (induction bs arbitrary: k) (auto intro!: gets.kept_bind)

lemma gets_visit: "(\<And>n. gets.kept_by (blocked n)) \<Longrightarrow> gets.kept_by (visit blocked repo depth cur k)"
  by (induction depth arbitrary: cur k)
    (auto simp: Let_def intro!: gets.kept_bind gets_visit_each split: option.split)

lemma gets_walk [intro]: "(\<And>n. gets.kept_by (blocked n)) \<Longrightarrow> gets.kept_by (walk_closure blocked repo depth n)"
  unfolding walk_closure_def by (intro gets.kept_bind gets_visit gets.kept_ret)

lemma gets_blocker_prs: "(\<And>r. gets.kept_by (open_pr r)) \<Longrightarrow> gets.kept_by (blocker_prs open_pr bs prs)"
  by (induction bs arbitrary: prs) (auto intro!: gets.kept_bind split: option.split)

lemma gets_resolve [intro]: "(\<And>r. gets.kept_by (open_pr r)) \<Longrightarrow> gets.kept_by (resolve open_pr dc trunk)"
  unfolding resolve_def
  by (auto intro!: gets.kept_bind gets_blocker_prs split: sum.split list.split simp del: blocker_prs.simps)

lemma gets_dependency_block [intro]: "gets.kept_by (dependency_block env repo number)"
  unfolding dependency_block_def
  by (auto simp: walk_errors_def intro!: gets.kept_bind gets.kept_catch gets_walk gets_resolve
      gets_default_branch gets_pass_reads
      split: sum.split exn.split decision_kind.split)

subsection \<open>One write\<close>

definition write_shape :: "request \<Rightarrow> nat \<Rightarrow> exn + response \<Rightarrow> world \<Rightarrow> world \<Rightarrow> bool" where
  "write_shape rq most r w w' \<longleftrightarrow> wd_store w' = wd_store w
     \<and> (\<exists>k \<le> most. wd_requests w' = wd_requests w @ replicate k rq \<and> 0 < k)
     \<and> (case r of Inr resp \<Rightarrow> rp_status resp < 400
           \<and> wd_writes w' = (if rq_method rq \<noteq> ''GET'' \<and> rq_path rq \<noteq> ''/graphql''
                then wd_writes w @ [(rq_method rq, rq_path rq)] else wd_writes w)
        | Inl e \<Rightarrow> wd_writes w' = wd_writes w)"

lemma attempts_shape:
  "attempts env rq left a w = (r, w') \<Longrightarrow> write_shape rq (Suc left) r w w'"
proof (induction env rq left a arbitrary: w rule: attempts.induct)
  case (1 env rq left a)
  let ?w1 = "w\<lparr>wd_requests := wd_requests w @ [rq]\<rparr>"
  show ?case
  proof (cases "en_transport env (wd_requests w) rq")
    case (Inl e)
    then have "r = Inl e" "w' = ?w1"
      using "1.prems" by (auto simp: attempts.simps exchange_def bindE_def)
    then show ?thesis by (auto simp: write_shape_def intro!: exI [of _ 1])
  next
    case (Inr resp)
    then have run: "(if rp_status resp < 400 then bindE (note_write rq) (\<lambda>_. ret resp)
       else bindE (now env) (\<lambda>t.
         case (retry_delay resp a t, left) of
           (Some d, Suc left') \<Rightarrow> bindE (sleep d) (\<lambda>_. attempts env rq left' (Suc a))
         | _ \<Rightarrow> raise (request_failed rq resp))) ?w1 = (r, w')"
      using "1.prems" by (simp add: attempts.simps [of env rq left a] exchange_def bindE_def)
    show ?thesis
    proof (cases "rp_status resp < 400")
      case True
      then have "r = Inr resp" "w' = snd (note_write rq ?w1)"
        using run by (auto simp: bindE_def note_write_def ret_def)
      then show ?thesis using True
        by (auto simp: write_shape_def note_write_def intro!: exI [of _ 1])
    next
      case False
      let ?t = "en_clock env (wd_ticks w)" and ?w2 = "w\<lparr>wd_requests := wd_requests w @ [rq], wd_ticks := wd_ticks w + 1\<rparr>"
      show ?thesis
      proof (cases "\<exists>d left'. retry_delay resp a ?t = Some d \<and> left = Suc left'")
        case True
        then obtain d left' where d: "retry_delay resp a ?t = Some d" "left = Suc left'" by blast
        then have rec: "attempts env rq left' (Suc a) (?w2\<lparr>wd_sleeps := wd_sleeps w @ [d]\<rparr>) = (r, w')"
          using run False by (simp add: bindE_def now_def sleep_def)
        have "write_shape rq (Suc left') r (?w2\<lparr>wd_sleeps := wd_sleeps w @ [d]\<rparr>) w'"
          using "1.IH" [OF False refl _ d(2) rec] d by auto
        then obtain k where k: "k \<le> Suc left'" "wd_requests w' = wd_requests w @ replicate (Suc k) rq"
          by (auto simp: write_shape_def)
        with \<open>write_shape rq (Suc left') r (?w2\<lparr>wd_sleeps := wd_sleeps w @ [d]\<rparr>) w'\<close> d(2) show ?thesis
          unfolding write_shape_def by (auto intro!: exI [of _ "Suc k"] split: sum.splits)
      next
        case nofuel: False
        then have "r = Inl (request_failed rq resp)" "w' = ?w2"
          using run False by (auto simp: bindE_def now_def split: option.splits nat.splits)
        then show ?thesis by (auto simp: write_shape_def intro!: exI [of _ 1])
      qed
    qed
  qed
qed

text \<open>
  \<open>sends rq\<close>: the operation leaves the store alone and exchanges its own request only, at least once
  and at most \<open>MAX_RETRIES\<close> times.
\<close>

definition sends :: "request \<Rightarrow> world \<Rightarrow> world \<Rightarrow> bool" where
  "sends rq w w' \<longleftrightarrow> wd_store w' = wd_store w
     \<and> (\<exists>k. 0 < k \<and> k \<le> MAX_RETRIES \<and> wd_requests w' = wd_requests w @ replicate k rq)"

definition plain :: "'a run \<Rightarrow> bool" where
  "plain m \<longleftrightarrow> (\<forall>w. snd (m w) = w)"

lemma plain_basics [simp]: "plain (ret x)" "plain (raise e)" "plain (lift r)"
  by (simp_all add: plain_def lift_def)

lemma sends_request: "sends \<lparr>rq_method = m, rq_path = p, rq_body = b\<rparr> w (snd (request_m env m p b w))"
proof -
  obtain r w' where run: "request_m env m p b w = (r, w')" by (rule prod.exhaust)
  then show ?thesis
    using attempts_shape [OF run [unfolded request_m_def]]
    by (auto simp: sends_def write_shape_def MAX_RETRIES_def)
qed

lemma sends_bind:
  assumes "\<And>w. sends rq w (snd (m w))" "\<And>x. plain (f x)"
  shows "sends rq w (snd (bindE m f w))"
proof -
  obtain r w1 where m: "m w = (r, w1)" by (rule prod.exhaust)
  then show ?thesis using assms(1) [of w] assms(2)
    by (cases r) (simp_all add: bindE_def plain_def)
qed

lemma sends_json: "sends \<lparr>rq_method = m, rq_path = p, rq_body = b\<rparr> w (snd (json_m env m p b w))"
  unfolding json_m_def by (rule sends_bind) (simp_all add: sends_request)

lemma sends_on_status:
  assumes "\<And>w. sends rq w (snd (m w))" "plain h"
  shows "sends rq w (snd (on_status code m h w))"
proof -
  obtain r w1 where m: "m w = (r, w1)" by (rule prod.exhaust)
  then show ?thesis using assms(1) [of w] assms(2)
    by (cases r) (auto simp: on_status_def catchE_def plain_def split: exn.split option.split)
qed

definition assign_request :: "repo \<Rightarrow> int \<Rightarrow> string list \<Rightarrow> request" where
  "assign_request repo number logins = \<lparr>rq_method = ''POST'',
     rq_path = issue_path repo number ''/assignees'', rq_body = Some (JObj [(''assignees'', strs logins)])\<rparr>"

definition unassign_request :: "repo \<Rightarrow> int \<Rightarrow> string \<Rightarrow> request" where
  "unassign_request repo number login = \<lparr>rq_method = ''DELETE'',
     rq_path = issue_path repo number ''/assignees'', rq_body = Some (JObj [(''assignees'', strs [login])])\<rparr>"

definition label_request :: "repo \<Rightarrow> int \<Rightarrow> string list \<Rightarrow> request" where
  "label_request repo number labels = \<lparr>rq_method = ''POST'',
     rq_path = issue_path repo number ''/labels'', rq_body = Some (JObj [(''labels'', strs labels)])\<rparr>"

definition unlabel_request :: "repo \<Rightarrow> int \<Rightarrow> string \<Rightarrow> request" where
  "unlabel_request repo number label = \<lparr>rq_method = ''DELETE'',
     rq_path = issue_path repo number (''/labels/'' @ quote ''/'' label), rq_body = None\<rparr>"

definition comment_request :: "repo \<Rightarrow> int \<Rightarrow> string \<Rightarrow> request" where
  "comment_request repo number body = \<lparr>rq_method = ''POST'',
     rq_path = issue_path repo number ''/comments'', rq_body = Some (JObj [(''body'', JStr body)])\<rparr>"

lemmas write_requests = assign_request_def unassign_request_def label_request_def unlabel_request_def
  comment_request_def

lemma sends_writes:
  "sends (assign_request repo n ls) w (snd (add_assignees env repo n ls w))"
  "sends (unassign_request repo n l) w (snd (remove_assignee env repo n l w))"
  "sends (label_request repo n ls) w (snd (add_labels env repo n ls w))"
  "sends (unlabel_request repo n l) w (snd (remove_label env repo n l w))"
  "sends (comment_request repo n b) w (snd (add_comment env repo n b w))"
  unfolding write_requests add_assignees_def remove_assignee_def add_labels_def remove_label_def add_comment_def
  by (rule sends_bind sends_on_status sends_json; simp add: sends_json sends_bind sends_request)+

lemma sends_runs:
  "add_assignees env repo n ls w = (r, w') \<Longrightarrow> sends (assign_request repo n ls) w w'"
  "remove_assignee env repo n l w = (r, w') \<Longrightarrow> sends (unassign_request repo n l) w w'"
  "add_labels env repo n ls w = (r, w') \<Longrightarrow> sends (label_request repo n ls) w w'"
  "remove_label env repo n l w = (r, w') \<Longrightarrow> sends (unlabel_request repo n l) w w'"
  "add_comment env repo n b w = (r, w') \<Longrightarrow> sends (comment_request repo n b) w w'"
  by (metis sends_writes snd_conv)+

lemma sendsE:
  assumes "sends rq w w'"
  obtains k where "0 < k" "k \<le> MAX_RETRIES" "wd_requests w' = wd_requests w @ replicate k rq"
    "wd_store w' = wd_store w"
  using assms by (auto simp: sends_def)

end
