(* ===== verification/Dispatch_Reads.thy ===== *)
theory Dispatch_Reads
  imports Client_Facts Deps_Resolve "HOL-Library.Sublist"
begin

text \<open>
  What a granting pass knows when it grants: every entry of its memo is an answer GitHub gave during
  the request, and a dependency lane that lets an issue through does so on those answers. The lane
  is replayed on the final memo: the walk, the pull requests and the merge settings it saw are the
  ones recorded there.
\<close>

subsection \<open>Frames over the client\<close>

locale client_frame = frame +
  assumes sent: "R w (w\<lparr>wd_requests := wd_requests w @ [rq]\<rparr>)"
    and noted: "R w (w\<lparr>wd_writes := wr\<rparr>)"
    and ticked: "R w (w\<lparr>wd_ticks := t\<rparr>)"
    and slept: "R w (w\<lparr>wd_sleeps := sl\<rparr>)"
begin

lemma kept_basics [intro, simp]:
  "kept_by (exchange env rq)" "kept_by (note_write rq)" "kept_by (now env)" "kept_by (sleep d)" "kept_by (lift x)"
  by (rule kept_byI; simp add: exchange_def note_write_def now_def sleep_def lift_def sent noted ticked slept refl)+

lemma kept_attempts [intro, simp]: "kept_by (attempts env rq left a)"
proof (induction left arbitrary: a)
  case 0
  show ?case by (subst attempts.simps) (auto intro!: kept_bind split: option.split)
next
  case (Suc left)
  show ?case by (subst attempts.simps) (auto intro!: kept_bind Suc.IH split: option.split)
qed

lemma kept_json [intro, simp]: "kept_by (request_m env meth path body)" "kept_by (json_m env meth path body)"
  by (auto simp: request_m_def json_m_def intro!: kept_bind)

lemma kept_paged [intro, simp]: "kept_by (paged env path key)"
proof -
  have "kept_by (paged_from env path key n page items)" for n page items
    by (induction n arbitrary: page items) (auto intro!: kept_bind)
  then show ?thesis by (simp add: paged_def)
qed

lemma kept_on_status [intro]: "kept_by m \<Longrightarrow> kept_by h \<Longrightarrow> kept_by (on_status code m h)"
  unfolding on_status_def by (auto intro!: kept_catch split: exn.split option.split)

lemma kept_reads [intro, simp]:
  "kept_by (repo_merge_settings env repo)" "kept_by (list_blocked_by env repo n)"
  "kept_by (find_open_pr_by_head env repo ref)" "kept_by (list_open_issues env repo label)"
  unfolding repo_merge_settings_def list_blocked_by_def find_open_pr_by_head_def pulls_with_head_def
    list_open_issues_def listed_issues_def
  by (auto intro!: kept_bind split: list.split)

lemma kept_writes [intro, simp]:
  "kept_by (add_assignees env repo n ls)" "kept_by (add_labels env repo n ls)" "kept_by (remove_label env repo n l)"
  unfolding add_assignees_def add_labels_def remove_label_def
  by (auto intro!: kept_bind kept_on_status)

end

subsection \<open>Answers of a request\<close>

text \<open>
  \<open>x\<close> is what the read \<open>m\<close> returned after the requests of \<open>w\<close> had been sent and before those of
  \<open>w'\<close> were complete, its own exchanges among them.
\<close>

definition read_between :: "'a run \<Rightarrow> world \<Rightarrow> world \<Rightarrow> 'a \<Rightarrow> bool" where
  "read_between m w w' x \<longleftrightarrow> (\<exists>u v. m u = (Inr x, v)
     \<and> prefix (wd_requests w) (wd_requests u) \<and> prefix (wd_requests v) (wd_requests w'))"

lemma read_between_mono:
  "read_between m v v' x \<Longrightarrow> prefix (wd_requests w) (wd_requests v) \<Longrightarrow> prefix (wd_requests v') (wd_requests w')
   \<Longrightarrow> read_between m w w' x"
  unfolding read_between_def by (meson prefix_order.trans)

text \<open>A cache that only gains entries, each of them an answer of its read.\<close>

definition gains :: "('k \<Rightarrow> 'a run) \<Rightarrow> world \<Rightarrow> world \<Rightarrow> ('k \<rightharpoonup> 'a) \<Rightarrow> ('k \<rightharpoonup> 'a) \<Rightarrow> bool" where
  "gains rd w w' m m' \<longleftrightarrow> m \<subseteq>\<^sub>m m' \<and> (\<forall>k x. m' k = Some x \<longrightarrow> m k = Some x \<or> read_between (rd k) w w' x)"

lemma gains_refl: "gains rd w w' m m"
  by (simp add: gains_def)

lemma gains_trans:
  assumes "gains rd u v m m1" "gains rd v w m1 m2"
    and p: "prefix (wd_requests u) (wd_requests v)" "prefix (wd_requests v) (wd_requests w)"
  shows "gains rd u w m m2"
proof -
  have "m \<subseteq>\<^sub>m m2" using assms(1,2) map_le_trans by (auto simp: gains_def)
  moreover have "m k = Some x \<or> read_between (rd k) u w x" if k: "m2 k = Some x" for k x
  proof -
    from k assms(2) have "m1 k = Some x \<or> read_between (rd k) v w x" by (simp add: gains_def)
    then show ?thesis
    proof
      assume "m1 k = Some x"
      then have "m k = Some x \<or> read_between (rd k) u v x" using assms(1) by (simp add: gains_def)
      then show ?thesis by (elim disjE) (simp, rule disjI2, erule read_between_mono [OF _ prefix_order.refl p(2)])
    next
      assume "read_between (rd k) v w x"
      then show ?thesis by (intro disjI2) (erule read_between_mono [OF _ p(1) prefix_order.refl])
    qed
  qed
  ultimately show ?thesis by (simp add: gains_def)
qed

lemma gains_upd:
  "m k = None \<Longrightarrow> read_between (rd k) w w' x \<Longrightarrow> gains rd w w' m (m(k \<mapsto> x))"
  by (auto simp: gains_def map_le_def)

definition fetch_branch :: "env \<Rightarrow> repo \<Rightarrow> string run" where
  "fetch_branch env repo = bindE (json_m env ''GET'' (repo_path repo []) None) (\<lambda>j. lift (named ''default_branch'' j))"

definition memo_grows :: "env \<Rightarrow> repo \<Rightarrow> world \<Rightarrow> world \<Rightarrow> bool" where
  "memo_grows env repo w w' \<longleftrightarrow> prefix (wd_requests w) (wd_requests w')
     \<and> gains (list_blocked_by env repo) w w' (ps_blocked (wd_reads w)) (ps_blocked (wd_reads w'))
     \<and> gains (find_open_pr_by_head env repo) w w' (ps_prs (wd_reads w)) (ps_prs (wd_reads w'))
     \<and> gains (\<lambda>_. repo_merge_settings env repo) w w' (\<lambda>_ :: unit. ps_settings (wd_reads w)) (\<lambda>_. ps_settings (wd_reads w'))
     \<and> gains (\<lambda>_. fetch_branch env repo) w w' (\<lambda>_ :: unit. wd_branches w repo) (\<lambda>_. wd_branches w' repo)"

lemma memo_grows_same:
  "wd_reads w' = wd_reads w \<Longrightarrow> wd_branches w' = wd_branches w \<Longrightarrow> prefix (wd_requests w) (wd_requests w')
   \<Longrightarrow> memo_grows env repo w w'"
  by (simp add: memo_grows_def gains_refl)

interpretation memo: client_frame "memo_grows env repo" for env repo
proof
  show "memo_grows env repo w w" for w by (rule memo_grows_same) simp_all
  show "memo_grows env repo u v \<Longrightarrow> memo_grows env repo v w \<Longrightarrow> memo_grows env repo u w" for u v w
    unfolding memo_grows_def by (elim conjE, intro conjI) (blast intro: prefix_order.trans gains_trans)+
qed (rule memo_grows_same; simp)+

lemma memo_of_quiet:
  assumes "\<And>w. wd_reads (snd (m w)) = wd_reads w \<and> wd_branches (snd (m w)) = wd_branches w \<and> wd_requests (snd (m w)) = wd_requests w"
  shows "memo.kept_by env repo m"
  by (rule memo.kept_byI, rule memo_grows_same) (simp_all add: assms)

lemma memo_quiet [intro, simp]:
  "memo.kept_by env repo (stamping env' f)" "memo.kept_by env repo (changing g)"
  by (rule memo_of_quiet; simp)+

subsection \<open>Reads with a memo\<close>

text \<open>A read that keeps nothing but the transcript, so that its answer is the only thing it leaves.\<close>

definition transcript_only :: "world \<Rightarrow> world \<Rightarrow> bool" where
  "transcript_only w w' \<longleftrightarrow> prefix (wd_requests w) (wd_requests w') \<and> wd_reads w' = wd_reads w
     \<and> wd_branches w' = wd_branches w"

interpretation bare: client_frame transcript_only
  by unfold_locales (auto simp: transcript_only_def)

lemma bare_fetch [intro]: "bare.kept_by (fetch_branch env repo)"
  unfolding fetch_branch_def by (auto intro!: bare.kept_bind)

text \<open>One cached read: the answer is noted in some cache of the world the read leaves.\<close>

lemma cached_read:
  assumes run: "bindE m (\<lambda>x v. (Inr x, note x v)) w = (r, w')" and keeps: "bare.kept_by m"
    and same: "\<And>x v. wd_requests (note x v) = wd_requests v"
    and noted: "\<And>x v. prefix (wd_requests w) (wd_requests v) \<Longrightarrow> read_between m w (note x v) x
      \<Longrightarrow> wd_reads v = wd_reads w \<Longrightarrow> wd_branches v = wd_branches w \<Longrightarrow> memo_grows env repo w (note x v)"
  shows "memo_grows env repo w w' \<and> (\<forall>x. r = Inr x \<longrightarrow> (\<exists>v. w' = note x v))"
  using run
proof (cases rule: bindE_cases)
  case (fail e)
  then show ?thesis using bare.kept_byD [OF keeps fail(1)] memo_grows_same by (auto simp: transcript_only_def)
next
  case (step x v)
  have t: "transcript_only w v" using bare.kept_byD [OF keeps step(1)] .
  then have "read_between m w (note x v) x"
    using step(1) same by (auto simp: transcript_only_def read_between_def)
  then show ?thesis using t noted step(2) by (auto simp: transcript_only_def)
qed

text \<open>A cache of one entry.\<close>

lemma gains_entry:
  "m = None \<Longrightarrow> read_between (rd ()) w w' x \<Longrightarrow> gains rd w w' (\<lambda>_. m) (\<lambda>_. Some x)"
  by (auto simp: gains_def map_le_def)

lemma pass_list_blocked_by_runs:
  assumes "pass_list_blocked_by env repo n w = (r, w')"
  shows "memo_grows env repo w w' \<and> (\<forall>x. r = Inr x \<longrightarrow> ps_blocked (wd_reads w') n = Some x)"
proof (cases "ps_blocked (wd_reads w) n")
  case (Some x)
  then show ?thesis using assms by (auto simp: pass_list_blocked_by_def memo.refl)
next
  case None
  have "memo_grows env repo w w' \<and> (\<forall>x. r = Inr x \<longrightarrow> (\<exists>v. w' = v\<lparr>wd_reads := (wd_reads v)\<lparr>ps_blocked := (ps_blocked (wd_reads v))(n \<mapsto> x)\<rparr>\<rparr>))"
  proof (rule cached_read)
    show "bindE (list_blocked_by env repo n) (\<lambda>x v. (Inr x, v\<lparr>wd_reads := (wd_reads v)\<lparr>ps_blocked := (ps_blocked (wd_reads v))(n \<mapsto> x)\<rparr>\<rparr>)) w = (r, w')"
      using None assms by (simp add: pass_list_blocked_by_def)
    show "bare.kept_by (list_blocked_by env repo n)" by auto
  qed (use None in \<open>auto simp: memo_grows_def gains_refl intro!: gains_upd gains_entry\<close>)
  then show ?thesis by auto
qed

lemma pass_find_open_pr_runs:
  assumes "pass_find_open_pr_by_head env repo ref w = (r, w')"
  shows "memo_grows env repo w w' \<and> (\<forall>x. r = Inr x \<longrightarrow> ps_prs (wd_reads w') ref = Some x)"
proof (cases "ps_prs (wd_reads w) ref")
  case (Some x)
  then show ?thesis using assms by (auto simp: pass_find_open_pr_by_head_def memo.refl)
next
  case None
  have "memo_grows env repo w w' \<and> (\<forall>x. r = Inr x \<longrightarrow> (\<exists>v. w' = v\<lparr>wd_reads := (wd_reads v)\<lparr>ps_prs := (ps_prs (wd_reads v))(ref \<mapsto> x)\<rparr>\<rparr>))"
  proof (rule cached_read)
    show "bindE (find_open_pr_by_head env repo ref) (\<lambda>x v. (Inr x, v\<lparr>wd_reads := (wd_reads v)\<lparr>ps_prs := (ps_prs (wd_reads v))(ref \<mapsto> x)\<rparr>\<rparr>)) w = (r, w')"
      using None assms by (simp add: pass_find_open_pr_by_head_def)
    show "bare.kept_by (find_open_pr_by_head env repo ref)" by auto
  qed (use None in \<open>auto simp: memo_grows_def gains_refl intro!: gains_upd gains_entry\<close>)
  then show ?thesis by auto
qed

lemma pass_settings_runs:
  assumes "pass_merge_settings env repo w = (r, w')"
  shows "memo_grows env repo w w' \<and> (\<forall>x. r = Inr x \<longrightarrow> ps_settings (wd_reads w') = Some x)"
proof (cases "ps_settings (wd_reads w)")
  case (Some x)
  then show ?thesis using assms by (auto simp: pass_merge_settings_def memo.refl)
next
  case None
  have "memo_grows env repo w w' \<and> (\<forall>x. r = Inr x \<longrightarrow> (\<exists>v. w' = v\<lparr>wd_reads := (wd_reads v)\<lparr>ps_settings := Some x\<rparr>\<rparr>))"
  proof (rule cached_read)
    show "bindE (repo_merge_settings env repo) (\<lambda>x v. (Inr x, v\<lparr>wd_reads := (wd_reads v)\<lparr>ps_settings := Some x\<rparr>\<rparr>)) w = (r, w')"
      using None assms by (simp add: pass_merge_settings_def)
    show "bare.kept_by (repo_merge_settings env repo)" by auto
  qed (use None in \<open>auto simp: memo_grows_def gains_refl intro!: gains_upd gains_entry\<close>)
  then show ?thesis by auto
qed

lemma default_branch_runs:
  assumes "default_branch env repo w = (r, w')"
  shows "memo_grows env repo w w' \<and> (\<forall>x. r = Inr x \<longrightarrow> wd_branches w' repo = Some x)"
proof (cases "wd_branches w repo")
  case (Some x)
  then show ?thesis using assms by (auto simp: default_branch_def memo.refl)
next
  case None
  have "memo_grows env repo w w' \<and> (\<forall>x. r = Inr x \<longrightarrow> (\<exists>v. w' = v\<lparr>wd_branches := (wd_branches v)(repo \<mapsto> x)\<rparr>))"
  proof (rule cached_read)
    show "bindE (fetch_branch env repo) (\<lambda>x v. (Inr x, v\<lparr>wd_branches := (wd_branches v)(repo \<mapsto> x)\<rparr>)) w = (r, w')"
      using None assms by (simp add: default_branch_def fetch_branch_def bindE_assoc)
    show "bare.kept_by (fetch_branch env repo)" by auto
  qed (use None in \<open>auto simp: memo_grows_def gains_refl intro!: gains_upd gains_entry\<close>)
  then show ?thesis by auto
qed

lemma memo_cached [intro, simp]:
  "memo.kept_by env repo (pass_list_blocked_by env repo n)"
  "memo.kept_by env repo (pass_find_open_pr_by_head env repo ref)"
  "memo.kept_by env repo (pass_merge_settings env repo)"
  "memo.kept_by env repo (default_branch env repo)"
  by (rule memo.kept_byI; metis pass_list_blocked_by_runs pass_find_open_pr_runs pass_settings_runs
      default_branch_runs prod.collapse)+

subsection \<open>The walk, replayed\<close>

text \<open>The answers of a memo as a read, which fails where the memo is silent.\<close>

definition recorded :: "('k \<rightharpoonup> 'a) \<Rightarrow> 'k \<Rightarrow> 'a run" where
  "recorded m k = (case m k of Some x \<Rightarrow> ret x | None \<Rightarrow> raise (Other_Error ''unread''))"

lemma recorded_Some [simp]: "m k = Some x \<Longrightarrow> recorded m k = ret x"
  by (simp add: recorded_def)

lemma recorded_runs [simp]: "recorded m k w = (Inr x, w') \<longleftrightarrow> m k = Some x \<and> w' = w"
  by (auto simp: recorded_def split: option.split)

abbreviation blockers_read :: "world \<Rightarrow> int \<rightharpoonup> issue list" where
  "blockers_read w \<equiv> ps_blocked (wd_reads w)"

lemma memo_le:
  assumes "memo_grows env repo w w'"
  shows "blockers_read w \<subseteq>\<^sub>m blockers_read w'" "ps_prs (wd_reads w) \<subseteq>\<^sub>m ps_prs (wd_reads w')"
    "ps_settings (wd_reads w) = Some x \<Longrightarrow> ps_settings (wd_reads w') = Some x"
    "wd_branches w repo = Some b \<Longrightarrow> wd_branches w' repo = Some b"
  using assms by (auto simp: memo_grows_def gains_def map_le_def dom_def)

lemma map_le_Some: "m \<subseteq>\<^sub>m m' \<Longrightarrow> m k = Some x \<Longrightarrow> m' k = Some x"
  by (metis domI map_le_def)

lemma memo_visit [intro]: "memo.kept_by env repo (visit (pass_list_blocked_by env repo) repo d cur k)"
proof (induction d arbitrary: cur k)
  case (Suc d)
  have each: "memo.kept_by env repo (visit_each (visit (pass_list_blocked_by env repo) repo d) bs k)" for bs k
    by (induction bs arbitrary: k) (auto intro!: memo.kept_bind Suc.IH)
  show ?case by (auto simp: Let_def intro!: memo.kept_bind each split: option.split)
qed simp

lemma visit_each_replay:
  assumes keeps: "\<And>b k. memo.kept_by env repo (f b k)"
    and step: "\<And>b k w k' w' w0. f b k w = (Inr k', w') \<Longrightarrow> blockers_read w' \<subseteq>\<^sub>m M \<Longrightarrow> f' b k w0 = (Inr k', w0)"
  shows "visit_each f bs k w = (Inr k', w') \<Longrightarrow> blockers_read w' \<subseteq>\<^sub>m M \<Longrightarrow> visit_each f' bs k w0 = (Inr k', w0)"
proof (induction bs arbitrary: k w)
  case (Cons b bs)
  from Cons.prems(1) obtain k1 w1 where 1: "f b k w = (Inr k1, w1)" "visit_each f bs k1 w1 = (Inr k', w')"
    by (auto elim!: bindE_cases)
  have "memo.kept_by env repo (visit_each f bs k1)"
    by (induction bs arbitrary: k1) (auto intro!: memo.kept_bind keeps)
  then have "memo_grows env repo w1 w'" by (rule memo.kept_byD) (rule 1(2))
  then have "blockers_read w1 \<subseteq>\<^sub>m M" using memo_le(1) Cons.prems(2) map_le_trans by blast
  then have "f' b k w0 = (Inr k1, w0)" by (rule step [OF 1(1)])
  then show ?case using Cons.IH [OF 1(2) Cons.prems(2)] by (simp add: bindE_def)
qed simp

lemma visit_replay:
  "visit (pass_list_blocked_by env repo) repo d cur k w = (Inr k', w') \<Longrightarrow> blockers_read w' \<subseteq>\<^sub>m M
   \<Longrightarrow> visit (recorded M) repo d cur k w0 = (Inr k', w0)"
proof (induction d arbitrary: cur k w k' w' w0)
  case (Suc d)
  let ?P = "pass_list_blocked_by env repo"
  show ?case
  proof (cases "cur \<in> set (wk_done k)")
    case True
    then show ?thesis using Suc.prems(1) by (auto split: if_splits)
  next
    case False
    with Suc.prems(1) have path: "cur \<notin> set (wk_on_path k)" by (auto split: if_splits)
    let ?k = "\<lambda>as. k\<lparr>wk_on_path := wk_on_path k @ [cur], wk_issues := setdefault (wk_issues k) (sort_key is_number as),
             wk_edges := (wk_edges k)(cur \<mapsto> map is_number (sort_key is_number as))\<rparr>"
    from False path Suc.prems(1) obtain as w1 k1 where
        as: "?P cur w = (Inr as, w1)" "find (foreign repo) (sort_key is_number as) = None"
      and each: "visit_each (visit ?P repo d) (map is_number (sort_key is_number as)) (?k as) w1 = (Inr k1, w')"
      and k': "k' = k1\<lparr>wk_on_path := butlast (wk_on_path k1), wk_done := cur # wk_done k1, wk_order := wk_order k1 @ [cur]\<rparr>"
      by (auto simp: Let_def elim!: bindE_cases split: option.splits)
    have keeps: "memo.kept_by env repo (visit_each (visit ?P repo d) bs kk)" for bs kk
      by (induction bs arbitrary: kk) (auto intro!: memo.kept_bind)
    have "blockers_read w1 cur = Some as" using pass_list_blocked_by_runs [OF as(1)] by simp
    moreover have "blockers_read w1 \<subseteq>\<^sub>m M"
      using memo.kept_byD [OF keeps each] memo_le(1) Suc.prems(2) map_le_trans by blast
    ultimately have "recorded M cur = ret as" using map_le_Some by fastforce
    moreover have "visit_each (visit (recorded M) repo d) (map is_number (sort_key is_number as)) (?k as) w0 = (Inr k1, w0)"
      by (rule visit_each_replay [OF memo_visit _ each Suc.prems(2)]) (rule Suc.IH)
    ultimately show ?thesis using False path as(2) k' by (simp add: Let_def bindE_def)
  qed
qed simp

lemma walk_replay:
  assumes "walk_closure (pass_list_blocked_by env repo) repo d n w = (Inr dc, w')" "blockers_read w' \<subseteq>\<^sub>m M"
  shows "walk_closure (recorded M) repo d n w0 = (Inr dc, w0)"
proof -
  obtain k where k: "visit (pass_list_blocked_by env repo) repo d n start_walk w = (Inr k, w')"
    "dc = \<lparr>dc_order = wk_order k, dc_edges = wk_edges k, dc_issues = wk_issues k\<rparr>"
    using assms(1) by (auto simp: walk_closure_def elim!: bindE_cases)
  show ?thesis using visit_replay [OF k(1) assms(2), of w0] k(2) by (simp add: walk_closure_def bindE_def)
qed

lemma recorded_closure_ok:
  assumes "walk_closure (recorded M) repo d n w0 = (Inr dc, w0)"
  shows "closure_ok (\<lambda>m as. M m = Some as) repo n dc"
  by (rule walk_closure_ok [OF _ assms]) simp

subsection \<open>The go-ahead, replayed\<close>

text \<open>The pull requests of a memo; a branch it does not know has none here.\<close>

definition pr_in :: "pass_reads \<Rightarrow> string \<Rightarrow> pull_request option" where
  "pr_in M ref = (case ps_prs M ref of Some p \<Rightarrow> p | None \<Rightarrow> None)"

lemma pr_in_Some: "pr_in M ref = Some p \<Longrightarrow> ps_prs M ref = Some (Some p)"
  by (simp add: pr_in_def split: option.splits)

lemma memo_blocker_prs [intro]: "memo.kept_by env repo (blocker_prs (pass_find_open_pr_by_head env repo) bs prs)"
  by (induction bs arbitrary: prs) (auto intro!: memo.kept_bind split: option.split)

lemma blocker_prs_replay:
  "blocker_prs (pass_find_open_pr_by_head env repo) bs prs w = (Inr q, w') \<Longrightarrow> ps_prs (wd_reads w') \<subseteq>\<^sub>m ps_prs M
   \<Longrightarrow> blocker_prs (\<lambda>ref. ret (pr_in M ref)) bs prs w0 = (Inr q, w0)"
proof (induction bs arbitrary: prs w)
  case (Cons b bs)
  from Cons.prems(1) [unfolded blocker_prs.simps] show ?case
  proof (cases rule: bindE_cases)
    case (step p w1)
    have "memo_grows env repo w1 w'"
      using step(2) by (cases p) (auto simp: memo.refl split: if_splits dest: memo.kept_byD [OF memo_blocker_prs])
    then have "ps_prs (wd_reads w1) \<subseteq>\<^sub>m ps_prs M" using memo_le(2) Cons.prems(2) map_le_trans by blast
    then have "pr_in M (branch_for (is_number b)) = p"
      using pass_find_open_pr_runs [OF step(1)] map_le_Some by (fastforce simp: pr_in_def)
    then show ?thesis using step(2) Cons.IH [OF _ Cons.prems(2)]
      by (cases p) (auto split: if_splits)
  qed simp
qed simp

lemma resolve_replay:
  assumes "resolve (pass_find_open_pr_by_head env repo) dc trunk w = (Inr d, w')" "ps_prs (wd_reads w') \<subseteq>\<^sub>m ps_prs M"
  shows "resolve (\<lambda>ref. ret (pr_in M ref)) dc trunk w0 = (Inr d, w0)"
proof -
  obtain r where r: "open_blockers (dc_issues dc) (last (dc_order dc)) (dc_order dc) = Inr r"
    and rest: "(case r of
         Inl d \<Rightarrow> ret d
       | Inr [] \<Rightarrow> ret ((decide READY [])\<lparr>cd_base_branch := trunk\<rparr>)
       | Inr bs \<Rightarrow>
           bindE (blocker_prs (pass_find_open_pr_by_head env repo) bs []) (\<lambda>p.
             ret (case p of Inl d \<Rightarrow> d | Inr prs \<Rightarrow> resolve_chain prs trunk))) w = (Inr d, w')"
    using assms(1) unfolding resolve_def lift_def by (elim bindE_cases) (blast | simp only: prod.inject sum.distinct)+
  show ?thesis
  proof (cases "\<exists>b bs. r = Inr (b # bs)")
    case True
    then obtain b bs where bs: "r = Inr (b # bs)" by blast
    then obtain q where q: "blocker_prs (pass_find_open_pr_by_head env repo) (b # bs) [] w = (Inr q, w')"
      "d = (case q of Inl d \<Rightarrow> d | Inr prs \<Rightarrow> resolve_chain prs trunk)"
      using rest by (auto simp del: blocker_prs.simps elim!: bindE_cases)
    show ?thesis using blocker_prs_replay [OF q(1) assms(2), of w0] r bs q(2)
      by (simp add: resolve_def lift_def bindE_def ret_def del: blocker_prs.simps)
  next
    case False
    then show ?thesis using r rest by (auto simp: resolve_def lift_def bindE_def split: sum.splits list.splits)
  qed
qed

text \<open>
  The open blockers stand in one chain: each has a pull request approved and awaiting merge, their
  bases lead from one tip through all of them to the default branch, and the repository merges the
  way chaining needs.
\<close>

definition chain_open :: "pass_reads \<Rightarrow> string \<Rightarrow> dependency_closure \<Rightarrow> bool" where
  "chain_open M trunk dc \<longleftrightarrow>
     (\<forall>b \<in> set (open_ones dc). \<exists>pr. ps_prs M (branch_for b) = Some (Some pr) \<and> awaiting_merge pr)
     \<and> (\<exists>xs. single_chain (prs_of (pr_in M) (open_ones dc)) trunk xs)
     \<and> (\<exists>s. ps_settings M = Some s \<and> chain_preconditions s = None)"

text \<open>
  The closure is what the walk makes of the recorded answers; \<open>closure_ok\<close> says it is the reachable
  issues, each after its blockers. Every blocker was closed as completed, or none was closed for
  another reason and the open ones stand in one chain on the default branch.
\<close>

definition lets_through :: "repo \<Rightarrow> nat \<Rightarrow> pass_reads \<Rightarrow> string option \<Rightarrow> int \<Rightarrow> bool" where
  "lets_through repo depth M trunk n \<longleftrightarrow>
     (\<exists>dc. (\<forall>w. walk_closure (recorded (ps_blocked M)) repo depth n w = (Inr dc, w))
        \<and> closure_ok (\<lambda>m as. ps_blocked M m = Some as) repo n dc
        \<and> ((\<forall>b \<in> set (blockers_of dc). completed (blocker_of dc b))
           \<or> ((\<forall>b \<in> set (blockers_of dc). \<not> rejected (blocker_of dc b))
              \<and> (\<exists>t. trunk = Some t \<and> chain_open M t dc))))"

lemma closure_ok_payloads:
  assumes "closure_ok answers repo n dc"
  shows "has_payloads dc"
proof -
  have "\<exists>i. dc_issues dc m = Some i \<and> is_number i = m" if m: "m \<in> set (blockers_of dc)" for m
  proof -
    have "(n, m) \<in> (edge_rel (dc_edges dc))\<^sup>*" "m \<noteq> n"
      using m assms by (auto simp: blockers_of_def closure_ok_def)
    then have "(n, m) \<in> (edge_rel (dc_edges dc))\<^sup>+" by (auto simp: rtrancl_eq_or_trancl)
    then show ?thesis using closure_ok_payload [OF assms] by blast
  qed
  then show ?thesis using assms by (simp add: has_payloads_def closure_ok_def)
qed

lemma memo_dependency_block [intro]: "memo.kept_by env repo (dependency_block env repo n)"
proof -
  have "memo.kept_by env repo (walk_closure (pass_list_blocked_by env repo) repo d n)" for d
    unfolding walk_closure_def by (auto intro!: memo.kept_bind)
  moreover have "memo.kept_by env repo (resolve (pass_find_open_pr_by_head env repo) dc trunk)" for dc trunk
    unfolding resolve_def by (auto intro!: memo.kept_bind split: sum.split list.split simp del: blocker_prs.simps)
  ultimately show ?thesis
    unfolding dependency_block_def
    by (auto simp: walk_errors_def intro!: memo.kept_bind memo.kept_catch split: sum.split exn.split decision_kind.split)
qed

lemma dependency_block_lets_through:
  assumes "dependency_block env repo n u = (Inr None, v)" "memo_grows env repo v w"
  shows "lets_through repo (en_depth env) (wd_reads w) (wd_branches w repo) n"
proof -
  let ?M = "wd_reads w"
  from assms(1) obtain x w1 where x: "catchE (bindE (walk_closure (pass_list_blocked_by env repo) repo (en_depth env) n)
                     (\<lambda>dc. ret (Inr dc))) (walk_errors n) u = (Inr x, w1)"
    and rest: "(case x of
         Inl block \<Rightarrow> ret (Some block)
       | Inr dc \<Rightarrow>
           if dc_order dc = [n] then ret None
           else bindE (default_branch env repo) (\<lambda>trunk.
             bindE (resolve (pass_find_open_pr_by_head env repo) dc trunk) (\<lambda>d.
               case cd_kind d of
                 MALFORMED \<Rightarrow> ret (Some (Malformed_Lane, cd_reason d))
               | WAIT \<Rightarrow> ret (Some (Wait_Lane, cd_reason d))
               | CHAINED \<Rightarrow>
                   bindE (pass_merge_settings env repo) (\<lambda>settings.
                     ret (case chain_preconditions settings of
                            None \<Rightarrow> None
                          | Some off \<Rightarrow> Some (Wait_Lane,
                              off @ ''; dependents wait for full merge (ADR-0053)'')))
               | READY \<Rightarrow> ret None))) w1 = (Inr None, v)"
    unfolding dependency_block_def by (auto elim!: bindE_cases)
  from rest obtain dc where dc: "x = Inr dc" by (cases x) auto
  have walk: "walk_closure (pass_list_blocked_by env repo) repo (en_depth env) n u = (Inr dc, w1)"
    using x unfolding dc
    by (auto elim!: catchE_cases bindE_cases simp: walk_errors_def split: exn.splits)
  have gets_trunk: "memo.kept_by env repo (resolve (pass_find_open_pr_by_head env repo) dc trunk)" for dc trunk
    unfolding resolve_def by (auto intro!: memo.kept_bind split: sum.split list.split simp del: blocker_prs.simps)
  show ?thesis
  proof (cases "dc_order dc = [n]")
    case True
    then have "v = w1" using rest dc by simp
    then have le: "ps_blocked (wd_reads w1) \<subseteq>\<^sub>m ps_blocked ?M" using memo_le(1) [OF assms(2)] by simp
    note replay = walk_replay [OF walk le]
    have "blockers_of dc = []" using True by (simp add: blockers_of_def)
    then show ?thesis
      unfolding lets_through_def using replay recorded_closure_ok [OF replay] by (intro exI [of _ dc]) simp
  next
    case False
    with rest dc obtain trunk w2 d w3 where t: "default_branch env repo w1 = (Inr trunk, w2)"
      and d: "resolve (pass_find_open_pr_by_head env repo) dc trunk w2 = (Inr d, w3)"
      and fin: "(case cd_kind d of
                 MALFORMED \<Rightarrow> ret (Some (Malformed_Lane, cd_reason d))
               | WAIT \<Rightarrow> ret (Some (Wait_Lane, cd_reason d))
               | CHAINED \<Rightarrow>
                   bindE (pass_merge_settings env repo) (\<lambda>settings.
                     ret (case chain_preconditions settings of
                            None \<Rightarrow> None
                          | Some off \<Rightarrow> Some (Wait_Lane,
                              off @ ''; dependents wait for full merge (ADR-0053)'')))
               | READY \<Rightarrow> ret None) w3 = (Inr None, v)"
      by (auto elim!: bindE_cases)
    have g12: "memo_grows env repo w1 w2" and trunk: "wd_branches w2 repo = Some trunk"
      using default_branch_runs [OF t] by auto
    have g23: "memo_grows env repo w2 w3" by (rule memo.kept_byD [OF gets_trunk d])
    have g3v: "memo_grows env repo w3 v"
      using fin by (cases "cd_kind d") (auto simp: memo.refl elim!: bindE_cases dest!: memo.kept_byD [OF memo_cached(3)])
    note g3w = memo.trans [OF g3v assms(2)] and g2w = memo.trans [OF g23 memo.trans [OF g3v assms(2)]]
    note replay = walk_replay [OF walk memo_le(1) [OF memo.trans [OF g12 g2w]]]
    have trunk': "wd_branches w repo = Some trunk" by (rule memo_le(4) [OF g2w trunk])
    have ok: "closure_ok (\<lambda>m as. ps_blocked ?M m = Some as) repo n dc" by (rule recorded_closure_ok [OF replay])
    have res: "resolve (\<lambda>ref. ret (pr_in ?M ref)) dc trunk w = (Inr d, w)"
      by (rule resolve_replay [OF d memo_le(2) [OF g3w]])
    have "cd_kind d = READY \<or> cd_kind d = CHAINED" using fin by (cases "cd_kind d") auto
    from resolve_sound [OF closure_ok_payloads [OF ok] res this]
    have "(\<forall>b \<in> set (blockers_of dc). completed (blocker_of dc b))
           \<or> ((\<forall>b \<in> set (blockers_of dc). \<not> rejected (blocker_of dc b)) \<and> chain_open ?M trunk dc)"
    proof (elim disjE conjE)
      assume chained: "cd_kind d = CHAINED" and nomal: "\<not> any_rejected dc" and prs: "all_approved (pr_in ?M) dc"
        and chain: "\<exists>xs. single_chain (prs_of (pr_in ?M) (open_ones dc)) trunk xs"
      obtain s where s: "pass_merge_settings env repo w3 = (Inr s, v)" "chain_preconditions s = None"
        using fin chained by (auto elim!: bindE_cases split: option.splits)
      then have "ps_settings ?M = Some s" using pass_settings_runs [OF s(1)] memo_le(3) [OF assms(2)] by simp
      then have "chain_open ?M trunk dc"
        unfolding chain_open_def using s(2) chain prs [unfolded all_approved_def] pr_in_Some by blast
      then show ?thesis using nomal [unfolded any_rejected_def] by blast
    qed blast
    then show ?thesis
      unfolding lets_through_def using replay ok trunk' by (intro exI [of _ dc]) simp
  qed
qed

text \<open>Every entry of the memo, and the default branch, are answers of reads between two worlds.\<close>

definition answered :: "env \<Rightarrow> repo \<Rightarrow> world \<Rightarrow> world \<Rightarrow> bool" where
  "answered env repo w w' \<longleftrightarrow>
     (\<forall>n bs. ps_blocked (wd_reads w') n = Some bs \<longrightarrow> read_between (list_blocked_by env repo n) w w' bs)
     \<and> (\<forall>ref p. ps_prs (wd_reads w') ref = Some p \<longrightarrow> read_between (find_open_pr_by_head env repo ref) w w' p)
     \<and> (\<forall>s. ps_settings (wd_reads w') = Some s \<longrightarrow> read_between (repo_merge_settings env repo) w w' s)
     \<and> (\<forall>b. wd_branches w' repo = Some b \<longrightarrow> wd_branches w repo = Some b \<or> read_between (fetch_branch env repo) w w' b)"

lemma answered_from_fresh:
  assumes "memo_grows env repo w0 w'" "wd_reads w0 = fresh_reads" "wd_branches w0 = wd_branches w"
    "prefix (wd_requests w) (wd_requests w0)"
  shows "answered env repo w w'"
proof -
  have up: "read_between m w0 w' x \<Longrightarrow> read_between m w w' x" for m :: "'a run" and x
    by (rule read_between_mono [OF _ assms(4) prefix_order.refl])
  show ?thesis
    using assms(1-3) unfolding answered_def memo_grows_def gains_def fresh_reads_def
    by (auto intro: read_between_mono [OF _ assms(4) prefix_order.refl])
qed

end
