(* ===== verification/Dispatch_Safety.thy ===== *)
theory Dispatch_Safety
  imports Dispatch_Reads
begin

text \<open>
  The safety of claim dispatch, for every behaviour of GitHub: closed gates touch nothing, a grant
  goes only to an eligible issue, no write leaves before its grant row is stored, the writes come in
  their order, one repository's pass never touches another's rows, and GitHub trouble ends as a
  recorded pause.
\<close>

subsection \<open>The pass up to the grant\<close>

text \<open>Only this repository's advisory rows change and GitHub is only read.\<close>

definition advisory :: "repo \<Rightarrow> world \<Rightarrow> world \<Rightarrow> bool" where
  "advisory repo w w' \<longleftrightarrow>
     (wd_store w')\<lparr>t_malformed := [], t_waits := []\<rparr> = (wd_store w)\<lparr>t_malformed := [], t_waits := []\<rparr>
     \<and> filter (\<lambda>r. mf_repo r \<noteq> repo) (t_malformed (wd_store w')) = filter (\<lambda>r. mf_repo r \<noteq> repo) (t_malformed (wd_store w))
     \<and> filter (\<lambda>r. dw_repo r \<noteq> repo) (t_waits (wd_store w')) = filter (\<lambda>r. dw_repo r \<noteq> repo) (t_waits (wd_store w))
     \<and> wd_writes w' = wd_writes w
     \<and> (\<exists>rs. wd_requests w' = wd_requests w @ rs \<and> (\<forall>rq \<in> set rs. rq_method rq = ''GET''))"

lemma advisory_frame: "frame (advisory repo)"
proof
  show "advisory repo w w" for w by (simp add: advisory_def)
  show "advisory repo u v \<Longrightarrow> advisory repo v w \<Longrightarrow> advisory repo u w" for u v w
    unfolding advisory_def by auto
qed

interpretation lanes: frame "advisory repo" for repo
  by (rule advisory_frame)

lemma reads_only_advisory: "reads_only w w' \<Longrightarrow> advisory repo w w'"
  by (auto simp: reads_only_def advisory_def)

lemma lanes_of_gets: "gets.kept_by m \<Longrightarrow> lanes.kept_by repo m"
  by (simp add: gets.kept_by_def lanes.kept_by_def reads_only_advisory)

lemma stamping_advisory:
  assumes "\<And>t s. (f t s)\<lparr>t_malformed := [], t_waits := []\<rparr> = s\<lparr>t_malformed := [], t_waits := []\<rparr>"
    "\<And>t s. filter (\<lambda>r. mf_repo r \<noteq> repo) (t_malformed (f t s)) = filter (\<lambda>r. mf_repo r \<noteq> repo) (t_malformed s)"
    "\<And>t s. filter (\<lambda>r. dw_repo r \<noteq> repo) (t_waits (f t s)) = filter (\<lambda>r. dw_repo r \<noteq> repo) (t_waits s)"
  shows "lanes.kept_by repo (stamping env f)"
  by (rule lanes.kept_byI) (simp add: advisory_def assms)

lemma changing_advisory:
  assumes "\<And>s. (f s)\<lparr>t_malformed := [], t_waits := []\<rparr> = s\<lparr>t_malformed := [], t_waits := []\<rparr>"
    "\<And>s. filter (\<lambda>r. mf_repo r \<noteq> repo) (t_malformed (f s)) = filter (\<lambda>r. mf_repo r \<noteq> repo) (t_malformed s)"
    "\<And>s. filter (\<lambda>r. dw_repo r \<noteq> repo) (t_waits (f s)) = filter (\<lambda>r. dw_repo r \<noteq> repo) (t_waits s)"
  shows "lanes.kept_by repo (changing f)"
  by (rule lanes.kept_byI) (simp add: advisory_def assms)

lemma lane_ops_kept [intro]:
  "lanes.kept_by repo (stamping env (\<lambda>t. record_malformed t repo n d))"
  "lanes.kept_by repo (stamping env (\<lambda>t. record_wait t repo n d))"
  "lanes.kept_by repo (changing (clear_malformed repo n))"
  "lanes.kept_by repo (changing (clear_wait repo n))"
  by (rule stamping_advisory changing_advisory;
      simp add: record_malformed_def record_wait_def clear_malformed_def clear_wait_def;
      (rule filter_upsert_other filter_delete_other; auto simp: malformed_key_def wait_key_def)?)+

lemma clear_if_kept [intro]: "lanes.kept_by repo (changing f) \<Longrightarrow> lanes.kept_by repo (clear_if b f)"
  by (simp add: clear_if_def)

lemma record_block_kept [intro]: "lanes.kept_by repo (record_block env repo flagged waiting n b)"
  unfolding record_block_def
  by (auto intro!: lanes.kept_bind lane_ops_kept clear_if_kept split: prod.split lane.split)

lemma fold_kept:
  assumes "\<And>n. n \<in> set ns \<Longrightarrow> lanes.kept_by repo (changing (f n))"
  shows "lanes.kept_by repo (changing (\<lambda>s. fold f ns s))"
  using assms
proof (induction ns)
  case Nil
  show ?case by (rule lanes.kept_byI) (simp add: lanes.refl)
next
  case (Cons n ns)
  have eq: "changing (\<lambda>s. fold f (n # ns) s) = bindE (changing (f n)) (\<lambda>_. changing (\<lambda>s. fold f ns s))"
    by (rule ext) (simp only: bindE_changing, simp add: changing_def)
  show ?case unfolding eq using Cons by (intro lanes.kept_bind) auto
qed

lemma drop_departed_kept [intro]: "lanes.kept_by repo (changing (drop_departed repo kept))"
proof (rule lanes.kept_byI)
  fix w :: world
  have if_clear: "lanes.kept_by repo (changing (\<lambda>t. if b then t else f t))"
    if "lanes.kept_by repo (changing f)" for b f
    using that by (cases b) (auto intro!: lanes.kept_byI simp: lanes.refl lanes.kept_by_def)
  let ?m = "\<lambda>n t. if n \<in> kept then t else clear_malformed repo n t"
  let ?q = "\<lambda>n t. if n \<in> kept then t else clear_wait repo n t"
  let ?ms = "malformed_numbers repo (wd_store w)"
  let ?s1 = "fold ?m ?ms (wd_store w)"
  have "lanes.kept_by repo (bindE (changing (\<lambda>s. fold ?m ?ms s)) (\<lambda>_. changing (\<lambda>s. fold ?q (wait_numbers repo ?s1) s)))"
    by (intro lanes.kept_bind fold_kept if_clear lane_ops_kept)
  then have "advisory repo w (snd (bindE (changing (\<lambda>s. fold ?m ?ms s))
      (\<lambda>_. changing (\<lambda>s. fold ?q (wait_numbers repo ?s1) s)) w))"
    by (simp add: lanes.kept_by_def)
  then show "advisory repo w (snd (changing (drop_departed repo kept) w))"
    by (simp add: drop_departed_def Let_def)
qed

subsection \<open>The write-through\<close>

definition grant_requests :: "repo \<Rightarrow> int \<Rightarrow> string \<Rightarrow> nat \<Rightarrow> nat \<Rightarrow> nat \<Rightarrow> request list" where
  "grant_requests repo n login a b c = replicate a (assign_request repo n [login])
     @ replicate b (label_request repo n [IN_PROGRESS]) @ replicate c (unlabel_request repo n PLAN_READY)"

lemma write_grant_outcome:
  assumes "write_grant env repo worker node login i w = (r, w')"
  obtains a b c where "wd_store w' = record_grant (en_clock env (wd_ticks w)) repo (is_number i) worker node login (wd_store w)"
    "wd_requests w' = wd_requests w @ grant_requests repo (is_number i) login a b c"
    "0 < a" "a \<le> MAX_RETRIES" "b \<le> MAX_RETRIES" "c \<le> MAX_RETRIES" "0 < c \<longrightarrow> 0 < b"
    "\<And>x. r = Inr x \<Longrightarrow> an_issue x = Some (handed_out i) \<and> an_reason x = None \<and> 0 < c"
proof -
  let ?n = "is_number i" and ?f = "\<lambda>t. record_grant t repo (is_number i) worker node login"
  let ?w0 = "stamped env ?f w"
  have run: "bindE (add_assignees env repo ?n [login]) (\<lambda>_. bindE (add_labels env repo ?n [IN_PROGRESS])
      (\<lambda>_. bindE (remove_label env repo ?n PLAN_READY)
        (\<lambda>_. ret \<lparr>an_issue = Some (handed_out i), an_reason = None\<rparr>))) ?w0 = (r, w')"
    using assms by (simp add: write_grant_def)
  note start = stamped_simps(1,3) [of env ?f w]
  from run show thesis
  proof (cases rule: bindE_cases)
    case (fail e)
    obtain a where "0 < a" "a \<le> MAX_RETRIES" "wd_requests w' = wd_requests ?w0 @ replicate a (assign_request repo ?n [login])"
      "wd_store w' = wd_store ?w0" by (rule sendsE [OF sends_runs(1) [OF fail(1)]])
    then show ?thesis using that [of a 0 0] fail(2) by (simp add: grant_requests_def)
  next
    case (step x w1)
    obtain a where a: "0 < a" "a \<le> MAX_RETRIES" "wd_requests w1 = wd_requests ?w0 @ replicate a (assign_request repo ?n [login])"
      "wd_store w1 = wd_store ?w0" by (rule sendsE [OF sends_runs(1) [OF step(1)]])
    from step(2) show ?thesis
    proof (cases rule: bindE_cases)
      case (fail e)
      obtain b where "0 < b" "b \<le> MAX_RETRIES" "wd_requests w' = wd_requests w1 @ replicate b (label_request repo ?n [IN_PROGRESS])"
        "wd_store w' = wd_store w1" by (rule sendsE [OF sends_runs(3) [OF fail(1)]])
      then show ?thesis using that [of a b 0] a fail(2) by (simp add: grant_requests_def)
    next
      case (step y w2)
      obtain b where b: "0 < b" "b \<le> MAX_RETRIES" "wd_requests w2 = wd_requests w1 @ replicate b (label_request repo ?n [IN_PROGRESS])"
        "wd_store w2 = wd_store w1" by (rule sendsE [OF sends_runs(3) [OF step(1)]])
      from step(2) obtain r3 where last: "remove_label env repo ?n PLAN_READY w2 = (r3, w')"
        and r: "\<And>x. r = Inr x \<Longrightarrow> x = \<lparr>an_issue = Some (handed_out i), an_reason = None\<rparr>"
        by (cases rule: bindE_cases) auto
      obtain c where "0 < c" "c \<le> MAX_RETRIES" "wd_requests w' = wd_requests w2 @ replicate c (unlabel_request repo ?n PLAN_READY)"
        "wd_store w' = wd_store w2" by (rule sendsE [OF sends_runs(4) [OF last]])
      then show ?thesis using a b by (intro that [of a b c]) (auto simp: grant_requests_def dest: r)
    qed
  qed
qed

lemma memo_write_grant [intro]: "memo.kept_by env repo (write_grant env repo worker node login i)"
  unfolding write_grant_def by (auto intro!: memo.kept_bind)

subsection \<open>The loop\<close>

definition eligible :: "int set \<Rightarrow> int set \<Rightarrow> issue \<Rightarrow> bool" where
  "eligible granted live i \<longleftrightarrow> FAILED \<notin> set (is_labels i) \<and> \<not> spoken_for granted live i"

lemma clear_if_lanes [intro]:
  "lanes.kept_by repo (clear_if b (clear_wait repo n))"
  "lanes.kept_by repo (clear_if b (clear_malformed repo n))"
  by (auto intro!: clear_if_kept lane_ops_kept)

text \<open>A step up to the grant also keeps the memo honest.\<close>

definition lane_step :: "env \<Rightarrow> repo \<Rightarrow> world \<Rightarrow> world \<Rightarrow> bool" where
  "lane_step env repo w w' \<longleftrightarrow> advisory repo w w' \<and> memo_grows env repo w w'"

interpretation steps: frame "lane_step env repo" for env repo
  by unfold_locales (auto simp: lane_step_def intro: lanes.refl lanes.trans memo.refl memo.trans)

lemma steps_of: "lanes.kept_by repo m \<Longrightarrow> memo.kept_by env repo m \<Longrightarrow> steps.kept_by env repo m"
  by (simp add: steps.kept_by_def lanes.kept_by_def memo.kept_by_def lane_step_def)

lemma memo_clear_if [intro, simp]: "memo.kept_by env repo (clear_if b f)"
  by (simp add: clear_if_def)

lemma steps_marks [intro]:
  "steps.kept_by env repo (stamping env' (\<lambda>t. record_malformed t repo n d))"
  "steps.kept_by env repo (stamping env' (\<lambda>t. record_wait t repo n d))"
  by (rule steps_of; rule lane_ops_kept memo_quiet)+

lemma steps_clear_if [intro]:
  "steps.kept_by env repo (clear_if b (clear_wait repo n))"
  "steps.kept_by env repo (clear_if b (clear_malformed repo n))"
  by (auto intro!: steps_of)

lemma steps_record_block [intro]: "steps.kept_by env repo (record_block env' repo flagged waiting n b)"
  unfolding record_block_def
  by (auto intro!: steps.kept_bind split: prod.split lane.split)

lemma steps_dependency_block [intro]: "steps.kept_by env repo (dependency_block env repo n)"
  by (rule steps_of [OF lanes_of_gets [OF gets_dependency_block] memo_dependency_block])

text \<open>How a pass ends: nothing granted, a failing read, or a write-through for an eligible issue.\<close>

definition granting ::
  "env \<Rightarrow> repo \<Rightarrow> string \<Rightarrow> string \<Rightarrow> string \<Rightarrow> issue list \<Rightarrow> int set \<Rightarrow> int set \<Rightarrow>
   world \<Rightarrow> exn + answer \<Rightarrow> world \<Rightarrow> issue \<Rightarrow> bool" where
  "granting env repo worker node login cands granted live u r w' i \<longleftrightarrow>
     i \<in> set cands \<and> eligible granted live i
     \<and> (\<exists>v w1. dependency_block env repo (is_number i) u = (Inr None, v) \<and> lane_step env repo v w1
          \<and> write_grant env repo worker node login i w1 = (r, w'))"

definition pass_end ::
  "env \<Rightarrow> repo \<Rightarrow> string \<Rightarrow> string \<Rightarrow> string \<Rightarrow> issue list \<Rightarrow> int set \<Rightarrow> int set \<Rightarrow>
   world \<Rightarrow> exn + answer \<Rightarrow> world \<Rightarrow> bool" where
  "pass_end env repo worker node login cands granted live w r w' \<longleftrightarrow>
     (\<exists>u. lane_step env repo w u
        \<and> ((w' = u \<and> (r = Inr nothing \<or> (\<exists>e. r = Inl e)))
           \<or> (\<exists>i. granting env repo worker node login cands granted live u r w' i)))"

lemma pass_end_stop:
  "lane_step env repo w w' \<Longrightarrow> r = Inr nothing \<or> (\<exists>e. r = Inl e)
   \<Longrightarrow> pass_end env repo worker node login cands granted live w r w'"
  by (auto simp: pass_end_def)

lemma pass_end_grant:
  "lane_step env repo w w1 \<Longrightarrow> granting env repo worker node login cands granted live w1 r w' i
   \<Longrightarrow> pass_end env repo worker node login cands granted live w r w'"
  by (auto simp: pass_end_def)

lemma pass_end_trans:
  "lane_step env repo w w0 \<Longrightarrow> pass_end env repo worker node login cands granted live w0 r w'
   \<Longrightarrow> pass_end env repo worker node login cands granted live w r w'"
  unfolding pass_end_def
  by (elim exE conjE, rule exI, rule conjI, rule steps.trans, assumption+)

lemma granting_later:
  "granting env repo worker node login cands granted live w1 r w' j
   \<Longrightarrow> granting env repo worker node login (i # cands) granted live w1 r w' j"
  by (simp add: granting_def)

lemma pass_end_later:
  "lane_step env repo w w0 \<Longrightarrow> pass_end env repo worker node login cands granted live w0 r w'
   \<Longrightarrow> pass_end env repo worker node login (i # cands) granted live w r w'"
  by (rule pass_end_trans, assumption) (unfold pass_end_def, metis (full_types) granting_later)

lemma pass_end_after:
  assumes "steps.kept_by env repo m" "bindE m (\<lambda>_. next_one) w = (r, w')"
    "\<And>w. next_one w = (r, w') \<Longrightarrow> pass_end env repo worker node login cands granted live w r w'"
  shows "pass_end env repo worker node login (i # cands) granted live w r w'"
  using assms(2)
proof (cases rule: bindE_cases)
  case (fail e)
  then show ?thesis using steps.kept_byD [OF assms(1)] by (intro pass_end_stop) auto
next
  case (step x w1)
  then show ?thesis using steps.kept_byD [OF assms(1)] assms(3) pass_end_later by blast
qed

lemma grant_loop_end:
  "grant_loop env repo worker node login granted live flagged waiting cands w = (r, w')
   \<Longrightarrow> pass_end env repo worker node login cands granted live w r w'"
proof (induction cands arbitrary: w)
  case Nil
  then show ?case by (intro pass_end_stop) (auto simp: steps.refl)
next
  case (Cons i rest)
  let ?n = "is_number i"
  let ?next = "grant_loop env repo worker node login granted live flagged waiting rest"
  consider (failed) "FAILED \<in> set (is_labels i)"
    | (taken) "FAILED \<notin> set (is_labels i)" "spoken_for granted live i"
    | (free) "eligible granted live i"
    by (auto simp: eligible_def)
  then show ?case
  proof cases
    case failed
    then have "bindE (bindE (stamping env (\<lambda>t. record_malformed t repo ?n failed_detail))
        (\<lambda>_. clear_if (?n \<in> waiting) (clear_wait repo ?n))) (\<lambda>_. ?next) w = (r, w')"
      using Cons.prems by (simp add: bindE_assoc Let_def)
    moreover have "steps.kept_by env repo (bindE (stamping env (\<lambda>t. record_malformed t repo ?n failed_detail))
        (\<lambda>_. clear_if (?n \<in> waiting) (clear_wait repo ?n)))"
      by (intro steps.kept_bind steps_marks steps_clear_if)
    ultimately show ?thesis using Cons.IH pass_end_after by metis
  next
    case taken
    then show ?thesis using Cons pass_end_later [OF steps.refl] by (simp add: Let_def)
  next
    case free
    then have run: "bindE (dependency_block env repo ?n) (\<lambda>block.
        case block of
          Some b \<Rightarrow> bindE (record_block env repo flagged waiting ?n b) (\<lambda>_. ?next)
        | None \<Rightarrow> bindE (clear_if (?n \<in> flagged) (clear_malformed repo ?n)) (\<lambda>_.
                   bindE (clear_if (?n \<in> waiting) (clear_wait repo ?n)) (\<lambda>_.
                     write_grant env repo worker node login i))) w = (r, w')"
      using Cons.prems by (simp add: eligible_def Let_def)
    from run show ?thesis
    proof (cases rule: bindE_cases)
      case (fail e)
      then show ?thesis
        using steps.kept_byD [OF steps_dependency_block] by (intro pass_end_stop) auto
    next
      case (step block w0)
      then have a0: "lane_step env repo w w0"
        using steps.kept_byD [OF steps_dependency_block] by blast
      show ?thesis
      proof (cases block)
        case (Some b)
        then have "bindE (record_block env repo flagged waiting ?n b) (\<lambda>_. ?next) w0 = (r, w')"
          using step(2) by simp
        then have "pass_end env repo worker node login (i # rest) granted live w0 r w'"
          by (rule pass_end_after [OF steps_record_block _ Cons.IH])
        then show ?thesis using a0 by (rule pass_end_trans [rotated])
      next
        case None
        let ?clear = "bindE (clear_if (?n \<in> flagged) (clear_malformed repo ?n)) (\<lambda>_. clear_if (?n \<in> waiting) (clear_wait repo ?n))"
        have "bindE ?clear (\<lambda>_. write_grant env repo worker node login i) w0 = (r, w')"
          using step(2) None by (simp add: bindE_assoc)
        moreover have kept: "steps.kept_by env repo ?clear" by (intro steps.kept_bind steps_clear_if)
        ultimately show ?thesis
        proof (cases rule: bindE_cases)
          case (fail e)
          then have "lane_step env repo w w'" using steps.kept_byD [OF kept] a0 steps.trans by blast
          then show ?thesis using fail(2) by (intro pass_end_stop) auto
        next
          case (step x w1)
          then have "lane_step env repo w0 w1" using steps.kept_byD [OF kept] by blast
          then have "granting env repo worker node login (i # rest) granted live w r w' i"
            using free step(2) \<open>dependency_block env repo ?n w = (Inr block, w0)\<close> None by (auto simp: granting_def)
          then show ?thesis by (rule pass_end_grant [OF steps.refl])
        qed
      qed
    qed
  qed
qed

subsection \<open>A request for work\<close>

lemma granting_pass_end:
  assumes "granting_pass env repo worker node login w = (r, w')"
  obtains (unlisted) e where "r = Inl e" "advisory repo w w'"
    | (listed) cands m u where "list_open_issues env repo PLAN_READY w = (Inr cands, m)"
        "advisory repo w u" "wd_requests u = wd_requests m" "wd_branches u = wd_branches w" "wd_branches m = wd_branches w"
        "wd_reads u = fresh_reads"
        "pass_end env repo worker node login cands (set (granted_issues repo (wd_store w)))
           (live_issues repo (wd_store w)) u r w'"
proof -
  let ?g = "set (granted_issues repo (wd_store w))" and ?l = "live_issues repo (wd_store w)"
  from assms have "bindE (list_open_issues env repo PLAN_READY) (\<lambda>candidates.
     bindE (changing (drop_departed repo (is_number ` set candidates))) (\<lambda>_.
     bindE (reading (malformed_numbers repo)) (\<lambda>flagged.
     bindE (reading (wait_numbers repo)) (\<lambda>waiting.
     bindE new_pass (\<lambda>_.
       grant_loop env repo worker node login ?g ?l (set flagged) (set waiting) candidates))))) w = (r, w')"
    by (simp add: granting_pass_def)
  then show thesis
  proof (cases rule: bindE_cases)
    case (fail e)
    then show ?thesis using unlisted lanes.kept_byD [OF lanes_of_gets [OF gets_reads(3)]] by blast
  next
    case (step cands u)
    then have a1: "advisory repo w u" using lanes.kept_byD [OF lanes_of_gets [OF gets_reads(3)]] by blast
    let ?v = "u\<lparr>wd_store := drop_departed repo (is_number ` set cands) (wd_store u)\<rparr>"
    have a2: "advisory repo u ?v"
      using lanes.kept_byD [OF drop_departed_kept, of repo "is_number ` set cands" u "Inr ()" ?v] by simp
    obtain fl wa where "bindE new_pass (\<lambda>_. grant_loop env repo worker node login ?g ?l fl wa cands) ?v = (r, w')"
      using step(2) by (simp add: reading_def bindE_def split: prod.splits)
    then have loop: "grant_loop env repo worker node login ?g ?l fl wa cands (?v\<lparr>wd_reads := fresh_reads\<rparr>) = (r, w')"
      by (simp add: bindE_def new_pass_def)
    have a3: "advisory repo ?v (?v\<lparr>wd_reads := fresh_reads\<rparr>)" by (simp add: advisory_def)
    from a1 a2 a3 have adv: "advisory repo w (?v\<lparr>wd_reads := fresh_reads\<rparr>)" by (blast intro: lanes.trans)
    have "bare.kept_by (list_open_issues env repo PLAN_READY)" by simp
    then have "wd_branches u = wd_branches w"
      using bare.kept_byD step(1) unfolding transcript_only_def by blast
    then show ?thesis using listed [OF step(1) adv _ _ _ _ grant_loop_end [OF loop]] by simp
  qed
qed

definition registering :: "env \<Rightarrow> repo \<Rightarrow> string \<Rightarrow> string \<Rightarrow> string \<Rightarrow> string \<Rightarrow> world \<Rightarrow> world" where
  "registering env repo worker node login stack =
     stamped env (\<lambda>t. upsert_driver t worker node login ''implementer'' repo stack)"

lemma grant_work_cases:
  assumes "grant_work env repo worker node login stack pin drivers_hash w = (r, w')"
  defines "w0 \<equiv> registering env repo worker node login stack w"
  obtains (gate) reason where "gate_reason node pin drivers_hash (wd_store w0) = Some reason"
      "r = Inr (refused reason)" "w' = w0"
    | (name) "CHR ''/'' \<notin> set repo" "\<exists>e. r = Inl e" "w' = w0"
    | (other) e where "granting_pass env repo worker node login w0 = (Inl e, w')" "r = Inl e"
        "\<forall>msg st. e \<noteq> GitHub_Error msg st"
    | (trouble) msg st w1 where "granting_pass env repo worker node login w0 = (Inl (GitHub_Error msg st), w1)"
        "r = Inr (refused (''dispatch paused for '' @ repo @ '': '' @ msg))"
        "w' = stamped env (\<lambda>t. record_dispatch_pause t repo msg) w1"
    | (passed) a w1 where "granting_pass env repo worker node login w0 = (Inr a, w1)" "r = Inr a"
        "w' = w1\<lparr>wd_store := clear_dispatch_pause repo (wd_store w1)\<rparr>"
proof (cases "gate_reason node pin drivers_hash (wd_store w0)")
  case (Some reason)
  then show thesis using assms(1) gate by (simp add: grant_work_def w0_def registering_def)
next
  case None
  show thesis
  proof (cases "CHR ''/'' \<in> set repo")
    case False
    then show thesis using assms(1) None name by (simp add: grant_work_def w0_def registering_def new_client_def)
  next
    case True
    then have run: "catchE (bindE (granting_pass env repo worker node login) (\<lambda>answer.
        bindE (changing (clear_dispatch_pause repo)) (\<lambda>_. ret answer))) (paused env repo refused) w0 = (r, w')"
      using assms(1) None by (simp add: grant_work_def w0_def registering_def new_client_def)
    then show thesis
    proof (cases rule: catchE_cases)
      case (caught e w1)
      then have p: "granting_pass env repo worker node login w0 = (Inl e, w1)" by (auto elim: bindE_cases)
      show thesis
      proof (cases "\<exists>msg st. e = GitHub_Error msg st")
        case True
        then obtain msg st where "e = GitHub_Error msg st" by blast
        then show thesis using p caught(2) trouble by (simp add: paused_def)
      next
        case False
        then have "r = Inl e" "w' = w1" using caught(2) by (auto simp: paused_def split: exn.splits)
        then show thesis using False p other by blast
      qed
    next
      case (fine a)
      then show thesis using passed by (auto elim!: bindE_cases)
    qed
  qed
qed

subsection \<open>Closed gates\<close>

lemma upsert_driver_frame:
  "(upsert_driver t worker node login role repo stack s)\<lparr>t_drivers := []\<rparr> = s\<lparr>t_drivers := []\<rparr>"
  by (simp add: upsert_driver_def)

lemma gate_reads_upsert [simp]:
  "node_quarantine n (upsert_driver t worker node login role repo stack s) = node_quarantine n s"
  "node_version n (upsert_driver t worker node login role repo stack s) = node_version n s"
  "node_drivers_hash n (upsert_driver t worker node login role repo stack s) = node_drivers_hash n s"
  "pending_lifecycle_commands n (upsert_driver t worker node login role repo stack s) = pending_lifecycle_commands n s"
  by (simp_all add: upsert_driver_def node_quarantine_def node_version_def node_drivers_hash_def
      pending_lifecycle_commands_def)

definition gate_closed :: "string \<Rightarrow> string \<Rightarrow> string \<Rightarrow> store \<Rightarrow> bool" where
  "gate_closed node pin drivers_hash s \<longleftrightarrow>
     node_quarantine node s \<noteq> None
     \<or> (pin \<noteq> [] \<and> node_version node s \<noteq> [] \<and> node_version node s \<noteq> pin)
     \<or> (drivers_hash \<noteq> [] \<and> node_drivers_hash node s \<noteq> None \<and> node_drivers_hash node s \<noteq> Some drivers_hash)
     \<or> pending_lifecycle_commands node s \<noteq> []"

lemma gate_reason_iff: "gate_reason node pin drivers_hash s \<noteq> None \<longleftrightarrow> gate_closed node pin drivers_hash s"
  unfolding gate_reason_def gate_closed_def version_block_def drivers_block_def Let_def
  by (cases "node_quarantine node s"; cases "node_drivers_hash node s") auto

text \<open>
  C8: A quarantined node, a node off the pinned version, a node off the config distribution and a
  node with pending lifecycle commands get no work: the request registers the driver, answers the
  reason, and sends GitHub nothing.
\<close>

theorem closed_gate_gets_no_work:
  assumes "gate_closed node pin drivers_hash (wd_store w)"
  shows "\<exists>reason. grant_work env repo worker node login stack pin drivers_hash w
      = (Inr (refused reason), stamped env (\<lambda>t. upsert_driver t worker node login ''implementer'' repo stack) w)"
proof -
  let ?f = "\<lambda>t. upsert_driver t worker node login ''implementer'' repo stack"
  have "gate_closed node pin drivers_hash (wd_store (stamped env ?f w))"
    using assms by (simp add: gate_closed_def)
  then obtain reason where "gate_reason node pin drivers_hash (wd_store (stamped env ?f w)) = Some reason"
    using gate_reason_iff by blast
  then show ?thesis by (intro exI [of _ reason]) (simp add: grant_work_def)
qed

definition demo_env :: env where
  "demo_env = \<lparr>en_clock = (\<lambda>n. 1000 + int n),
     en_transport = (\<lambda>_ rq. Inr \<lparr>rp_status = 200, rp_headers = [], rp_body = ''[]''\<rparr>),
     en_git = (\<lambda>_ _. Inl (Other_Error [])), en_touch = (\<lambda>_ _. None), en_emit = (\<lambda>_. True), en_fuel = 4, en_depth = 50\<rparr>"

definition demo_sick :: store where
  "demo_sick = empty_store\<lparr>t_node_health := [\<lparr>nh_node = ''n1'', nh_consecutive_failures = 3,
     nh_quarantined = True, nh_reason = ''3 consecutive failed Runs'', nh_since = Some 900\<rparr>]\<rparr>"

lemma closed_gate_gets_no_work_witness:
  "gate_closed ''n1'' [] [] demo_sick
   \<and> (\<exists>reason. grant_work demo_env ''o/r'' ''w'' ''n1'' ''bot'' [] [] [] (world_of demo_sick)
      = (Inr (refused reason), stamped demo_env (\<lambda>t. upsert_driver t ''w'' ''n1'' ''bot'' ''implementer'' ''o/r'' []) (world_of demo_sick)))"
proof
  show closed: "gate_closed ''n1'' [] [] demo_sick"
    by (simp add: gate_closed_def demo_sick_def node_quarantine_def row_of_def)
  show "\<exists>reason. grant_work demo_env ''o/r'' ''w'' ''n1'' ''bot'' [] [] [] (world_of demo_sick)
      = (Inr (refused reason), stamped demo_env (\<lambda>t. upsert_driver t ''w'' ''n1'' ''bot'' ''implementer'' ''o/r'' []) (world_of demo_sick))"
    by (rule closed_gate_gets_no_work) (simp add: closed world_of_def)
qed

subsection \<open>What a request for work does\<close>

lemma advisory_requests:
  assumes "advisory repo w w'"
  obtains rs where "wd_requests w' = wd_requests w @ rs" "all_gets rs"
  using assms by (auto simp: advisory_def all_gets_def list_all_iff)

lemma advisory_grants:
  assumes "advisory repo w w'"
  shows "t_grants (wd_store w') = t_grants (wd_store w)" "t_events (wd_store w') = t_events (wd_store w)"
proof -
  have "t_grants ((wd_store w')\<lparr>t_malformed := [], t_waits := []\<rparr>) = t_grants ((wd_store w)\<lparr>t_malformed := [], t_waits := []\<rparr>)"
    "t_events ((wd_store w')\<lparr>t_malformed := [], t_waits := []\<rparr>) = t_events ((wd_store w)\<lparr>t_malformed := [], t_waits := []\<rparr>)"
    using assms by (simp_all add: advisory_def)
  then show "t_grants (wd_store w') = t_grants (wd_store w)" "t_events (wd_store w') = t_events (wd_store w)"
    by simp_all
qed

lemma record_grant_tables:
  "t_grants s = t_grants s' \<Longrightarrow> t_grants (record_grant t repo n worker node login s)
     = t_grants (record_grant t repo n worker node login s')"
  by (simp add: record_grant_def)

lemma pause_grants [simp]:
  "t_grants (record_dispatch_pause t repo msg s) = t_grants s"
  "t_grants (clear_dispatch_pause repo s) = t_grants s"
  "t_grants (upsert_driver t worker node login role repo stack s) = t_grants s"
  "t_events (upsert_driver t worker node login role repo stack s) = t_events s"
  by (simp_all add: record_dispatch_pause_def clear_dispatch_pause_def upsert_driver_def)

lemma registering_simps [simp]:
  "wd_requests (registering env repo worker node login stack w) = wd_requests w"
  "wd_branches (registering env repo worker node login stack w) = wd_branches w"
  "t_grants (wd_store (registering env repo worker node login stack w)) = t_grants (wd_store w)"
  "granted_issues q (wd_store (registering env repo worker node login stack w)) = granted_issues q (wd_store w)"
  "live_issues q (wd_store (registering env repo worker node login stack w)) = live_issues q (wd_store w)"
  by (simp_all add: registering_def granted_issues_def live_issues_def live_claims_def upsert_driver_def latest_runs_def)

text \<open>How a pass ends, whichever way the handler turns its result into an answer.\<close>

definition grant_made ::
  "env \<Rightarrow> repo \<Rightarrow> string \<Rightarrow> string \<Rightarrow> string \<Rightarrow> world \<Rightarrow> issue \<Rightarrow> nat \<Rightarrow> nat \<Rightarrow> nat \<Rightarrow> world \<Rightarrow> bool" where
  "grant_made env repo worker node login w i a b c w' \<longleftrightarrow>
     eligible (set (granted_issues repo (wd_store w))) (live_issues repo (wd_store w)) i
     \<and> (\<exists>l m cands. wd_requests l = wd_requests w \<and> wd_branches l = wd_branches w
          \<and> list_open_issues env repo PLAN_READY l = (Inr cands, m) \<and> i \<in> set cands \<and> answered env repo m w')
     \<and> lets_through repo (en_depth env) (wd_reads w') (wd_branches w' repo) (is_number i)
     \<and> (\<exists>gs. wd_requests w' = wd_requests w @ gs @ grant_requests repo (is_number i) login a b c \<and> all_gets gs)
     \<and> (\<exists>t. t_grants (wd_store w') = t_grants (record_grant t repo (is_number i) worker node login (wd_store w)))
     \<and> 0 < a \<and> a \<le> MAX_RETRIES \<and> b \<le> MAX_RETRIES \<and> c \<le> MAX_RETRIES \<and> (0 < c \<longrightarrow> 0 < b)"

lemma granting_pass_effect:
  assumes "granting_pass env repo worker node login w = (r, w')"
  obtains (quiet) gs where "wd_requests w' = wd_requests w @ gs" "all_gets gs"
      "t_grants (wd_store w') = t_grants (wd_store w)" "r = Inr nothing \<or> (\<exists>e. r = Inl e)"
    | (grant) i a b c where "grant_made env repo worker node login w i a b c w'"
      "\<And>x. r = Inr x \<Longrightarrow> an_issue x = Some (handed_out i) \<and> an_reason x = None \<and> 0 < c"
  using assms
proof (cases rule: granting_pass_end)
  case (unlisted e)
  then show ?thesis using quiet advisory_requests advisory_grants by metis
next
  case (listed cands m u0)
  from listed(7) obtain u where u0: "lane_step env repo u0 u"
    and cases: "(w' = u \<and> (r = Inr nothing \<or> (\<exists>e. r = Inl e)))
      \<or> (\<exists>i. granting env repo worker node login cands (set (granted_issues repo (wd_store w)))
           (live_issues repo (wd_store w)) u r w' i)"
    unfolding pass_end_def by blast
  then have u: "advisory repo w u" using listed(2) lanes.trans by (auto simp: lane_step_def)
  from cases show ?thesis
  proof (elim disjE exE)
    assume "w' = u \<and> (r = Inr nothing \<or> (\<exists>e. r = Inl e))"
    then show ?thesis using quiet u advisory_requests advisory_grants by metis
  next
    fix i assume "granting env repo worker node login cands (set (granted_issues repo (wd_store w)))
           (live_issues repo (wd_store w)) u r w' i"
    then obtain v w1 where el: "i \<in> set cands" "eligible (set (granted_issues repo (wd_store w))) (live_issues repo (wd_store w)) i"
      and dep: "dependency_block env repo (is_number i) u = (Inr None, v)" and v: "lane_step env repo v w1"
      and wr: "write_grant env repo worker node login i w1 = (r, w')"
      by (auto simp: granting_def)
    have uv: "lane_step env repo u v" by (rule steps.kept_byD [OF steps_dependency_block dep])
    have uw1: "advisory repo w w1" using u uv v lanes.trans unfolding lane_step_def by blast
    have w1w': "memo_grows env repo w1 w'" by (rule memo.kept_byD [OF memo_write_grant wr])
    then have vw': "memo_grows env repo v w'" using v memo.trans unfolding lane_step_def by blast
    have "memo_grows env repo u0 w'"
      using u0 uv memo.trans [OF memo.trans vw'] unfolding lane_step_def by blast
    then have ans: "answered env repo m w'"
      by (rule answered_from_fresh) (simp_all add: listed(3-6))
    have lets: "lets_through repo (en_depth env) (wd_reads w') (wd_branches w' repo) (is_number i)"
      by (rule dependency_block_lets_through [OF dep vw'])
    obtain gs where gs: "wd_requests w1 = wd_requests w @ gs" "all_gets gs" using uw1 by (rule advisory_requests)
    have same: "t_grants (wd_store w1) = t_grants (wd_store w)" by (rule advisory_grants(1) [OF uw1])
    from wr show ?thesis
    proof (rule write_grant_outcome)
      fix a b c
      assume st: "wd_store w' = record_grant (en_clock env (wd_ticks w1)) repo (is_number i) worker node login (wd_store w1)"
        and rq: "wd_requests w' = wd_requests w1 @ grant_requests repo (is_number i) login a b c"
        and k: "0 < a" "a \<le> MAX_RETRIES" "b \<le> MAX_RETRIES" "c \<le> MAX_RETRIES" "0 < c \<longrightarrow> 0 < b"
        and out: "\<And>x. r = Inr x \<Longrightarrow> an_issue x = Some (handed_out i) \<and> an_reason x = None \<and> 0 < c"
      have "\<exists>t. t_grants (wd_store w') = t_grants (record_grant t repo (is_number i) worker node login (wd_store w))"
        unfolding st by (intro exI, rule record_grant_tables [OF same])
      moreover have "\<exists>gs. wd_requests w' = wd_requests w @ gs @ grant_requests repo (is_number i) login a b c \<and> all_gets gs"
        using rq gs by simp
      ultimately have "grant_made env repo worker node login w i a b c w'"
        unfolding grant_made_def using el listed(1) ans lets k by blast
      then show ?thesis using grant out by blast
    qed
  qed
qed

lemma grant_made_frame:
  assumes "wd_requests w2 = wd_requests w1" "t_grants (wd_store w2) = t_grants (wd_store w1)"
    "wd_reads w2 = wd_reads w1" "wd_branches w2 = wd_branches w1"
  shows "grant_made env repo worker node login w i a b c w1 = grant_made env repo worker node login w i a b c w2"
  unfolding grant_made_def answered_def read_between_def assms ..

lemma grant_made_registering [simp]:
  "grant_made env repo worker node login (registering env repo worker node login stack w) i a b c w'
   = grant_made env repo worker node login w i a b c w'"
proof -
  have "t_grants (record_grant t repo n worker node login (wd_store (registering env repo worker node login stack w)))
      = t_grants (record_grant t repo n worker node login (wd_store w))" for t n
    by (rule record_grant_tables) simp
  then show ?thesis unfolding grant_made_def by simp
qed

text \<open>
  Every request for work is one of these two: only reads, or one write-through behind its row.
\<close>

lemma grant_work_effect:
  assumes "grant_work env repo worker node login stack pin drivers_hash w = (r, w')"
  obtains (quiet) gs where "wd_requests w' = wd_requests w @ gs" "all_gets gs"
      "t_grants (wd_store w') = t_grants (wd_store w)" "\<And>x. r = Inr x \<Longrightarrow> an_issue x = None"
    | (grant) i a b c where "grant_made env repo worker node login w i a b c w'"
      "\<And>x. r = Inr x \<Longrightarrow> an_issue x = Some (handed_out i) \<and> 0 < c \<or> an_issue x = None"
  using assms
proof (cases rule: grant_work_cases)
  case (gate reason)
  then show ?thesis using quiet [of "[]"] by (simp add: refused_def all_gets_def)
next
  case name
  then show ?thesis using quiet [of "[]"] by (auto simp: all_gets_def)
next
  case (other e)
  show ?thesis using other(1)
  proof (cases rule: granting_pass_effect)
    case (quiet gs)
    then show ?thesis using that(1) [of gs] other(2) by simp
  next
    case (grant i a b c)
    then show ?thesis using that(2) [of i a b c] other(2) by simp
  qed
next
  case (trouble msg st w1)
  show ?thesis using trouble(1)
  proof (cases rule: granting_pass_effect)
    case (quiet gs)
    then show ?thesis using that(1) [of gs] trouble(2,3) by (simp add: refused_def)
  next
    case (grant i a b c)
    then have "grant_made env repo worker node login w i a b c w'"
      using grant_made_frame [of w' w1] trouble(3) by simp
    then show ?thesis using that(2) [of i a b c] trouble(2) by (simp add: refused_def)
  qed
next
  case (passed x w1)
  show ?thesis using passed(1)
  proof (cases rule: granting_pass_effect)
    case (quiet gs)
    then show ?thesis using that(1) [of gs] passed(2,3) by (auto simp: nothing_def)
  next
    case (grant i a b c)
    then have "grant_made env repo worker node login w i a b c w'"
      using grant_made_frame [of w' w1] passed(3) by simp
    then show ?thesis using that(2) [of i a b c] grant(2) passed(2) by simp
  qed
qed

lemma grant_made_row:
  assumes "grant_made env repo worker node login w i a b c w'"
  shows "\<exists>row \<in> set (t_grants (wd_store w')). grant_key row = (repo, is_number i)
      \<and> gr_worker row = worker \<and> gr_login row = login"
    "grant_keys (wd_store w') = insert (repo, is_number i) (grant_keys (wd_store w))"
proof -
  obtain t where t: "t_grants (wd_store w') = t_grants (record_grant t repo (is_number i) worker node login (wd_store w))"
    using assms by (auto simp: grant_made_def)
  have "\<exists>row \<in> set (t_grants (record_grant t repo n worker node login s)). grant_key row = (repo, n)
      \<and> gr_worker row = worker \<and> gr_login row = login" for s n
    by (fastforce simp: record_grant_def upsert_def update_where_def grant_key_def has_key_def list_ex_iff image_iff bex_Un)
  then show "\<exists>row \<in> set (t_grants (wd_store w')). grant_key row = (repo, is_number i)
      \<and> gr_worker row = worker \<and> gr_login row = login" using t by simp
  show "grant_keys (wd_store w') = insert (repo, is_number i) (grant_keys (wd_store w))"
    using t keys_record(1) by (simp add: grant_keys_def)
qed

text \<open>
  C1: An issue handed to a worker was on the listing of \<open>plan_ready\<close> issues this request read first,
  carries neither \<open>failed\<close> nor \<open>in_progress\<close>, has no assignee, no grant row and no live claim in its
  repository, and its dependencies let it through. Every answer they are judged by was given by GitHub
  during this request, after the listing: the blockers of each issue of its blocked-by closure, the
  pull requests and the merge settings of the memo the request leaves, and the default branch unless
  the client had it already. On these answers every transitive blocker was closed as completed; or
  none was closed for another reason, each open one has a pull request approved and awaiting merge,
  those stand in one chain from a tip down to the default branch, and the settings allow chaining.
  The grant row is stored when the answer leaves.
\<close>

theorem grant_goes_to_eligible_issue:
  assumes "grant_work env repo worker node login stack pin drivers_hash w = (Inr x, w')" "an_issue x = Some g"
  shows "\<exists>i l m cands. g = handed_out i
     \<and> FAILED \<notin> set (is_labels i) \<and> IN_PROGRESS \<notin> set (is_labels i) \<and> is_assignees i = []
     \<and> (repo, is_number i) \<notin> grant_keys (wd_store w) \<and> is_number i \<notin> live_issues repo (wd_store w)
     \<and> wd_requests l = wd_requests w \<and> wd_branches l = wd_branches w
     \<and> list_open_issues env repo PLAN_READY l = (Inr cands, m) \<and> i \<in> set cands
     \<and> answered env repo m w'
     \<and> lets_through repo (en_depth env) (wd_reads w') (wd_branches w' repo) (is_number i)
     \<and> (repo, is_number i) \<in> grant_keys (wd_store w')"
  using assms(1)
proof (cases rule: grant_work_effect)
  case (quiet gs)
  then show ?thesis using assms(2) by simp
next
  case (grant i a b c)
  have "g = handed_out i" using grant(2) assms(2) by auto
  moreover have "(repo, is_number i) \<in> grant_keys (wd_store w')" using grant_made_row(2) [OF grant(1)] by simp
  moreover have "FAILED \<notin> set (is_labels i) \<and> IN_PROGRESS \<notin> set (is_labels i) \<and> is_assignees i = []
     \<and> (repo, is_number i) \<notin> grant_keys (wd_store w) \<and> is_number i \<notin> live_issues repo (wd_store w)"
    using grant(1) listed_keys(1) by (auto simp: grant_made_def eligible_def spoken_for_def)
  ultimately show ?thesis using grant(1) unfolding grant_made_def by blast
qed

definition granted_number :: "exn + answer \<Rightarrow> int option" where
  "granted_number r = (case r of Inl e \<Rightarrow> None | Inr x \<Rightarrow> map_option gi_number (an_issue x))"

definition orderly_claim :: "repo \<Rightarrow> string \<Rightarrow> string \<Rightarrow> int option \<Rightarrow> store \<Rightarrow> request list \<Rightarrow> bool" where
  "orderly_claim repo worker login granted s writes \<longleftrightarrow>
     (\<exists>n a b c. writes = grant_requests repo n login a b c
        \<and> 0 < a \<and> a \<le> MAX_RETRIES \<and> b \<le> MAX_RETRIES \<and> c \<le> MAX_RETRIES \<and> (0 < c \<longrightarrow> 0 < b)
        \<and> (granted = None \<or> (granted = Some n \<and> 0 < c))
        \<and> (\<exists>row \<in> set (t_grants s). grant_key row = (repo, n) \<and> gr_worker row = worker \<and> gr_login row = login))"

text \<open>
  C2: Whatever GitHub answers and wherever the request fails, everything it sends besides reads is the
  assignment, then the \<open>in_progress\<close> label, then the removal of \<open>plan_ready\<close>, for one issue of the
  requested repository, each at most eight times and none before its predecessor, with the grant row
  of that issue stored for this worker; an answer with an issue means all three were sent for it.
\<close>

theorem claim_writes_follow_the_grant_row:
  "case grant_work env repo worker node login stack pin drivers_hash w of (r, w') \<Rightarrow>
     (\<exists>gs writes. wd_requests w' = wd_requests w @ gs @ writes \<and> all_gets gs
        \<and> ((writes = [] \<and> granted_number r = None)
           \<or> orderly_claim repo worker login (granted_number r) (wd_store w') writes))"
proof -
  obtain r w' where run: "grant_work env repo worker node login stack pin drivers_hash w = (r, w')"
    by (rule prod.exhaust)
  show ?thesis using run
  proof (cases rule: grant_work_effect)
    case (quiet gs)
    then show ?thesis unfolding run prod.case
      by (intro exI [of _ gs] exI [of _ "[]"]) (auto simp: granted_number_def split: sum.split)
  next
    case (grant i a b c)
    obtain gs where gs: "wd_requests w' = wd_requests w @ gs @ grant_requests repo (is_number i) login a b c" "all_gets gs"
      using grant(1) by (auto simp: grant_made_def)
    have "granted_number r = None \<or> (granted_number r = Some (is_number i) \<and> 0 < c)"
      using grant(2) by (cases r) (auto simp: granted_number_def handed_out_def)
    then have "orderly_claim repo worker login (granted_number r) (wd_store w') (grant_requests repo (is_number i) login a b c)"
      unfolding orderly_claim_def using grant(1) grant_made_row(1) [OF grant(1)] by (fastforce simp: grant_made_def)
    then show ?thesis unfolding run prod.case using gs by blast
  qed
qed

definition demo_hub :: env where
  "demo_hub = demo_env\<lparr>en_transport := (\<lambda>_ rq. Inr \<lparr>rp_status = 200, rp_headers = [],
        rp_body = (if rq_method rq = ''GET'' \<and> take 18 (rq_path rq) = ''/repos/o/r/issues?''
                   then ''[{\"number\":7}]'' else ''[]'')\<rparr>)\<rparr>"

lemma demo_grant:
  "fst (grant_work demo_hub ''o/r'' ''w'' ''n1'' ''bot'' [] [] [] (world_of empty_store))
     = Inr \<lparr>an_issue = Some \<lparr>gi_number = 7, gi_title = [], gi_body = [], gi_labels = [''in_progress'']\<rparr>,
            an_reason = None\<rparr>"
  by code_simp

lemma grant_goes_to_eligible_issue_witness:
  "\<exists>i. \<lparr>gi_number = 7, gi_title = [], gi_body = [], gi_labels = [''in_progress'']\<rparr> = handed_out i
     \<and> FAILED \<notin> set (is_labels i) \<and> is_assignees i = []"
proof -
  obtain w' where "grant_work demo_hub ''o/r'' ''w'' ''n1'' ''bot'' [] [] [] (world_of empty_store)
      = (Inr \<lparr>an_issue = Some \<lparr>gi_number = 7, gi_title = [], gi_body = [], gi_labels = [''in_progress'']\<rparr>,
              an_reason = None\<rparr>, w')"
    using demo_grant by (metis prod.collapse)
  then show ?thesis using grant_goes_to_eligible_issue by fastforce
qed

subsection \<open>One repository at a time\<close>

text \<open>Everything outside \<open>repo\<close>'s coordination rows, and every table but the driver registry.\<close>

definition elsewhere :: "repo \<Rightarrow> store \<Rightarrow> store" where
  "elsewhere repo s = s\<lparr>t_drivers := [],
     t_malformed := filter (\<lambda>r. mf_repo r \<noteq> repo) (t_malformed s),
     t_waits := filter (\<lambda>r. dw_repo r \<noteq> repo) (t_waits s),
     t_grants := filter (\<lambda>r. gr_repo r \<noteq> repo) (t_grants s),
     t_pauses := filter (\<lambda>r. dp_repo r \<noteq> repo) (t_pauses s)\<rparr>"

lemma advisory_elsewhere:
  assumes "advisory repo w w'"
  shows "elsewhere repo (wd_store w') = elsewhere repo (wd_store w)"
proof -
  have blank: "elsewhere repo s = (s\<lparr>t_malformed := [], t_waits := []\<rparr>)\<lparr>t_drivers := [],
     t_malformed := filter (\<lambda>r. mf_repo r \<noteq> repo) (t_malformed s),
     t_waits := filter (\<lambda>r. dw_repo r \<noteq> repo) (t_waits s),
     t_grants := filter (\<lambda>r. gr_repo r \<noteq> repo) (t_grants (s\<lparr>t_malformed := [], t_waits := []\<rparr>)),
     t_pauses := filter (\<lambda>r. dp_repo r \<noteq> repo) (t_pauses (s\<lparr>t_malformed := [], t_waits := []\<rparr>))\<rparr>" for s
    by (simp add: elsewhere_def)
  show ?thesis unfolding blank using assms by (simp only: advisory_def)
qed

lemma grants_elsewhere:
  "filter (\<lambda>r. gr_repo r \<noteq> repo) (t_grants (record_grant t repo n worker node login s))
   = filter (\<lambda>r. gr_repo r \<noteq> repo) (t_grants s)"
  unfolding record_grant_def by simp (rule filter_upsert_other, auto simp: grant_key_def)

lemma pauses_elsewhere:
  "filter (\<lambda>r. dp_repo r \<noteq> repo) (t_pauses (record_dispatch_pause t repo msg s))
   = filter (\<lambda>r. dp_repo r \<noteq> repo) (t_pauses s)"
  "filter (\<lambda>r. dp_repo r \<noteq> repo) (t_pauses (clear_dispatch_pause repo s))
   = filter (\<lambda>r. dp_repo r \<noteq> repo) (t_pauses s)"
  by (simp add: record_dispatch_pause_def, rule filter_upsert_other, auto)
    (simp add: clear_dispatch_pause_def delete_where_def)

lemma elsewhere_ops [simp]:
  "elsewhere repo (record_grant t repo n worker node login s) = elsewhere repo s"
  "elsewhere repo (record_dispatch_pause t repo msg s) = elsewhere repo s"
  "elsewhere repo (clear_dispatch_pause repo s) = elsewhere repo s"
  "elsewhere repo (upsert_driver t worker node login role q stack s) = elsewhere repo s"
  unfolding elsewhere_def grants_elsewhere pauses_elsewhere
  by (simp_all add: record_grant_def record_dispatch_pause_def clear_dispatch_pause_def upsert_driver_def)

lemma pass_elsewhere:
  assumes "granting_pass env repo worker node login w = (r, w')"
  shows "elsewhere repo (wd_store w') = elsewhere repo (wd_store w)"
  using assms
proof (cases rule: granting_pass_end)
  case (unlisted e)
  then show ?thesis by (simp add: advisory_elsewhere)
next
  case (listed cands m u0)
  have step: "elsewhere repo (wd_store y) = elsewhere repo (wd_store x)" if "lane_step env repo x y" for x y
    using that advisory_elsewhere by (auto simp: lane_step_def)
  have "elsewhere repo (wd_store w') = elsewhere repo (wd_store u0)"
    using listed(7) by (auto simp: pass_end_def granting_def step step [OF steps.kept_byD [OF steps_dependency_block]]
        elim!: write_grant_outcome)
  then show ?thesis using advisory_elsewhere [OF listed(2)] by simp
qed

text \<open>
  C9: A request for work in one repository, whatever its outcome, leaves every row of every other
  repository and every other table as it was; only the driver registry is shared.
\<close>

theorem request_stays_in_its_repository:
  "elsewhere repo (wd_store (snd (grant_work env repo worker node login stack pin drivers_hash w)))
   = elsewhere repo (wd_store w)"
proof -
  obtain r w' where run: "grant_work env repo worker node login stack pin drivers_hash w = (r, w')"
    by (rule prod.exhaust)
  have "elsewhere repo (wd_store w') = elsewhere repo (wd_store w)"
    using run
    by (cases rule: grant_work_cases) (auto simp: registering_def dest!: pass_elsewhere)
  then show ?thesis using run by simp
qed

subsection \<open>GitHub trouble\<close>

definition has_pause :: "repo \<Rightarrow> store \<Rightarrow> bool" where
  "has_pause repo s \<longleftrightarrow> repo \<in> dp_repo ` set (t_pauses s)"

lemma has_pause_ops [simp]:
  "has_pause q (record_dispatch_pause t q msg s)" "\<not> has_pause q (clear_dispatch_pause q s)"
  by (auto simp: has_pause_def record_dispatch_pause_def clear_dispatch_pause_def keys_upsert)

text \<open>
  C7: For a repository named owner/name and an open gate, a GitHub error anywhere in the pass is the
  answer "dispatch paused" and a recorded pause of that repository, and never escapes; a pass that
  completes clears the pause and hands on its answer.
\<close>

theorem github_trouble_is_a_recorded_pause:
  assumes "CHR ''/'' \<in> set repo" "\<not> gate_closed node pin drivers_hash (wd_store w)"
    "grant_work env repo worker node login stack pin drivers_hash w = (r, w')"
  shows "case fst (granting_pass env repo worker node login
             (stamped env (\<lambda>t. upsert_driver t worker node login ''implementer'' repo stack) w)) of
           Inl (GitHub_Error msg st) \<Rightarrow>
             r = Inr (refused (''dispatch paused for '' @ repo @ '': '' @ msg)) \<and> has_pause repo (wd_store w')
         | Inl e \<Rightarrow> r = Inl e
         | Inr x \<Rightarrow> r = Inr x \<and> \<not> has_pause repo (wd_store w')"
  using assms(3)
proof (cases rule: grant_work_cases)
  case (gate reason)
  then have "gate_closed node pin drivers_hash (wd_store (registering env repo worker node login stack w))"
    using gate_reason_iff by blast
  then show ?thesis using assms(2) by (simp add: registering_def gate_closed_def)
next
  case name
  then show ?thesis using assms(1) by simp
next
  case (other e)
  then show ?thesis by (cases e) (simp_all add: registering_def)
next
  case (trouble msg st w1)
  then show ?thesis by (simp add: registering_def)
next
  case (passed x w1)
  then show ?thesis by (simp add: registering_def)
qed

definition demo_down :: env where
  "demo_down = demo_env\<lparr>en_transport := (\<lambda>_ rq. Inr \<lparr>rp_status = 404, rp_headers = [], rp_body = ''no''\<rparr>)\<rparr>"

lemma demo_open: "\<not> gate_closed ''n1'' [] [] (wd_store (world_of empty_store))"
  by (simp add: gate_closed_def world_of_def empty_store_def node_quarantine_def row_of_def
      pending_lifecycle_commands_def)

lemma demo_down_pass:
  "(case fst (granting_pass demo_down ''o/r'' ''w'' ''n1'' ''bot''
       (stamped demo_down (\<lambda>t. upsert_driver t ''w'' ''n1'' ''bot'' ''implementer'' ''o/r'' []) (world_of empty_store))) of
     Inl (GitHub_Error msg st) \<Rightarrow> st = Some 404 | _ \<Rightarrow> False)"
  by code_simp

lemma github_trouble_is_a_recorded_pause_witness:
  "has_pause ''o/r'' (wd_store (snd (grant_work demo_down ''o/r'' ''w'' ''n1'' ''bot'' [] [] [] (world_of empty_store))))"
  using github_trouble_is_a_recorded_pause [OF _ demo_open prod.collapse [symmetric], of "''o/r''" demo_down "''w''" "''bot''" "[]"]
    demo_down_pass
  by (simp split: sum.splits exn.splits)

subsection \<open>A fleet of workers\<close>

text \<open>
  Requests of any workers, in any order, in any repositories, over a GitHub that may answer anything;
  the lock makes each one computation. Collected are the (repository, issue) pairs handed out.
\<close>

record work_request =
  wq_repo :: repo
  wq_worker :: string
  wq_node :: string
  wq_login :: string
  wq_stack :: string
  wq_pin :: string
  wq_hash :: string

definition serve :: "env \<Rightarrow> work_request \<Rightarrow> world \<Rightarrow> (exn + answer) \<times> world" where
  "serve env q = grant_work env (wq_repo q) (wq_worker q) (wq_node q) (wq_login q) (wq_stack q) (wq_pin q) (wq_hash q)"

fun handouts :: "env \<Rightarrow> work_request list \<Rightarrow> world \<Rightarrow> (repo \<times> int) list" where
  "handouts env [] w = []"
| "handouts env (q # qs) w =
     (case serve env q w of (r, w') \<Rightarrow>
        (case granted_number r of None \<Rightarrow> [] | Some n \<Rightarrow> [(wq_repo q, n)]) @ handouts env qs w')"

lemma serve_step:
  assumes "serve env q w = (r, w')"
  shows "grant_keys (wd_store w) \<subseteq> grant_keys (wd_store w')"
    "granted_number r = Some n \<Longrightarrow> (wq_repo q, n) \<notin> grant_keys (wd_store w) \<and> (wq_repo q, n) \<in> grant_keys (wd_store w')"
proof -
  note run = assms [unfolded serve_def]
  show "grant_keys (wd_store w) \<subseteq> grant_keys (wd_store w')"
    using run
  proof (cases rule: grant_work_effect)
    case (quiet gs)
    then show ?thesis by (simp add: grant_keys_def)
  next
    case (grant i a b c)
    then show ?thesis using grant_made_row(2) by blast
  qed
  assume n: "granted_number r = Some n"
  show "(wq_repo q, n) \<notin> grant_keys (wd_store w) \<and> (wq_repo q, n) \<in> grant_keys (wd_store w')"
    using run
  proof (cases rule: grant_work_effect)
    case (quiet gs)
    then show ?thesis using n by (auto simp: granted_number_def split: sum.splits)
  next
    case (grant i a b c)
    have "n = is_number i"
      using grant(2) n by (cases r) (auto simp: granted_number_def handed_out_def)
    then show ?thesis
      using grant_made_row(2) [OF grant(1)] grant(1) listed_keys(1)
      by (auto simp: grant_made_def eligible_def spoken_for_def)
  qed
qed

lemma handouts_fresh: "set (handouts env qs w) \<inter> grant_keys (wd_store w) = {}"
proof (induction qs arbitrary: w)
  case (Cons q qs)
  obtain r w' where s: "serve env q w = (r, w')" by (rule prod.exhaust)
  have "set (handouts env qs w') \<inter> grant_keys (wd_store w) = {}" using serve_step(1) [OF s] Cons.IH by blast
  then show ?case using s serve_step(2) [OF s] by (auto split: option.splits)
qed simp

text \<open>
  C3: Over any sequence of requests, by any workers and whatever GitHub answers, no issue of a
  repository is handed out twice, and none that already has a grant row is handed out.
\<close>

theorem no_issue_is_granted_twice:
  "distinct (handouts env qs w) \<and> set (handouts env qs w) \<inter> grant_keys (wd_store w) = {}"
proof
  show "distinct (handouts env qs w)"
  proof (induction qs arbitrary: w)
    case (Cons q qs)
    obtain r w' where s: "serve env q w = (r, w')" by (rule prod.exhaust)
    then show ?case using Cons.IH [of w'] handouts_fresh [of env qs w'] serve_step(2) [OF s]
      by (auto split: option.splits)
  qed simp
qed (rule handouts_fresh)

end
