(* ===== verification/Event_Evidence.thy ===== *)
theory Event_Evidence
  imports Store_Events
begin

text \<open>
  Eviction never hides an event silently. A run of the log is a step relation over the store with
  two ghost lists, everything ever recorded and everything evicted; the invariant says that every
  evicted row is covered by a row of \<open>event_eviction_scopes\<close>, and the properties follow: a page
  that is not flagged is the newest part of the full history, and eviction drops the shortest
  oldest prefix that meets the budget.
\<close>

subsection \<open>The scopes of one eviction\<close>

definition acc_covers :: "scope_acc \<Rightarrow> event_row \<Rightarrow> bool" where
  "acc_covers a e \<longleftrightarrow> sa_min_id a \<le> ev_id e \<and> ev_received_at e \<le> sa_max_received a
     \<and> (ev_id e, ev_received_at e) \<in> set (sa_samples a)"

definition scopes_cover :: "(scope_key \<times> scope_acc) list \<Rightarrow> event_row \<Rightarrow> bool" where
  "scopes_cover scopes e \<longleftrightarrow> (\<exists>a. (scope_key_of e, a) \<in> set scopes \<and> acc_covers a e)"

lemma acc_covers_bump: "acc_covers (bump_scope e a) e"
  by (simp add: acc_covers_def bump_scope_def)

lemma acc_covers_bump_mono: "acc_covers a e' \<Longrightarrow> acc_covers (bump_scope e a) e'"
  by (auto simp: acc_covers_def bump_scope_def)

lemma add_to_scope_covers: "scopes_cover (add_to_scope e scopes) e"
  by (induction e scopes rule: add_to_scope.induct)
    (auto simp: scopes_cover_def acc_covers_bump)

lemma add_to_scope_covers_mono: "scopes_cover scopes e' \<Longrightarrow> scopes_cover (add_to_scope e scopes) e'"
  by (induction e scopes rule: add_to_scope.induct)
    (auto simp: scopes_cover_def split: if_splits intro: acc_covers_bump_mono)

lemma add_to_scope_keys:
  "fst ` set (add_to_scope e scopes) = insert (scope_key_of e) (fst ` set scopes)"
  by (induction e scopes rule: add_to_scope.induct) auto

lemma add_to_scope_distinct:
  "distinct (map fst scopes) \<Longrightarrow> distinct (map fst (add_to_scope e scopes))"
proof (induction e scopes rule: add_to_scope.induct)
  case (2 e k a scopes)
  have "fst ` set (add_to_scope e scopes) = insert (scope_key_of e) (fst ` set scopes)"
    by (rule add_to_scope_keys)
  with 2 show ?case by auto
qed simp

lemma fold_add_covers:
  "(e \<in> set es \<or> scopes_cover scopes e) \<Longrightarrow> scopes_cover (fold add_to_scope es scopes) e"
  by (induction es arbitrary: scopes)
    (auto intro: add_to_scope_covers add_to_scope_covers_mono)

lemma scopes_of_covers: "e \<in> set es \<Longrightarrow> scopes_cover (scopes_of es) e"
  by (simp add: scopes_of_def fold_add_covers)

lemma scopes_of_distinct: "distinct (map fst (scopes_of es))"
proof -
  have "distinct (map fst scopes) \<Longrightarrow> distinct (map fst (fold add_to_scope es scopes))" for scopes
    by (induction es arbitrary: scopes) (auto intro: add_to_scope_distinct)
  then show ?thesis by (simp add: scopes_of_def)
qed

lemma scopes_of_keys: "fst ` set (scopes_of es) = scope_key_of ` set es"
proof -
  have "fst ` set (fold add_to_scope es scopes) = scope_key_of ` set es \<union> fst ` set scopes" for scopes
    by (induction es arbitrary: scopes) (auto simp: add_to_scope_keys)
  then show ?thesis by (simp add: scopes_of_def)
qed

lemma evictable_key: "evictable e \<Longrightarrow> scope_key_of e \<noteq> wildcard_key"
  by (auto simp: evictable_def scope_key_of_def wildcard_key_def)

lemma scopes_of_pos:
  assumes "\<forall>e \<in> set es. 0 < ev_id e" and "(k, a) \<in> set (scopes_of es)"
  shows "0 < sa_min_id a"
proof -
  have step: "\<forall>(k, a) \<in> set (add_to_scope e scopes). 0 < sa_min_id a"
    if "0 < ev_id e" "\<forall>(k, a) \<in> set scopes. 0 < sa_min_id a" for e scopes
    using that by (induction e scopes rule: add_to_scope.induct)
      (auto simp: bump_scope_def fresh_scope_def)
  have "\<forall>(k, a) \<in> set (fold add_to_scope es scopes). 0 < sa_min_id a"
    if "\<forall>(k, a) \<in> set scopes. 0 < sa_min_id a" "\<forall>e \<in> set es. 0 < ev_id e" for scopes
    using that
  proof (induction es arbitrary: scopes)
    case (Cons e es)
    then have "\<forall>(k, a) \<in> set (add_to_scope e scopes). 0 < sa_min_id a"
      by (intro step) auto
    with Cons show ?case by auto
  qed simp
  from this [of "[]"] assms show ?thesis by (auto simp: scopes_of_def)
qed

subsection \<open>Covered rows\<close>

definition row_covers :: "scope_row \<Rightarrow> event_row \<Rightarrow> bool" where
  "row_covers r e \<longleftrightarrow> (row_key r = wildcard_key \<or> row_key r = scope_key_of e)
     \<and> es_first_evicted_id r \<le> ev_id e \<and> ev_received_at e \<le> es_last_evicted_received_at r
     \<and> (es_samples_complete r \<longrightarrow> (ev_id e, ev_received_at e) \<in> set (es_samples r))"

definition rows_cover :: "scope_row list \<Rightarrow> event_row \<Rightarrow> bool" where
  "rows_cover rows e \<longleftrightarrow> (\<exists>r \<in> set rows. row_covers r e)"

lemma row_key_merged [simp]: "row_key (merged_scope now p k a) = k"
  by (cases k) (simp add: merged_scope_def row_key_def Let_def)

lemma merged_covers_new:
  assumes "acc_covers a e" "k = scope_key_of e" "0 \<le> ev_id e"
  shows "row_covers (merged_scope now p k a) e"
  using assms
  by (auto simp: row_covers_def, auto simp: merged_scope_def Let_def acc_covers_def
      split: option.splits)

lemma merged_covers_old:
  assumes "row_covers p e" "row_key p = k" "0 \<le> ev_id e"
  shows "row_covers (merged_scope now (Some p) k a) e"
  using assms
  by (auto simp: row_covers_def, auto simp: merged_scope_def Let_def)

lemma merged_wildcard_covers:
  assumes "sa_min_id a \<le> ev_id e" "ev_received_at e \<le> sa_max_received a" "0 \<le> ev_id e"
  shows "row_covers (merged_scope now p wildcard_key a) e"
  using assms
  by (auto simp: row_covers_def, auto simp: merged_scope_def Let_def split: option.splits)

text \<open>Recording scope after scope: each key's row is replaced once, the others stay.\<close>

definition record_all ::
  "time \<Rightarrow> scope_row list \<Rightarrow> (scope_key \<times> scope_acc) list \<Rightarrow> scope_row list \<Rightarrow> scope_row list" where
  "record_all now rows1 scopes t =
     fold (\<lambda>(k, a) t. insert_or_replace row_key (merged_scope now (row_of row_key k rows1) k a) t)
       scopes t"

lemma set_record_all:
  assumes "distinct (map fst scopes)"
  shows "set (record_all now rows1 scopes t) =
    {r \<in> set t. row_key r \<notin> fst ` set scopes}
    \<union> (\<lambda>(k, a). merged_scope now (row_of row_key k rows1) k a) ` set scopes"
  using assms
proof (induction scopes arbitrary: t)
  case Nil
  then show ?case by (simp add: record_all_def)
next
  case (Cons ka scopes)
  obtain k a where ka: "ka = (k, a)" by (rule prod.exhaust)
  define t' where "t' = insert_or_replace row_key (merged_scope now (row_of row_key k rows1) k a) t"
  have t': "set t' = insert (merged_scope now (row_of row_key k rows1) k a) {r \<in> set t. row_key r \<noteq> k}"
    by (auto simp: t'_def insert_or_replace_def)
  have step: "record_all now rows1 (ka # scopes) t = record_all now rows1 scopes t'"
    by (simp add: record_all_def ka t'_def)
  have "set (record_all now rows1 scopes t') = {r \<in> set t'. row_key r \<notin> fst ` set scopes}
      \<union> (\<lambda>(k, a). merged_scope now (row_of row_key k rows1) k a) ` set scopes"
    using Cons by (simp add: ka)
  moreover have "{r \<in> set t'. row_key r \<notin> fst ` set scopes} =
      insert (merged_scope now (row_of row_key k rows1) k a)
        {r \<in> set t. row_key r \<notin> fst ` set (ka # scopes)}"
    using Cons.prems unfolding t' by (simp add: ka set_eq_iff) (metis row_key_merged)
  ultimately show ?case unfolding step by (simp add: ka)
qed

lemma unique_record_all:
  "unique_key row_key t \<Longrightarrow> unique_key row_key (record_all now rows1 scopes t)"
  by (induction scopes arbitrary: t) (auto simp: record_all_def unique_key_insert_or_replace)

lemma record_eviction_scopes_plain:
  assumes "\<not> (wildcard_key \<in> set (map row_key rows)
     \<or> length (remdups (remdups (map row_key rows) @ map fst scopes)) > EVICTION_SCOPE_CAP)"
  shows "record_eviction_scopes now scopes rows = record_all now rows scopes rows"
  using assms by (simp add: record_eviction_scopes_def record_all_def Let_def)

lemma record_eviction_scopes_collapse:
  assumes "wildcard_key \<in> set (map row_key rows)
     \<or> length (remdups (remdups (map row_key rows) @ map fst scopes)) > EVICTION_SCOPE_CAP"
  shows "record_eviction_scopes now scopes rows =
    (let absorb = (set (map row_key rows) \<noteq> {wildcard_key});
         scopes1 = (if absorb \<and> rows \<noteq> [] then merge_wildcard (absorbed rows) scopes else scopes);
         rows1 = (if absorb then [] else rows)
     in insert_or_replace row_key (merged_scope now (row_of row_key wildcard_key rows1) wildcard_key
          (fold (\<lambda>(k, a). fold_scope a) scopes1 (fresh_scope 0))) rows1)"
  using assms by (simp add: record_eviction_scopes_def Let_def)

subsection \<open>The fold into the sentinel\<close>

text \<open>
  The fold reads a minimum of 0 as "none yet", so a scope of unknown lower bound may only come
  last, which is where the absorbed sentinel is put.
\<close>

lemma fold_scope_bounds:
  assumes "\<forall>(k, a) \<in> set xs. 0 < sa_min_id a" and "0 \<le> sa_min_id f"
  defines "g \<equiv> fold (\<lambda>(k, a). fold_scope a) xs f"
  shows "0 \<le> sa_min_id g \<and> (sa_min_id f \<noteq> 0 \<longrightarrow> sa_min_id g \<le> sa_min_id f)
    \<and> (\<forall>(k, a) \<in> set xs. sa_min_id g \<le> sa_min_id a \<and> sa_max_received a \<le> sa_max_received g)
    \<and> sa_max_received f \<le> sa_max_received g
    \<and> (xs \<noteq> [] \<or> 0 < sa_min_id f \<longrightarrow> 0 < sa_min_id g)"
  using assms(1,2) unfolding g_def
proof (induction xs arbitrary: f)
  case (Cons ka xs)
  obtain k a where ka: "ka = (k, a)" by (rule prod.exhaust)
  have a: "0 < sa_min_id a" using Cons.prems(1) ka by auto
  have f': "0 < sa_min_id (fold_scope a f)" "sa_min_id (fold_scope a f) \<le> sa_min_id a"
      "sa_max_received a \<le> sa_max_received (fold_scope a f)"
      "sa_max_received f \<le> sa_max_received (fold_scope a f)"
      "sa_min_id f \<noteq> 0 \<longrightarrow> sa_min_id (fold_scope a f) \<le> sa_min_id f"
    using a Cons.prems(2) by (auto simp: fold_scope_def)
  show ?case
    using Cons.IH [of "fold_scope a f"] Cons.prems(1) f' by (force simp: ka)
qed simp

lemma merge_wildcard_append:
  "wildcard_key \<notin> fst ` set xs \<Longrightarrow> merge_wildcard w xs = xs @ [(wildcard_key, w)]"
  by (induction w xs rule: merge_wildcard.induct) auto

lemma absorbed_bounds:
  assumes "r \<in> set rows"
  shows "sa_min_id (absorbed rows) \<le> es_first_evicted_id r
    \<and> es_last_evicted_received_at r \<le> sa_max_received (absorbed rows)"
  using assms by (simp add: absorbed_def le_max_iff_disj)

lemma absorbed_nonneg:
  "rows \<noteq> [] \<Longrightarrow> \<forall>r \<in> set rows. 0 \<le> es_first_evicted_id r \<Longrightarrow> 0 \<le> sa_min_id (absorbed rows)"
  by (simp add: absorbed_def)

definition folded :: "(scope_key \<times> scope_acc) list \<Rightarrow> scope_acc" where
  "folded xs = fold (\<lambda>(k, a). fold_scope a) xs (fresh_scope 0)"

lemma folded_bounds:
  assumes "\<forall>(k, a) \<in> set xs. 0 < sa_min_id a" "(k, a) \<in> set xs"
  shows "sa_min_id (folded xs) \<le> sa_min_id a \<and> sa_max_received a \<le> sa_max_received (folded xs)"
  using fold_scope_bounds [OF assms(1), of "fresh_scope 0"] assms(2)
  by (auto simp: folded_def fresh_scope_def)

lemma folded_snoc_bounds:
  assumes "\<forall>(k, a) \<in> set xs. 0 < sa_min_id a" "0 \<le> sa_min_id w"
    "(k, a) \<in> set (xs @ [(k', w)])"
  shows "sa_min_id (folded (xs @ [(k', w)])) \<le> sa_min_id a
    \<and> sa_max_received a \<le> sa_max_received (folded (xs @ [(k', w)]))"
proof -
  have f: "folded (xs @ [(k', w)]) = fold_scope w (folded xs)"
    by (simp add: folded_def)
  show ?thesis
  proof (cases "(k, a) \<in> set xs")
    case True
    then have "0 < sa_min_id (folded xs)"
      using fold_scope_bounds [OF assms(1), of "fresh_scope 0"]
      by (auto simp: folded_def fresh_scope_def)
    then show ?thesis
      using assms(2) folded_bounds [OF assms(1) True] unfolding f by (auto simp: fold_scope_def)
  next
    case False
    then have "a = w" using assms(3) by auto
    then show ?thesis unfolding f by (auto simp: fold_scope_def)
  qed
qed

lemma folded_nonneg:
  assumes "\<forall>(k, a) \<in> set xs. 0 < sa_min_id a" "0 \<le> sa_min_id w"
  shows "0 \<le> sa_min_id (folded xs)" "0 \<le> sa_min_id (folded (xs @ [(k', w)]))"
proof -
  show "0 \<le> sa_min_id (folded xs)"
    using fold_scope_bounds [OF assms(1), of "fresh_scope 0"] by (auto simp: folded_def fresh_scope_def)
  then show "0 \<le> sa_min_id (folded (xs @ [(k', w)]))"
    using assms(2) by (simp add: folded_def fold_scope_def)
qed

subsection \<open>Recording the scopes keeps the cover\<close>

definition scopes_inv :: "scope_row list \<Rightarrow> bool" where
  "scopes_inv rows \<longleftrightarrow> unique_key row_key rows \<and> (\<forall>r \<in> set rows. 0 \<le> es_first_evicted_id r)"

lemma merged_scope_nonneg:
  assumes "0 \<le> sa_min_id a" "\<forall>r. p = Some r \<longrightarrow> 0 \<le> es_first_evicted_id r"
  shows "0 \<le> es_first_evicted_id (merged_scope now p k a)"
  using assms by (auto simp: merged_scope_def Let_def split: option.splits)

lemma evictable_scopes:
  assumes "\<forall>e \<in> set es. 0 < ev_id e \<and> evictable e"
  shows "\<forall>(k, a) \<in> set (scopes_of es). 0 < sa_min_id a" "wildcard_key \<notin> fst ` set (scopes_of es)"
proof -
  show "\<forall>(k, a) \<in> set (scopes_of es). 0 < sa_min_id a"
    using assms by (auto intro: scopes_of_pos)
  show "wildcard_key \<notin> fst ` set (scopes_of es)"
    using assms evictable_key unfolding scopes_of_keys by (metis imageE)
qed

lemma record_all_covers:
  assumes "scopes_inv rows" "\<forall>e \<in> set es. 0 < ev_id e \<and> evictable e" "0 < ev_id e"
    "e \<in> set es \<or> rows_cover rows e"
  shows "rows_cover (record_all now rows (scopes_of es) rows) e"
proof -
  note set_eq = set_record_all [OF scopes_of_distinct, of now rows es rows]
  have merged: "rows_cover (record_all now rows (scopes_of es) rows) e"
    if "(k, a) \<in> set (scopes_of es)" "row_covers (merged_scope now (row_of row_key k rows) k a) e"
    for k a using that unfolding rows_cover_def set_eq by force
  from assms(4) show ?thesis
  proof
    assume "e \<in> set es"
    then obtain a where "(scope_key_of e, a) \<in> set (scopes_of es)" "acc_covers a e"
      using scopes_of_covers by (auto simp: scopes_cover_def)
    then show ?thesis using assms(3) by (intro merged merged_covers_new) auto
  next
    assume "rows_cover rows e"
    then obtain r where r: "r \<in> set rows" "row_covers r e" by (auto simp: rows_cover_def)
    show ?thesis
    proof (cases "row_key r \<in> fst ` set (scopes_of es)")
      case True
      then obtain a where a: "(row_key r, a) \<in> set (scopes_of es)" by force
      have "row_of row_key (row_key r) rows = Some r"
        using assms(1) r by (simp add: scopes_inv_def row_of_unique)
      with a show ?thesis
        using r assms(3) by (intro merged [of "row_key r" a]) (auto intro!: merged_covers_old)
    next
      case False
      then show ?thesis using r unfolding rows_cover_def set_eq by auto
    qed
  qed
qed

lemma record_all_inv:
  assumes "scopes_inv rows" "\<forall>e \<in> set es. 0 < ev_id e \<and> evictable e"
  shows "scopes_inv (record_all now rows (scopes_of es) rows)"
proof -
  have "0 \<le> es_first_evicted_id (merged_scope now (row_of row_key k rows) k a)"
    if "(k, a) \<in> set (scopes_of es)" for k a
    using that evictable_scopes(1) [OF assms(2)] assms(1)
    by (intro merged_scope_nonneg) (auto simp: scopes_inv_def dest: row_of_SomeD)
  then show ?thesis
    using assms(1) unfolding scopes_inv_def set_record_all [OF scopes_of_distinct]
    by (auto simp: unique_record_all)
qed

text \<open>What the collapse leaves: either one sentinel row, or the sentinel's row replaced.\<close>

lemma collapse_cases:
  assumes "scopes_inv rows" "\<forall>e \<in> set es. 0 < ev_id e \<and> evictable e"
    and col: "wildcard_key \<in> set (map row_key rows)
     \<or> length (remdups (remdups (map row_key rows) @ map fst (scopes_of es))) > EVICTION_SCOPE_CAP"
  shows "(\<exists>a. record_eviction_scopes now (scopes_of es) rows = [merged_scope now None wildcard_key a]
        \<and> 0 \<le> sa_min_id a
        \<and> (\<forall>(k, b) \<in> set (scopes_of es). sa_min_id a \<le> sa_min_id b \<and> sa_max_received b \<le> sa_max_received a)
        \<and> (\<forall>r \<in> set rows. sa_min_id a \<le> es_first_evicted_id r \<and> es_last_evicted_received_at r \<le> sa_max_received a))
    \<or> (\<exists>p a. rows = [p] \<and> row_key p = wildcard_key
        \<and> record_eviction_scopes now (scopes_of es) rows = [merged_scope now (Some p) wildcard_key a]
        \<and> 0 \<le> sa_min_id a
        \<and> (\<forall>(k, b) \<in> set (scopes_of es). sa_min_id a \<le> sa_min_id b \<and> sa_max_received b \<le> sa_max_received a))"
proof -
  note pos = evictable_scopes(1) [OF assms(2)] and nowild = evictable_scopes(2) [OF assms(2)]
  let ?sc = "scopes_of es"
  have all: "\<forall>(k, b) \<in> set ?sc. sa_min_id (folded ?sc) \<le> sa_min_id b
      \<and> sa_max_received b \<le> sa_max_received (folded ?sc)"
    using folded_bounds [OF pos] by blast
  note eq = record_eviction_scopes_collapse [OF col, of now, folded folded_def]
  show ?thesis
  proof (cases "set (map row_key rows) = {wildcard_key}")
    case True
    moreover have "distinct (map row_key rows)"
      using assms(1) by (simp add: scopes_inv_def unique_key_def)
    ultimately have "length (map row_key rows) = 1"
      using distinct_card [of "map row_key rows"] by simp
    with True obtain p where p: "rows = [p]" "row_key p = wildcard_key"
      by (cases rows) auto
    have "record_eviction_scopes now ?sc rows = [merged_scope now (Some p) wildcard_key (folded ?sc)]"
      unfolding eq using p by (simp add: insert_or_replace_def delete_where_def row_of_def Let_def)
    with p all folded_nonneg(1) [OF pos, of "fresh_scope 0"] show ?thesis
      by (auto simp: fresh_scope_def)
  next
    case False
    show ?thesis
    proof (cases "rows = []")
      case True
      then have "record_eviction_scopes now ?sc rows = [merged_scope now None wildcard_key (folded ?sc)]"
        unfolding eq by (simp add: insert_or_replace_def delete_where_def row_of_def Let_def)
      with True all folded_nonneg(1) [OF pos, of "fresh_scope 0"] show ?thesis
        by (auto simp: fresh_scope_def)
    next
      case nonempty: False
      let ?w = "absorbed rows" and ?xs = "?sc @ [(wildcard_key, absorbed rows)]"
      have w: "0 \<le> sa_min_id ?w"
        using assms(1) nonempty by (intro absorbed_nonneg) (auto simp: scopes_inv_def)
      have row: "record_eviction_scopes now ?sc rows = [merged_scope now None wildcard_key (folded ?xs)]"
        using False nonempty
        by (simp add: eq insert_or_replace_def delete_where_def row_of_def Let_def merge_wildcard_append [OF nowild])
      have b: "sa_min_id (folded ?xs) \<le> sa_min_id b \<and> sa_max_received b \<le> sa_max_received (folded ?xs)"
        if "(k, b) \<in> set ?xs" for k b
        using that by (rule folded_snoc_bounds [OF pos w])
      have "\<forall>r \<in> set rows. sa_min_id (folded ?xs) \<le> es_first_evicted_id r
          \<and> es_last_evicted_received_at r \<le> sa_max_received (folded ?xs)"
        using b [of wildcard_key ?w] absorbed_bounds by fastforce
      moreover have "\<forall>(k, b) \<in> set ?sc. sa_min_id (folded ?xs) \<le> sa_min_id b
          \<and> sa_max_received b \<le> sa_max_received (folded ?xs)"
        using b by auto
      ultimately show ?thesis
        using row folded_nonneg(2) [OF pos w] by blast
    qed
  qed
qed

lemma record_eviction_scopes_keeps:
  fixes now :: time
  assumes "scopes_inv rows" "\<forall>e \<in> set es. 0 < ev_id e \<and> evictable e"
  defines "new \<equiv> record_eviction_scopes now (scopes_of es) rows"
  shows "scopes_inv new"
    and "\<And>e. 0 < ev_id e \<Longrightarrow> e \<in> set es \<or> rows_cover rows e \<Longrightarrow> rows_cover new e"
proof -
  let ?col = "wildcard_key \<in> set (map row_key rows)
     \<or> length (remdups (remdups (map row_key rows) @ map fst (scopes_of es))) > EVICTION_SCOPE_CAP"
  have acc: "\<exists>k b. (k, b) \<in> set (scopes_of es) \<and> sa_min_id b \<le> ev_id e \<and> ev_received_at e \<le> sa_max_received b"
    if "e \<in> set es" for e
    using scopes_of_covers [OF that] unfolding scopes_cover_def acc_covers_def by blast
  have "scopes_inv new \<and> (\<forall>e. 0 < ev_id e \<and> (e \<in> set es \<or> rows_cover rows e) \<longrightarrow> rows_cover new e)"
  proof (cases ?col)
    case False
    then show ?thesis
      using record_eviction_scopes_plain [OF False, of now] record_all_inv [OF assms(1,2), of now]
        record_all_covers [OF assms(1,2)]
      unfolding new_def by auto
  next
    case True
    from collapse_cases [OF assms(1,2) True, of now] show ?thesis
    proof (elim disjE exE conjE)
      fix a
      assume a: "record_eviction_scopes now (scopes_of es) rows = [merged_scope now None wildcard_key a]"
        "0 \<le> sa_min_id a"
        "\<forall>(k, b) \<in> set (scopes_of es). sa_min_id a \<le> sa_min_id b \<and> sa_max_received b \<le> sa_max_received a"
        "\<forall>r \<in> set rows. sa_min_id a \<le> es_first_evicted_id r
          \<and> es_last_evicted_received_at r \<le> sa_max_received a"
      have "rows_cover new e" if e: "0 < ev_id e" "e \<in> set es \<or> rows_cover rows e" for e
      proof -
        have "sa_min_id a \<le> ev_id e \<and> ev_received_at e \<le> sa_max_received a"
          using e(2) acc [of e] a(3,4) by (fastforce simp: rows_cover_def row_covers_def)
        then show ?thesis
          using e(1) unfolding new_def a(1) rows_cover_def by (auto intro: merged_wildcard_covers)
      qed
      moreover have "scopes_inv new"
        using a(2) unfolding new_def a(1) scopes_inv_def
        by (auto simp: unique_key_def intro!: merged_scope_nonneg)
      ultimately show ?thesis by blast
    next
      fix p a
      assume p: "rows = [p]" "row_key p = wildcard_key"
      assume a: "record_eviction_scopes now (scopes_of es) rows = [merged_scope now (Some p) wildcard_key a]"
        "0 \<le> sa_min_id a"
        "\<forall>(k, b) \<in> set (scopes_of es). sa_min_id a \<le> sa_min_id b \<and> sa_max_received b \<le> sa_max_received a"
      have "rows_cover new e" if e: "0 < ev_id e" "e \<in> set es \<or> rows_cover rows e" for e
        using e(2)
      proof
        assume "e \<in> set es"
        then have "sa_min_id a \<le> ev_id e \<and> ev_received_at e \<le> sa_max_received a"
          using acc [of e] a(3) by fastforce
        then show ?thesis
          using e(1) unfolding new_def a(1) rows_cover_def by (auto intro: merged_wildcard_covers)
      next
        assume "rows_cover rows e"
        then show ?thesis
          using p e(1) unfolding new_def a(1) rows_cover_def by (auto intro: merged_covers_old)
      qed
      moreover have "scopes_inv new"
        using a(2) assms(1) p(1) unfolding new_def a(1) scopes_inv_def
        by (auto simp: unique_key_def intro!: merged_scope_nonneg)
      ultimately show ?thesis by blast
    qed
  qed
  then show "scopes_inv new"
    and "\<And>e. 0 < ev_id e \<Longrightarrow> e \<in> set es \<or> rows_cover rows e \<Longrightarrow> rows_cover new e" by auto
qed

subsection \<open>Runs of the log\<close>

text \<open>
  \<open>log_reach s h g\<close>: the store \<open>s\<close> was reached by recording the events \<open>h\<close>, oldest first, and
  evicting the rows \<open>g\<close>; every other operation of the store leaves the log's three tables alone.
\<close>

inductive log_reach :: "store \<Rightarrow> event_row list \<Rightarrow> event_row list \<Rightarrow> bool" where
  log_start: "log_reach empty_store [] []"
| log_record: "log_reach s h g \<Longrightarrow>
    log_reach (record_event now now2 e s) (h @ [event_row_of (t_event_seq s + 1) now e]) g"
| log_evict: "log_reach s h g \<Longrightarrow> s' = snd (evict_progress now budget s) \<Longrightarrow>
    log_reach s' h (g @ filter (\<lambda>e. e \<notin> set (t_events s')) (t_events s))"
| log_other: "log_reach s h g \<Longrightarrow> t_events s' = t_events s \<Longrightarrow> t_event_seq s' = t_event_seq s \<Longrightarrow>
    t_eviction_scopes s' = t_eviction_scopes s \<Longrightarrow> log_reach s' h g"

lemma bump_failures_log [simp]:
  "t_events (bump_failures now n i r s) = t_events s"
  "t_event_seq (bump_failures now n i r s) = t_event_seq s"
  "t_eviction_scopes (bump_failures now n i r s) = t_eviction_scopes s"
  "t_event_evictions (bump_failures now n i r s) = t_event_evictions s"
  by (auto simp: bump_failures_def Let_def split: option.splits)

lemma record_event_log [simp]:
  "t_events (record_event now now2 e s) = t_events s @ [event_row_of (t_event_seq s + 1) now e]"
  "t_event_seq (record_event now now2 e s) = t_event_seq s + 1"
  "t_eviction_scopes (record_event now now2 e s) = t_eviction_scopes s"
  "t_event_evictions (record_event now now2 e s) = t_event_evictions s"
  by (auto simp: record_event_def Let_def split: option.splits)

lemma doomed_rows_prefix: "\<exists>n. doomed_rows x es = take n es"
proof (induction x es rule: doomed_rows.induct)
  case (2 x e es)
  show ?case
  proof (cases "x - payload_size e \<le> 0")
    case True
    then show ?thesis by (intro exI [of _ 1]) simp
  next
    case False
    with 2 obtain n where "doomed_rows (x - payload_size e) es = take n es" by auto
    with False show ?thesis by (intro exI [of _ "Suc n"]) simp
  qed
qed simp

lemma doomed_rows_subset: "set (doomed_rows x es) \<subseteq> set es"
  using doomed_rows_prefix [of x es] by (auto dest: in_set_takeD)

definition log_inv :: "store \<Rightarrow> event_row list \<Rightarrow> event_row list \<Rightarrow> bool" where
  "log_inv s h g \<longleftrightarrow>
     t_events s = filter (\<lambda>e. e \<notin> set g) h
     \<and> sorted_wrt (\<lambda>a b. ev_id a < ev_id b) h \<and> (\<forall>e \<in> set h. 0 < ev_id e \<and> ev_id e \<le> t_event_seq s)
     \<and> 0 \<le> t_event_seq s \<and> set g \<subseteq> set h
     \<and> scopes_inv (t_eviction_scopes s) \<and> (\<forall>e \<in> set g. rows_cover (t_eviction_scopes s) e)
     \<and> (\<forall>e \<in> set g. evictable e)"

lemma ids_inj:
  assumes "sorted_wrt (\<lambda>a b. ev_id a < ev_id b) h" "a \<in> set h" "b \<in> set h" "ev_id a = ev_id b"
  shows "a = b"
  using assms by (induction h) auto

lemma evict_progress_rows:
  fixes now :: time and budget :: int
  assumes ids: "sorted_wrt (\<lambda>a b. ev_id a < ev_id b) (t_events s)"
  defines "s' \<equiv> snd (evict_progress now budget s)"
  defines "gone \<equiv> filter (\<lambda>e. e \<notin> set (t_events s')) (t_events s)"
  shows "gone = [] \<and> s' = s
    \<or> (\<exists>d. set d = set gone \<and> (\<forall>e \<in> set d. evictable e)
         \<and> t_events s' = filter (\<lambda>e. e \<notin> set gone) (t_events s)
         \<and> t_event_seq s' = t_event_seq s
         \<and> t_eviction_scopes s' = record_eviction_scopes now (scopes_of d) (t_eviction_scopes s))"
proof (cases "s' = s")
  case True
  then show ?thesis by (simp add: gone_def)
next
  case False
  let ?c = "sort_key ev_id (filter evictable (t_events s))"
  define d where "d = doomed_rows (sum_list (map payload_size ?c) - budget) ?c"
  have "evict_progress now budget s = (int (length d),
      s\<lparr>t_events := delete_where (\<lambda>e. ev_id e \<in> set (map ev_id d)) (t_events s),
        t_eviction_scopes := record_eviction_scopes now (scopes_of d) (t_eviction_scopes s)\<rparr>)"
  proof (cases "sum_list (map payload_size ?c) - budget \<le> 0")
    case True
    then have "s' = s" unfolding s'_def evict_progress_def Let_def by simp
    with False show ?thesis by simp
  next
    case False
    then show ?thesis unfolding evict_progress_def Let_def d_def by simp
  qed
  then have s': "t_events s' = filter (\<lambda>e. ev_id e \<notin> set (map ev_id d)) (t_events s)"
      "t_event_seq s' = t_event_seq s"
      "t_eviction_scopes s' = record_eviction_scopes now (scopes_of d) (t_eviction_scopes s)"
    unfolding s'_def by (simp_all add: delete_where_def)
  have sub: "set d \<subseteq> set (filter evictable (t_events s))"
    using doomed_rows_subset [of _ ?c] by (auto simp: d_def)
  have inj: "ev_id e \<in> set (map ev_id d) \<longleftrightarrow> e \<in> set d" if "e \<in> set (t_events s)" for e
  proof
    assume "ev_id e \<in> set (map ev_id d)"
    then obtain e' where "e' \<in> set d" "ev_id e' = ev_id e" by auto
    moreover from this have "e' = e" using sub that by (intro ids_inj [OF ids]) auto
    ultimately show "e \<in> set d" by simp
  qed simp
  have "t_events s' = filter (\<lambda>e. e \<notin> set d) (t_events s)"
    unfolding s'(1) using inj by (intro filter_cong) auto
  moreover from this have "set gone = set d"
    using sub by (auto simp: gone_def)
  ultimately show ?thesis using sub s'(2,3) by (intro disjI2 exI [of _ d]) auto
qed

lemma log_reach_inv: "log_reach s h g \<Longrightarrow> log_inv s h g"
proof (induction rule: log_reach.induct)
  case log_start
  show ?case by (simp add: log_inv_def empty_store_def scopes_inv_def unique_key_def)
next
  case (log_record s h g now now2 e)
  let ?r = "event_row_of (t_event_seq s + 1) now e"
  have id: "ev_id ?r = t_event_seq s + 1" by (simp add: event_row_of_def)
  moreover have "?r \<notin> set g"
    using log_record.IH id by (fastforce simp: log_inv_def)
  ultimately show ?case
    using log_record.IH by (fastforce simp: log_inv_def sorted_wrt_append)
next
  case (log_evict s h g s' now budget)
  let ?gone = "filter (\<lambda>e. e \<notin> set (t_events s')) (t_events s)"
  have inv: "log_inv s h g" by fact
  then have ids: "sorted_wrt (\<lambda>a b. ev_id a < ev_id b) (t_events s)"
    by (simp add: log_inv_def sorted_wrt_filter)
  have pos: "\<forall>e \<in> set ?gone. 0 < ev_id e" using inv by (auto simp: log_inv_def)
  from evict_progress_rows [OF ids, of now budget, folded log_evict.hyps(2)] show ?case
  proof
    assume "?gone = [] \<and> s' = s"
    then show ?thesis using inv by simp
  next
    assume "\<exists>d. set d = set ?gone \<and> (\<forall>e \<in> set d. evictable e)
         \<and> t_events s' = filter (\<lambda>e. e \<notin> set ?gone) (t_events s)
         \<and> t_event_seq s' = t_event_seq s
         \<and> t_eviction_scopes s' = record_eviction_scopes now (scopes_of d) (t_eviction_scopes s)"
    then obtain d where d: "set d = set ?gone" "\<forall>e \<in> set d. evictable e"
         "t_events s' = filter (\<lambda>e. e \<notin> set ?gone) (t_events s)" "t_event_seq s' = t_event_seq s"
         "t_eviction_scopes s' = record_eviction_scopes now (scopes_of d) (t_eviction_scopes s)"
      by blast
    have sc: "scopes_inv (t_eviction_scopes s)" using inv by (simp add: log_inv_def)
    have dd: "\<forall>e \<in> set d. 0 < ev_id e \<and> evictable e" using d(1,2) pos by auto
    note keeps = record_eviction_scopes_keeps [OF sc dd, where now = now, folded d(5)]
    have ev: "t_events s' = filter (\<lambda>e. e \<notin> set (g @ ?gone)) h"
      using inv by (subst d(3)) (auto simp: log_inv_def intro!: filter_cong)
    have "rows_cover (t_eviction_scopes s') e" if "e \<in> set (g @ ?gone)" for e
      using that inv d(1) by (intro keeps(2)) (auto simp: log_inv_def)
    moreover have "set (g @ ?gone) \<subseteq> set h" "\<forall>e \<in> set (g @ ?gone). evictable e"
      using inv d(1,2) by (auto simp: log_inv_def)
    ultimately show ?thesis
      using inv ev keeps(1) d(4) unfolding log_inv_def by simp
  qed
next
  case (log_other s h g s')
  then show ?case by (simp add: log_inv_def)
qed

subsection \<open>Samples name evicted events\<close>

definition sample_of :: "scope_key \<Rightarrow> int \<times> time \<Rightarrow> event_row \<Rightarrow> bool" where
  "sample_of k it e \<longleftrightarrow> scope_key_of e = k \<and> it = (ev_id e, ev_received_at e)"

definition samples_sound :: "scope_row list \<Rightarrow> event_row list \<Rightarrow> bool" where
  "samples_sound rows g \<longleftrightarrow> (\<forall>r \<in> set rows. es_samples_complete r \<longrightarrow>
     row_key r \<noteq> wildcard_key \<and> (\<forall>it \<in> set (es_samples r). \<exists>e \<in> set g. sample_of (row_key r) it e))"

lemma scopes_of_samples:
  assumes "(k, a) \<in> set (scopes_of es)" "it \<in> set (sa_samples a)"
  shows "\<exists>e \<in> set es. sample_of k it e"
proof -
  have step: "it \<in> set (sa_samples a) \<Longrightarrow> (k, a) \<in> set (add_to_scope e scopes) \<Longrightarrow>
      sample_of k it e \<or> (\<exists>b. (k, b) \<in> set scopes \<and> it \<in> set (sa_samples b))" for k a e scopes
    by (induction e scopes rule: add_to_scope.induct)
      (auto simp: sample_of_def bump_scope_def fresh_scope_def split: if_splits)
  have "it \<in> set (sa_samples a) \<Longrightarrow> (k, a) \<in> set (fold add_to_scope es scopes) \<Longrightarrow>
      (\<exists>e \<in> set es. sample_of k it e) \<or> (\<exists>b. (k, b) \<in> set scopes \<and> it \<in> set (sa_samples b))" for scopes
  proof (induction es arbitrary: scopes)
    case (Cons e es)
    then have "(\<exists>e \<in> set es. sample_of k it e)
        \<or> (\<exists>b. (k, b) \<in> set (add_to_scope e scopes) \<and> it \<in> set (sa_samples b))" by simp
    then show ?case using step by (metis list.set_intros)
  qed auto
  then show ?thesis using assms by (force simp: scopes_of_def)
qed

lemma merged_scope_samples:
  assumes "es_samples_complete (merged_scope now p k a)"
  shows "k \<noteq> wildcard_key"
    "it \<in> set (es_samples (merged_scope now p k a)) \<Longrightarrow> it \<in> set (sa_samples a)
       \<or> (\<exists>r. p = Some r \<and> es_samples_complete r \<and> it \<in> set (es_samples r))"
  using assms by (auto simp: merged_scope_def Let_def split: option.splits if_splits)

lemma merged_wildcard_incomplete [simp]: "\<not> es_samples_complete (merged_scope now p wildcard_key a)"
  using merged_scope_samples(1) by blast

lemma record_eviction_scopes_samples:
  assumes "scopes_inv rows" "\<forall>e \<in> set es. 0 < ev_id e \<and> evictable e" "samples_sound rows g"
  shows "samples_sound (record_eviction_scopes now (scopes_of es) rows) (g @ es)"
proof (cases "wildcard_key \<in> set (map row_key rows)
     \<or> length (remdups (remdups (map row_key rows) @ map fst (scopes_of es))) > EVICTION_SCOPE_CAP")
  case True
  from collapse_cases [OF assms(1,2) True, of now] show ?thesis
    by (auto simp: samples_sound_def)
next
  case False
  have "row_key r \<noteq> wildcard_key \<and> (\<forall>it \<in> set (es_samples r). \<exists>e \<in> set (g @ es). sample_of (row_key r) it e)"
    if r: "r \<in> set (record_all now rows (scopes_of es) rows)" "es_samples_complete r" for r
  proof -
    from r(1) consider "r \<in> set rows"
      | k a where "(k, a) \<in> set (scopes_of es)" "r = merged_scope now (row_of row_key k rows) k a"
      unfolding set_record_all [OF scopes_of_distinct] by auto
    then show ?thesis
    proof cases
      case 1
      then show ?thesis using r(2) assms(3) unfolding samples_sound_def by (metis Un_iff set_append)
    next
      case 2
      have "\<exists>e \<in> set (g @ es). sample_of k it e" if it: "it \<in> set (es_samples r)" for it
        using merged_scope_samples(2) [OF r(2) [unfolded 2(2)] it [unfolded 2(2)]]
      proof
        assume "it \<in> set (sa_samples a)"
        from scopes_of_samples [OF 2(1) this] show ?thesis by auto
      next
        assume "\<exists>p. row_of row_key k rows = Some p \<and> es_samples_complete p \<and> it \<in> set (es_samples p)"
        then obtain p where "p \<in> set rows" "row_key p = k" "es_samples_complete p" "it \<in> set (es_samples p)"
          using row_of_SomeD by metis
        then show ?thesis using assms(3) unfolding samples_sound_def by (metis Un_iff set_append)
      qed
      then show ?thesis using r(2) merged_scope_samples(1) unfolding 2(2) by simp
    qed
  qed
  then show ?thesis
    unfolding samples_sound_def record_eviction_scopes_plain [OF False] by blast
qed

lemma samples_sound_cong: "set g = set g' \<Longrightarrow> samples_sound rows g = samples_sound rows g'"
  by (simp add: samples_sound_def)

lemma log_reach_samples: "log_reach s h g \<Longrightarrow> samples_sound (t_eviction_scopes s) g"
proof (induction rule: log_reach.induct)
  case log_start
  show ?case by (simp add: samples_sound_def empty_store_def)
next
  case (log_record s h g now now2 e)
  then show ?case by simp
next
  case (log_evict s h g s' now budget)
  let ?gone = "filter (\<lambda>e. e \<notin> set (t_events s')) (t_events s)"
  have inv: "log_inv s h g" using log_evict.hyps(1) by (rule log_reach_inv)
  then have ids: "sorted_wrt (\<lambda>a b. ev_id a < ev_id b) (t_events s)"
    by (simp add: log_inv_def sorted_wrt_filter)
  from evict_progress_rows [OF ids, of now budget, folded log_evict.hyps(2)] show ?case
  proof
    assume "?gone = [] \<and> s' = s"
    then show ?thesis using log_evict.IH by simp
  next
    assume "\<exists>d. set d = set ?gone \<and> (\<forall>e \<in> set d. evictable e)
         \<and> t_events s' = filter (\<lambda>e. e \<notin> set ?gone) (t_events s)
         \<and> t_event_seq s' = t_event_seq s
         \<and> t_eviction_scopes s' = record_eviction_scopes now (scopes_of d) (t_eviction_scopes s)"
    then obtain d where d: "set d = set ?gone" "\<forall>e \<in> set d. evictable e"
         "t_eviction_scopes s' = record_eviction_scopes now (scopes_of d) (t_eviction_scopes s)"
      by blast
    have dd: "\<forall>e \<in> set d. 0 < ev_id e \<and> evictable e" using d inv by (auto simp: log_inv_def)
    have sc: "scopes_inv (t_eviction_scopes s)" using inv by (simp add: log_inv_def)
    have "samples_sound (t_eviction_scopes s') (g @ d)"
      unfolding d(3) by (rule record_eviction_scopes_samples [OF sc dd log_evict.IH])
    then show ?thesis using d(1) samples_sound_cong [of "g @ d" "g @ ?gone"] by simp
  qed
next
  case (log_other s h g s')
  then show ?case by simp
qed

subsection \<open>Pages\<close>

lemma newest_events_sorted:
  "sorted_wrt (\<lambda>a b. ev_id a < ev_id b) es \<Longrightarrow> newest_events es = rev es"
proof -
  assume "sorted_wrt (\<lambda>a b. ev_id a < ev_id b) es"
  then have "sorted (map ev_id es)" by (induction es) (auto simp: less_imp_le)
  then show ?thesis by (simp add: newest_events_def sorted_sort_id sort_key_id_if_sorted)
qed

lemma covered_match_flagged:
  assumes "row_covers r e" "page_match type node component since before_id e" "ev_id e > 0"
  shows "scope_may_match type node component since before_id r"
proof -
  have "es_type r \<noteq> EVICTION_WILDCARD \<Longrightarrow> row_key r = scope_key_of e"
    using assms(1) by (auto simp: row_covers_def row_key_def wildcard_key_def)
  then have fields: "es_type r \<noteq> EVICTION_WILDCARD \<longrightarrow> matches_opt type (es_type r)
      \<and> matches_opt node (es_node r) \<and> matches_opt component (es_component r)"
    using assms(2)
    by (auto simp: row_key_def scope_key_of_def page_match_def matches_opt_def opt_str_def
        split: option.splits)
  have since: "case since of None \<Rightarrow> True | Some t \<Rightarrow> t \<le> ev_received_at e"
    and before: "case before_id of None \<Rightarrow> True | Some b \<Rightarrow> ev_id e < b"
    using assms(2) by (auto simp: page_match_def)
  show ?thesis
  proof (cases "es_samples_complete r")
    case True
    then have "(ev_id e, ev_received_at e) \<in> set (es_samples r)"
      using assms(1) by (simp add: row_covers_def)
    with True fields since before show ?thesis
      by (force simp: scope_may_match_def list_ex_iff)
  next
    case False
    with fields since before assms(1) show ?thesis
      by (auto simp: scope_may_match_def row_covers_def split: option.splits)
  qed
qed

text \<open>
  C16: a page of the event log that is not flagged as evicted is the newest part of the full
  history, with every filter and cursor: no event that matches has been evicted behind it.
\<close>

theorem unflagged_page_is_history:
  assumes "log_reach s h g"
    and "events_page node component type since before_id limit s = Inr page"
    and "\<not> pg_evicted page"
  shows "pg_events page =
    sql_limit limit (rev (filter (page_match type node component since before_id) h))"
proof -
  let ?m = "page_match type node component since before_id"
  have inv: "log_inv s h g" using assms(1) by (rule log_reach_inv)
  have page: "pg_events page = sql_limit limit (newest_events (filter ?m (t_events s)))"
      "\<not> list_ex (scope_may_match type node component since before_id) (t_eviction_scopes s)"
    using assms(2,3) by (auto simp: events_page_def eviction_evidence_def Let_def split: if_splits)
  have "\<not> ?m e" if e: "e \<in> set g" for e
  proof
    assume m: "?m e"
    obtain r where "r \<in> set (t_eviction_scopes s)" "row_covers r e"
      using e inv by (auto simp: log_inv_def rows_cover_def)
    moreover have "0 < ev_id e" using e inv by (auto simp: log_inv_def)
    ultimately show False
      using m page(2) covered_match_flagged by (fastforce simp: list_ex_iff)
  qed
  then have "filter ?m (t_events s) = filter ?m h"
    using inv by (auto simp: log_inv_def intro!: filter_cong)
  moreover have "sorted_wrt (\<lambda>a b. ev_id a < ev_id b) (filter ?m h)"
    using inv by (simp add: log_inv_def sorted_wrt_filter)
  ultimately show ?thesis by (simp add: page(1) newest_events_sorted)
qed

text \<open>
  while no scope has lost its exact samples, the evicted flag is never raised without reason:
  it names an evicted event that the page's filters select.
\<close>

theorem flagged_page_lost_a_match:
  assumes "log_reach s h g"
    and "eviction_mark s = None" and "\<forall>r \<in> set (t_eviction_scopes s). es_samples_complete r"
    and "node \<noteq> Some []" and "component \<noteq> Some []"
    and "snd (eviction_evidence type node component since before_id s)"
  shows "\<exists>e \<in> set g. page_match type node component since before_id e"
proof -
  from assms(2,6) obtain r where r: "r \<in> set (t_eviction_scopes s)"
      "scope_may_match type node component since before_id r"
    by (auto simp: eviction_evidence_def Let_def list_ex_iff)
  have nowild: "row_key r \<noteq> wildcard_key"
    and sound: "\<And>it. it \<in> set (es_samples r) \<Longrightarrow> \<exists>e \<in> set g. sample_of (row_key r) it e"
    using log_reach_samples [OF assms(1)] assms(3) r(1) by (auto simp: samples_sound_def)
  have "\<exists>it \<in> set (es_samples r). (case since of None \<Rightarrow> True | Some t \<Rightarrow> t \<le> snd it)
      \<and> (case before_id of None \<Rightarrow> True | Some b \<Rightarrow> fst it < b)"
    using r assms(3) by (simp add: scope_may_match_def list_ex_iff case_prod_beta)
  then obtain it where it: "it \<in> set (es_samples r)"
      "case since of None \<Rightarrow> True | Some t \<Rightarrow> t \<le> snd it"
      "case before_id of None \<Rightarrow> True | Some b \<Rightarrow> fst it < b" by blast
  from sound [OF it(1)] obtain e where e: "e \<in> set g" "sample_of (row_key r) it e" by blast
  have "evictable e" using e(1) log_reach_inv [OF assms(1)] by (simp add: log_inv_def)
  moreover have key: "es_type r = ev_type e" "es_node r = opt_str (ev_node e)"
      "es_component r = opt_str (ev_component e)" "it = (ev_id e, ev_received_at e)"
    using e(2) by (auto simp: sample_of_def row_key_def scope_key_of_def)
  ultimately have "es_type r \<noteq> EVICTION_WILDCARD"
    by (auto simp: evictable_def EVICTION_WILDCARD_def EVENT_PROGRESS_def EVENT_ERROR_def)
  then have "matches_opt type (ev_type e)" "matches_opt node (opt_str (ev_node e))"
      "matches_opt component (opt_str (ev_component e))"
    using r(2) key by (auto simp: scope_may_match_def)
  then have "page_match type node component since before_id e"
    using it(2,3) assms(4,5) unfolding key(4) page_match_def matches_opt_def opt_str_def
    by (auto split: option.splits)
  with e(1) show ?thesis by blast
qed

subsection \<open>What eviction drops\<close>

definition bytes :: "event_row list \<Rightarrow> int" where
  "bytes es = sum_list (map payload_size es)"

lemma bytes_append: "bytes (xs @ ys) = bytes xs + bytes ys"
  by (simp add: bytes_def)

lemma doomed_rows_enough: "x \<le> bytes (doomed_rows x es) \<or> doomed_rows x es = es"
  by (induction x es rule: doomed_rows.induct) (auto simp: bytes_def)

lemma doomed_rows_needed:
  "0 < x \<Longrightarrow> i < length (doomed_rows x es) \<Longrightarrow> bytes (take i es) < x"
proof (induction x es arbitrary: i rule: doomed_rows.induct)
  case (2 x e es)
  show ?case
  proof (cases i)
    case 0
    with 2 show ?thesis by (simp add: bytes_def)
  next
    case (Suc j)
    with 2 have "bytes (take j es) < x - payload_size e" by (auto split: if_splits)
    with Suc show ?thesis by (simp add: bytes_def)
  qed
qed simp

lemma later_ids:
  assumes "sorted_wrt (\<lambda>a b. ev_id a < ev_id b) c" "i < length c"
  shows "filter (\<lambda>e. ev_id (c ! i) \<le> ev_id e) c = drop i c"
  using assms
proof (induction c arbitrary: i)
  case (Cons a c)
  show ?case
  proof (cases i)
    case 0
    with Cons.prems show ?thesis by (auto simp: less_imp_le intro!: filter_True)
  next
    case (Suc j)
    then have "ev_id a < ev_id (c ! j)" using Cons.prems by auto
    with Suc Cons show ?thesis by (auto simp: not_le)
  qed
qed simp

lemma ids_distinct: "sorted_wrt (\<lambda>a b. ev_id a < ev_id b) es \<Longrightarrow> distinct es"
  by (induction es) auto

lemma length_filter_out:
  assumes "distinct es" "distinct d" "set d \<subseteq> set es"
  shows "int (length d) = int (length es) - int (length (filter (\<lambda>e. e \<notin> set d) es))"
proof -
  have "length (filter (\<lambda>e. e \<in> set d) es) = card (set (filter (\<lambda>e. e \<in> set d) es))"
    using assms(1) by (simp add: distinct_card [symmetric])
  also have "set (filter (\<lambda>e. e \<in> set d) es) = set d" using assms(3) by auto
  also have "card (set d) = length d" using assms(2) by (rule distinct_card)
  finally show ?thesis
    using sum_length_filter_compl [of "\<lambda>e. e \<in> set d" es] by simp
qed

text \<open>
  C17: \<open>evict_progress\<close> removes only progress and error events, and of them the oldest; what is
  left fits the byte budget, and no removed event would have fitted beside the newer ones; the
  number returned is the number of rows removed.
\<close>

theorem eviction_drops_oldest_over_budget:
  assumes "log_reach s h g" and "0 \<le> budget" and "evict_progress now budget s = (n, s')"
  shows "(\<forall>e \<in> set (t_events s). \<not> evictable e \<longrightarrow> e \<in> set (t_events s'))
    \<and> bytes (filter evictable (t_events s')) \<le> budget
    \<and> (\<forall>e \<in> set (t_events s) - set (t_events s'). \<forall>e' \<in> set (t_events s'). evictable e' \<longrightarrow> ev_id e < ev_id e')
    \<and> (\<forall>e \<in> set (t_events s) - set (t_events s').
         budget < bytes (filter (\<lambda>e'. evictable e' \<and> ev_id e \<le> ev_id e') (t_events s)))
    \<and> n = int (length (t_events s)) - int (length (t_events s'))"
proof -
  let ?lt = "\<lambda>a b. ev_id a < ev_id b"
  have ids: "sorted_wrt ?lt (t_events s)"
    using log_reach_inv [OF assms(1)] by (simp add: log_inv_def sorted_wrt_filter)
  define c where "c = filter evictable (t_events s)"
  have c: "sorted_wrt ?lt c" using ids by (simp add: c_def sorted_wrt_filter)
  then have "sorted (map ev_id c)" by (induction c) (auto simp: less_imp_le)
  then have sort: "sort_key ev_id c = c" by (simp add: sort_key_id_if_sorted)
  define x where "x = bytes c - budget"
  show ?thesis
  proof (cases "x \<le> 0")
    case True
    then have "s' = s" "n = 0"
      using assms(3) by (auto simp: evict_progress_def Let_def sort x_def bytes_def c_def [symmetric])
    with True show ?thesis by (simp add: x_def c_def)
  next
    case False
    define d where "d = doomed_rows x c"
    have s': "t_events s' = filter (\<lambda>e. ev_id e \<notin> ev_id ` set d) (t_events s)" "n = int (length d)"
      using assms(3) False
      by (auto simp: evict_progress_def Let_def sort x_def bytes_def c_def [symmetric] d_def
          delete_where_def)
    obtain m where m: "d = take m c" using doomed_rows_prefix [of x c] by (auto simp: d_def)
    have sub: "set d \<subseteq> set (t_events s)" using m by (auto simp: c_def dest: in_set_takeD)
    have inj: "ev_id e \<in> ev_id ` set d \<longleftrightarrow> e \<in> set d" if "e \<in> set (t_events s)" for e
      using that sub ids_inj [OF ids] by blast
    have kept: "t_events s' = filter (\<lambda>e. e \<notin> set d) (t_events s)"
      unfolding s'(1) using inj by (intro filter_cong) auto
    have gone: "set (t_events s) - set (t_events s') = set d" using sub by (auto simp: kept)
    have order: "ev_id a < ev_id b" if "a \<in> set (take m c)" "b \<in> set (drop m c)" for a b
      using that c sorted_wrt_append [of ?lt "take m c" "drop m c"] by simp
    have rest: "filter evictable (t_events s') = drop m c"
    proof -
      have "filter evictable (t_events s') = filter (\<lambda>e. e \<notin> set d) c"
        unfolding kept c_def filter_filter by (intro filter_cong) auto
      also have "\<dots> = filter (\<lambda>e. e \<notin> set d) (take m c @ drop m c)" by simp
      also have "\<dots> = drop m c"
        unfolding filter_append using order m by (fastforce intro: filter_True simp: filter_empty_conv)
      finally show ?thesis .
    qed
    have "bytes d + bytes (drop m c) = bytes c"
      using bytes_append [of d "drop m c"] m by simp
    then have fits: "bytes (drop m c) \<le> budget"
      using doomed_rows_enough [of x c, folded d_def] assms(2) by (auto simp: x_def)
    have over: "budget < bytes (filter (\<lambda>e'. evictable e' \<and> ev_id e \<le> ev_id e') (t_events s))"
      if e: "e \<in> set d" for e
    proof -
      obtain i where i: "i < length d" "e = c ! i" using e m by (auto simp: in_set_conv_nth)
      have "i < length c" using i m by simp
      have "filter (\<lambda>e'. evictable e' \<and> ev_id e \<le> ev_id e') (t_events s) = filter (\<lambda>e'. ev_id (c ! i) \<le> ev_id e') c"
        unfolding c_def i(2) filter_filter by (intro filter_cong) auto
      also have "\<dots> = drop i c" by (rule later_ids [OF c \<open>i < length c\<close>])
      finally have "bytes (take i c)
          + bytes (filter (\<lambda>e'. evictable e' \<and> ev_id e \<le> ev_id e') (t_events s)) = bytes c"
        using bytes_append [of "take i c" "drop i c"] by simp
      moreover have "bytes (take i c) < x"
        using doomed_rows_needed [of x i c] False i(1) by (simp add: d_def)
      ultimately show ?thesis by (simp add: x_def)
    qed
    have "distinct d" using ids_distinct [OF c] m by simp
    then have count: "n = int (length (t_events s)) - int (length (t_events s'))"
      unfolding kept s'(2) by (rule length_filter_out [OF ids_distinct [OF ids] _ sub])
    have newer: "ev_id e < ev_id e'" if "e \<in> set d" "e' \<in> set (t_events s')" "evictable e'" for e e'
      using that order [of e e'] m rest [symmetric] by simp
    show ?thesis
      unfolding gone rest using fits over count newer m
      by (auto simp: kept c_def dest: in_set_takeD)
  qed
qed

subsection \<open>A run of the log\<close>

definition demo_progress :: dict where
  "demo_progress = [(''type'', JStr EVENT_PROGRESS), (''node'', JStr ''n1''), (''run_id'', JStr ''r1'')]"

definition demo_run :: dict where
  "demo_run = [(''type'', JStr EVENT_RUN), (''node'', JStr ''n1''), (''phase'', JStr ''claimed'')]"

definition demo_log :: store where
  "demo_log = record_event 300 300 demo_progress
     (record_event 200 200 demo_run (record_event 100 100 demo_progress empty_store))"

definition demo_history :: "event_row list" where
  "demo_history = [event_row_of 1 100 demo_progress, event_row_of 2 200 demo_run,
     event_row_of 3 300 demo_progress]"

definition demo_evicted :: store where
  "demo_evicted = snd (evict_progress 400 80 demo_log)"

lemma demo_log_reach: "log_reach demo_log demo_history []"
proof -
  have "log_reach empty_store [] []" by (rule log_start)
  from log_record [OF log_record [OF log_record [OF this, of 100 100 demo_progress], of 200 200 demo_run],
      of 300 300 demo_progress]
  show ?thesis by (simp add: demo_log_def demo_history_def empty_store_def)
qed

lemma demo_evicted_reach:
  "log_reach demo_evicted demo_history [event_row_of 1 100 demo_progress]"
proof -
  have "filter (\<lambda>e. e \<notin> set (t_events demo_evicted)) (t_events demo_log)
      = [event_row_of 1 100 demo_progress]"
    by code_simp
  with log_evict [OF demo_log_reach demo_evicted_def] show ?thesis by simp
qed

theorem unflagged_page_is_history_witness:
  "\<exists>page. events_page None None (Some EVENT_RUN) None None 10 demo_evicted = Inr page
     \<and> \<not> pg_evicted page \<and> pg_any_evicted page
     \<and> pg_events page = sql_limit 10 (rev (filter
         (page_match (Some EVENT_RUN) None None None None) demo_history))"
proof -
  have "case events_page None None (Some EVENT_RUN) None None 10 demo_evicted of
      Inl _ \<Rightarrow> False | Inr page \<Rightarrow> \<not> pg_evicted page \<and> pg_any_evicted page"
    by code_simp
  then obtain page where "events_page None None (Some EVENT_RUN) None None 10 demo_evicted = Inr page"
      "\<not> pg_evicted page" "pg_any_evicted page"
    by (cases "events_page None None (Some EVENT_RUN) None None 10 demo_evicted") simp_all
  with unflagged_page_is_history [OF demo_evicted_reach this(1)] show ?thesis by blast
qed

theorem eviction_drops_oldest_over_budget_witness:
  "bytes (filter evictable (t_events demo_evicted)) \<le> 80
     \<and> event_row_of 2 200 demo_run \<in> set (t_events demo_evicted)
     \<and> length (t_events demo_evicted) = 2"
proof -
  have n: "fst (evict_progress 400 80 demo_log) = 1" "length (t_events demo_log) = 3"
      "event_row_of 2 200 demo_run \<in> set (t_events demo_log)"
      "\<not> evictable (event_row_of 2 200 demo_run)"
    by code_simp+
  have ev: "evict_progress 400 80 demo_log = (1, demo_evicted)"
    using n(1) by (simp add: demo_evicted_def prod_eq_iff)
  note drop = eviction_drops_oldest_over_budget [OF demo_log_reach _ ev]
  have "bytes (filter evictable (t_events demo_evicted)) \<le> 80"
    using drop by linarith
  moreover have "event_row_of 2 200 demo_run \<in> set (t_events demo_evicted)"
    using drop n(3,4) by (meson zero_le_numeral)
  moreover have "(1::int) = int (length (t_events demo_log)) - int (length (t_events demo_evicted))"
    using drop by (meson zero_le_numeral)
  ultimately show ?thesis using n(2) by simp
qed

end
