(* ===== verification/Evidence.thy ===== *)
theory Evidence
  imports Jobdir Effects
begin

text \<open>
  Evidence bundles (\<open>worker/.../evidence.py\<close>): the input artifacts of a Run, the trusted snapshot taken before the
  container launches, and the push with its retries. The jobs directory is a list of files too; a push records
  what it carries in the world, and each of its attempts is an argument.
\<close>

definition EVIDENCE_BRANCH :: string where "EVIDENCE_BRANCH = ''theozolith/evidence''"
definition PUSH_ATTEMPTS :: nat where "PUSH_ATTEMPTS = 3"

definition INPUT_ARTIFACT_FILES :: "string list" where
  "INPUT_ARTIFACT_FILES = [''input/issue.json'', ''input/prompt.md'']"

definition INPUT_ARTIFACT_TREES :: "string list" where
  "INPUT_ARTIFACT_TREES = [''input/issue'', ''input/pr'', ''input/deps'']"

text \<open>No part of a relative path starts with a dot.\<close>

definition undotted :: "string \<Rightarrow> bool" where
  "undotted relative \<longleftrightarrow> list_all (\<lambda>part. \<not> startswith part ''.'') (split_on (CHR ''/'') relative)"

definition files_under :: "string \<Rightarrow> job_dir \<Rightarrow> (string \<times> string) list" where
  "files_under tree job =
     sort_key (\<lambda>(p, t). split_on (CHR ''/'') p)
       (filter (\<lambda>(p, t). startswith p (tree @ ''/'') \<and> undotted (drop (length tree + 1) p)) job)"

definition collect_input :: "job_dir \<Rightarrow> (string \<times> string) list" where
  "collect_input job =
     concat (map (\<lambda>p. case map_of job p of None \<Rightarrow> [] | Some t \<Rightarrow> [(p, t)]) INPUT_ARTIFACT_FILES)
     @ concat (map (\<lambda>tree. files_under tree job) INPUT_ARTIFACT_TREES)"

text \<open>
  The snapshots under \<open>.trusted-input\<close>, one directory of files per run id. The staged copy is renamed in one
  step, so what stays is the old directory or the whole new one.
\<close>

type_synonym snapshots = "string \<Rightarrow> job_dir option"

definition capture_input_snapshot :: "snapshots \<Rightarrow> job_dir \<Rightarrow> string \<Rightarrow> (string \<times> string) list \<times> snapshots" where
  "capture_input_snapshot snaps job run_id = (let files = collect_input job in (files, snaps(run_id \<mapsto> files)))"

definition load_input_snapshot :: "snapshots \<Rightarrow> string \<Rightarrow> (string \<times> string) list option" where
  "load_input_snapshot snaps run_id =
     map_option (\<lambda>files. sort_key (\<lambda>(p, t). split_on (CHR ''/'') p) (filter (\<lambda>(p, t). undotted p) files)) (snaps run_id)"

definition discard_input_snapshot :: "snapshots \<Rightarrow> string \<Rightarrow> snapshots" where
  "discard_input_snapshot snaps run_id = snaps(run_id := None)"

definition run_dir :: "int \<Rightarrow> string \<Rightarrow> string" where
  "run_dir issue_number run_id = ''runs/issue-'' @ show_int issue_number @ ''/'' @ run_id"

definition issue_evidence_url :: "repo \<Rightarrow> int \<Rightarrow> string" where
  "issue_evidence_url repo issue_number =
     ''https://github.com/'' @ repo @ ''/tree/'' @ EVIDENCE_BRANCH @ ''/runs/issue-'' @ show_int issue_number"

definition run_evidence_url :: "repo \<Rightarrow> int \<Rightarrow> string \<Rightarrow> string" where
  "run_evidence_url repo issue_number run_id =
     ''https://github.com/'' @ repo @ ''/tree/'' @ EVIDENCE_BRANCH @ ''/'' @ run_dir issue_number run_id"

text \<open>
  \<open>push_bundle\<close> over the outcomes of its attempts: the error of an attempt, or none. The first that succeeds
  ends it; otherwise it raises with the last error.
\<close>

fun push_attempts :: "string option list \<Rightarrow> string \<Rightarrow> string option" where
  "push_attempts [] e = Some e"
| "push_attempts (None # rest) e = None"
| "push_attempts (Some e # rest) e' = push_attempts rest e"

definition push_bundle :: "string option list \<Rightarrow> string option" where
  "push_bundle outcomes =
     map_option (\<lambda>e. ''evidence push failed after '' @ show_nat PUSH_ATTEMPTS @ '' attempts: '' @ e)
       (push_attempts (take PUSH_ATTEMPTS outcomes) ''None'')"

text \<open>A push whose failure is logged and dropped; the world keeps what it carried.\<close>

definition push_evidence_files :: "string \<Rightarrow> (string \<times> string) list \<Rightarrow> unit run" where
  "push_evidence_files message files w =
     (Inr (), w\<lparr>wd_pushes := wd_pushes w @ [(length (wd_requests w), message, files)]\<rparr>)"

subsection \<open>What the snapshot keeps\<close>

lemma push_bundle_gives_up_iff:
  "push_bundle outcomes \<noteq> None \<longleftrightarrow> None \<notin> set (take PUSH_ATTEMPTS outcomes)"
proof -
  have "push_attempts xs e \<noteq> None \<longleftrightarrow> None \<notin> set xs" for xs e
    by (induction xs e rule: push_attempts.induct) auto
  then show ?thesis by (simp add: push_bundle_def)
qed

lemma collected_from_job: "(p, t) \<in> set (collect_input job) \<Longrightarrow> (p, t) \<in> set job \<or> map_of job p = Some t"
  by (auto simp: collect_input_def files_under_def split: option.splits)

lemma split_on_append: "split_on c (s @ c # t) = split_on c s @ split_on c t"
proof (induction s)
  case (Cons x s)
  have "split_on c s \<noteq> []" for s by (induction s) (auto split: list.split)
  then show ?case using Cons by (auto split: list.split)
qed simp

lemma undotted_append: "undotted (s @ ''/'' @ t) \<longleftrightarrow> undotted s \<and> undotted t"
  by (simp add: undotted_def split_on_append)

lemma startswith_append_iff: "startswith (d @ p) d" "drop (length d) (d @ p) = p"
  by (simp_all add: startswith_def)

lemma collected_undotted: "(p, t) \<in> set (collect_input job) \<Longrightarrow> undotted p"
proof -
  assume "(p, t) \<in> set (collect_input job)"
  then consider "p \<in> set INPUT_ARTIFACT_FILES"
    | tree where "tree \<in> set INPUT_ARTIFACT_TREES" "startswith p (tree @ ''/'')" "undotted (drop (length tree + 1) p)"
    by (auto simp: collect_input_def files_under_def split: option.splits)
  then show ?thesis
  proof cases
    case 1
    then show ?thesis by (auto simp: INPUT_ARTIFACT_FILES_def undotted_def startswith_def)
  next
    case (2 tree)
    have "p = tree @ ''/'' @ drop (length tree + 1) p"
      using 2(2) by (metis append.assoc append_take_drop_id length_append_singleton startswith_def Suc_eq_plus1)
    moreover have "undotted tree" using 2(1) by (auto simp: INPUT_ARTIFACT_TREES_def undotted_def startswith_def)
    ultimately show ?thesis using 2(3) undotted_append [of tree] by metis
  qed
qed

text \<open>
  The boot sweep reads back exactly the files captured before the container was launched, every other run's
  snapshot stays, and a discarded snapshot is gone.
\<close>

lemma snapshot_reads_back:
  shows "\<exists>kept. load_input_snapshot (snd (capture_input_snapshot snaps job run_id)) run_id = Some kept
     \<and> set kept = set (collect_input job)"
  and "other \<noteq> run_id \<Longrightarrow>
     load_input_snapshot (snd (capture_input_snapshot snaps job run_id)) other = load_input_snapshot snaps other"
  and "load_input_snapshot (discard_input_snapshot snaps run_id) run_id = None"
proof -
  have "filter (\<lambda>(p, t). undotted p) (collect_input job) = collect_input job"
    using collected_undotted by (auto simp: filter_id_conv)
  then show "\<exists>kept. load_input_snapshot (snd (capture_input_snapshot snaps job run_id)) run_id = Some kept
     \<and> set kept = set (collect_input job)"
    by (simp add: capture_input_snapshot_def load_input_snapshot_def Let_def)
qed (simp_all add: capture_input_snapshot_def load_input_snapshot_def discard_input_snapshot_def Let_def)

end
