(* ===== verification/Write_Plans.thy ===== *)
theory Write_Plans
  imports Client_Facts
begin

text \<open>
  Sequences of writes: a computation follows a plan when it leaves the store alone and exchanges, in the
  order of the plan, each request at least once and at most \<open>MAX_RETRIES\<close> times, up to where it
  failed, and all of them when it returned.
\<close>

inductive sent_of :: "request list \<Rightarrow> request list \<Rightarrow> bool" where
  stop: "sent_of plan []"
| send: "0 < k \<Longrightarrow> k \<le> MAX_RETRIES \<Longrightarrow> sent_of plan rs \<Longrightarrow> sent_of (rq # plan) (replicate k rq @ rs)"

inductive all_sent :: "request list \<Rightarrow> request list \<Rightarrow> bool" where
  finished: "all_sent [] []"
| send: "0 < k \<Longrightarrow> k \<le> MAX_RETRIES \<Longrightarrow> all_sent plan rs \<Longrightarrow> all_sent (rq # plan) (replicate k rq @ rs)"

inductive_cases sent_of_NilE: "sent_of [] rs"
inductive_simps all_sent_Nil [simp]: "all_sent [] rs"

lemma sent_of_Nil [simp]: "sent_of [] rs \<longleftrightarrow> rs = []"
  by (auto intro: sent_of.stop elim: sent_of_NilE)

lemma all_sent_sent: "all_sent plan rs \<Longrightarrow> sent_of plan rs"
  by (induction rule: all_sent.induct) (auto intro: sent_of.intros)

lemma sent_of_longer: "sent_of plan rs \<Longrightarrow> sent_of (plan @ later) rs"
  by (induction rule: sent_of.induct) (auto intro: sent_of.intros)

lemma sent_of_append: "all_sent plan rs \<Longrightarrow> sent_of later ss \<Longrightarrow> sent_of (plan @ later) (rs @ ss)"
  by (induction rule: all_sent.induct) (auto intro: sent_of.intros)

lemma all_sent_append: "all_sent plan rs \<Longrightarrow> all_sent later ss \<Longrightarrow> all_sent (plan @ later) (rs @ ss)"
  by (induction rule: all_sent.induct) (auto intro: all_sent.intros)

lemma all_sent_covers: "all_sent plan rs \<Longrightarrow> set rs = set plan"
  by (induction rule: all_sent.induct) auto

lemma sent_of_set: "sent_of plan rs \<Longrightarrow> set rs \<subseteq> set plan"
  by (induction rule: sent_of.induct) auto

definition follows :: "request list \<Rightarrow> 'a run \<Rightarrow> bool" where
  "follows plan m \<longleftrightarrow> (\<forall>w r w'. m w = (r, w') \<longrightarrow> wd_store w' = wd_store w
     \<and> (\<exists>rs. wd_requests w' = wd_requests w @ rs \<and> sent_of plan rs
          \<and> (case r of Inr x \<Rightarrow> all_sent plan rs | Inl e \<Rightarrow> True)))"

lemma followsE:
  assumes "follows plan m" "m w = (r, w')"
  obtains rs where "wd_store w' = wd_store w" "wd_requests w' = wd_requests w @ rs" "sent_of plan rs"
    "\<And>x. r = Inr x \<Longrightarrow> all_sent plan rs"
  using assms unfolding follows_def by (metis sum.case(2))

lemma follows_ret [intro]: "follows [] (ret x)"
  by (simp add: follows_def)

lemma follows_sends:
  assumes "\<And>w. sends rq w (snd (m w))"
  shows "follows [rq] m"
  unfolding follows_def
proof (intro allI impI)
  fix w r w' assume run: "m w = (r, w')"
  then have "sends rq w w'" using assms [of w] by simp
  then obtain k where k: "0 < k" "k \<le> MAX_RETRIES" "wd_requests w' = wd_requests w @ replicate k rq"
    "wd_store w' = wd_store w" by (rule sendsE)
  have "all_sent [rq] (replicate k rq @ [])" by (intro all_sent.intros k)
  then have "all_sent [rq] (replicate k rq)" by simp
  then show "wd_store w' = wd_store w \<and> (\<exists>rs. wd_requests w' = wd_requests w @ rs \<and> sent_of [rq] rs
      \<and> (case r of Inl e \<Rightarrow> True | Inr x \<Rightarrow> all_sent [rq] rs))"
    using k all_sent_sent by (auto split: sum.split)
qed

lemma follows_writes [intro]:
  "follows [assign_request repo n ls] (add_assignees env repo n ls)"
  "follows [unassign_request repo n l] (remove_assignee env repo n l)"
  "follows [label_request repo n ls] (add_labels env repo n ls)"
  "follows [unlabel_request repo n l] (remove_label env repo n l)"
  "follows [comment_request repo n b] (add_comment env repo n b)"
  by (rule follows_sends, rule sends_writes)+

lemma follows_bind:
  assumes "follows plan m" "\<And>x. follows later (f x)"
  shows "follows (plan @ later) (bindE m f)"
  unfolding follows_def
proof (intro allI impI)
  fix w r w' assume "bindE m f w = (r, w')"
  then show "wd_store w' = wd_store w \<and> (\<exists>rs. wd_requests w' = wd_requests w @ rs \<and> sent_of (plan @ later) rs
      \<and> (case r of Inl e \<Rightarrow> True | Inr x \<Rightarrow> all_sent (plan @ later) rs))"
  proof (cases rule: bindE_cases)
    case (fail e)
    from followsE [OF assms(1) fail(1)] show ?thesis using fail(2) sent_of_longer by (metis sum.case(1))
  next
    case (step x w1)
    obtain rs where rs: "wd_store w1 = wd_store w" "wd_requests w1 = wd_requests w @ rs" "all_sent plan rs"
      using followsE [OF assms(1) step(1)] by metis
    obtain ss where ss: "wd_store w' = wd_store w1" "wd_requests w' = wd_requests w1 @ ss" "sent_of later ss"
      "\<And>y. r = Inr y \<Longrightarrow> all_sent later ss" using followsE [OF assms(2) step(2)] by metis
    show ?thesis using rs ss sent_of_append all_sent_append
      by (intro conjI exI [of _ "rs @ ss"]) (auto split: sum.split)
  qed
qed

lemma follows_each:
  assumes "\<And>x. follows [p x] (f x)"
  shows "follows (map p xs) (each xs f)"
proof (induction xs)
  case (Cons x xs)
  then show ?case using follows_bind [OF assms [of x], of "map p xs" "\<lambda>_. each xs f"] by simp
qed auto

end
