(* ===== verification/BasedOn.thy ===== *)
theory BasedOn
  imports Json_Roundtrip Text_Ops
begin

text \<open>
  The "Based on" zone of a pull-request body (\<open>worker/.../basedon.py\<close>): its rendering, the tolerant
  parser and the replacement, with the three regular expressions written as matchers. A matcher
  answers the text after its match at the front.
\<close>

record based_on =
  bo_issue :: int
  bo_sha :: string

subsection \<open>The patterns\<close>

definition cr :: char where "cr = char_of (13 :: nat)"
definition backtick :: char where "backtick = char_of (96 :: nat)"

definition zone_open :: string where "zone_open = ''<!-- theozolith:based-on''"

text \<open>\<open>\r?\n\<close> and \<open>(?:\r?\n)*\<close>.\<close>

fun eol :: "string \<Rightarrow> string option" where
  "eol (c # d # s) = (if c = newline then Some (d # s) else if c = cr \<and> d = newline then Some s else None)"
| "eol [c] = (if c = newline then Some [] else None)"
| "eol [] = None"

fun drop_eols :: "string \<Rightarrow> string" where
  "drop_eols (c # d # s) =
     (if c = newline then drop_eols (d # s) else if c = cr \<and> d = newline then drop_eols s else c # d # s)"
| "drop_eols [c] = (if c = newline then [] else [c])"
| "drop_eols [] = []"

text \<open>\<open>\r?\n-->\<close>.\<close>

definition closing :: "string \<Rightarrow> string option" where
  "closing s = (case eol s of None \<Rightarrow> None
     | Some t \<Rightarrow> if startswith t ''-->'' then Some (drop 3 t) else None)"

text \<open>\<open>(.*?)\<close> up to the closing, and the text after it.\<close>

fun zone_body :: "string \<Rightarrow> (string \<times> string) option" where
  "zone_body [] = None"
| "zone_body (c # s) =
     (case closing (c # s) of
        Some t \<Rightarrow> Some ([], t)
      | None \<Rightarrow> map_option (apfst (Cons c)) (zone_body s))"

definition zone_here :: "string \<Rightarrow> (string \<times> string) option" where
  "zone_here s =
     (if startswith s zone_open
      then (case eol (drop (length zone_open) s) of None \<Rightarrow> None | Some t \<Rightarrow> zone_body t)
      else None)"

text \<open>\<open>ZONE_RE.search\<close>: the group of the leftmost match.\<close>

fun zone_search :: "string \<Rightarrow> string option" where
  "zone_search [] = None"
| "zone_search (c # s) =
     (case zone_here (c # s) of Some (g, t) \<Rightarrow> Some g | None \<Rightarrow> zone_search s)"

definition block_here :: "string \<Rightarrow> string option" where
  "block_here s = map_option (\<lambda>(g, t). drop_eols t) (zone_here s)"

definition warning_open :: string where "warning_open = ''**Based on #''"

definition warning_here :: "string \<Rightarrow> string option" where
  "warning_here s =
     (let d = drop (length warning_open) s; r = dropWhile is_digit d; t = dropWhile (\<lambda>c. c \<noteq> backtick \<and> c \<noteq> newline) (drop 5 r)
      in if startswith s warning_open \<and> takeWhile is_digit d \<noteq> [] \<and> startswith r ('' at '' @ [backtick])
            \<and> startswith t (backtick # ''**'')
         then Some (drop_eols (dropWhile (\<lambda>c. c \<noteq> newline) (drop 3 t)))
         else None)"

subsection \<open>The zone\<close>

definition zone_block :: "int \<Rightarrow> string \<Rightarrow> string" where
  "zone_block issue sha = json_dumps (JObj [(''issue'', JInt issue), (''sha'', JStr sha)])"

definition warning_line :: "int \<Rightarrow> string \<Rightarrow> string" where
  "warning_line issue sha =
     ''**Based on #'' @ show_int issue @ '' at '' @ [backtick] @ sha @ [backtick] @ ''** '' @ em_dash
     @ '' merge #'' @ show_int issue @ '' first; merging this PR first would merge it into #''
     @ show_int issue @ [char_of (39 :: nat)] @ ''s branch.''"

definition render_zone :: "int \<Rightarrow> string \<Rightarrow> string" where
  "render_zone issue sha =
     warning_line issue sha @ [newline, newline] @ zone_open @ [newline] @ zone_block issue sha @ [newline] @ ''-->''"

definition strip_zones :: "string \<Rightarrow> string" where
  "strip_zones body = dropWhile (\<lambda>c. c = cr \<or> c = newline) (sub_all block_here 0 (sub_all warning_here 0 body))"

definition upsert_zone :: "string \<Rightarrow> based_on option \<Rightarrow> string" where
  "upsert_zone body based =
     (case based of
        None \<Rightarrow> strip_zones body
      | Some b \<Rightarrow>
          if strip_zones body = [] then render_zone (bo_issue b) (bo_sha b)
          else render_zone (bo_issue b) (bo_sha b) @ [newline, newline] @ strip_zones body)"

text \<open>\<open>isinstance (issue, int)\<close> without booleans, and a string.\<close>

definition parse_zone :: "string \<Rightarrow> based_on option" where
  "parse_zone body =
     (case zone_search body of
        None \<Rightarrow> None
      | Some g \<Rightarrow>
          (case json_loads g of
             Some (JObj d) \<Rightarrow>
               (case (dget d ''issue'', dget d ''sha'') of
                  (JInt issue, JStr sha) \<Rightarrow> Some \<lparr>bo_issue = issue, bo_sha = sha\<rparr>
                | _ \<Rightarrow> None)
           | _ \<Rightarrow> None))"

subsection \<open>Reading the zone back\<close>

lemma char_codes:
  "dquote = CHR 0x22" "backslash = CHR 0x5C" "newline = CHR 0x0A" "cr = CHR 0x0D" "backtick = CHR 0x60"
  by code_simp+

lemma bytes_of [simp]:
  "newline \<noteq> cr" "cr \<noteq> newline" "backtick \<noteq> newline" "newline \<noteq> backtick" "CHR ''<'' \<noteq> newline" "CHR ''<'' \<noteq> cr"
  "cr \<noteq> CHR ''<''" "newline \<noteq> CHR ''<''" "backtick \<noteq> CHR ''<''" "newline \<noteq> CHR ''-''" "dquote \<noteq> newline" "dquote \<noteq> cr"
  by (simp_all add: char_codes)

text \<open>The text of a commit id.\<close>

definition is_hex :: "char \<Rightarrow> bool" where
  "is_hex c \<longleftrightarrow> (let n = (of_char c :: nat) in (48 \<le> n \<and> n \<le> 57) \<or> (97 \<le> n \<and> n \<le> 102))"

lemma hex_plain: "is_hex c \<Longrightarrow> (of_char c :: nat) < 128 \<and> c \<noteq> CHR ''<'' \<and> c \<noteq> newline \<and> c \<noteq> cr
    \<and> c \<noteq> backtick \<and> c \<noteq> CHR ''*'' \<and> escape_point (of_char c) = [c]"
  by (auto simp: is_hex_def Let_def newline_def cr_def backtick_def escape_point_def)

lemma hex_dumps: "list_all is_hex s \<Longrightarrow> dumps_str s = dquote # s @ [dquote]"
proof -
  assume s: "list_all is_hex s"
  have "concat (map escape_point (map of_char s)) = s" using s by (induction s) (auto dest!: hex_plain)
  moreover have "ascii s" using s by (auto simp: ascii_def list_all_iff dest!: hex_plain)
  ultimately show ?thesis by (simp add: dumps_str_def dquote_def code_points_ascii)
qed

lemma digit_plain: "is_digit c \<Longrightarrow> c \<noteq> CHR ''<'' \<and> c \<noteq> newline \<and> c \<noteq> cr \<and> c \<noteq> CHR ''*''"
  by (auto simp: is_digit_def newline_def cr_def)

lemma show_int_plain: "c \<in> set (show_int i) \<Longrightarrow> is_digit c \<or> c = CHR ''-''"
  using isdigit_show_nat by (auto simp: show_int_def isdigit_def list_all_iff split: if_splits)

lemma zone_block_text:
  "zone_block issue sha = ''{'' @ (dquote # ''issue'' @ [dquote]) @ '': '' @ show_int issue @ '', ''
     @ (dquote # ''sha'' @ [dquote]) @ '': '' @ dumps_str sha @ ''}''"
proof -
  have "dumps_str ''issue'' = dquote # ''issue'' @ [dquote]" "dumps_str ''sha'' = dquote # ''sha'' @ [dquote]"
    by code_simp+
  then show ?thesis by (simp add: zone_block_def)
qed

lemma json_loads_block: "is_text sha \<Longrightarrow> json_loads (zone_block issue sha)
     = Some (JObj [(''issue'', JInt issue), (''sha'', JStr sha)])"
proof -
  assume "is_text sha"
  moreover have "is_text ''issue''" "is_text ''sha''" by (simp_all add: ascii_is_text ascii_def)
  ultimately have "json_loads (zone_block issue sha) = Some (in_order (JObj [(''issue'', JInt issue), (''sha'', JStr sha)]))"
    unfolding zone_block_def by (intro json_loads_dumps) simp
  then show ?thesis by simp
qed

lemma zone_search_skip:
  "CHR ''<'' \<notin> set w \<Longrightarrow> zone_search (w @ s) = zone_search s"
proof (induction w)
  case (Cons c w)
  then have "c \<noteq> CHR ''<''" by auto
  then have "zone_here (c # w @ s) = None" by (simp add: zone_here_def zone_open_def startswith_def)
  then show ?case using Cons by simp
qed simp

lemma closing_None: "c \<noteq> newline \<Longrightarrow> c \<noteq> cr \<Longrightarrow> closing (c # s) = None"
  by (cases s) (simp_all add: closing_def)

lemma closing_end: "closing (newline # ''-->'' @ r) = Some r"
  by (simp add: closing_def startswith_def)

lemma zone_body_block:
  "newline \<notin> set g \<Longrightarrow> cr \<notin> set g \<Longrightarrow> zone_body (g @ newline # ''-->'' @ r) = Some (g, r)"
proof (induction g)
  case Nil
  show ?case using closing_end [of r] by simp
next
  case (Cons c g)
  then have "closing (c # g @ newline # ''-->'' @ r) = None" by (intro closing_None) auto
  then show ?case using Cons by simp
qed

lemma zone_here_block:
  "newline \<notin> set g \<Longrightarrow> cr \<notin> set g \<Longrightarrow> g \<noteq> []
   \<Longrightarrow> zone_here (zone_open @ newline # g @ newline # ''-->'' @ r) = Some (g, r)"
  using zone_body_block [of g r] by (cases g) (simp_all add: zone_here_def)

lemma zone_block_printable: "x \<in> set (zone_block issue sha) \<Longrightarrow> 32 \<le> (of_char x :: nat)"
  using dumps_str_printable [of x sha] show_int_plain [of x issue]
  by (auto simp: zone_block_text is_digit_def char_codes)

lemma zone_block_lines: "newline \<notin> set (zone_block issue sha)" "cr \<notin> set (zone_block issue sha)" "zone_block issue sha \<noteq> []"
proof -
  have "\<not> 32 \<le> (of_char newline :: nat)" "\<not> 32 \<le> (of_char cr :: nat)" by (simp_all add: char_codes)
  then show "newline \<notin> set (zone_block issue sha)" "cr \<notin> set (zone_block issue sha)"
    using zone_block_printable by blast+
qed (simp add: zone_block_text)

lemma warning_line_plain: "CHR ''<'' \<notin> set sha \<Longrightarrow> CHR ''<'' \<notin> set (warning_line issue sha)"
proof -
  have c: "char_of (39 :: nat) = CHR 0x27" "em_dash = [CHR 0xE2, CHR 0x80, CHR 0x94]" by code_simp+
  show "CHR ''<'' \<notin> set sha \<Longrightarrow> CHR ''<'' \<notin> set (warning_line issue sha)"
    using show_int_plain [of "CHR ''<''" issue] unfolding warning_line_def c char_codes by (auto simp: is_digit_def)
qed

lemma zone_search_render:
  assumes "CHR ''<'' \<notin> set sha"
  shows "zone_search (render_zone issue sha @ r) = Some (zone_block issue sha)"
proof -
  let ?z = "zone_open @ newline # zone_block issue sha @ newline # ''-->'' @ r"
  have split: "render_zone issue sha @ r = (warning_line issue sha @ [newline, newline]) @ ?z"
    by (simp add: render_zone_def)
  have here: "zone_here ?z = Some (zone_block issue sha, r)" by (rule zone_here_block [OF zone_block_lines])
  obtain c t where z: "?z = c # t" by (cases ?z) (simp_all add: zone_open_def)
  have "zone_search ?z = Some (zone_block issue sha)" using here unfolding z by simp
  then show ?thesis unfolding split using zone_search_skip [of "warning_line issue sha @ [newline, newline]" ?z]
      warning_line_plain [OF assms] by simp
qed

text \<open>
  C15: What \<open>upsert_zone\<close> writes, \<open>parse_zone\<close> reads back from the body, whatever the body was, for
  every issue number and every ASCII commit text without a "less than" sign.
\<close>

theorem zone_reads_back:
  assumes "is_text (bo_sha b)" "CHR ''<'' \<notin> set (bo_sha b)"
  shows "parse_zone (upsert_zone body (Some b)) = Some b"
proof -
  have "\<exists>r. upsert_zone body (Some b) = render_zone (bo_issue b) (bo_sha b) @ r"
    by (auto simp: upsert_zone_def)
  then obtain r where "upsert_zone body (Some b) = render_zone (bo_issue b) (bo_sha b) @ r" ..
  then have "zone_search (upsert_zone body (Some b)) = Some (zone_block (bo_issue b) (bo_sha b))"
    using zone_search_render [OF assms(2)] by simp
  then show ?thesis using json_loads_block [OF assms(1)] by (simp add: parse_zone_def)
qed

lemma zone_reads_back_witness:
  "parse_zone (upsert_zone ''Fixes the parser'' (Some \<lparr>bo_issue = 12, bo_sha = ''3f9c''\<rparr>))
     = Some \<lparr>bo_issue = 12, bo_sha = ''3f9c''\<rparr>"
  by (rule zone_reads_back) (simp_all add: ascii_is_text ascii_def)

subsection \<open>Replacing the zone\<close>

text \<open>No place in the text where a warning line or a machine block starts.\<close>

fun zone_free :: "string \<Rightarrow> bool" where
  "zone_free [] = True"
| "zone_free (c # s) = (warning_here (c # s) = None \<and> zone_here (c # s) = None \<and> zone_free s)"

lemma sub_all_free:
  "zone_free s \<Longrightarrow> sub_all warning_here 0 s = s" "zone_free s \<Longrightarrow> sub_all block_here 0 s = s"
  by (induction s) (simp_all add: block_here_def)

lemma sub_all_copy:
  "(\<And>c t. c \<in> set w \<Longrightarrow> m (c # t) = None) \<Longrightarrow> sub_all m 0 (w @ s) = w @ sub_all m 0 s"
  by (induction w) simp_all

lemma sub_all_drop: "sub_all m (length p) (p @ s) = sub_all m 0 s"
  by (induction p) simp_all

lemma sub_all_match:
  "m (p @ s) = Some s \<Longrightarrow> p \<noteq> [] \<Longrightarrow> sub_all m 0 (p @ s) = sub_all m 0 s"
  using sub_all_drop by (cases p) simp_all

lemma zone_free_suffix: "zone_free (p @ s) \<Longrightarrow> zone_free s"
  by (induction p) simp_all

lemma no_star: "c \<noteq> CHR ''*'' \<Longrightarrow> warning_here (c # s) = None"
  by (simp add: warning_here_def warning_open_def startswith_def Let_def)

lemma drop_eols_plain: "c \<noteq> newline \<Longrightarrow> c \<noteq> cr \<Longrightarrow> drop_eols (c # s) = c # s"
  by (cases s) simp_all

definition starts_text :: "string \<Rightarrow> bool" where
  "starts_text s \<longleftrightarrow> (case s of [] \<Rightarrow> True | c # _ \<Rightarrow> c \<noteq> cr \<and> c \<noteq> newline)"

lemma starts_text_simps:
  "starts_text s \<Longrightarrow> drop_eols s = s" "starts_text s \<Longrightarrow> dropWhile (\<lambda>c. c = cr \<or> c = newline) s = s"
  "starts_text (dropWhile (\<lambda>c. c = cr \<or> c = newline) s')"
  by (auto simp: starts_text_def drop_eols_plain dropWhile_eq_Cons_conv split: list.splits)

lemma warning_here_line:
  assumes "list_all is_hex sha" "0 \<le> issue" "starts_text s"
  shows "warning_here (warning_line issue sha @ newline # newline # s) = Some s"
proof -
  let ?n = "show_nat (nat issue)"
  define u where "u = ''** '' @ em_dash @ '' merge #'' @ ?n @ '' first; merging this PR first would merge it into #''
     @ ?n @ [char_of (39 :: nat)] @ ''s branch.''"
  have line: "warning_line issue sha = warning_open @ ?n @ '' at '' @ [backtick] @ sha @ [backtick] @ u"
    using assms(2) by (simp add: warning_line_def warning_open_def u_def show_int_def)
  have n: "list_all is_digit ?n" "?n \<noteq> []" using isdigit_show_nat [of "nat issue"] by (auto simp: isdigit_def)
  have sp: "\<not> is_digit (CHR '' '')" by (simp add: is_digit_def)
  have "\<forall>c \<in> set ?n. is_digit c" using n(1) by (simp add: list_all_iff)
  then have digits: "takeWhile is_digit (?n @ '' at '' @ r) = ?n" "dropWhile is_digit (?n @ '' at '' @ r) = '' at '' @ r" for r
    using sp by (simp_all add: takeWhile_append dropWhile_append)
  have "\<forall>c \<in> set sha. c \<noteq> backtick \<and> c \<noteq> newline" using assms(1) hex_plain by (auto simp: list_all_iff)
  then have t: "dropWhile (\<lambda>c. c \<noteq> backtick \<and> c \<noteq> newline) (sha @ backtick # r) = backtick # r" for r
    by (simp add: dropWhile_append)
  have c: "char_of (39 :: nat) = CHR 0x27" "em_dash = [CHR 0xE2, CHR 0x80, CHR 0x94]" by code_simp+
  have "newline \<notin> set ?n" using n(1) digit_plain by (auto simp: list_all_iff)
  then have "newline \<notin> set u" unfolding u_def c char_codes by auto
  then have un: "\<forall>c \<in> set u. c \<noteq> newline" by auto
  obtain v where v: "u = ''**'' @ v" by (simp add: u_def)
  have "drop_eols (dropWhile (\<lambda>c. c \<noteq> newline) (v @ newline # newline # s)) = s"
    using un v starts_text_simps(1) [OF assms(3)] assms(3)
    by (cases s) (simp_all add: dropWhile_append)
  then show ?thesis
    unfolding warning_here_def line using n(2) digits t v
    by (simp add: Let_def startswith_def)
qed

lemma block_text_plain:
  assumes "list_all is_hex sha" "c \<in> set (zone_open @ newline # zone_block issue sha @ newline # ''-->'')"
  shows "c \<noteq> CHR ''*''"
proof
  assume c: "c = CHR ''*''"
  have "c \<notin> set (show_int issue)" using show_int_plain [of c issue] by (auto simp: c is_digit_def)
  moreover have "c \<notin> set sha" using assms(1) by (auto simp: c list_all_iff dest: hex_plain)
  ultimately show False using assms(2)
    by (simp add: zone_open_def zone_block_text hex_dumps [OF assms(1)] c char_codes)
qed

lemma strip_render:
  assumes "list_all is_hex sha" "0 \<le> issue" "zone_free rem" "starts_text rem"
    "tail = (if rem = [] then [] else newline # newline # rem)"
  shows "strip_zones (render_zone issue sha @ tail) = rem"
proof -
  let ?b = "zone_open @ newline # zone_block issue sha @ newline # ''-->''"
  let ?w = "warning_line issue sha @ [newline, newline]"
  have eq: "render_zone issue sha @ tail = ?w @ (?b @ tail)" by (simp add: render_zone_def)
  have "starts_text (?b @ tail)" by (simp add: starts_text_def zone_open_def)
  then have "warning_here (?w @ (?b @ tail)) = Some (?b @ tail)"
    using warning_here_line [OF assms(1,2)] by simp
  then have w: "sub_all warning_here 0 (?w @ (?b @ tail)) = sub_all warning_here 0 (?b @ tail)"
    by (rule sub_all_match) simp
  have b: "sub_all warning_here 0 (?b @ tail) = ?b @ sub_all warning_here 0 tail"
    using block_text_plain [OF assms(1)] by (intro sub_all_copy no_star) blast
  have t: "sub_all warning_here 0 tail = tail"
    using sub_all_free(1) [OF assms(3)] assms(5) no_star by (simp add: char_codes)
  have "block_here (?b @ tail) = Some (drop_eols tail)"
    using zone_here_block [OF zone_block_lines, of issue sha tail] by (simp add: block_here_def)
  also have "drop_eols tail = rem"
    using starts_text_simps(1) [OF assms(4)] assms(5) by (cases rem) simp_all
  finally have "block_here ((?b @ take (length tail - length rem) tail) @ rem) = Some rem"
    using assms(5) by auto
  then have "sub_all block_here 0 ((?b @ take (length tail - length rem) tail) @ rem) = sub_all block_here 0 rem"
    by (rule sub_all_match) (simp add: zone_open_def)
  then have "sub_all block_here 0 (?b @ tail) = rem" using sub_all_free(2) [OF assms(3)] assms(5) by auto
  then show ?thesis unfolding strip_zones_def eq w b t using starts_text_simps(2) [OF assms(4)] by simp
qed

text \<open>
  On a body that carries no other zone, the last writer wins: replacing or removing the zone that
  \<open>upsert_zone\<close> wrote gives what doing so on the original body gives, so repeated ship rounds never
  stack zones and a retarget restores the body.
\<close>

theorem last_zone_wins:
  assumes "zone_free body" "list_all is_hex (bo_sha b)" "0 \<le> bo_issue b"
  shows "upsert_zone (upsert_zone body (Some b)) next_zone = upsert_zone body next_zone"
proof -
  let ?rem = "dropWhile (\<lambda>c. c = cr \<or> c = newline) body"
  have strip: "strip_zones body = ?rem" by (simp add: strip_zones_def sub_all_free [OF assms(1)])
  have "zone_free ?rem" using zone_free_suffix assms(1) by (metis takeWhile_dropWhile_id)
  then have "strip_zones (render_zone (bo_issue b) (bo_sha b) @ (if ?rem = [] then [] else newline # newline # ?rem)) = ?rem"
    using strip_render [OF assms(2,3)] starts_text_simps(3) by blast
  moreover have "upsert_zone body (Some b)
      = render_zone (bo_issue b) (bo_sha b) @ (if strip_zones body = [] then [] else newline # newline # strip_zones body)"
    by (simp add: upsert_zone_def)
  ultimately have "strip_zones (upsert_zone body (Some b)) = strip_zones body" by (simp only: strip)
  then show ?thesis by (simp only: upsert_zone_def)
qed

lemma last_zone_wins_witness:
  "upsert_zone (upsert_zone ''Fixes the parser'' (Some \<lparr>bo_issue = 12, bo_sha = ''3f9c''\<rparr>)) None
     = upsert_zone ''Fixes the parser'' None"
proof (rule last_zone_wins)
  show "zone_free ''Fixes the parser''" by code_simp
qed (simp_all add: is_hex_def)

text \<open>
  A machine block split around another one survives the removal: \<open>re.sub\<close> does not rescan the text it
  joins, so the body that \<open>upsert_zone (body, None)\<close> returns can still carry a parseable zone.
\<close>

definition nested_body :: string where
  "nested_body = ''<!-- theozolith:bas'' @ zone_open @ [newline] @ ''x'' @ [newline] @ ''-->'' @ ''ed-on'' @ [newline]
     @ zone_block 9 [] @ [newline] @ ''-->''"

lemma nested_zone_survives_removal:
  "parse_zone (upsert_zone nested_body None) = Some \<lparr>bo_issue = 9, bo_sha = []\<rparr>"
proof -
  have "strip_zones nested_body = zone_open @ newline # zone_block 9 [] @ newline # ''-->''" by code_simp
  moreover have "zone_search (zone_open @ newline # zone_block 9 [] @ newline # ''-->'' @ []) = Some (zone_block 9 [])"
    using zone_here_block [OF zone_block_lines, of 9 "[]" "[]"]
    by (cases "zone_open @ newline # zone_block 9 [] @ newline # ''-->'' @ []") (simp_all add: zone_open_def)
  ultimately have "zone_search (upsert_zone nested_body None) = Some (zone_block 9 [])" by (simp add: upsert_zone_def)
  then show ?thesis using json_loads_block [of "[]" 9] by (simp add: parse_zone_def ascii_is_text ascii_def)
qed

end
