(* ===== verification/Janitor.thy ===== *)
theory Janitor
  imports Deps BasedOn Evidence
begin

text \<open>
  The janitor (\<open>control/.../janitor.py\<close>): the two-phase escalation of silent claims, the release of
  grants that were never activated and the base-drift lane, and the pass over every bound repository
  (\<open>_sweep_pass\<close> of \<open>cli.py\<close>). Log lines are left out.
\<close>

subsection \<open>Isolation\<close>

text \<open>\<open>except Exception\<close> around one item of a pass; the marker of a run without end is no exception.\<close>

definition isolated :: "'a \<Rightarrow> 'a run \<Rightarrow> 'a run" where
  "isolated fallback m = catchE m (\<lambda>e. if e = Diverges then raise e else ret fallback)"

text \<open>The items of a pass whose turn answered \<open>True\<close>.\<close>

fun each_kept :: "('a \<Rightarrow> bool run) \<Rightarrow> 'a list \<Rightarrow> 'a list run" where
  "each_kept f [] = ret []"
| "each_kept f (x # xs) =
     bindE (f x) (\<lambda>b. bindE (each_kept f xs) (\<lambda>ys. ret (if b then x # ys else ys)))"

definition popping :: "(store \<Rightarrow> 'a \<times> store) \<Rightarrow> 'a run" where
  "popping f w = (Inr (fst (f (wd_store w))), w\<lparr>wd_store := snd (f (wd_store w))\<rparr>)"

subsection \<open>Silent claims\<close>

definition last_seen :: "live_claim \<Rightarrow> store \<Rightarrow> time" where
  "last_seen c s =
     (let seen = (\<lambda>name t. if name = [] then [] else case t of None \<Rightarrow> [] | Some x \<Rightarrow> [x])
      in fold max (seen (lc_node c) (node_last_seen (lc_node c) s)
           @ seen (lc_driver c) (driver_last_seen (lc_driver c) s)) (lc_last_event_at c))"

fun any_path :: "env \<Rightarrow> repo \<Rightarrow> string list \<Rightarrow> bool run" where
  "any_path env repo [] = ret False"
| "any_path env repo (p # ps) =
     bindE (path_exists env repo p EVIDENCE_BRANCH) (\<lambda>b. if b then ret True else any_path env repo ps)"

definition evidence_landed :: "env \<Rightarrow> repo \<Rightarrow> live_claim \<Rightarrow> bool run" where
  "evidence_landed env repo c =
     any_path env repo
       [run_dir (lc_issue c) (lc_run_id c) @ ''/swept.json'',
        run_dir (lc_issue c) (lc_run_id c) @ ''/run.json'',
        ''sweeps/'' @ lc_run_id c @ ''/swept.json'']"

definition tick :: char where "tick = char_of (96 :: nat)"

definition escalation_comment :: "live_claim \<Rightarrow> repo \<Rightarrow> int \<Rightarrow> string" where
  "escalation_comment c repo silence =
     ''Run '' @ [tick] @ str_or (lc_run_id c) ''unknown'' @ [tick] @ '' (worker ''
     @ str_or (lc_driver c) ''unknown'' @ '') went silent mid-flight ('' @ show_int silence
     @ ''s past its last signal) and its evidence bundle has landed. The claim is released and escalated: ''
     @ [tick] @ FAILED @ [tick] @ '' + '' @ [tick] @ NEEDS_HUMAN @ [tick] @ '' (ADR-0016).''
     @ [newline, newline] @ ''Evidence: '' @ issue_evidence_url repo (lc_issue c)
     @ [newline, newline] @ ''A human re-queues by removing '' @ [tick] @ FAILED @ [tick]
     @ '' and restoring '' @ [tick] @ PLAN_READY @ [tick] @ ''.''"

definition escalation_reason :: "live_claim \<Rightarrow> int \<Rightarrow> int \<Rightarrow> string" where
  "escalation_reason c silence grace =
     ''worker '' @ str_or (lc_driver c) ''unknown'' @ '' silent '' @ show_int silence @ ''s (grace ''
     @ show_int grace @ ''s); run '' @ str_or (lc_run_id c) ''unknown'' @ '' escalated '' @ FAILED
     @ '' + '' @ NEEDS_HUMAN @ '' with swept evidence''"

definition settle :: "env \<Rightarrow> repo \<Rightarrow> live_claim \<Rightarrow> string \<Rightarrow> unit run" where
  "settle env repo c reason =
     bindE (stamping env (\<lambda>t. record_janitor_action t (Some repo) (lc_issue c) (lc_run_id c) (lc_driver c) reason))
       (\<lambda>_. changing (clear_zombie_flag repo (lc_issue c) (lc_run_id c)))"

definition escalate :: "env \<Rightarrow> repo \<Rightarrow> live_claim \<Rightarrow> issue \<Rightarrow> int \<Rightarrow> unit run" where
  "escalate env repo c i silence =
     bindE (add_labels env repo (lc_issue c) [FAILED, NEEDS_HUMAN]) (\<lambda>_.
     bindE (add_comment env repo (lc_issue c) (escalation_comment c repo silence)) (\<lambda>_.
     bindE (each (is_assignees i) (remove_assignee env repo (lc_issue c))) (\<lambda>_.
       remove_label env repo (lc_issue c) IN_PROGRESS)))"

definition finish_claim :: "env \<Rightarrow> repo \<Rightarrow> int \<Rightarrow> live_claim \<Rightarrow> issue \<Rightarrow> int \<Rightarrow> bool run" where
  "finish_claim env repo grace c i silence =
     bindE (escalate env repo c i silence) (\<lambda>_.
     bindE (settle env repo c (escalation_reason c silence grace)) (\<lambda>_. ret True))"

definition sweep_one :: "env \<Rightarrow> repo \<Rightarrow> int \<Rightarrow> live_claim \<Rightarrow> bool run" where
  "sweep_one env repo grace c =
     bindE (reading (janitor_acted repo (lc_issue c) (lc_run_id c))) (\<lambda>acted.
     if acted then ret False
     else bindE (now env) (\<lambda>t.
     bindE (reading (last_seen c)) (\<lambda>seen.
     if t - seen \<le> grace
     then bindE (changing (clear_zombie_flag repo (lc_issue c) (lc_run_id c))) (\<lambda>_. ret False)
     else bindE (stamping env (\<lambda>t. flag_zombie t repo (lc_issue c) (lc_run_id c) (lc_driver c) (lc_node c))) (\<lambda>_.
     bindE (get_issue env repo (lc_issue c)) (\<lambda>i.
     if IN_PROGRESS \<notin> set (is_labels i) \<and> is_assignees i = []
     then bindE (settle env repo c ''claim already released on GitHub'') (\<lambda>_. ret False)
     else bindE (find_open_pr_by_head env repo (branch_for (lc_issue c))) (\<lambda>pr.
     case (case pr of None \<Rightarrow> None | Some p \<Rightarrow> if PR_READY \<in> set (pr_labels p) then Some p else None) of
       Some p \<Rightarrow> bindE (settle env repo c (''skipped: PR #'' @ show_int (pr_number p) @ '' is pr_ready'')) (\<lambda>_. ret False)
     | None \<Rightarrow>
         bindE (evidence_landed env repo c) (\<lambda>landed.
         if \<not> landed then ret False
         else finish_claim env repo grace c i (t - seen))))))))"

definition sweep :: "env \<Rightarrow> repo \<Rightarrow> int \<Rightarrow> live_claim list run" where
  "sweep env repo grace =
     bindE (reading (\<lambda>s. filter (\<lambda>c. lc_repo c = repo) (live_claims s)))
       (each_kept (\<lambda>c. isolated False (sweep_one env repo grace c)))"

subsection \<open>Base drift\<close>

definition drift_comment :: "based_on \<Rightarrow> int \<Rightarrow> string \<Rightarrow> string" where
  "drift_comment based blocker_pr tip =
     ''Base drift (ADR-0053): this PR is based on issue #'' @ show_int (bo_issue based) @ [char_of (39 :: nat)]
     @ ''s branch (PR #'' @ show_int blocker_pr @ ''), whose tip was '' @ [tick] @ bo_sha based @ [tick]
     @ '' when this work was checked out '' @ em_dash @ '' but the branch has since moved to ''
     @ [tick] @ tip @ [tick] @ ''. The diff and any review no longer frame against the base this PR was built on.''
     @ [newline, newline] @ ''No auto-repair: a human decides '' @ em_dash
     @ '' re-queue the dependent so a fresh Run rebuilds against the new base, or rule the drift immaterial and proceed.''
     @ [newline, newline] @ ''Applied '' @ [tick] @ BLOCKED @ [tick] @ '' + '' @ [tick] @ NEEDS_HUMAN @ [tick] @ ''.''"

definition rejected_state :: "pull_request option \<Rightarrow> string" where
  "rejected_state blocker_pr =
     (case blocker_pr of
        None \<Rightarrow> []
      | Some p \<Rightarrow> if pr_state p \<noteq> ''open'' \<and> \<not> pr_merged p then ''closed unmerged''
                 else if pr_state p = ''open'' \<and> BLOCKED \<in> set (pr_labels p) then ''blocked'' else [])"

definition drift_key :: "string \<Rightarrow> string \<Rightarrow> string" where
  "drift_key sha tip = ''base-drift-'' @ take_points 12 sha @ ''-'' @ take_points 12 tip"

definition comment_key :: "string \<Rightarrow> string" where
  "comment_key key = key @ ''-comment''"

definition ledger :: "env \<Rightarrow> repo \<Rightarrow> int \<Rightarrow> string \<Rightarrow> string \<Rightarrow> unit run" where
  "ledger env repo n key reason = stamping env (\<lambda>t. record_janitor_action t (Some repo) n key [] reason)"

definition healed_reason :: "int \<Rightarrow> string \<Rightarrow> string \<Rightarrow> string" where
  "healed_reason n sha tip =
     ''base-drift escalation on PR #'' @ show_int n @ '' recovered as already complete ('' @ take_points 12 sha
     @ '' -> '' @ take_points 12 tip @ ''): label present and forensic comment recorded; ledger healed, no write''"

definition drift_reason :: "int \<Rightarrow> based_on \<Rightarrow> int \<Rightarrow> string \<Rightarrow> string" where
  "drift_reason n based blocker_pr tip =
     ''base drift on PR #'' @ show_int n @ '': blocker #'' @ show_int (bo_issue based) @ '' (PR #''
     @ show_int blocker_pr @ '') moved '' @ take_points 12 (bo_sha based) @ '' -> '' @ take_points 12 tip
     @ ''; escalated '' @ BLOCKED @ '' + '' @ NEEDS_HUMAN @ '' (ADR-0053, no auto-repair)''"

text \<open>The act of one drift, under its key of both commits.\<close>

definition act_on_drift :: "env \<Rightarrow> repo \<Rightarrow> pull_request \<Rightarrow> based_on \<Rightarrow> pull_request \<Rightarrow> string \<Rightarrow> bool run" where
  "act_on_drift env repo pr based blocker_pr tip =
     (let key = drift_key (bo_sha based) tip; n = pr_number pr in
      bindE (reading (janitor_acted repo n key)) (\<lambda>acted.
      if acted then ret False
      else bindE (reading (janitor_acted repo n (comment_key key))) (\<lambda>comment_recorded.
      if BLOCKED \<in> set (pr_labels pr)
      then (if comment_recorded
            then bindE (ledger env repo n key (healed_reason n (bo_sha based) tip)) (\<lambda>_. ret False)
            else ret False)
      else bindE (if comment_recorded then ret ()
                  else bindE (add_comment env repo n (drift_comment based (pr_number blocker_pr) tip)) (\<lambda>_.
                         ledger env repo n (comment_key key) (''base-drift forensic comment on PR #'' @ show_int n)))
        (\<lambda>_. bindE (add_labels env repo n [BLOCKED, NEEDS_HUMAN]) (\<lambda>_.
             bindE (ledger env repo n key (drift_reason n based (pr_number blocker_pr) tip)) (\<lambda>_. ret True))))))"

definition drift_one :: "env \<Rightarrow> repo \<Rightarrow> pull_request \<Rightarrow> bool run" where
  "drift_one env repo pr =
     (case parse_zone (pr_body pr) of
        None \<Rightarrow> bindE (changing (clear_chained_dependent repo (pr_number pr))) (\<lambda>_. ret False)
      | Some based \<Rightarrow>
          bindE (find_pr_by_head env repo (branch_for (bo_issue based)) ''all'') (\<lambda>blocker_pr.
          if rejected_state blocker_pr \<noteq> []
          then bindE (stamping env (\<lambda>t. record_chained_dependent t repo (pr_number pr) (bo_issue based)
                 (pr_number (the blocker_pr)) (rejected_state blocker_pr) (bo_sha based))) (\<lambda>_. ret False)
          else bindE (changing (clear_chained_dependent repo (pr_number pr))) (\<lambda>_.
               case blocker_pr of
                 None \<Rightarrow> ret False
               | Some b \<Rightarrow>
                   if pr_state b \<noteq> ''open'' then ret False
                   else bindE (branch_head env repo (branch_for (bo_issue based))) (\<lambda>tip.
                     case tip of
                       None \<Rightarrow> ret False
                     | Some t \<Rightarrow> if t = bo_sha based then ret False
                                else act_on_drift env repo pr based b t))))"

definition drop_chained :: "repo \<Rightarrow> int set \<Rightarrow> store \<Rightarrow> store" where
  "drop_chained repo seen s =
     fold (\<lambda>n t. if n \<in> seen then t else clear_chained_dependent repo n t)
       (map cd_dependent_pr (chained_dependents (Some repo) s)) s"

definition sweep_base_drift :: "env \<Rightarrow> repo \<Rightarrow> pull_request list run" where
  "sweep_base_drift env repo =
     bindE (isolated None (bindE (list_open_prs env repo) (\<lambda>prs. ret (Some prs)))) (\<lambda>listing.
       case listing of
         None \<Rightarrow> ret []
       | Some prs \<Rightarrow>
           bindE (each_kept (\<lambda>pr. isolated False (drift_one env repo pr)) prs) (\<lambda>acted.
           bindE (changing (drop_chained repo (pr_number ` set prs))) (\<lambda>_. ret acted)))"

subsection \<open>Grants never activated\<close>

definition unwind :: "env \<Rightarrow> repo \<Rightarrow> int \<Rightarrow> unit run" where
  "unwind env repo number =
     bindE (get_issue env repo number) (\<lambda>i.
     bindE (each (is_assignees i) (remove_assignee env repo number)) (\<lambda>_.
     bindE (remove_label env repo number IN_PROGRESS) (\<lambda>_.
       add_labels env repo number [PLAN_READY])))"

definition never_activated_reason :: "grant_row \<Rightarrow> int \<Rightarrow> string" where
  "never_activated_reason g window_seconds =
     ''released never-activated grant to '' @ gr_worker g @ '' (no claimed event within ''
     @ show_int window_seconds @ ''s)''"

definition release_one :: "env \<Rightarrow> repo \<Rightarrow> int \<Rightarrow> (repo \<times> int) set \<Rightarrow> grant_row \<Rightarrow> bool run" where
  "release_one env repo window_seconds live g =
     (let number = gr_issue g in
      if gr_repo g \<noteq> repo then ret False
      else if (gr_repo g, number) \<in> live
      then bindE (popping (release_grant (gr_repo g) number)) (\<lambda>_. ret False)
      else bindE (catchE
             (bindE (popping (release_grant (gr_repo g) number)) (\<lambda>existed.
                if existed then bindE (unwind env repo number) (\<lambda>_. ret True) else ret False))
             (\<lambda>e. if e = Diverges then raise e
                  else bindE (stamping env (\<lambda>t. record_grant t (gr_repo g) number (gr_worker g) (gr_node g) (gr_login g)))
                         (\<lambda>_. ret False))) (\<lambda>done.
           if done
           then bindE (stamping env (\<lambda>t. record_janitor_action t (Some (gr_repo g)) number ''(never-activated)''
                  (gr_worker g) (never_activated_reason g window_seconds))) (\<lambda>_. ret True)
           else ret False))"

definition release_never_activated :: "env \<Rightarrow> repo \<Rightarrow> int \<Rightarrow> grant_row list run" where
  "release_never_activated env repo window_seconds =
     bindE (reading (\<lambda>s. (\<lambda>c. (lc_repo c, lc_issue c)) ` set (live_claims s))) (\<lambda>live.
     bindE (now env) (\<lambda>t.
     bindE (reading (expired_grants t window_seconds))
       (each_kept (release_one env repo window_seconds live))))"

subsection \<open>A pass over the bound repositories\<close>

record janitor_settings =
  js_grace :: int
  js_window :: int
  js_budget :: int

definition sweep_repo :: "env \<Rightarrow> janitor_settings \<Rightarrow> repo \<Rightarrow> unit run" where
  "sweep_repo env settings repo =
     isolated () (bindE (new_client repo) (\<lambda>_.
       bindE (sweep env repo (js_grace settings)) (\<lambda>_.
       bindE (release_never_activated env repo (js_window settings)) (\<lambda>_.
       bindE (sweep_base_drift env repo) (\<lambda>_. ret ())))))"

text \<open>\<open>bound\<close> is \<open>None\<close> when the configuration cannot be read.\<close>

definition sweep_pass :: "env \<Rightarrow> janitor_settings \<Rightarrow> repo list option \<Rightarrow> bool \<Rightarrow> unit run" where
  "sweep_pass env settings bound evict =
     bindE (each (case bound of None \<Rightarrow> [] | Some repos \<Rightarrow> repos) (sweep_repo env settings)) (\<lambda>_.
       if evict then bindE (now env) (\<lambda>t. bindE (popping (evict_progress t (js_budget settings))) (\<lambda>_. ret ()))
       else ret ())"

end
