(* ===== verification/Janitor_Safety.thy ===== *)
theory Janitor_Safety
  imports Write_Plans Janitor
begin

text \<open>
  What the janitor may do, for every behaviour of GitHub: it writes to a silent claim only after its
  evidence was found, forensics and labels first; it acts once; a released grant is unwound in full or
  put back; a drift is commented before it is labelled and never twice; one item's trouble ends there.
\<close>

subsection \<open>Reads\<close>

definition only_gets :: "world \<Rightarrow> world \<Rightarrow> bool" where
  "only_gets w w' \<longleftrightarrow>
     (\<exists>rs. wd_requests w' = wd_requests w @ rs \<and> (\<forall>rq \<in> set rs. rq_method rq = ''GET''))"

interpretation look: frame only_gets
  by unfold_locales (auto simp: only_gets_def)

lemma look_of_gets: "gets.kept_by m \<Longrightarrow> look.kept_by m"
  unfolding gets.kept_by_def look.kept_by_def only_gets_def reads_only_def by blast

lemma look_store_ops [intro]: "look.kept_by (changing f)" "look.kept_by (stamping env g)" "look.kept_by (popping p)"
  by (rule look.kept_byI, simp add: only_gets_def popping_def)+

lemma look_now [intro]: "look.kept_by (now env)"
  by (rule look_of_gets) blast

lemma gets_any_path [intro]: "gets.kept_by (any_path env repo ps)"
  by (induction ps) (auto intro!: gets.kept_bind gets_reads)

lemma gets_evidence [intro]: "gets.kept_by (evidence_landed env repo c)"
  unfolding evidence_landed_def by blast

lemma gets_same_store: "gets.kept_by m \<Longrightarrow> m w = (r, w') \<Longrightarrow> wd_store w' = wd_store w"
  using gets.kept_byD by (auto simp: reads_only_def)

lemma look_settle [intro]: "look.kept_by (settle env repo c reason)"
  unfolding settle_def by (intro look.kept_bind look_store_ops)

subsection \<open>Silent claims\<close>

definition release_plan :: "repo \<Rightarrow> live_claim \<Rightarrow> issue \<Rightarrow> int \<Rightarrow> request list" where
  "release_plan repo c i silence =
     [label_request repo (lc_issue c) [FAILED, NEEDS_HUMAN],
      comment_request repo (lc_issue c) (escalation_comment c repo silence)]
     @ map (unassign_request repo (lc_issue c)) (is_assignees i)
     @ [unlabel_request repo (lc_issue c) IN_PROGRESS]"

lemma escalate_follows: "follows (release_plan repo c i silence) (escalate env repo c i silence)"
proof -
  let ?n = "lc_issue c"
  have "follows (map (unassign_request repo ?n) (is_assignees i) @ [unlabel_request repo ?n IN_PROGRESS])
      (bindE (each (is_assignees i) (remove_assignee env repo ?n)) (\<lambda>_. remove_label env repo ?n IN_PROGRESS))"
    by (intro follows_bind follows_each follows_writes)
  from follows_bind [OF follows_writes(5) this]
  have "follows ([comment_request repo ?n (escalation_comment c repo silence)]
        @ map (unassign_request repo ?n) (is_assignees i) @ [unlabel_request repo ?n IN_PROGRESS])
      (bindE (add_comment env repo ?n (escalation_comment c repo silence)) (\<lambda>_.
        bindE (each (is_assignees i) (remove_assignee env repo ?n)) (\<lambda>_. remove_label env repo ?n IN_PROGRESS)))" .
  from follows_bind [OF follows_writes(3) this] show ?thesis
    by (simp add: release_plan_def escalate_def)
qed

definition silence :: "env \<Rightarrow> live_claim \<Rightarrow> world \<Rightarrow> int" where
  "silence env c w = en_clock env (wd_ticks w) - last_seen c (wd_store w)"

text \<open>
  The reads of one turn, each in the world the one before left: the issue, which is still claimed, its open pull
  request, which is not \<open>pr_ready\<close> if there is one, and the evidence, which has landed.
\<close>

definition checked :: "env \<Rightarrow> repo \<Rightarrow> live_claim \<Rightarrow> world \<Rightarrow> issue \<Rightarrow> world \<Rightarrow> bool" where
  "checked env repo c u i b \<longleftrightarrow>
     (\<exists>v pr a. get_issue env repo (lc_issue c) u = (Inr i, v)
        \<and> (IN_PROGRESS \<in> set (is_labels i) \<or> is_assignees i \<noteq> [])
        \<and> find_open_pr_by_head env repo (branch_for (lc_issue c)) v = (Inr pr, a)
        \<and> (case pr of None \<Rightarrow> True | Some p \<Rightarrow> PR_READY \<notin> set (pr_labels p))
        \<and> evidence_landed env repo c a = (Inr True, b))"

definition released ::
  "env \<Rightarrow> repo \<Rightarrow> int \<Rightarrow> live_claim \<Rightarrow> world \<Rightarrow> exn + bool \<Rightarrow> world \<Rightarrow> bool" where
  "released env repo grace c w r w' \<longleftrightarrow>
     grace < silence env c w \<and> \<not> janitor_acted repo (lc_issue c) (lc_run_id c) (wd_store w)
     \<and> (\<exists>u i b rs. wd_requests u = wd_requests w \<and> checked env repo c u i b \<and> only_gets w b
          \<and> wd_requests w' = wd_requests b @ rs \<and> sent_of (release_plan repo c i (silence env c w)) rs
          \<and> (case r of Inl e \<Rightarrow> True
             | Inr x \<Rightarrow> x \<and> all_sent (release_plan repo c i (silence env c w)) rs
                  \<and> janitor_acted repo (lc_issue c) (lc_run_id c) (wd_store w')))"

lemma settle_acted:
  "settle env repo c reason w = (r, w') \<Longrightarrow>
     r = Inr () \<and> wd_requests w' = wd_requests w \<and> janitor_acted repo (lc_issue c) (lc_run_id c) (wd_store w')"
  by (auto simp: settle_def record_janitor_action_def janitor_acted_def clear_zombie_flag_def)

lemma finish_released:
  assumes "finish_claim env repo grace c i (silence env c w) b = (r, w')"
    "grace < silence env c w" "\<not> janitor_acted repo (lc_issue c) (lc_run_id c) (wd_store w)"
    "wd_requests u = wd_requests w" "checked env repo c u i b" "only_gets w b"
  shows "released env repo grace c w r w'"
  using assms(1) unfolding finish_claim_def
proof (cases rule: bindE_cases)
  case (fail e)
  obtain rs where rs: "wd_requests w' = wd_requests b @ rs" "sent_of (release_plan repo c i (silence env c w)) rs"
    by (rule followsE [OF escalate_follows fail(1)])
  show ?thesis unfolding released_def
    by (intro conjI assms(2,3), rule exI [of _ u], rule exI [of _ i], rule exI [of _ b], rule exI [of _ rs])
      (use rs assms(4-6) fail(2) in simp)
next
  case (step x v)
  obtain rs where rs: "wd_requests v = wd_requests b @ rs" "all_sent (release_plan repo c i (silence env c w)) rs"
    using followsE [OF escalate_follows step(1)] by metis
  from step(2) obtain y where y: "settle env repo c (escalation_reason c (silence env c w) grace) v = (Inr (), y)" "r = Inr True" "w' = y"
    by (cases rule: bindE_cases) (auto dest: settle_acted)
  show ?thesis unfolding released_def
    by (intro conjI assms(2,3), rule exI [of _ u], rule exI [of _ i], rule exI [of _ b], rule exI [of _ rs])
      (use rs all_sent_sent settle_acted [OF y(1)] assms(4-6) y(2,3) in simp)
qed

lemma sweep_one_outcome:
  assumes run: "sweep_one env repo grace c w = (r, w')"
  shows "(only_gets w w' \<and> r \<noteq> Inr True) \<or> released env repo grace c w r w'"
proof -
  let ?t = "en_clock env (wd_ticks w)" and ?n = "lc_issue c"
  let ?silence = "?t - last_seen c (wd_store w)"
  let ?w1 = "w\<lparr>wd_ticks := wd_ticks w + 1\<rparr>"
  let ?flag = "\<lambda>t. flag_zombie t repo ?n (lc_run_id c) (lc_driver c) (lc_node c)"
  consider (acted) "janitor_acted repo ?n (lc_run_id c) (wd_store w)"
    | (fresh) "\<not> janitor_acted repo ?n (lc_run_id c) (wd_store w)" "?silence \<le> grace"
    | (silent) "\<not> janitor_acted repo ?n (lc_run_id c) (wd_store w)" "\<not> ?silence \<le> grace" by blast
  then show ?thesis
  proof cases
    case acted
    then show ?thesis using run by (simp add: sweep_one_def look.refl)
  next
    case fresh
    then show ?thesis using run unfolding sweep_one_def bindE_reading bindE_now wd_store_ticks by (auto simp: only_gets_def)
  next
    case silent
    let ?w2 = "stamped env ?flag ?w1"
    have g2: "only_gets w ?w2" by (simp add: only_gets_def)
    have "bindE (get_issue env repo ?n) (\<lambda>i.
     if IN_PROGRESS \<notin> set (is_labels i) \<and> is_assignees i = []
     then bindE (settle env repo c ''claim already released on GitHub'') (\<lambda>_. ret False)
     else bindE (find_open_pr_by_head env repo (branch_for ?n)) (\<lambda>pr.
     case (case pr of None \<Rightarrow> None | Some p \<Rightarrow> if PR_READY \<in> set (pr_labels p) then Some p else None) of
       Some p \<Rightarrow> bindE (settle env repo c (''skipped: PR #'' @ show_int (pr_number p) @ '' is pr_ready'')) (\<lambda>_. ret False)
     | None \<Rightarrow>
         bindE (evidence_landed env repo c) (\<lambda>landed.
         if \<not> landed then ret False else finish_claim env repo grace c i ?silence))) ?w2 = (r, w')"
      using run silent unfolding sweep_one_def bindE_reading bindE_now wd_store_ticks by simp
    then show ?thesis
    proof (cases rule: bindE_cases)
      case (fail e)
      then have "only_gets ?w2 w'" using look.kept_byD [OF look_of_gets [OF gets_reads(6)]] by blast
      then show ?thesis using g2 look.trans fail(2) by blast
    next
      case (step i w3)
      note issue = step(1)
      from step have g3: "only_gets w w3" using g2 look.trans look.kept_byD [OF look_of_gets [OF gets_reads(6)]] by blast
      show ?thesis
      proof (cases "IN_PROGRESS \<notin> set (is_labels i) \<and> is_assignees i = []")
        case True
        then have "bindE (settle env repo c ''claim already released on GitHub'') (\<lambda>_. ret False) w3 = (r, w')"
          using step(2) by simp
        moreover from this have "only_gets w3 w'" using look.kept_byD look.kept_bind look_settle look.kept_ret by metis
        ultimately show ?thesis using g3 look.trans by (auto elim: bindE_cases)
      next
        case busy: False
        then have "bindE (find_open_pr_by_head env repo (branch_for ?n)) (\<lambda>pr.
     case (case pr of None \<Rightarrow> None | Some p \<Rightarrow> if PR_READY \<in> set (pr_labels p) then Some p else None) of
       Some p \<Rightarrow> bindE (settle env repo c (''skipped: PR #'' @ show_int (pr_number p) @ '' is pr_ready'')) (\<lambda>_. ret False)
     | None \<Rightarrow>
         bindE (evidence_landed env repo c) (\<lambda>landed.
         if \<not> landed then ret False else finish_claim env repo grace c i ?silence)) w3 = (r, w')"
          using step(2) by auto
        then show ?thesis
        proof (cases rule: bindE_cases)
          case (fail e)
          then have "only_gets w3 w'" using look.kept_byD [OF look_of_gets [OF gets_reads(9)]] by blast
          then show ?thesis using g3 look.trans fail(2) by blast
        next
          case (step pr w4)
          note found = step(1)
          from step have g4: "only_gets w w4" using g3 look.trans look.kept_byD [OF look_of_gets [OF gets_reads(9)]] by blast
          show ?thesis
          proof (cases "case pr of None \<Rightarrow> None | Some p \<Rightarrow> if PR_READY \<in> set (pr_labels p) then Some p else None")
            case (Some p)
            then have "bindE (settle env repo c (''skipped: PR #'' @ show_int (pr_number p) @ '' is pr_ready'')) (\<lambda>_. ret False) w4 = (r, w')"
              using step(2) by simp
            moreover from this have "only_gets w4 w'" using look.kept_byD look.kept_bind look_settle look.kept_ret by metis
            ultimately show ?thesis using g4 look.trans by (auto elim: bindE_cases)
          next
            case None
            then have "bindE (evidence_landed env repo c) (\<lambda>landed.
              if \<not> landed then ret False else finish_claim env repo grace c i ?silence) w4 = (r, w')"
              using step(2) by simp
            then show ?thesis
            proof (cases rule: bindE_cases)
              case (fail e)
              then have "only_gets w4 w'" using look.kept_byD [OF look_of_gets [OF gets_evidence]] by blast
              then show ?thesis using g4 look.trans fail(2) by blast
            next
              case (step landed w5)
              have g5: "only_gets w w5"
                using g4 look.trans look.kept_byD [OF look_of_gets [OF gets_evidence] step(1)] by blast
              show ?thesis
              proof (cases landed)
                case True
                have "checked env repo c ?w2 i w5"
                  unfolding checked_def
                  by (rule exI [of _ w3], rule exI [of _ pr], rule exI [of _ w4])
                    (use issue found step(1) True busy None in \<open>auto split: option.splits if_splits\<close>)
                moreover have "finish_claim env repo grace c i (silence env c w) w5 = (r, w')"
                  using step(2) True by (simp add: silence_def)
                ultimately show ?thesis
                  using finish_released [of env repo grace c i w w5 r w' ?w2] g5 silent by (simp add: silence_def)
              next
                case False
                then show ?thesis using step g5 by auto
              qed
            qed
          qed
        qed
      qed
    qed
  qed
qed

text \<open>
  C10: The janitor writes to GitHub in a turn only for a claim that is not in its ledger and silent for longer
  than the grace, and only after three reads of this turn, one after the other: the issue, which is still
  claimed, its open pull request, which is not \<open>pr_ready\<close>, and the Run's evidence, which is on the evidence
  branch. It then sends \<open>failed\<close> and \<open>needs_human\<close>, the comment, the removal of each assignee the read
  issue has, and the removal of \<open>in_progress\<close>, in this order, each at least once and none skipped, up to
  where GitHub stops it; an escalation that is reported sent all of them and is in the ledger. Every other
  turn only reads GitHub and reports nothing.
\<close>

theorem escalation_is_evidence_first:
  "case sweep_one env repo grace c w of (r, w') \<Rightarrow>
     (only_gets w w' \<and> r \<noteq> Inr True) \<or> released env repo grace c w r w'"
  using sweep_one_outcome by (auto split: prod.split)

text \<open>
  C11: A claim the janitor escalated is never touched again: while the ledger keeps its rows, every later
  turn on it, with whatever GitHub and clock, sends nothing and changes nothing.
\<close>

theorem escalated_claim_is_left_alone:
  assumes "sweep_one env repo grace c w = (Inr True, w')"
    "set (t_janitor_actions (wd_store w')) \<subseteq> set (t_janitor_actions (wd_store u))"
  shows "sweep_one env' repo grace' c u = (Inr False, u)"
proof -
  have "released env repo grace c w (Inr True) w'" using sweep_one_outcome [OF assms(1)] by simp
  then have "janitor_acted repo (lc_issue c) (lc_run_id c) (wd_store w')" by (auto simp: released_def)
  then have "janitor_acted repo (lc_issue c) (lc_run_id c) (wd_store u)"
    using assms(2) by (auto simp: janitor_acted_def list_ex_iff)
  then show ?thesis by (simp add: sweep_one_def)
qed

definition demo_zombie :: live_claim where
  "demo_zombie = \<lparr>lc_repo = ''o/r'', lc_issue = 7, lc_driver = ''w'', lc_node = ''n1'', lc_run_id = ''r1'',
     lc_last_event_at = 0\<rparr>"

definition demo_swept :: env where
  "demo_swept = \<lparr>en_clock = (\<lambda>n. 1000 + int n),
     en_transport = (\<lambda>_ rq. Inr \<lparr>rp_status = 200, rp_headers = [],
        rp_body = (if rq_path rq = ''/repos/o/r/issues/7'' then ''{'' @ [dquote] @ ''number'' @ [dquote] @ '':7,'' @ [dquote]
                     @ ''labels'' @ [dquote] @ '':[{'' @ [dquote] @ ''name'' @ [dquote] @ '':'' @ [dquote] @ ''in_progress'' @ [dquote] @ ''}]}''
                   else [])\<rparr>),
     en_git = (\<lambda>_ _. Inl (Other_Error [])), en_touch = (\<lambda>_ _. None), en_emit = (\<lambda>_. True), en_fuel = 4, en_depth = 50\<rparr>"

lemma demo_escalation: "fst (sweep_one demo_swept ''o/r'' 60 demo_zombie (world_of empty_store)) = Inr True"
  by code_simp

lemma escalated_claim_is_left_alone_witness:
  "\<exists>u. sweep_one demo_swept ''o/r'' 60 demo_zombie u = (Inr False, u)"
  using escalated_claim_is_left_alone [OF prod.collapse [symmetric, of "sweep_one demo_swept ''o/r'' 60 demo_zombie (world_of empty_store)", unfolded demo_escalation] subset_refl]
  by blast

subsection \<open>Isolation\<close>

lemma isolated_result:
  assumes "isolated x m w = (r, w')"
  shows "r = Inl Diverges \<or> (\<exists>y. r = Inr y)"
  using assms unfolding isolated_def by (cases rule: catchE_cases) (auto split: if_splits)

lemma each_kept_result:
  assumes "\<And>x w r w'. f x w = (r, w') \<Longrightarrow> r = Inl Diverges \<or> (\<exists>y. r = Inr y)"
  shows "each_kept f xs w = (r, w') \<Longrightarrow> r = Inl Diverges \<or> (\<exists>y. r = Inr y)"
proof (induction xs arbitrary: w r w')
  case (Cons x xs)
  from Cons.prems show ?case unfolding each_kept.simps
  proof (cases rule: bindE_cases)
    case (fail e)
    then show ?thesis using assms by blast
  next
    case (step b w1)
    from step(2) show ?thesis
    proof (cases rule: bindE_cases)
      case (fail e)
      then show ?thesis using Cons.IH by blast
    qed simp
  qed
qed simp

lemma each_result:
  assumes "\<And>x w r w'. f x w = (r, w') \<Longrightarrow> r = Inl Diverges \<or> r = Inr ()"
  shows "each xs f w = (r, w') \<Longrightarrow> r = Inl Diverges \<or> r = Inr ()"
proof (induction xs arbitrary: w r w')
  case (Cons x xs)
  from Cons.prems show ?case unfolding each.simps
  proof (cases rule: bindE_cases)
    case (fail e)
    then show ?thesis using assms by blast
  qed (use Cons.IH in blast)
qed simp

text \<open>
  C14: No claim, grant, pull request or repository stops a pass: whatever GitHub answers, the janitor's
  pass over all bound repositories returns, unless an exchange never ends.
\<close>

theorem janitor_pass_survives_everything:
  "fst (sweep_pass env settings bound evict w) \<in> {Inr (), Inl Diverges}"
proof -
  let ?m = "each (case bound of None \<Rightarrow> [] | Some repos \<Rightarrow> repos) (sweep_repo env settings)"
  obtain r w' where run: "sweep_pass env settings bound evict w = (r, w')" by (rule prod.exhaust)
  have one: "x = Inl Diverges \<or> x = Inr ()" if "sweep_repo env settings repo v = (x, v')" for repo v x v'
    using that isolated_result unfolding sweep_repo_def by fastforce
  from run have "r = Inl Diverges \<or> r = Inr ()" unfolding sweep_pass_def
  proof (cases rule: bindE_cases)
    case (fail e)
    then show ?thesis using each_result one by blast
  next
    case (step x w1)
    then show ?thesis by (cases evict) (auto simp: bindE_def now_def popping_def)
  qed
  then show ?thesis using run by auto
qed

subsection \<open>Grants never activated\<close>

definition unwind_plan :: "repo \<Rightarrow> int \<Rightarrow> issue \<Rightarrow> request list" where
  "unwind_plan repo n i = map (unassign_request repo n) (is_assignees i)
     @ [unlabel_request repo n IN_PROGRESS, label_request repo n [PLAN_READY]]"

text \<open>
  What an unwind read and sent: the issue, which the plan is made from, and the plan in full; or what it got to
  before GitHub stopped it. \<open>get_issue\<close> runs where no request but those of \<open>w\<close> has been sent.
\<close>

definition fully_unwound :: "env \<Rightarrow> repo \<Rightarrow> int \<Rightarrow> world \<Rightarrow> world \<Rightarrow> bool" where
  "fully_unwound env repo n w w' \<longleftrightarrow>
     (\<exists>u i v rs. wd_requests u = wd_requests w \<and> get_issue env repo n u = (Inr i, v)
        \<and> wd_requests w' = wd_requests v @ rs \<and> all_sent (unwind_plan repo n i) rs)"

definition stopped_unwinding :: "env \<Rightarrow> repo \<Rightarrow> int \<Rightarrow> world \<Rightarrow> world \<Rightarrow> bool" where
  "stopped_unwinding env repo n w w' \<longleftrightarrow>
     (\<exists>u r v rs. wd_requests u = wd_requests w \<and> get_issue env repo n u = (r, v)
        \<and> wd_requests w' = wd_requests v @ rs
        \<and> (case r of Inl e \<Rightarrow> rs = [] | Inr i \<Rightarrow> sent_of (unwind_plan repo n i) rs))"

lemma unwind_end:
  assumes "unwind env repo n w = (r, w')"
  shows "wd_store w' = wd_store w"
    and "case r of Inl e \<Rightarrow> stopped_unwinding env repo n w w' | Inr x \<Rightarrow> fully_unwound env repo n w w'"
proof -
  have fl: "follows (unwind_plan repo n i) (bindE (each (is_assignees i) (remove_assignee env repo n))
      (\<lambda>_. bindE (remove_label env repo n IN_PROGRESS) (\<lambda>_. add_labels env repo n [PLAN_READY])))" for i
  proof -
    have "follows ([unlabel_request repo n IN_PROGRESS] @ [label_request repo n [PLAN_READY]])
        (bindE (remove_label env repo n IN_PROGRESS) (\<lambda>_. add_labels env repo n [PLAN_READY]))"
      by (intro follows_bind follows_writes)
    then show ?thesis unfolding unwind_plan_def by (intro follows_bind follows_each follows_writes) simp
  qed
  have "wd_store w' = wd_store w
     \<and> (case r of Inl e \<Rightarrow> stopped_unwinding env repo n w w' | Inr x \<Rightarrow> fully_unwound env repo n w w')"
    using assms unfolding unwind_def
  proof (cases rule: bindE_cases)
    case (fail e)
    then have "stopped_unwinding env repo n w w'" unfolding stopped_unwinding_def
      by (intro exI [of _ w] exI [of _ "Inl e"] exI [of _ w'] exI [of _ "[]"]) simp
    then show ?thesis using fail gets_same_store [OF gets_reads(6)] by simp
  next
    case (step i w1)
    obtain rs where rs: "wd_store w' = wd_store w1" "wd_requests w' = wd_requests w1 @ rs" "sent_of (unwind_plan repo n i) rs"
      "\<And>x. r = Inr x \<Longrightarrow> all_sent (unwind_plan repo n i) rs" using followsE [OF fl step(2)] by metis
    show ?thesis
    proof (cases r)
      case (Inl e)
      have "stopped_unwinding env repo n w w'" unfolding stopped_unwinding_def
        by (rule exI [of _ w], rule exI [of _ "Inr i"], rule exI [of _ w1], rule exI [of _ rs])
          (use step(1) rs in simp)
      then show ?thesis using Inl rs(1) gets_same_store [OF gets_reads(6) step(1)] by simp
    next
      case (Inr x)
      have "fully_unwound env repo n w w'" unfolding fully_unwound_def
        by (rule exI [of _ w], rule exI [of _ i], rule exI [of _ w1], rule exI [of _ rs])
          (use step(1) rs Inr in simp)
      then show ?thesis using Inr rs(1) gets_same_store [OF gets_reads(6) step(1)] by simp
    qed
  qed
  then show "wd_store w' = wd_store w"
    "case r of Inl e \<Rightarrow> stopped_unwinding env repo n w w' | Inr x \<Rightarrow> fully_unwound env repo n w w'"
    by blast+
qed

lemma unwound_frame:
  assumes "wd_requests w1 = wd_requests w" "wd_requests w2 = wd_requests w'"
  shows "fully_unwound env repo n w w' = fully_unwound env repo n w1 w2"
    "stopped_unwinding env repo n w w' = stopped_unwinding env repo n w1 w2"
  unfolding fully_unwound_def stopped_unwinding_def assms by (rule refl)+

lemma keys_ledger [simp]:
  "grant_keys (record_janitor_action t r n run worker reason s) = grant_keys s"
  by (simp add: grant_keys_def record_janitor_action_def)

text \<open>The turn on an expired grant: the row goes first, then the unwind, and back on trouble.\<close>

definition taken_back :: "env \<Rightarrow> repo \<Rightarrow> int \<Rightarrow> grant_row \<Rightarrow> bool run" where
  "taken_back env repo n g =
     catchE (bindE (popping (release_grant repo n)) (\<lambda>existed.
         if existed then bindE (unwind env repo n) (\<lambda>_. ret True) else ret False))
       (\<lambda>e. if e = Diverges then raise e
            else bindE (stamping env (\<lambda>t. record_grant t repo n (gr_worker g) (gr_node g) (gr_login g))) (\<lambda>_. ret False))"

lemma taken_back_outcome:
  assumes stored: "(repo, n) \<in> grant_keys (wd_store w)" and run: "taken_back env repo n g w = (r, w')"
  shows "(r = Inr True \<and> fully_unwound env repo n w w' \<and> grant_keys (wd_store w') = grant_keys (wd_store w) - {(repo, n)})
    \<or> (r = Inr False \<and> stopped_unwinding env repo n w w' \<and> grant_keys (wd_store w') = grant_keys (wd_store w))
    \<or> r = Inl Diverges"
proof -
  let ?w1 = "w\<lparr>wd_store := snd (release_grant repo n (wd_store w))\<rparr>"
  let ?put = "\<lambda>t. record_grant t repo n (gr_worker g) (gr_node g) (gr_login g)"
  have pop: "bindE (popping (release_grant repo n)) f w = f True ?w1" for f :: "bool \<Rightarrow> bool run"
    using stored by (simp add: bindE_def popping_def)
  note gone = keys_clear(1) [of repo n "wd_store w"]
  from run show ?thesis unfolding taken_back_def
  proof (cases rule: catchE_cases)
    case (caught e w3)
    from caught(1) have "unwind env repo n ?w1 = (Inl e, w3)" unfolding pop by (auto elim: bindE_cases)
    then have un: "stopped_unwinding env repo n ?w1 w3" "wd_store w3 = wd_store ?w1"
      using unwind_end [of env repo n ?w1 "Inl e" w3] by simp_all
    show ?thesis
    proof (cases "e = Diverges")
      case True
      then show ?thesis using caught(2) by simp
    next
      case False
      then have w': "w' = stamped env ?put w3" "r = Inr False" using caught(2) by simp_all
      then have "grant_keys (wd_store w') = grant_keys (wd_store w)"
        using un(2) gone stored by (auto simp: keys_record)
      moreover have "stopped_unwinding env repo n w w'"
        using un(1) unwound_frame(2) [of ?w1 w w3 w'] w' by simp
      ultimately show ?thesis using w' by simp
    qed
  next
    case (fine x)
    then have u: "unwind env repo n ?w1 = (Inr (), w')" "x = True" unfolding pop by (auto elim: bindE_cases)
    then show ?thesis
      using unwind_end [OF u(1)] unwound_frame(1) [of ?w1 w w' w'] gone fine(2) by simp
  qed
qed

text \<open>
  C12: A turn on a stored grant of the swept repository ends in one of four ways: the claim is live and
  only the row goes, without a request; the issue is read and unwound in full, every assignee it has and
  \<open>in_progress\<close> removed and \<open>plan_ready\<close> restored in this order and nothing else sent, the row is gone
  and the ledger says so; trouble in the read, or within that order of writes, puts the row back for the
  next pass; or an exchange never ends.
\<close>

theorem grant_is_unwound_or_put_back:
  assumes "(gr_repo g, gr_issue g) \<in> grant_keys (wd_store w)" "gr_repo g = repo"
    "release_one env repo window live g w = (r, w')"
  shows "((repo, gr_issue g) \<in> live \<and> r = Inr False \<and> wd_requests w' = wd_requests w
            \<and> grant_keys (wd_store w') = grant_keys (wd_store w) - {(repo, gr_issue g)})
     \<or> ((repo, gr_issue g) \<notin> live \<and> r = Inr True \<and> fully_unwound env repo (gr_issue g) w w'
            \<and> grant_keys (wd_store w') = grant_keys (wd_store w) - {(repo, gr_issue g)}
            \<and> janitor_acted repo (gr_issue g) ''(never-activated)'' (wd_store w'))
     \<or> ((repo, gr_issue g) \<notin> live \<and> r = Inr False \<and> stopped_unwinding env repo (gr_issue g) w w'
            \<and> grant_keys (wd_store w') = grant_keys (wd_store w))
     \<or> r = Inl Diverges"
proof -
  let ?n = "gr_issue g"
  show ?thesis
  proof (cases "(repo, ?n) \<in> live")
    case True
    have "bindE (popping (release_grant repo ?n)) (\<lambda>_. ret False) w
        = (Inr False, w\<lparr>wd_store := snd (release_grant repo ?n (wd_store w))\<rparr>)"
      by (simp add: bindE_def popping_def)
    then have "r = Inr False" "w' = w\<lparr>wd_store := snd (release_grant repo ?n (wd_store w))\<rparr>"
      using True assms(2,3) by (simp_all add: release_one_def)
    then show ?thesis using True keys_clear(1) [of repo ?n "wd_store w"] by simp
  next
    case False
    let ?note = "\<lambda>t. record_janitor_action t (Some repo) ?n ''(never-activated)'' (gr_worker g) (never_activated_reason g window)"
    have "bindE (taken_back env repo ?n g) (\<lambda>done. if done then bindE (stamping env ?note) (\<lambda>_. ret True) else ret False) w = (r, w')"
      using assms(3) False unfolding assms(2) [symmetric] release_one_def taken_back_def Let_def by simp
    then show ?thesis
    proof (cases rule: bindE_cases)
      case (fail e)
      then show ?thesis using taken_back_outcome [of repo ?n w env g] assms(1,2) by fastforce
    next
      case (step b w2)
      have logged: "janitor_acted repo ?n ''(never-activated)'' (?note t s)" for t s
        by (simp add: janitor_acted_def record_janitor_action_def)
      have "b \<Longrightarrow> fully_unwound env repo ?n w w' = fully_unwound env repo ?n w w2"
        using step(2) by (intro unwound_frame(1)) auto
      then show ?thesis
        using taken_back_outcome [OF _ step(1)] assms(1,2) step(2) False logged by (cases b) auto
    qed
  qed
qed

definition demo_grant_row :: grant_row where
  "demo_grant_row = \<lparr>gr_repo = ''o/r'', gr_issue = 7, gr_worker = ''w'', gr_node = ''n1'', gr_login = ''bot'', gr_granted_at = 0\<rparr>"

lemma demo_unwind:
  "fst (release_one demo_swept ''o/r'' 60 {} demo_grant_row (world_of (empty_store\<lparr>t_grants := [demo_grant_row]\<rparr>))) = Inr True"
  by code_simp

lemma grant_is_unwound_or_put_back_witness:
  "let w = world_of (empty_store\<lparr>t_grants := [demo_grant_row]\<rparr>);
       w' = snd (release_one demo_swept ''o/r'' 60 {} demo_grant_row w)
   in (''o/r'', 7) \<in> grant_keys (wd_store w) \<and> (''o/r'', 7) \<notin> grant_keys (wd_store w')
      \<and> fully_unwound demo_swept ''o/r'' 7 w w'"
proof -
  let ?w = "world_of (empty_store\<lparr>t_grants := [demo_grant_row]\<rparr>)"
  have k: "(gr_repo demo_grant_row, gr_issue demo_grant_row) \<in> grant_keys (wd_store ?w)" "gr_repo demo_grant_row = ''o/r''"
    "gr_issue demo_grant_row = 7"
    by (simp_all add: demo_grant_row_def grant_keys_def grant_key_def world_of_def)
  show ?thesis
    using grant_is_unwound_or_put_back [OF k(1,2) prod.collapse [symmetric], where env = demo_swept and window = 60 and live = "{}"]
      k demo_unwind
    by (auto simp: Let_def)
qed

subsection \<open>Base drift\<close>

lemma ledger_acted:
  "ledger env repo n key reason w = (r, w') \<Longrightarrow> r = Inr () \<and> wd_requests w' = wd_requests w
     \<and> janitor_acted repo n key (wd_store w')
     \<and> (\<forall>m k. janitor_acted repo m k (wd_store w) \<longrightarrow> janitor_acted repo m k (wd_store w'))"
  by (auto simp: ledger_def record_janitor_action_def janitor_acted_def)

lemma ledger_run: "ledger env repo n key reason w = (Inr (), snd (ledger env repo n key reason w))"
  by (simp add: ledger_def)

definition drift_label :: "repo \<Rightarrow> int \<Rightarrow> request" where
  "drift_label repo n = label_request repo n [BLOCKED, NEEDS_HUMAN]"

text \<open>The label half of the act: the comment is on record.\<close>

lemma label_half:
  assumes "bindE (add_labels env repo n [BLOCKED, NEEDS_HUMAN]) (\<lambda>_. bindE (ledger env repo n key reason) (\<lambda>_. ret True)) w = (r, w')"
    "janitor_acted repo n ck (wd_store w)"
  shows "\<exists>ls. wd_requests w' = wd_requests w @ ls \<and> sent_of [drift_label repo n] ls
      \<and> janitor_acted repo n ck (wd_store w')
      \<and> (case r of Inl e \<Rightarrow> True | Inr b \<Rightarrow> b \<and> all_sent [drift_label repo n] ls \<and> janitor_acted repo n key (wd_store w'))"
  using assms(1)
proof (cases rule: bindE_cases)
  case (fail e)
  obtain ls where "wd_store w' = wd_store w" "wd_requests w' = wd_requests w @ ls" "sent_of [drift_label repo n] ls"
    using followsE [OF follows_writes(3) fail(1)] unfolding drift_label_def by metis
  then show ?thesis using fail(2) assms(2) by auto
next
  case (step x w1)
  obtain ls where ls: "wd_store w1 = wd_store w" "wd_requests w1 = wd_requests w @ ls" "all_sent [drift_label repo n] ls"
    using followsE [OF follows_writes(3) step(1)] unfolding drift_label_def by metis
  obtain w2 where l: "ledger env repo n key reason w1 = (Inr (), w2)" by (metis ledger_run)
  then have "r = Inr True" "w' = w2" using step(2) by (simp_all add: bindE_Inr)
  then show ?thesis using ls ledger_acted [OF l] all_sent_sent assms(2) by auto
qed

text \<open>
  C13: The act on a drift posts its comment before it labels: a label request leaves only when the comment
  of exactly this pair of commits is on record, a recorded comment is never posted again, a drift whose
  act is on record or whose pull request is already blocked sends nothing, and a reported act sent the
  labels and is on record.
\<close>

theorem drift_is_commented_once_then_labelled:
  "let key = drift_key (bo_sha based) tip; n = pr_number pr;
       comment = comment_request repo n (drift_comment based (pr_number blocker_pr) tip);
       before = janitor_acted repo n (comment_key key) (wd_store w)
   in case act_on_drift env repo pr based blocker_pr tip w of (r, w') \<Rightarrow>
      (\<exists>cs ls. wd_requests w' = wd_requests w @ cs @ ls \<and> sent_of [comment] cs \<and> sent_of [drift_label repo n] ls
         \<and> (cs = [] \<or> \<not> before) \<and> (ls = [] \<or> janitor_acted repo n (comment_key key) (wd_store w'))
         \<and> (cs @ ls = [] \<or> (\<not> janitor_acted repo n key (wd_store w) \<and> BLOCKED \<notin> set (pr_labels pr)))
         \<and> (r \<noteq> Inr True \<or> (all_sent [drift_label repo n] ls \<and> janitor_acted repo n key (wd_store w'))))"
proof -
  let ?key = "drift_key (bo_sha based) tip" and ?n = "pr_number pr"
  let ?ck = "comment_key ?key" and ?body = "drift_comment based (pr_number blocker_pr) tip"
  let ?comment = "comment_request repo ?n ?body"
  let ?label = "\<lambda>_::unit. bindE (add_labels env repo ?n [BLOCKED, NEEDS_HUMAN]) (\<lambda>_.
      bindE (ledger env repo ?n ?key (drift_reason ?n based (pr_number blocker_pr) tip)) (\<lambda>_. ret True))"
  let ?acted = "janitor_acted repo ?n ?key (wd_store w)" and ?before = "janitor_acted repo ?n ?ck (wd_store w)"
  let ?why = "''base-drift forensic comment on PR #'' @ show_int ?n"
  obtain r w' where run: "act_on_drift env repo pr based blocker_pr tip w = (r, w')" by (rule prod.exhaust)
  let ?goal = "\<exists>cs ls. wd_requests w' = wd_requests w @ cs @ ls \<and> sent_of [?comment] cs \<and> sent_of [drift_label repo ?n] ls
         \<and> (cs = [] \<or> \<not> ?before) \<and> (ls = [] \<or> janitor_acted repo ?n ?ck (wd_store w'))
         \<and> (cs @ ls = [] \<or> (\<not> ?acted \<and> BLOCKED \<notin> set (pr_labels pr)))
         \<and> (r \<noteq> Inr True \<or> (all_sent [drift_label repo ?n] ls \<and> janitor_acted repo ?n ?key (wd_store w')))"
  have silent: ?goal if "wd_requests w' = wd_requests w" "r \<noteq> Inr True"
    using that sent_of.stop by (intro exI [of _ "[]"]) simp
  have labelled: ?goal
    if free: "\<not> ?acted" "BLOCKED \<notin> set (pr_labels pr)" and l: "?label () v = (r, w')" and v: "wd_requests v = wd_requests w @ cs"
      "sent_of [?comment] cs" "cs = [] \<or> \<not> ?before" "janitor_acted repo ?n ?ck (wd_store v)" for cs v
  proof -
    obtain ls where "wd_requests w' = wd_requests v @ ls" "sent_of [drift_label repo ?n] ls" "janitor_acted repo ?n ?ck (wd_store w')"
      "case r of Inl e \<Rightarrow> True | Inr b \<Rightarrow> b \<and> all_sent [drift_label repo ?n] ls \<and> janitor_acted repo ?n ?key (wd_store w')"
      using label_half [OF l v(4)] by blast
    then show ?thesis using v free by (intro exI [of _ cs] exI [of _ ls]) auto
  qed
  have ?goal
  proof (cases "?acted \<or> BLOCKED \<in> set (pr_labels pr)")
    case True
    then have "wd_requests w' = wd_requests w \<and> r \<noteq> Inr True"
      using run by (auto simp: act_on_drift_def Let_def bindE_Inr [OF ledger_run] ledger_def split: if_splits)
    then show ?thesis using silent by blast
  next
    case free: False
    show ?thesis
    proof (cases ?before)
      case True
      then have "?label () w = (r, w')" using run free by (simp add: act_on_drift_def Let_def)
      then show ?thesis using labelled [of w "[]"] free True sent_of.stop by simp
    next
      case False
      then have "bindE (bindE (add_comment env repo ?n ?body) (\<lambda>_. ledger env repo ?n ?ck ?why)) ?label w = (r, w')"
        using run free by (simp add: act_on_drift_def Let_def)
      then have "bindE (add_comment env repo ?n ?body) (\<lambda>_. bindE (ledger env repo ?n ?ck ?why) ?label) w = (r, w')"
        by (simp only: bindE_assoc)
      then show ?thesis
      proof (cases rule: bindE_cases)
        case (fail e)
        obtain cs where "wd_requests w' = wd_requests w @ cs" "sent_of [?comment] cs"
          using followsE [OF follows_writes(5) fail(1)] by metis
        then show ?thesis using fail(2) False free sent_of.stop by (intro exI [of _ cs] exI [of _ "[]"]) auto
      next
        case (step x w1)
        obtain cs where cs: "wd_requests w1 = wd_requests w @ cs" "sent_of [?comment] cs"
          using followsE [OF follows_writes(5) step(1)] by metis
        obtain w2 where l: "ledger env repo ?n ?ck ?why w1 = (Inr (), w2)" by (metis ledger_run)
        then have "?label () w2 = (r, w')" using step(2) by (simp add: bindE_Inr)
        then show ?thesis using labelled [of w2 cs] cs ledger_acted [OF l] free False by simp
      qed
    qed
  qed
  then show ?thesis using run by (simp add: Let_def)
qed

definition demo_dependent :: pull_request where
  "demo_dependent = \<lparr>pr_number = 9, pr_title = ''t'', pr_body = [], pr_head_ref = ''b'', pr_head_sha = ''c'',
     pr_base_ref = ''d'', pr_labels = [], pr_state = ''open'', pr_merged = False, pr_merge_commit_sha = []\<rparr>"

lemma demo_drift: "fst (act_on_drift demo_swept ''o/r'' demo_dependent \<lparr>bo_issue = 7, bo_sha = ''a''\<rparr> demo_dependent ''f''
    (world_of empty_store)) = Inr True"
  by code_simp

lemma drift_is_commented_once_then_labelled_witness:
  "\<exists>cs ls. wd_requests (snd (act_on_drift demo_swept ''o/r'' demo_dependent \<lparr>bo_issue = 7, bo_sha = ''a''\<rparr> demo_dependent ''f''
        (world_of empty_store))) = cs @ ls \<and> set ls = {drift_label ''o/r'' 9}"
proof -
  let ?m = "act_on_drift demo_swept ''o/r'' demo_dependent \<lparr>bo_issue = 7, bo_sha = ''a''\<rparr> demo_dependent ''f'' (world_of empty_store)"
  obtain r w' where run: "?m = (r, w')" by (rule prod.exhaust)
  have r: "r = Inr True" using demo_drift run by simp
  obtain cs ls where sent: "wd_requests w' = wd_requests (world_of empty_store) @ cs @ ls"
    "all_sent [drift_label ''o/r'' (pr_number demo_dependent)] ls"
    using drift_is_commented_once_then_labelled [of "\<lparr>bo_issue = 7, bo_sha = ''a''\<rparr>" "''f''" demo_dependent "''o/r''"
        demo_dependent "world_of empty_store" demo_swept, unfolded Let_def run prod.case r]
    by blast
  have "wd_requests (world_of empty_store) = []" "pr_number demo_dependent = 9"
    by (simp_all add: world_of_def demo_dependent_def)
  then have "wd_requests w' = cs @ ls \<and> set ls = {drift_label ''o/r'' 9}"
    using sent all_sent_covers [OF sent(2)] by simp
  then show ?thesis unfolding run snd_conv by blast
qed

subsection \<open>One repository at a time\<close>

text \<open>Everything but the rows of the swept repository in the four tables the janitor keeps.\<close>

definition other_rows :: "repo \<Rightarrow> store \<Rightarrow> store" where
  "other_rows repo s = s\<lparr>t_zombie_flags := filter (\<lambda>r. zf_repo r \<noteq> repo) (t_zombie_flags s),
     t_janitor_actions := filter (\<lambda>r. ja_repo r \<noteq> Some repo) (t_janitor_actions s),
     t_grants := filter (\<lambda>r. gr_repo r \<noteq> repo) (t_grants s),
     t_chained := filter (\<lambda>r. cd_repo r \<noteq> repo) (t_chained s)\<rparr>"

definition keeps_others :: "repo \<Rightarrow> world \<Rightarrow> world \<Rightarrow> bool" where
  "keeps_others repo w w' \<longleftrightarrow> other_rows repo (wd_store w') = other_rows repo (wd_store w)"

interpretation here: frame "keeps_others repo" for repo
  by unfold_locales (simp_all add: keeps_others_def)

lemma here_changing: "(\<And>s. other_rows repo (f s) = other_rows repo s) \<Longrightarrow> here.kept_by repo (changing f)"
  by (rule here.kept_byI) (simp add: keeps_others_def)

lemma here_stamping: "(\<And>t s. other_rows repo (f t s) = other_rows repo s) \<Longrightarrow> here.kept_by repo (stamping env f)"
  by (rule here.kept_byI) (simp add: keeps_others_def)

lemma here_of_gets [intro]: "gets.kept_by m \<Longrightarrow> here.kept_by repo m"
  by (simp add: gets.kept_by_def here.kept_by_def keeps_others_def reads_only_def)

lemma here_of_follows: "follows plan m \<Longrightarrow> here.kept_by repo m"
  unfolding follows_def here.kept_by_def keeps_others_def by (metis prod.collapse)

lemma rows_elsewhere:
  "filter (\<lambda>r. zf_repo r \<noteq> repo) (t_zombie_flags (flag_zombie t repo n run a b s)) = filter (\<lambda>r. zf_repo r \<noteq> repo) (t_zombie_flags s)"
  "filter (\<lambda>r. zf_repo r \<noteq> repo) (t_zombie_flags (clear_zombie_flag repo n run s)) = filter (\<lambda>r. zf_repo r \<noteq> repo) (t_zombie_flags s)"
  "filter (\<lambda>r. gr_repo r \<noteq> repo) (t_grants (record_grant t repo n a b c s)) = filter (\<lambda>r. gr_repo r \<noteq> repo) (t_grants s)"
  "filter (\<lambda>r. gr_repo r \<noteq> repo) (t_grants (snd (release_grant repo n s))) = filter (\<lambda>r. gr_repo r \<noteq> repo) (t_grants s)"
  "filter (\<lambda>r. cd_repo r \<noteq> repo) (t_chained (record_chained_dependent t repo n i p st sha s)) = filter (\<lambda>r. cd_repo r \<noteq> repo) (t_chained s)"
  "filter (\<lambda>r. cd_repo r \<noteq> repo) (t_chained (clear_chained_dependent repo n s)) = filter (\<lambda>r. cd_repo r \<noteq> repo) (t_chained s)"
proof -
  show "filter (\<lambda>r. zf_repo r \<noteq> repo) (t_zombie_flags (flag_zombie t repo n run a b s)) = filter (\<lambda>r. zf_repo r \<noteq> repo) (t_zombie_flags s)"
    by (simp add: flag_zombie_def insert_or_ignore_def)
  show "filter (\<lambda>r. zf_repo r \<noteq> repo) (t_zombie_flags (clear_zombie_flag repo n run s)) = filter (\<lambda>r. zf_repo r \<noteq> repo) (t_zombie_flags s)"
    unfolding clear_zombie_flag_def by simp (rule filter_delete_other, auto simp: zombie_key_def)
  show "filter (\<lambda>r. gr_repo r \<noteq> repo) (t_grants (record_grant t repo n a b c s)) = filter (\<lambda>r. gr_repo r \<noteq> repo) (t_grants s)"
    unfolding record_grant_def by simp (rule filter_upsert_other, auto simp: grant_key_def)
  show "filter (\<lambda>r. gr_repo r \<noteq> repo) (t_grants (snd (release_grant repo n s))) = filter (\<lambda>r. gr_repo r \<noteq> repo) (t_grants s)"
    unfolding release_grant_def by simp (rule filter_delete_other, auto simp: grant_key_def)
  show "filter (\<lambda>r. cd_repo r \<noteq> repo) (t_chained (record_chained_dependent t repo n i p st sha s)) = filter (\<lambda>r. cd_repo r \<noteq> repo) (t_chained s)"
    unfolding record_chained_dependent_def by simp (rule filter_upsert_other, auto simp: chained_key_def)
  show "filter (\<lambda>r. cd_repo r \<noteq> repo) (t_chained (clear_chained_dependent repo n s)) = filter (\<lambda>r. cd_repo r \<noteq> repo) (t_chained s)"
    unfolding clear_chained_dependent_def by simp (rule filter_delete_other, auto simp: chained_key_def)
qed

lemma other_rows_ops [simp]:
  "other_rows repo (flag_zombie t repo n run a b s) = other_rows repo s"
  "other_rows repo (clear_zombie_flag repo n run s) = other_rows repo s"
  "other_rows repo (record_grant t repo n a b c s) = other_rows repo s"
  "other_rows repo (snd (release_grant repo n s)) = other_rows repo s"
  "other_rows repo (record_chained_dependent t repo n i p st sha s) = other_rows repo s"
  "other_rows repo (clear_chained_dependent repo n s) = other_rows repo s"
  "other_rows repo (record_janitor_action t (Some repo) n run a why s) = other_rows repo s"
  unfolding other_rows_def rows_elsewhere
  by (simp_all add: flag_zombie_def clear_zombie_flag_def record_grant_def release_grant_def
      record_chained_dependent_def clear_chained_dependent_def record_janitor_action_def)

lemma here_ledgers [intro]:
  "here.kept_by repo (settle env repo c reason)" "here.kept_by repo (ledger env repo n key reason)"
  unfolding settle_def ledger_def by (intro here.kept_bind here_changing here_stamping other_rows_ops)+

lemma here_popping: "(\<And>s. other_rows repo (snd (f s)) = other_rows repo s) \<Longrightarrow> here.kept_by repo (popping f)"
  by (rule here.kept_byI) (simp add: popping_def keeps_others_def)

lemma here_unwind [intro]: "here.kept_by repo (unwind env repo n)"
  by (rule here.kept_byI) (metis keeps_others_def unwind_end(1) prod.collapse)

lemmas here_writes [intro] = follows_writes [THEN here_of_follows] escalate_follows [THEN here_of_follows]

lemmas here_ops = here_ledgers here_unwind here_writes here_of_gets [OF gets_now]
  here_popping [OF other_rows_ops(4)]

lemma here_isolated [intro]: "here.kept_by repo m \<Longrightarrow> here.kept_by repo (isolated x m)"
  unfolding isolated_def by (auto intro!: here.kept_catch)

lemma here_each_kept: "(\<And>x. here.kept_by repo (f x)) \<Longrightarrow> here.kept_by repo (each_kept f xs)"
  by (induction xs) (auto intro!: here.kept_bind)

lemma sweep_one_here: "here.kept_by repo (sweep_one env repo grace c)"
  unfolding sweep_one_def finish_claim_def
  by (intro here.kept_bind here.kept_reading here_ops here.kept_ret here_changing here_stamping other_rows_ops
      here_of_gets [OF gets_reads(6)] here_of_gets [OF gets_reads(9)] here_of_gets [OF gets_evidence]
      | simp split: option.split | rule conjI allI impI)+

lemma sweep_here: "here.kept_by repo (sweep env repo grace)"
  unfolding sweep_def by (intro here.kept_bind here.kept_reading here_each_kept here_isolated sweep_one_here)

lemma act_on_drift_here: "here.kept_by repo (act_on_drift env repo pr based blocker_pr tip)"
  unfolding act_on_drift_def Let_def
  by (intro here.kept_bind here.kept_reading here_ops here.kept_ret | simp | rule conjI allI impI)+

lemma drift_one_here: "here.kept_by repo (drift_one env repo pr)"
proof (cases "parse_zone (pr_body pr)")
  case None
  then show ?thesis
    by (simp add: drift_one_def) (intro here.kept_bind here_changing other_rows_ops here.kept_ret)
next
  case (Some based)
  have seen: "here.kept_by repo (stamping env (\<lambda>t. record_chained_dependent t repo (pr_number pr) (bo_issue based)
       p st (bo_sha based)))" for p st
    by (intro here_stamping other_rows_ops)
  have clear: "here.kept_by repo (changing (clear_chained_dependent repo (pr_number pr)))"
    by (intro here_changing other_rows_ops)
  have tip: "here.kept_by repo (bindE (branch_head env repo (branch_for (bo_issue based))) (\<lambda>tip.
       case tip of None \<Rightarrow> ret False | Some t \<Rightarrow> if t = bo_sha based then ret False else act_on_drift env repo pr based b t))" for b
    by (intro here.kept_bind here_of_gets [OF gets_reads(2)]) (simp add: act_on_drift_here split: option.split)
  show ?thesis unfolding drift_one_def Some option.case
    by (intro here.kept_bind here_of_gets [OF gets_reads(10)])
      (auto intro!: here.kept_bind seen clear tip split: option.split)
qed

lemma fold_other_rows:
  assumes "\<And>n s. other_rows repo (f n s) = other_rows repo s"
  shows "other_rows repo (fold f ns s) = other_rows repo s"
  using assms by (induction ns arbitrary: s) simp_all

lemma sweep_base_drift_here: "here.kept_by repo (sweep_base_drift env repo)"
proof -
  have drop: "here.kept_by repo (changing (drop_chained repo kept))" for kept
    by (intro here_changing) (simp add: drop_chained_def fold_other_rows)
  have list: "here.kept_by repo (isolated None (bindE (list_open_prs env repo) (\<lambda>prs. ret (Some prs))))"
    by (intro here_isolated here.kept_bind here_of_gets [OF gets_reads(11)] here.kept_ret)
  show ?thesis unfolding sweep_base_drift_def
    by (rule here.kept_bind [OF list])
      (auto intro!: here.kept_bind here_each_kept here_isolated drift_one_here drop split: option.split)
qed

lemma release_one_here: "here.kept_by repo (release_one env repo window live g)"
proof (cases "gr_repo g = repo")
  case True
  have put: "here.kept_by repo (stamping env (\<lambda>t. record_grant t repo (gr_issue g) (gr_worker g) (gr_node g) (gr_login g)))"
    "here.kept_by repo (stamping env (\<lambda>t. record_janitor_action t (Some repo) (gr_issue g) k (gr_worker g) why))" for k why
    by (intro here_stamping other_rows_ops)+
  show ?thesis unfolding release_one_def True
    by (auto simp: Let_def intro!: here.kept_bind here.kept_catch here_ops put)
next
  case False
  then show ?thesis by (simp add: release_one_def Let_def)
qed

text \<open>
  The three lanes of the janitor over one repository, whatever GitHub answers and wherever they
  fail, leave every row of every other repository and every table but flags, ledger, grants and chained
  dependents as it was.
\<close>

theorem janitor_stays_in_its_repository:
  "other_rows repo (wd_store (snd (sweep_repo env settings repo w))) = other_rows repo (wd_store w)"
proof -
  have client: "here.kept_by repo (new_client repo)" by (simp add: new_client_def)
  have release: "here.kept_by repo (release_never_activated env repo (js_window settings))"
    unfolding release_never_activated_def
    by (intro here.kept_bind here.kept_reading here_ops here_each_kept release_one_here)
  have "here.kept_by repo (sweep_repo env settings repo)"
    unfolding sweep_repo_def
    by (intro here_isolated here.kept_bind client sweep_here release sweep_base_drift_here here.kept_ret)
  then show ?thesis by (simp add: here.kept_by_def keeps_others_def)
qed

end
