(* ===== verification/Policy.thy ===== *)
theory Policy
  imports Json_Parse
begin

text \<open>
  Agent Policy validation (\<open>worker/.../policy.py\<close>): the closed schemas of the safe keys, the validation
  of one document and of a policy tree. A result is the message of the first violation, \<open>None\<close> when the
  input is admitted. What reads the file system answers is an argument: the entries of the tree with
  their kinds and texts, and the wording of a JSON error.
\<close>

subsection \<open>Schemas\<close>

text \<open>A dict schema is an object closed to its members; the one scalar type is \<open>bool\<close>.\<close>

datatype schema = Closed "(string \<times> schema) list" | Boolean

definition SAFE_KEYS :: "(string \<times> schema) list" where
  "SAFE_KEYS = [(''attribution'', Closed [(''sessionUrl'', Boolean)])]"

definition EXECUTABLE_REFERENCE_KEYS :: "string list" where
  "EXECUTABLE_REFERENCE_KEYS =
     [''apiKeyHelper'', ''awsAuthRefresh'', ''awsCredentialExport'', ''hooks'', ''otelHeadersHelper'', ''statusLine'']"

definition IDENTITY_SETTING_KEYS :: "string list" where
  "IDENTITY_SETTING_KEYS =
     [''availableModels'', ''effortLevel'', ''enforceAvailableModels'', ''fallbackModel'', ''model'',
      ''modelOverrides'', ''policyHelper'', ''policyHelpers'']"

text \<open>The text of a list of strings.\<close>

definition repr_strs :: "string list \<Rightarrow> string" where
  "repr_strs xs = ''['' @ join '', '' (map py_repr xs) @ '']''"

definition sq :: string where "sq = [char_of (39 :: nat)]"

definition refuse_key :: "string \<Rightarrow> string \<Rightarrow> string" where
  "refuse_key label key =
     label @ '': key '' @ sq @ key @ sq @ '' is '' @
     (if key \<in> set IDENTITY_SETTING_KEYS
      then ''an identity/steering key '' @ em_dash @ '' a policy tree can never select or''
        @ '' constrain the model/effort identity (ADR-0045/ADR-0055)''
      else if key \<in> set EXECUTABLE_REFERENCE_KEYS
      then ''an executable-reference key '' @ em_dash @ '' a live-delivered policy document''
        @ '' can never name a command, hook, or helper the CLI would execute (ADR-0055)''
      else if key = ''env''
      then ''no admitted env classes exist '' @ em_dash @ '' a managed env block can steer''
        @ '' models, providers, and helpers, so none of it is admissible (ADR-0055)''
      else ''not on the safe-key allowlist '' @ em_dash @ '' only positively classified''
        @ '' declarative keys are admitted, and the allowlist advances only''
        @ '' through the adapter'' @ sq @ ''s classification review (ADR-0055)'')"

subsection \<open>Documents\<close>

definition not_an_object :: "string \<Rightarrow> string \<Rightarrow> string list \<Rightarrow> string" where
  "not_an_object label path members = label @ '': key '' @ sq @ path @ sq
     @ '' must be a JSON object closed to '' @ repr_strs (sort members) @ '' (ADR-0055)''"

definition unknown_member :: "string \<Rightarrow> string \<Rightarrow> string \<Rightarrow> string list \<Rightarrow> string" where
  "unknown_member label path member members = label @ '': key '' @ sq @ path @ ''.'' @ member @ sq
     @ '' is not an enumerated member of '' @ sq @ path @ sq @ '' '' @ em_dash
     @ '' the schema is recursively closed to '' @ repr_strs (sort members)
     @ '', and an unknown nested member refuses exactly as an unclassified top-level key does (ADR-0055)''"

definition wrong_type :: "string \<Rightarrow> string \<Rightarrow> string \<Rightarrow> string" where
  "wrong_type label path expected = label @ '': key '' @ sq @ path @ sq @ '' must be a JSON '' @ expected
     @ '' '' @ em_dash @ '' a wrong type or extra nesting depth refuses like an unclassified key (ADR-0055)''"

fun validate_member :: "string \<Rightarrow> string \<Rightarrow> schema \<Rightarrow> json \<Rightarrow> string option"
  and validate_members :: "string \<Rightarrow> string \<Rightarrow> (string \<times> schema) list \<Rightarrow> dict \<Rightarrow> string option" where
  "validate_member label path (Closed members) value =
     (case value of
        JObj d \<Rightarrow>
          (case find (\<lambda>m. m \<notin> fst ` set members) (map fst d) of
             Some m \<Rightarrow> Some (unknown_member label path m (map fst members))
           | None \<Rightarrow> validate_members label path members d)
      | _ \<Rightarrow> Some (not_an_object label path (map fst members)))"
| "validate_member label path Boolean value =
     (case value of JBool b \<Rightarrow> None | _ \<Rightarrow> Some (wrong_type label path ''boolean''))"
| "validate_members label path [] d = None"
| "validate_members label path ((m, nested) # rest) d =
     (case (case map_of d m of None \<Rightarrow> None | Some v \<Rightarrow> validate_member label (path @ ''.'' @ m) nested v) of
        Some e \<Rightarrow> Some e
      | None \<Rightarrow> validate_members label path rest d)"

fun validate_safe_keys :: "string \<Rightarrow> (string \<times> schema) list \<Rightarrow> dict \<Rightarrow> string option" where
  "validate_safe_keys label [] d = None"
| "validate_safe_keys label ((k, s) # rest) d =
     (case (case map_of d k of None \<Rightarrow> None | Some v \<Rightarrow> validate_member label k s v) of
        Some e \<Rightarrow> Some e
      | None \<Rightarrow> validate_safe_keys label rest d)"

definition validate_policy_document :: "string \<Rightarrow> json \<Rightarrow> string option" where
  "validate_policy_document label document =
     (case document of
        JObj d \<Rightarrow>
          (case find (\<lambda>k. k \<notin> fst ` set SAFE_KEYS) (map fst d) of
             Some k \<Rightarrow> Some (refuse_key label k)
           | None \<Rightarrow> validate_safe_keys label SAFE_KEYS d)
      | _ \<Rightarrow> Some (label @ '': a policy drop-in must be a JSON object, not '' @ type_name document @ '' (ADR-0055)''))"

subsection \<open>Trees\<close>

text \<open>An entry as \<open>lstat\<close> and \<open>read_text\<close> show it; an unreadable file carries the exception's text.\<close>

datatype entry_kind = Symlink | Directory | Regular "string + string" | Irregular

record entry =
  en_name :: string
  en_kind :: entry_kind

datatype root = Root_Symlink | Root_Other | Root_Dir "string + entry list"

definition validate_entry :: "(string \<Rightarrow> string) \<Rightarrow> string \<Rightarrow> entry \<Rightarrow> string option" where
  "validate_entry json_error label e =
     (let entry_label = label @ ''/'' @ en_name e in
      case en_kind e of
        Symlink \<Rightarrow> Some (entry_label @ '': symlinks are refused in a policy tree (ADR-0055)'')
      | Directory \<Rightarrow> Some (entry_label @ '': a policy tree holds top-level *.json drop-ins only ''
          @ em_dash @ '' subdirectories are refused (ADR-0055)'')
      | Irregular \<Rightarrow> Some (entry_label @ '': not a regular file '' @ em_dash @ '' refused (ADR-0055)'')
      | Regular content \<Rightarrow>
          if startswith (en_name e) ''.''
          then Some (entry_label @ '': dot-prefixed names are refused '' @ em_dash
            @ '' the CLI ignores them, so the file would be dead policy (ADR-0055)'')
          else if \<not> endswith (en_name e) ''.json''
          then Some (entry_label @ '': a policy drop-in must be named *.json '' @ em_dash
            @ '' the CLI reads nothing else from the managed drop-in directory (ADR-0055)'')
          else (case content of
                  Inl exc \<Rightarrow> Some (entry_label @ '': unreadable policy drop-in ('' @ exc @ '')'')
                | Inr text \<Rightarrow>
                    (case json_loads text of
                       None \<Rightarrow> Some (entry_label @ '': not valid JSON ('' @ json_error text @ '')'')
                     | Some document \<Rightarrow> validate_policy_document entry_label document)))"

fun first_violation :: "('a \<Rightarrow> string option) \<Rightarrow> 'a list \<Rightarrow> string option" where
  "first_violation f [] = None"
| "first_violation f (x # xs) = (case f x of Some e \<Rightarrow> Some e | None \<Rightarrow> first_violation f xs)"

definition validate_policy_tree :: "(string \<Rightarrow> string) \<Rightarrow> root \<Rightarrow> string \<Rightarrow> string option" where
  "validate_policy_tree json_error r label =
     (case r of
        Root_Symlink \<Rightarrow> Some (label @ '': the policy tree root is a symlink '' @ em_dash @ '' refused (ADR-0055)'')
      | Root_Other \<Rightarrow> Some (label @ '': the policy tree root is not a directory (ADR-0055)'')
      | Root_Dir (Inl exc) \<Rightarrow> Some (label @ '': cannot enumerate the policy tree: '' @ exc)
      | Root_Dir (Inr entries) \<Rightarrow> first_violation (validate_entry json_error label) (sort_key en_name entries))"

subsection \<open>The closed schema, declaratively\<close>

text \<open>A value conforms when an object has only enumerated members and each conforms.\<close>

inductive conforms :: "schema \<Rightarrow> json \<Rightarrow> bool" where
  boolean: "conforms Boolean (JBool b)"
| closed: "(\<And>m. m \<in> fst ` set d \<Longrightarrow> m \<in> fst ` set members)
     \<Longrightarrow> (\<And>m s v. (m, s) \<in> set members \<Longrightarrow> map_of d m = Some v \<Longrightarrow> conforms s v)
     \<Longrightarrow> conforms (Closed members) (JObj d)"

inductive_cases conforms_BooleanE: "conforms Boolean v"
inductive_cases conforms_ClosedE: "conforms (Closed members) v"

lemma find_outside: "find (\<lambda>m. m \<notin> A) xs = None \<longleftrightarrow> set xs \<subseteq> A"
  by (auto simp: find_None_iff)

lemma closed_iff:
  "conforms (Closed members) v \<longleftrightarrow> (\<exists>d. v = JObj d \<and> fst ` set d \<subseteq> fst ` set members
     \<and> (\<forall>(m, s) \<in> set members. \<forall>v. map_of d m = Some v \<longrightarrow> conforms s v))"
proof
  assume "conforms (Closed members) v"
  then show "\<exists>d. v = JObj d \<and> fst ` set d \<subseteq> fst ` set members
     \<and> (\<forall>(m, s) \<in> set members. \<forall>v. map_of d m = Some v \<longrightarrow> conforms s v)"
    by (rule conforms_ClosedE) auto
qed (auto intro!: conforms.closed)

lemma boolean_iff: "conforms Boolean v \<longleftrightarrow> (\<exists>b. v = JBool b)"
  by (auto intro: conforms.boolean elim: conforms_BooleanE)

lemma validate_conforms:
  "validate_member label path s v = None \<longleftrightarrow> conforms s v"
  "validate_members label path ms d = None \<longleftrightarrow> (\<forall>(m, s) \<in> set ms. \<forall>v. map_of d m = Some v \<longrightarrow> conforms s v)"
proof (induction label path s v and label path ms d rule: validate_member_validate_members.induct)
  case (1 label path members v)
  show ?case
  proof (cases v)
    case (JObj d)
    show ?thesis
    proof (cases "find (\<lambda>m. m \<notin> fst ` set members) (map fst d)")
      case None
      then have "validate_member label path (Closed members) v = validate_members label path members d"
        using JObj by simp
      moreover have "fst ` set d \<subseteq> fst ` set members"
        using None find_outside [of "fst ` set members" "map fst d"] by simp
      ultimately show ?thesis using 1(1) [OF JObj None] JObj by (simp only: closed_iff) auto
    next
      case (Some m)
      then have "\<not> fst ` set d \<subseteq> fst ` set members"
        using find_outside [of "fst ` set members" "map fst d"] by simp
      then show ?thesis using JObj Some by (simp add: closed_iff)
    qed
  qed (simp_all add: closed_iff)
next
  case (2 label path v)
  show ?case by (cases v) (simp_all add: boolean_iff)
next
  case (4 label path m nested rest d)
  then show ?case
  proof (cases "map_of d m")
    case (Some v)
    then show ?thesis using 4 by (cases "validate_member label (path @ ''.'' @ m) nested v") auto
  qed auto
qed simp

lemma validate_safe_conforms:
  "validate_safe_keys label ms d = None \<longleftrightarrow> (\<forall>(k, s) \<in> set ms. \<forall>v. map_of d k = Some v \<longrightarrow> conforms s v)"
proof (induction label ms d rule: validate_safe_keys.induct)
  case (2 label k s rest d)
  show ?case
  proof (cases "map_of d k")
    case None
    then show ?thesis using 2 by simp
  next
    case (Some v)
    then show ?thesis using 2 validate_conforms(1) [of label k s v]
      by (cases "validate_member label k s v") auto
  qed
qed simp

lemma attribution_iff:
  "conforms (Closed [(''sessionUrl'', Boolean)]) v \<longleftrightarrow>
     (case v of JObj a \<Rightarrow> fst ` set a \<subseteq> {''sessionUrl''}
        \<and> (case map_of a ''sessionUrl'' of None \<Rightarrow> True | Some (JBool b) \<Rightarrow> True | _ \<Rightarrow> False) | _ \<Rightarrow> False)"
proof (cases v)
  case (JObj a)
  show ?thesis
  proof (cases "map_of a ''sessionUrl''")
    case (Some w)
    then show ?thesis using JObj by (cases w) (simp_all add: closed_iff boolean_iff)
  qed (simp add: JObj closed_iff)
qed (simp_all add: closed_iff)

text \<open>
  C22: A policy document is admitted exactly when it is an object whose only key is \<open>attribution\<close>, itself
  an object whose only key is \<open>sessionUrl\<close>, a boolean: no command, hook, identity, environment or
  unknown key at any depth is ever admitted, nor an integer for the boolean.
\<close>

theorem policy_admits_exactly_the_allowlist:
  "validate_policy_document label document = None \<longleftrightarrow>
     (case document of
        JObj d \<Rightarrow> fst ` set d \<subseteq> {''attribution''}
          \<and> (case map_of d ''attribution'' of
               None \<Rightarrow> True
             | Some (JObj a) \<Rightarrow> fst ` set a \<subseteq> {''sessionUrl''}
                 \<and> (case map_of a ''sessionUrl'' of None \<Rightarrow> True | Some (JBool b) \<Rightarrow> True | _ \<Rightarrow> False)
             | _ \<Rightarrow> False)
      | _ \<Rightarrow> False)"
proof (cases document)
  case (JObj d)
  show ?thesis
  proof (cases "find (\<lambda>k. k \<notin> fst ` set SAFE_KEYS) (map fst d)")
    case None
    then have sub: "fst ` set d \<subseteq> {''attribution''}"
      using find_outside [of "fst ` set SAFE_KEYS" "map fst d"] by (simp add: SAFE_KEYS_def)
    have "validate_policy_document label document = None \<longleftrightarrow>
        (\<forall>v. map_of d ''attribution'' = Some v \<longrightarrow> conforms (Closed [(''sessionUrl'', Boolean)]) v)"
      using JObj None validate_safe_conforms [of label SAFE_KEYS d]
      by (simp add: validate_policy_document_def) (simp add: SAFE_KEYS_def)
    then show ?thesis using JObj sub by (cases "map_of d ''attribution''") (simp_all add: attribution_iff)
  next
    case (Some k)
    then have "\<not> set (map fst d) \<subseteq> fst ` set SAFE_KEYS"
      using find_outside [of "fst ` set SAFE_KEYS" "map fst d"] by simp
    then have "\<not> fst ` set d \<subseteq> {''attribution''}" by (simp add: SAFE_KEYS_def)
    then show ?thesis using JObj Some by (simp add: validate_policy_document_def)
  qed
qed (simp_all add: validate_policy_document_def)

subsection \<open>Values stay out of the messages\<close>

text \<open>The document with every value replaced by one of its type; keys stay.\<close>

fun erase :: "json \<Rightarrow> json" where
  "erase JNull = JNull"
| "erase (JBool b) = JBool False"
| "erase (JInt i) = JInt 0"
| "erase (JFloat i s) = JFloat 0 []"
| "erase (JNonfinite s) = JNonfinite []"
| "erase (JStr s) = JStr []"
| "erase (JList xs) = JList []"
| "erase (JObj d) = JObj (map (\<lambda>(k, v). (k, erase v)) d)"

lemma erase_keys [simp]: "map fst (map (\<lambda>(k, v). (k, erase v)) d) = map fst d"
  by (induction d) auto

lemma erase_lookup [simp]: "map_of (map (\<lambda>(k, v). (k, erase v)) d) m = map_option erase (map_of d m)"
  by (induction d) auto

lemma validate_erase:
  "validate_member label path s (erase v) = validate_member label path s v"
  "validate_members label path ms (map (\<lambda>(k, v). (k, erase v)) d) = validate_members label path ms d"
proof (induction label path s v and label path ms d rule: validate_member_validate_members.induct)
  case (1 label path members v)
  then show ?case by (cases v) (auto simp del: map_map split: option.split)
next
  case (2 label path v)
  then show ?case by (cases v) auto
next
  case (4 label path m nested rest d)
  then show ?case by (cases "map_of d m") (auto split: option.split)
qed simp

text \<open>
  C23: The verdict on a policy document, message included, depends on its keys and the types of its values
  only: a refusal never echoes a value.
\<close>

theorem refusal_never_echoes_values:
  "validate_policy_document label (erase document) = validate_policy_document label document"
proof (cases document)
  case (JObj d)
  have "validate_safe_keys label ms (map (\<lambda>(k, v). (k, erase v)) d) = validate_safe_keys label ms d" for ms
    by (induction ms) (auto simp: validate_erase split: option.split)
  then show ?thesis using JObj by (simp add: validate_policy_document_def del: map_map split: option.split)
qed (simp_all add: validate_policy_document_def)

text \<open>
  An admitted tree is a real directory of regular, visible \<open>.json\<close> files, each a JSON document that is
  admitted on its own.
\<close>

theorem admitted_tree_is_plain:
  assumes "validate_policy_tree json_error r label = None"
  shows "\<exists>entries. r = Root_Dir (Inr entries) \<and> (\<forall>e \<in> set entries. \<exists>text document.
      en_kind e = Regular (Inr text) \<and> \<not> startswith (en_name e) ''.'' \<and> endswith (en_name e) ''.json''
      \<and> json_loads text = Some document \<and> validate_policy_document (label @ ''/'' @ en_name e) document = None)"
proof -
  obtain entries where r: "r = Root_Dir (Inr entries)"
    and none: "first_violation (validate_entry json_error label) (sort_key en_name entries) = None"
    using assms by (auto simp: validate_policy_tree_def split: root.splits sum.splits)
  have all: "first_violation f xs = None \<longleftrightarrow> (\<forall>x \<in> set xs. f x = None)" for f and xs :: "entry list"
    by (induction xs) (auto split: option.splits)
  have "\<exists>text document. en_kind e = Regular (Inr text) \<and> \<not> startswith (en_name e) ''.'' \<and> endswith (en_name e) ''.json''
      \<and> json_loads text = Some document \<and> validate_policy_document (label @ ''/'' @ en_name e) document = None"
    if "validate_entry json_error label e = None" for e
    using that by (auto simp: validate_entry_def Let_def split: entry_kind.splits if_splits sum.splits option.splits)
  then show ?thesis using r none unfolding all by (intro exI [of _ entries]) simp
qed

lemma admitted_tree_is_plain_witness:
  "validate_policy_tree (\<lambda>_. []) (Root_Dir (Inr [\<lparr>en_name = ''a.json'', en_kind = Regular (Inr ''{}'')\<rparr>])) ''p'' = None
   \<and> (\<exists>entries. Root_Dir (Inr [\<lparr>en_name = ''a.json'', en_kind = Regular (Inr ''{}'')\<rparr>]) = Root_Dir (Inr entries))"
proof
  show ok: "validate_policy_tree (\<lambda>_. []) (Root_Dir (Inr [\<lparr>en_name = ''a.json'', en_kind = Regular (Inr ''{}'')\<rparr>])) ''p'' = None"
    by code_simp
  show "\<exists>entries. Root_Dir (Inr [\<lparr>en_name = ''a.json'', en_kind = Regular (Inr ''{}'')\<rparr>]) = Root_Dir (Inr entries)"
    using admitted_tree_is_plain [OF ok] by blast
qed

end
