(* ===== verification/Verdict.thy ===== *)
theory Verdict
  imports Decisions Github_Lists
begin

text \<open>
  Reviewer verdicts (\<open>worker/.../verdict.py\<close>): the comment both actors speak, with the machine block the next
  run's driver parses. A field the source reads without a type check keeps its JSON value; the outer
  \<open>None\<close> of the parser is a raised \<open>TypeError\<close>, \<open>ValueError\<close> or \<open>OverflowError\<close>.
\<close>

definition APPROVE :: string where "APPROVE = ''approve''"
definition REVISE :: string where "REVISE = ''revise''"
definition ESCALATE :: string where "ESCALATE = ''escalate''"
definition VERDICT_MARK :: string where "VERDICT_MARK = ''<!-- theozolith:verdict''"
definition GRADES :: "string list" where "GRADES = [''low'', ''medium'', ''high'']"

record verdict =
  vd_verdict :: string
  vd_round :: int
  vd_evidence :: string
  vd_deviation :: json
  vd_risk :: json
  vd_revised_plan :: string
  vd_resume_commit :: string
  vd_cherry_pick :: "string list"
  vd_bundle_url :: string
  vd_process_issues :: "process_issue list"

definition verdict_json :: "verdict \<Rightarrow> json" where
  "verdict_json v = JObj
     [(''verdict'', JStr (vd_verdict v)), (''round'', JInt (vd_round v)), (''evidence'', JStr (vd_evidence v)),
      (''deviation'', vd_deviation v), (''risk'', vd_risk v), (''revised_plan'', JStr (vd_revised_plan v)),
      (''resume_commit'', JStr (vd_resume_commit v)), (''cherry_pick'', JList (map JStr (vd_cherry_pick v))),
      (''bundle_url'', JStr (vd_bundle_url v)), (''process_issues'', JList (map issue_json (vd_process_issues v)))]"

definition ticked :: "string \<Rightarrow> string" where
  "ticked s = [char_of (96 :: nat)] @ s @ [char_of (96 :: nat)]"

text \<open>The middle dot of the grades line, as UTF-8.\<close>

definition middle_dot :: string where "middle_dot = [char_of (194 :: nat), char_of (183 :: nat)]"

definition verdict_lines :: "verdict \<Rightarrow> string list" where
  "verdict_lines v =
     [''### Reviewer verdict: '' @ vd_verdict v @ '' (round '' @ show_int (vd_round v) @ '')'', []]
     @ (if vd_verdict v = APPROVE
        then [''Deviation: **'' @ py_str (vd_deviation v) @ ''** '' @ middle_dot @ '' Risk: **'' @ py_str (vd_risk v) @ ''**'', []]
        else [])
     @ (if vd_evidence v \<noteq> [] then [vd_evidence v, []] else [])
     @ (if vd_verdict v = REVISE
        then [''#### Revised plan'', [], str_or (vd_revised_plan v) ''(none given)'', []]
          @ [''Resume from commit '' @ ticked (str_or (vd_resume_commit v) ''(current head)'') @ ''.'']
          @ (if vd_cherry_pick v \<noteq> []
             then [''Then cherry-pick: '' @ join '', '' (map ticked (vd_cherry_pick v)) @ ''.''] else [])
          @ [[]]
        else [])
     @ (if vd_bundle_url v \<noteq> [] then [''Evidence bundle: '' @ vd_bundle_url v, []] else [])
     @ (if vd_process_issues v \<noteq> []
        then [''#### Process issues'', []] @ map render_process_issue (vd_process_issues v) @ [[]] else [])"

definition render_comment :: "verdict \<Rightarrow> string" where
  "render_comment v =
     join [newline] (verdict_lines v @ [VERDICT_MARK, json_dumps_indent 0 (verdict_json v), ''-->''])"

text \<open>\<open>int (v)\<close>, and the items a \<open>for\<close> loop over a JSON value meets.\<close>

definition int_of_value :: "json \<Rightarrow> int option" where
  "int_of_value v = (case v of
       JInt i \<Rightarrow> Some i | JBool b \<Rightarrow> Some (if b then 1 else 0) | JFloat i s \<Rightarrow> Some i | JStr s \<Rightarrow> py_int s | _ \<Rightarrow> None)"

definition iterated :: "json \<Rightarrow> string list option" where
  "iterated v = (case v of
       JList items \<Rightarrow> Some (map py_str items)
     | JStr s \<Rightarrow> Some (map utf8 (code_points s))
     | JObj d \<Rightarrow> Some (map fst d)
     | _ \<Rightarrow> None)"

definition verdict_from :: "json \<Rightarrow> verdict option option" where
  "verdict_from data =
     (case data of
        JObj d \<Rightarrow>
          (case dget d ''verdict'' of
             JStr kind \<Rightarrow>
               if kind \<in> {APPROVE, REVISE, ESCALATE}
               then (case (int_of_value (dget_or d ''round'' (JInt 0)), iterated (dget_or d ''cherry_pick'' (JList []))) of
                       (Some n, Some picks) \<Rightarrow> Some (Some
                         \<lparr>vd_verdict = kind, vd_round = n, vd_evidence = py_str (dget_or d ''evidence'' (JStr [])),
                          vd_deviation = dget d ''deviation'', vd_risk = dget d ''risk'',
                          vd_revised_plan = py_str (dget_or d ''revised_plan'' (JStr [])),
                          vd_resume_commit = py_str (dget_or d ''resume_commit'' (JStr [])),
                          vd_cherry_pick = picks, vd_bundle_url = py_str (dget_or d ''bundle_url'' (JStr [])),
                          vd_process_issues = process_issues_from (dget d ''process_issues'')\<rparr>)
                     | _ \<Rightarrow> None)
               else Some None
           | _ \<Rightarrow> Some None)
      | _ \<Rightarrow> Some None)"

definition parse_comment :: "string \<Rightarrow> verdict option option" where
  "parse_comment body =
     (case machine_search VERDICT_MARK body of
        None \<Rightarrow> Some None
      | Some g \<Rightarrow> (case json_loads g of None \<Rightarrow> Some None | Some data \<Rightarrow> verdict_from data))"

fun first_verdict :: "comment list \<Rightarrow> (verdict \<times> comment) option option" where
  "first_verdict [] = Some None"
| "first_verdict (c # cs) =
     (case parse_comment (cm_body c) of
        None \<Rightarrow> None
      | Some None \<Rightarrow> first_verdict cs
      | Some (Some v) \<Rightarrow> Some (Some (v, c)))"

definition latest_verdict :: "comment list \<Rightarrow> (verdict \<times> comment) option option" where
  "latest_verdict comments = first_verdict (rev comments)"

subsection \<open>Reading the verdict back\<close>

definition grade_value :: "json \<Rightarrow> bool" where
  "grade_value v \<longleftrightarrow> v = JNull \<or> (is_str v \<and> plain_json v)"

definition valid_verdict :: "verdict \<Rightarrow> bool" where
  "valid_verdict v \<longleftrightarrow>
     vd_verdict v \<in> {APPROVE, REVISE, ESCALATE} \<and> grade_value (vd_deviation v) \<and> grade_value (vd_risk v)
     \<and> is_text (vd_evidence v) \<and> is_text (vd_revised_plan v) \<and> is_text (vd_resume_commit v) \<and> is_text (vd_bundle_url v)
     \<and> list_all is_text (vd_cherry_pick v)
     \<and> list_all (\<lambda>i. pi_friction i \<noteq> [] \<and> is_text (pi_friction i) \<and> is_text (pi_suggested_fix i)) (vd_process_issues v)"

lemma verdict_keys [simp]:
  "is_text ''verdict''" "is_text ''round''" "is_text ''evidence''" "is_text ''deviation''" "is_text ''risk''"
  "is_text ''revised_plan''" "is_text ''resume_commit''" "is_text ''cherry_pick''" "is_text ''bundle_url''"
  "is_text APPROVE" "is_text REVISE" "is_text ESCALATE"
  by (simp_all add: ascii_is_text ascii_def APPROVE_def REVISE_def ESCALATE_def)

lemma in_order_grade: "grade_value v \<Longrightarrow> in_order v = v"
  by (cases v) (auto simp: grade_value_def)

interpretation verdict_block: machine_document VERDICT_MARK verdict_json verdict_from valid_verdict "\<lambda>v. Some (Some v)"
proof
  fix v assume v: "valid_verdict v"
  show "plain_json (verdict_json v)"
    using v by (auto simp: valid_verdict_def verdict_json_def grade_value_def issue_json_def list_all_iff)
  have "in_order (verdict_json v) = JObj
     [(''bundle_url'', JStr (vd_bundle_url v)), (''cherry_pick'', JList (map JStr (vd_cherry_pick v))),
      (''deviation'', vd_deviation v), (''evidence'', JStr (vd_evidence v)),
      (''process_issues'', JList (map issue_json (vd_process_issues v))), (''resume_commit'', JStr (vd_resume_commit v)),
      (''revised_plan'', JStr (vd_revised_plan v)), (''risk'', vd_risk v), (''round'', JInt (vd_round v)),
      (''verdict'', JStr (vd_verdict v))]"
    using v by (simp add: verdict_json_def in_order_parts in_order_grade valid_verdict_def o_def)
  then show "verdict_from (in_order (verdict_json v)) = Some (Some v)"
    using v issues_back [of "vd_process_issues v"]
    by (cases v) (simp add: verdict_from_def valid_verdict_def dget_or_def int_of_value_def iterated_def py_str_def o_def list_all_iff)
qed

text \<open>What stands in front of the machine block.\<close>

definition verdict_text :: "verdict \<Rightarrow> string" where
  "verdict_text v = join [newline] (verdict_lines v) @ [newline]"

lemma render_comment_split: "render_comment v = verdict_text v @ machine_text VERDICT_MARK (verdict_json v)"
proof -
  have "render_comment v = verdict_text v @ join [newline] [VERDICT_MARK, json_dumps_indent 0 (verdict_json v), ''-->'']"
    unfolding render_comment_def verdict_text_def by (subst join_append) (simp_all add: verdict_lines_def)
  then show ?thesis by (simp add: machine_text_def block_close_def)
qed

text \<open>
  C24: The next run reads the verdict the reviewer posted, with its plan, resume commit and cherry-picks,
  whatever characters they hold, as long as the readable part does not itself open a verdict block.
\<close>

theorem verdict_reads_back:
  assumes "valid_verdict v" "fresh_mark (VERDICT_MARK @ [newline]) (verdict_text v)"
  shows "parse_comment (render_comment v) = Some (Some v)"
  using verdict_block.found [OF assms, of "[]"] verdict_block.loaded [OF assms(1)] verdict_block.decodes [OF assms(1)]
  by (simp add: render_comment_split parse_comment_def)

definition demo_verdict :: verdict where
  "demo_verdict = \<lparr>vd_verdict = REVISE, vd_round = 2, vd_evidence = ''e'', vd_deviation = JNull, vd_risk = JNull,
     vd_revised_plan = ''p'', vd_resume_commit = ''a1'', vd_cherry_pick = [''b2''], vd_bundle_url = [], vd_process_issues = []\<rparr>"

lemma verdict_reads_back_witness: "parse_comment (render_comment demo_verdict) = Some (Some demo_verdict)"
proof (rule verdict_reads_back)
  show "valid_verdict demo_verdict"
    by (simp add: valid_verdict_def demo_verdict_def grade_value_def ascii_is_text ascii_def)
  show "fresh_mark (VERDICT_MARK @ [newline]) (verdict_text demo_verdict)" by code_simp
qed

subsection \<open>A quoted block\<close>

lemma fresh_mark_absent: "c \<notin> set s \<Longrightarrow> c \<notin> set p \<Longrightarrow> fresh_mark (c # p) s"
proof -
  assume c: "c \<notin> set s" "c \<notin> set p"
  have "False" if "find_text (c # p) (s @ butlast (c # p)) = Some n" for n
  proof -
    note found = that
    obtain r where r: "drop n (s @ butlast (c # p)) = (c # p) @ r" "n \<le> length (s @ butlast (c # p))"
      using find_text_Some [OF found] by blast
    have "length (drop n (s @ butlast (c # p))) = length ((c # p) @ r)" by (simp only: r(1))
    then have l: "length s + length p = n + Suc (length p) + length r" using r(2)
      by (simp only: length_drop length_append length_butlast length_Cons)
    then have "drop n (s @ butlast (c # p)) = drop n s @ butlast (c # p)" by simp
    moreover have "drop n s \<noteq> []" using l by simp
    ultimately have "c = hd (drop n s)" using r(1) by (metis append_Cons hd_append2 list.sel(1))
    then show False using c(1) \<open>drop n s \<noteq> []\<close> by (metis in_set_dropD list.set_sel(1))
  qed
  then have "find_text (c # p) (s @ butlast (c # p)) = None" by (cases "find_text (c # p) (s @ butlast (c # p))") blast+
  then show "fresh_mark (c # p) s" unfolding fresh_mark_def contains_text_def by simp
qed

text \<open>
  C25: A verdict block quoted in the evidence overrides the verdict itself: when a verdict other than APPROVE has
  evidence that quotes the machine block of a valid verdict, say the comment of an earlier round, and neither its
  kind nor the evidence before the block has a \<open><\<close>, the next run reads the quoted verdict.
\<close>

theorem quoted_block_overrides_verdict:
  assumes "valid_verdict q" "vd_verdict v \<noteq> APPROVE" "CHR ''<'' \<notin> set (vd_verdict v)"
    and "vd_evidence v = before @ machine_text VERDICT_MARK (verdict_json q) @ after" "CHR ''<'' \<notin> set before"
  shows "parse_comment (render_comment v) = Some (Some q)"
proof -
  let ?head = "''### Reviewer verdict: '' @ vd_verdict v @ '' (round '' @ show_int (vd_round v) @ '')''"
  have "CHR ''<'' \<notin> set (show_nat n)" for n
    using isdigit_show_nat [of n] by (auto simp: isdigit_def list_all_iff is_digit_def)
  then have "CHR ''<'' \<notin> set (show_int (vd_round v))" by (simp add: show_int_def)
  then have "CHR ''<'' \<notin> set (?head @ [newline, newline] @ before)" using assms(3,5) by (auto simp: newline_code)
  then have fresh: "fresh_mark (VERDICT_MARK @ [newline]) (?head @ [newline, newline] @ before)"
    using fresh_mark_absent [of "CHR ''<''" "?head @ [newline, newline] @ before" "tl (VERDICT_MARK @ [newline])"]
    by (simp add: VERDICT_MARK_def newline_code)
  obtain xs where "verdict_lines v @ [VERDICT_MARK, json_dumps_indent 0 (verdict_json v), ''-->''] = [?head, [], vd_evidence v, []] @ xs" "xs \<noteq> []"
    using assms(2,4) by (auto simp: verdict_lines_def machine_text_def VERDICT_MARK_def)
  then obtain x ys where xs: "verdict_lines v @ [VERDICT_MARK, json_dumps_indent 0 (verdict_json v), ''-->''] = ?head # [] # vd_evidence v # [] # x # ys"
    by (cases xs) auto
  have "render_comment v = (?head @ [newline, newline] @ before) @ machine_text VERDICT_MARK (verdict_json q)
      @ (after @ [newline, newline] @ join [newline] (x # ys))"
    unfolding render_comment_def xs using assms(4) by simp
  then show ?thesis
    using verdict_block.found [OF assms(1) fresh] verdict_block.loaded [OF assms(1)] verdict_block.decodes [OF assms(1)]
    by (simp add: parse_comment_def)
qed

lemma quoted_block_overrides_verdict_witness:
  "parse_comment (render_comment (demo_verdict\<lparr>vd_verdict := ESCALATE, vd_evidence := machine_text VERDICT_MARK (verdict_json demo_verdict)\<rparr>))
     = Some (Some demo_verdict)"
proof (rule quoted_block_overrides_verdict [where before = "[]" and after = "[]"])
  show "valid_verdict demo_verdict"
    by (simp add: valid_verdict_def demo_verdict_def grade_value_def ascii_is_text ascii_def)
qed (simp_all add: APPROVE_def ESCALATE_def)

end
