(* ===== verification/Proposal.thy ===== *)
theory Proposal
  imports Jobdir Verdict
begin

text \<open>
  The Output Proposal (\<open>worker/.../proposal.py\<close>): the schemas of the two modes, the pending file with the
  writes of the \<open>format-output\<close> command, and the driver's validation. The file is its text or absent;
  a write that raises \<open>ProposalError\<close> answers the message.
\<close>

definition SCHEMA_VERSION :: int where "SCHEMA_VERSION = 1"
definition SCHEMA_ERROR_PREFIX :: string where "SCHEMA_ERROR_PREFIX = ''schema-version: ''"

datatype field_kind = LINE | TEXT | ENUM "string list" | STRINGS | DECISION_ENTRIES | PROCESS_ENTRIES

record field_spec =
  fs_name :: string
  fs_kind :: field_kind
  fs_hint :: string

definition field_of :: "string \<Rightarrow> field_kind \<Rightarrow> string \<Rightarrow> field_spec" where
  "field_of name kind hint = \<lparr>fs_name = name, fs_kind = kind, fs_hint = hint\<rparr>"

definition quoted_key :: "string \<Rightarrow> string" where
  "quoted_key s = [dquote] @ s @ [dquote]"

definition process_field :: field_spec where
  "process_field = field_of ''process-issues'' PROCESS_ENTRIES
     (''[{'' @ quoted_key ''friction'' @ '': '' @ quoted_key ''...'' @ '', '' @ quoted_key ''suggested_fix'' @ '': ''
        @ quoted_key ''...'' @ ''}] (advisory)'')"

definition RUN_FIELDS :: "field_spec list" where
  "RUN_FIELDS =
     [field_of ''pr-title'' LINE ''descriptive PR title (the pipeline adds the #N: prefix)'',
      field_of ''pr-description'' TEXT ''PR narrative (the pipeline composes the body)'',
      field_of ''commit-message'' TEXT ''rich commit message; subject line + body'',
      field_of ''decisions'' DECISION_ENTRIES
        (''[{'' @ quoted_key ''what'' @ '': '' @ quoted_key ''...'' @ '', '' @ quoted_key ''why'' @ '': '' @ quoted_key ''...'' @ ''}]''),
      field_of ''open-questions'' STRINGS ''calls only a human can make'',
      field_of ''remaining-work'' STRINGS ''what a follow-up round still needs'',
      field_of ''dead-ends'' STRINGS ''approaches tried and abandoned'',
      process_field]"

definition REVIEW_FIELDS :: "field_spec list" where
  "REVIEW_FIELDS =
     [field_of ''verdict'' (ENUM [APPROVE, REVISE, ESCALATE]) [],
      field_of ''evidence'' TEXT ''2-6 sentences citing files, criteria, decisions'',
      field_of ''deviation'' (ENUM GRADES) ''approve only'',
      field_of ''risk'' (ENUM GRADES) ''approve only'',
      field_of ''revised-plan'' TEXT ''revise only: numbered, concrete steps'',
      field_of ''resume-commit'' LINE ''revise only: commit SHA (empty = current head)'',
      field_of ''cherry-pick'' STRINGS ''revise only: commit SHAs'',
      process_field]"

text \<open>\<open>None\<close> is the \<open>ProposalError\<close> for a mode without a schema.\<close>

definition fields_for :: "string \<Rightarrow> field_spec list option" where
  "fields_for mode =
     (if mode = MODE_RUN then Some RUN_FIELDS else if mode = MODE_REVIEW then Some REVIEW_FIELDS else None)"

definition spec_named :: "field_spec list \<Rightarrow> string \<Rightarrow> field_spec option" where
  "spec_named specs name = find (\<lambda>s. fs_name s = name) specs"

definition schema_mismatch :: "int \<Rightarrow> string option" where
  "schema_mismatch manifest_version =
     (if manifest_version = SCHEMA_VERSION then None
      else Some (SCHEMA_ERROR_PREFIX @ ''the job manifest stamps output-proposal schema v'' @ show_int manifest_version
        @ '' but this distribution speaks v'' @ show_int SCHEMA_VERSION @ '' '' @ em_dash
        @ '' driver and run image are out of step (pre-session infra failure, ADR-0016)''))"

definition schema_error_detail :: "string \<Rightarrow> string option" where
  "schema_error_detail message =
     (let text = removeprefix message ''harness failed: '' in
      if startswith text SCHEMA_ERROR_PREFIX then Some (drop (length SCHEMA_ERROR_PREFIX) text) else None)"

subsection \<open>Reading the pending file\<close>

definition no_proposal :: string where
  "no_proposal = ''no output proposal was written (use format-output; run''
     @ '' '' @ [char_of (96 :: nat)] @ ''format-output status'' @ [char_of (96 :: nat)] @ '' before finishing)''"

text \<open>
  \<open>file\<close> is the pending file as \<open>read_text\<close> answered it, \<open>None\<close> for a missing one; bytes that are no UTF-8 raised there
  (\<open>raw_text\<close> in the drivers). The answer: a document, or the problem with the file; \<open>json_error\<close> words a decoding error.
\<close>

definition read_document :: "(string \<Rightarrow> string) \<Rightarrow> string option \<Rightarrow> string + dict" where
  "read_document json_error file =
     (case file of
        None \<Rightarrow> Inl no_proposal
      | Some text \<Rightarrow>
          (case json_loads text of
             None \<Rightarrow> Inl (''the output proposal is not valid JSON: '' @ json_error text)
           | Some (JObj d) \<Rightarrow> Inr d
           | Some _ \<Rightarrow> Inl ''the output proposal is not a JSON object''))"

definition read_raw :: "string option \<Rightarrow> dict option" where
  "read_raw file = (case read_document (\<lambda>_. []) file of Inl _ \<Rightarrow> None | Inr d \<Rightarrow> Some d)"

definition pending_fields :: "dict option \<Rightarrow> dict" where
  "pending_fields raw =
     (case raw of None \<Rightarrow> [] | Some d \<Rightarrow> (case dget d ''fields'' of JObj f \<Rightarrow> f | _ \<Rightarrow> []))"

subsection \<open>Shapes\<close>

definition blank :: "string \<Rightarrow> bool" where "blank s \<longleftrightarrow> strip s = []"

definition filled :: "json \<Rightarrow> bool" where
  "filled v \<longleftrightarrow> (case v of JStr s \<Rightarrow> \<not> blank s | _ \<Rightarrow> False)"

definition repr_list :: "string list \<Rightarrow> string" where
  "repr_list xs = ''['' @ join '', '' (map py_repr xs) @ '']''"

definition entry_error :: "field_spec \<Rightarrow> string \<Rightarrow> string \<Rightarrow> json \<Rightarrow> string option" where
  "entry_error spec key optional item =
     (case item of
        JObj d \<Rightarrow>
          if \<not> filled (dget d key) then Some (fs_name spec @ '' entries need a non-empty '' @ py_repr key)
          else if \<not> is_str (dget_or d optional (JStr [])) then Some (fs_name spec @ '' entry '' @ py_repr optional @ '' must be a string'')
          else (let unknown = filter (\<lambda>k. k \<notin> {key, optional}) (map fst d) in
                if unknown \<noteq> []
                then Some (fs_name spec @ '' entries take only '' @ py_repr key @ ''/'' @ py_repr optional @ '', not '' @ repr_list (sort unknown))
                else None)
      | _ \<Rightarrow> Some (fs_name spec @ '' entries must be objects ('' @ fs_hint spec @ '')''))"

fun first_error :: "('a \<Rightarrow> string option) \<Rightarrow> 'a list \<Rightarrow> string option" where
  "first_error f [] = None"
| "first_error f (x # xs) = (case f x of Some e \<Rightarrow> Some e | None \<Rightarrow> first_error f xs)"

definition list_shape_error :: "field_spec \<Rightarrow> json \<Rightarrow> string option" where
  "list_shape_error spec v =
     (case v of
        JList items \<Rightarrow>
          if fs_kind spec = STRINGS
          then (if list_ex (\<lambda>i. \<not> filled i) items then Some (fs_name spec @ '' must be an array of non-empty strings'') else None)
          else if fs_kind spec = DECISION_ENTRIES then first_error (entry_error spec ''what'' ''why'') items
          else first_error (entry_error spec ''friction'' ''suggested_fix'') items
      | _ \<Rightarrow> Some (fs_name spec @ '' must be a JSON array ('' @ fs_hint spec @ '')''))"

definition strip_newlines :: "string \<Rightarrow> string" where
  "strip_newlines s = rev (dropWhile (\<lambda>c. c = newline) (rev (dropWhile (\<lambda>c. c = newline) s)))"

definition text_kind :: "field_kind \<Rightarrow> bool" where
  "text_kind k = (case k of LINE \<Rightarrow> True | TEXT \<Rightarrow> True | ENUM _ \<Rightarrow> True | _ \<Rightarrow> False)"

definition enum_error :: "field_kind \<Rightarrow> string \<Rightarrow> bool" where
  "enum_error k s = (case k of ENUM choices \<Rightarrow> s \<notin> set choices | _ \<Rightarrow> False)"

definition choices_of :: "field_kind \<Rightarrow> string" where
  "choices_of k = (case k of ENUM choices \<Rightarrow> join '', '' choices | _ \<Rightarrow> [])"

text \<open>One value of the command line: its message, or its value.\<close>

definition parse_value :: "(string \<Rightarrow> string) \<Rightarrow> field_spec \<Rightarrow> string \<Rightarrow> string + json" where
  "parse_value json_error spec text =
     (if text_kind (fs_kind spec)
      then (let s = (if fs_kind spec = LINE then strip text else strip_newlines text) in
            if blank s then Inl (fs_name spec @ '' must not be empty'')
            else if fs_kind spec = LINE \<and> newline \<in> set s then Inl (fs_name spec @ '' must be a single line'')
            else if enum_error (fs_kind spec) s then Inl (fs_name spec @ '' must be one of '' @ choices_of (fs_kind spec))
            else Inr (JStr s))
      else (case json_loads text of
              None \<Rightarrow> Inl (fs_name spec @ '' takes a JSON array ('' @ fs_hint spec @ ''): '' @ json_error text)
            | Some v \<Rightarrow> (case list_shape_error spec v of Some e \<Rightarrow> Inl e | None \<Rightarrow> Inr v)))"

definition document_json :: "string \<Rightarrow> dict \<Rightarrow> json" where
  "document_json mode fs = JObj [(''schema_version'', JInt SCHEMA_VERSION), (''mode'', JStr mode), (''fields'', JObj fs)]"

text \<open>One write: the message of a refusal, or the value with the new text of the file.\<close>

definition write_field :: "(string \<Rightarrow> string) \<Rightarrow> string option \<Rightarrow> manifest \<Rightarrow> string \<Rightarrow> string \<Rightarrow> string + (json \<times> string)" where
  "write_field json_error file m name value_text =
     (case fields_for (mf_mode m) of
        None \<Rightarrow> Inl (''no output-proposal schema for mode '' @ py_repr (mf_mode m))
      | Some specs \<Rightarrow>
          (case spec_named specs name of
             None \<Rightarrow> Inl (''unknown field '' @ py_repr name @ '' for '' @ mf_mode m @ '' mode; the schema allows: ''
               @ join '', '' (map fs_name specs) @ '' (anything else is deliberately unrepresentable)'')
           | Some spec \<Rightarrow>
               (case parse_value json_error spec value_text of
                  Inl e \<Rightarrow> Inl e
                | Inr v \<Rightarrow>
                    if name = ''verdict'' \<and> v = JStr REVISE \<and> final_round m
                    then Inl (''final-round rule: this is the last budgeted review round '' @ em_dash
                      @ '' revise is unavailable (approve or escalate only)'')
                    else Inr (v, json_dumps_indent 0 (document_json (mf_mode m) (dput name v (pending_fields (read_raw file))))))))"

subsection \<open>The driver's validation\<close>

definition describe_value :: "field_spec \<Rightarrow> json \<Rightarrow> string" where
  "describe_value spec v =
     (case v of
        JNull \<Rightarrow> ''empty''
      | JList xs \<Rightarrow>
          if (case fs_kind spec of ENUM _ \<Rightarrow> True | _ \<Rightarrow> False) then py_str v
          else if length xs \<noteq> 1 then show_nat (length xs) @ '' entries'' else ''1 entry''
      | _ \<Rightarrow>
          if (case fs_kind spec of ENUM _ \<Rightarrow> True | _ \<Rightarrow> False) then py_str v
          else (let n = length (code_points (py_str v)) in if n \<noteq> 1 then show_nat n @ '' chars'' else ''1 char''))"

definition required_fields :: "string \<Rightarrow> int \<Rightarrow> string list" where
  "required_fields mode round_number =
     (if mode = MODE_RUN
      then (if round_number \<le> 1 then [''pr-title'', ''pr-description'', ''commit-message''] else [''commit-message''])
      else [''verdict'', ''evidence''])"

definition document_errors :: "dict option \<Rightarrow> string \<Rightarrow> string list" where
  "document_errors raw mode =
     (case raw of
        None \<Rightarrow> [no_proposal]
      | Some d \<Rightarrow>
          (if is_one (dget d ''schema_version'') then []
           else [''proposal schema_version '' @ py_repr_json (dget d ''schema_version'') @ '' is not '' @ show_int SCHEMA_VERSION])
          @ (if dget d ''mode'' = JStr mode then []
             else [''proposal mode '' @ py_repr_json (dget d ''mode'') @ '' is not '' @ py_repr mode])
          @ (if is_dict (dget d ''fields'') then [] else [''proposal carries no fields object''])
          @ (let unknown = filter (\<lambda>k. k \<notin> {''schema_version'', ''mode'', ''fields''}) (map fst d) in
             if unknown = [] then [] else [''unknown proposal keys '' @ repr_list (sort unknown)]))"

definition value_errors :: "field_spec list \<Rightarrow> string \<Rightarrow> json \<Rightarrow> string list" where
  "value_errors specs name v =
     (case spec_named specs name of
        None \<Rightarrow> []
      | Some spec \<Rightarrow>
          if fs_kind spec = PROCESS_ENTRIES then []
          else if text_kind (fs_kind spec)
          then (case v of
                  JStr s \<Rightarrow>
                    if blank s then [name @ '' (must be a non-empty string)'']
                    else if fs_kind spec = LINE \<and> newline \<in> set s then [name @ '' (must be a single line)'']
                    else if enum_error (fs_kind spec) s then [name @ '' (must be one of '' @ choices_of (fs_kind spec) @ '')'']
                    else []
                | _ \<Rightarrow> [name @ '' (must be a non-empty string)''])
          else (case list_shape_error spec v of None \<Rightarrow> [] | Some e \<Rightarrow> [name @ '' ('' @ e @ '')'']))"

definition unknown_errors :: "field_spec list \<Rightarrow> string \<Rightarrow> dict \<Rightarrow> string list" where
  "unknown_errors specs mode fs =
     map (\<lambda>name. ''unknown field '' @ py_repr name @ '' (the '' @ mode @ '' schema allows: '' @ join '', '' (map fs_name specs) @ '')'')
       (sort (filter (\<lambda>k. k \<notin> fs_name ` set specs) (map fst fs)))"

definition missing_errors :: "dict \<Rightarrow> string \<Rightarrow> int \<Rightarrow> string list" where
  "missing_errors fs mode round_number =
     map (\<lambda>name. name @ '' (missing)'') (filter (\<lambda>name. \<not> dhas fs name) (required_fields mode round_number))"

definition field_errors :: "dict \<Rightarrow> string \<Rightarrow> field_spec list \<Rightarrow> int \<Rightarrow> string list" where
  "field_errors fs mode specs round_number =
     unknown_errors specs mode fs @ missing_errors fs mode round_number
     @ concat (map (\<lambda>(name, v). value_errors specs name v) fs)"

record run_proposal =
  rn_commit_message :: string
  rn_pr_title :: string
  rn_pr_description :: string
  rn_section :: decisions_section

definition text_at :: "dict \<Rightarrow> string \<Rightarrow> string" where
  "text_at fs name = py_str (dget_or fs name (JStr []))"

definition listed_at :: "dict \<Rightarrow> string \<Rightarrow> json list" where
  "listed_at fs name = (case dget fs name of JList xs \<Rightarrow> xs | _ \<Rightarrow> [])"

definition decision_entry :: "json \<Rightarrow> decision" where
  "decision_entry item = (case item of
       JObj d \<Rightarrow> \<lparr>dn_what = py_str (dget d ''what''), dn_why = py_str (dget_or d ''why'' (JStr []))\<rparr>
     | _ \<Rightarrow> \<lparr>dn_what = [], dn_why = []\<rparr>)"

definition section_from :: "dict \<Rightarrow> decisions_section" where
  "section_from fs =
     \<lparr>ds_decisions = map decision_entry (listed_at fs ''decisions''),
      ds_open_questions = map py_str (listed_at fs ''open-questions''),
      ds_remaining_work = map py_str (listed_at fs ''remaining-work''),
      ds_dead_ends = map py_str (listed_at fs ''dead-ends''),
      ds_gate_findings = [],
      ds_process_issues = process_issues_from (dget fs ''process-issues'')\<rparr>"

text \<open>The lenient section goes through \<open>section_from_dict\<close>, which cannot fail without findings.\<close>

definition lenient_section :: "dict option \<Rightarrow> decisions_section option" where
  "lenient_section raw =
     (let fs = pending_fields raw in
      section_from_dict
        [(''decisions'', dget fs ''decisions''), (''open_questions'', dget fs ''open-questions''),
         (''remaining_work'', dget fs ''remaining-work''), (''dead_ends'', dget fs ''dead-ends''),
         (''process_issues'', dget fs ''process-issues'')])"

definition validate_run :: "dict option \<Rightarrow> int \<Rightarrow> string list + run_proposal" where
  "validate_run raw round_number =
     (let fs = pending_fields raw in
      if document_errors raw MODE_RUN \<noteq> [] then Inl (document_errors raw MODE_RUN)
      else if field_errors fs MODE_RUN RUN_FIELDS round_number \<noteq> [] then Inl (field_errors fs MODE_RUN RUN_FIELDS round_number)
      else Inr \<lparr>rn_commit_message = text_at fs ''commit-message'', rn_pr_title = text_at fs ''pr-title'',
                rn_pr_description = text_at fs ''pr-description'', rn_section = section_from fs\<rparr>)"

definition validate_run_job :: "(string \<Rightarrow> string) \<Rightarrow> string option \<Rightarrow> int \<Rightarrow> string list + run_proposal" where
  "validate_run_job json_error file round_number =
     (case read_document json_error file of Inl problem \<Rightarrow> Inl [problem] | Inr d \<Rightarrow> validate_run (Some d) round_number)"

definition grade_at :: "dict \<Rightarrow> string \<Rightarrow> json" where
  "grade_at fs name = (if dget fs name \<in> JStr ` set GRADES then dget fs name else JNull)"

definition grades_text :: string where
  "grades_text = ''('' @ join '', '' (map py_repr GRADES) @ '')''"

definition review_problem :: "dict \<Rightarrow> bool \<Rightarrow> string option" where
  "review_problem fs final =
     (let kind = dget fs ''verdict'' in
      if kind = JStr APPROVE \<and> grade_at fs ''deviation'' = JNull
      then Some (''approve requires deviation in '' @ grades_text @ '', got '' @ py_repr_json (dget fs ''deviation''))
      else if kind = JStr APPROVE \<and> grade_at fs ''risk'' = JNull
      then Some (''approve requires risk in '' @ grades_text @ '', got '' @ py_repr_json (dget fs ''risk''))
      else if kind = JStr REVISE \<and> final
      then Some (''final-round rule: a revise at the last budgeted round would commission a Run with no remaining review round'')
      else if kind = JStr REVISE \<and> blank (text_at fs ''revised-plan'') then Some ''revise requires a non-empty revised-plan''
      else None)"

definition validate_review :: "dict option \<Rightarrow> int \<Rightarrow> bool \<Rightarrow> string \<Rightarrow> string \<Rightarrow> string + verdict" where
  "validate_review raw round_number final default_resume bundle_url =
     (let fs = pending_fields raw;
          errors = (if document_errors raw MODE_REVIEW \<noteq> [] then document_errors raw MODE_REVIEW
                    else field_errors fs MODE_REVIEW REVIEW_FIELDS round_number)
      in if errors \<noteq> [] then Inl (join ''; '' errors)
         else (case review_problem fs final of
                 Some e \<Rightarrow> Inl e
               | None \<Rightarrow> Inr
                   \<lparr>vd_verdict = text_at fs ''verdict'', vd_round = round_number, vd_evidence = strip (text_at fs ''evidence''),
                    vd_deviation = grade_at fs ''deviation'', vd_risk = grade_at fs ''risk'',
                    vd_revised_plan = text_at fs ''revised-plan'',
                    vd_resume_commit = str_or (text_at fs ''resume-commit'') default_resume,
                    vd_cherry_pick = filter (\<lambda>sha. sha \<noteq> []) (map py_str (listed_at fs ''cherry-pick'')),
                    vd_bundle_url = bundle_url, vd_process_issues = process_issues_from (dget fs ''process-issues'')\<rparr>))"

definition validate_review_job :: "(string \<Rightarrow> string) \<Rightarrow> string option \<Rightarrow> int \<Rightarrow> bool \<Rightarrow> string \<Rightarrow> string \<Rightarrow> string + verdict" where
  "validate_review_job json_error file round_number final default_resume bundle_url =
     (case read_document json_error file of
        Inl problem \<Rightarrow> Inl problem
      | Inr d \<Rightarrow> validate_review (Some d) round_number final default_resume bundle_url)"

subsection \<open>What validation accepts\<close>

lemma field_errors_value:
  assumes "field_errors fs mode specs n = []" "dget fs name \<noteq> JNull"
  shows "value_errors specs name (dget fs name) = []"
proof -
  have "(name, dget fs name) \<in> set fs" using assms(2) by (auto simp: dget_def split: option.splits dest: map_of_SomeD)
  then show ?thesis using assms(1) by (force simp: field_errors_def)
qed

lemma required_present:
  assumes "field_errors fs mode specs n = []" "name \<in> set (required_fields mode n)"
  shows "dhas fs name"
  using assms by (auto simp: field_errors_def missing_errors_def filter_empty_conv)

lemma review_specs:
  "spec_named REVIEW_FIELDS ''verdict'' = Some (field_of ''verdict'' (ENUM [APPROVE, REVISE, ESCALATE]) [])"
  "spec_named REVIEW_FIELDS ''evidence'' = Some (field_of ''evidence'' TEXT ''2-6 sentences citing files, criteria, decisions'')"
  by (simp_all add: spec_named_def REVIEW_FIELDS_def field_of_def)

lemma text_value:
  assumes "value_errors specs name v = []" "spec_named specs name = Some spec" "text_kind (fs_kind spec)"
  obtains s where "v = JStr s" "\<not> blank s" "\<not> enum_error (fs_kind spec) s" "fs_kind spec = LINE \<Longrightarrow> newline \<notin> set s"
  using assms by (cases v; cases "fs_kind spec") (auto simp: value_errors_def text_kind_def split: if_splits)

lemma dget_present: "dhas fs name \<Longrightarrow> (name, dget fs name) \<in> set fs"
  by (cases "map_of fs name") (auto simp: dget_def dhas_def map_of_eq_None_iff dest: map_of_SomeD)

lemma present_value: "field_errors fs mode specs n = [] \<Longrightarrow> dhas fs name \<Longrightarrow> value_errors specs name (dget fs name) = []"
  using dget_present [of fs name] by (force simp: field_errors_def)

lemma grade_at_cases: "grade_at fs name = JNull \<or> (\<exists>g\<in>set GRADES. grade_at fs name = JStr g)"
  by (auto simp: grade_at_def)

lemma accepted_verdict:
  assumes "validate_review raw n final resume url = Inr v"
  shows "vd_verdict v \<in> {APPROVE, REVISE, ESCALATE} \<and> vd_evidence v \<noteq> [] \<and> vd_round v = n \<and> vd_bundle_url v = url
    \<and> (vd_verdict v = APPROVE \<longrightarrow> vd_deviation v \<in> JStr ` set GRADES \<and> vd_risk v \<in> JStr ` set GRADES)
    \<and> (vd_verdict v = REVISE \<longrightarrow> \<not> final \<and> \<not> blank (vd_revised_plan v))"
proof -
  define fs where "fs = pending_fields raw"
  have errors: "field_errors fs MODE_REVIEW REVIEW_FIELDS n = []" and ok: "review_problem fs final = None"
    and v: "vd_verdict v = text_at fs ''verdict''" "vd_evidence v = strip (text_at fs ''evidence'')" "vd_round v = n"
      "vd_bundle_url v = url" "vd_deviation v = grade_at fs ''deviation''" "vd_risk v = grade_at fs ''risk''"
      "vd_revised_plan v = text_at fs ''revised-plan''"
    using assms by (auto simp: validate_review_def fs_def Let_def split: if_splits option.splits)
  have here: "dhas fs ''verdict''" "dhas fs ''evidence''"
    using required_present [OF errors] by (simp_all add: required_fields_def MODE_REVIEW_def MODE_RUN_def)
  obtain k where k: "dget fs ''verdict'' = JStr k" "k \<in> {APPROVE, REVISE, ESCALATE}"
    using text_value [OF present_value [OF errors here(1)] review_specs(1)]
    by (auto simp: field_of_def text_kind_def enum_error_def)
  obtain e where e: "dget fs ''evidence'' = JStr e" "\<not> blank e"
    using text_value [OF present_value [OF errors here(2)] review_specs(2)]
    by (auto simp: field_of_def text_kind_def)
  have at: "text_at fs name = s" if "dget fs name = JStr s" for name s
    using that by (auto simp: text_at_def dget_or_def dget_def py_str_def split: option.splits)
  have "vd_verdict v = k" "vd_evidence v \<noteq> []" using at [OF k(1)] at [OF e(1)] e(2) v(1,2) by (simp_all add: blank_def)
  moreover have "k = APPROVE \<longrightarrow> vd_deviation v \<in> JStr ` set GRADES \<and> vd_risk v \<in> JStr ` set GRADES"
    using ok k(1) grade_at_cases [of fs "''deviation''"] grade_at_cases [of fs "''risk''"] v(5,6)
    by (auto simp: review_problem_def Let_def split: if_splits)
  moreover have "k = REVISE \<longrightarrow> \<not> final \<and> \<not> blank (vd_revised_plan v)"
    using ok k(1) v(7) by (auto simp: review_problem_def Let_def APPROVE_def REVISE_def split: if_splits)
  ultimately show ?thesis using k(2) v(3,4) by simp
qed

text \<open>
  C34: A verdict the driver accepts has a kind of the enum and non-blank evidence; an approval carries both grades,
  a revision comes before the final round and carries a plan, and the round and bundle are the driver's own.
\<close>

theorem accepted_verdict_is_wellformed:
  assumes "validate_review raw n final resume url = Inr v"
  shows "vd_verdict v \<in> {APPROVE, REVISE, ESCALATE} \<and> vd_evidence v \<noteq> [] \<and> vd_round v = n \<and> vd_bundle_url v = url
    \<and> (vd_verdict v = APPROVE \<longrightarrow> vd_deviation v \<in> JStr ` set GRADES \<and> vd_risk v \<in> JStr ` set GRADES)
    \<and> (vd_verdict v = REVISE \<longrightarrow> \<not> final \<and> \<not> blank (vd_revised_plan v))"
  by (rule accepted_verdict [OF assms])

definition demo_review :: dict where
  "demo_review = [(''schema_version'', JInt 1), (''mode'', JStr ''review''),
     (''fields'', JObj [(''verdict'', JStr ''escalate''), (''evidence'', JStr ''x'')])]"

lemma accepted_verdict_is_wellformed_witness:
  "\<exists>v. validate_review (Some demo_review) 1 False [] [] = Inr v \<and> vd_evidence v \<noteq> []"
proof -
  have "\<not> isl (validate_review (Some demo_review) 1 False [] [])" by code_simp
  then have "\<exists>v. validate_review (Some demo_review) 1 False [] [] = Inr v" by (metis sum.collapse(2))
  then show ?thesis using accepted_verdict_is_wellformed by blast
qed

subsection \<open>What the command line writes\<close>

lemma map_of_in_order:
  assumes "distinct (map fst d)"
  shows "map_of (sort_key fst (map (\<lambda>(k, v). (k, in_order v)) d)) k = map_option in_order (map_of d k)"
proof -
  let ?d = "map (\<lambda>(k, v). (k, in_order v)) d"
  have dist: "distinct (map fst ?d)" using assms by (simp add: o_def case_prod_beta)
  then have "distinct (map fst (sort_key fst ?d))" by (metis distinct_map distinct_sort set_sort)
  then have "map_of (sort_key fst ?d) = map_of ?d" using dist by (intro map_of_inject_set [THEN iffD2]) simp_all
  then show ?thesis by (simp add: map_of_map)
qed

lemma plain_in_order: "plain_json v \<Longrightarrow> plain_json (in_order v)"
proof (induction v)
  case (JObj d)
  have "distinct (map fst (sort_key fst (map (\<lambda>(k, v). (k, in_order v)) d)))"
    using JObj.prems by (subst distinct_map) (auto simp: distinct_map inj_on_def o_def case_prod_beta)
  moreover have "is_text k \<and> plain_json (in_order x)" if "(k, x) \<in> set d" for k x
    using JObj that by (force simp: list_all_iff snds.simps)
  ultimately show ?case by (auto simp: list_all_iff)
qed (simp_all add: list_all_iff)

lemma entry_error_in_order:
  assumes "entry_error spec key opt item = None" "plain_json item"
  shows "entry_error spec key opt (in_order item) = None"
proof -
  obtain d where d: "item = JObj d" using assms(1) by (cases item) (auto simp: entry_error_def)
  let ?s = "sort_key fst (map (\<lambda>(k, v). (k, in_order v)) d)"
  have m: "map_of ?s k = map_option in_order (map_of d k)" for k
    using map_of_in_order [of d k] assms(2) d by simp
  have "dget ?s k = in_order (dget d k)" "dget_or ?s k (JStr []) = in_order (dget_or d k (JStr []))" for k
    unfolding dget_def dget_or_def m by (cases "map_of d k"; simp)+
  moreover have "filter (\<lambda>k. k \<notin> {key, opt}) (map fst ?s) = []"
    using assms(1) d by (auto simp: entry_error_def Let_def filter_empty_conv split: if_splits)
  moreover have "filled (in_order v) = filled v" "is_str (in_order v) = is_str v" for v
    by (cases v; simp add: filled_def)+
  ultimately show ?thesis using assms(1) d by (simp add: entry_error_def Let_def split: if_splits)
qed

lemma first_error_None: "first_error f xs = None \<longleftrightarrow> (\<forall>x\<in>set xs. f x = None)"
  by (induction xs) (auto split: option.splits)

lemma list_shape_in_order:
  assumes "list_shape_error spec v = None" "plain_json v"
  shows "list_shape_error spec (in_order v) = None"
proof -
  obtain items where v: "v = JList items" using assms(1) by (cases v) (auto simp: list_shape_error_def)
  have "filled (in_order x) = filled x" for x by (cases x) (simp_all add: filled_def)
  then show ?thesis using assms v
    by (auto simp: list_shape_error_def first_error_None list_all_iff list_ex_iff entry_error_in_order split: if_splits)
qed

lemma value_errors_in_order:
  assumes "value_errors specs name v = []" "plain_json v"
  shows "value_errors specs name (in_order v) = []"
proof (cases "spec_named specs name")
  case (Some spec)
  show ?thesis
  proof (cases "text_kind (fs_kind spec)")
    case True
    then show ?thesis using assms(1) Some by (cases v) (auto simp: value_errors_def split: if_splits)
  next
    case False
    then show ?thesis using assms Some list_shape_in_order by (auto simp: value_errors_def split: if_splits option.splits)
  qed
qed (simp add: value_errors_def)

lemma parsed_value_errors:
  "parse_value json_error spec t = Inr v \<Longrightarrow> spec_named specs name = Some spec \<Longrightarrow> value_errors specs name v = []"
  by (auto simp: parse_value_def value_errors_def Let_def split: if_splits option.splits)

text \<open>The pending file after a sequence of commands; a refused one leaves it as it was.\<close>

fun cli_writes :: "(string \<Rightarrow> string) \<Rightarrow> manifest \<Rightarrow> string option \<Rightarrow> (string \<times> string) list \<Rightarrow> string option" where
  "cli_writes json_error m file [] = file"
| "cli_writes json_error m file ((name, t) # rest) =
     cli_writes json_error m
       (case write_field json_error file m name t of Inl e \<Rightarrow> file | Inr (v, new) \<Rightarrow> Some new) rest"

text \<open>The values a command line can hold: its texts are UTF-8.\<close>

definition text_input :: "manifest \<Rightarrow> string \<times> string \<Rightarrow> bool" where
  "text_input m w =
     (case write_field (\<lambda>_. []) None m (fst w) (snd w) of Inl e \<Rightarrow> True | Inr (v, new) \<Rightarrow> plain_json v)"

definition wellformed_fields :: "field_spec list \<Rightarrow> manifest \<Rightarrow> dict \<Rightarrow> bool" where
  "wellformed_fields specs m fs \<longleftrightarrow>
     plain_json (JObj fs) \<and> list_all (\<lambda>(name, v). spec_named specs name \<noteq> None \<and> value_errors specs name v = []) fs
     \<and> (final_round m \<longrightarrow> dget fs ''verdict'' \<noteq> JStr REVISE)"

definition wellformed_file :: "field_spec list \<Rightarrow> manifest \<Rightarrow> string option \<Rightarrow> bool" where
  "wellformed_file specs m file \<longleftrightarrow>
     file = None \<or> (\<exists>fs. read_raw file = Some [(''fields'', JObj fs), (''mode'', JStr (mf_mode m)), (''schema_version'', JInt 1)]
       \<and> wellformed_fields specs m fs)"

lemma dput_distinct: "distinct (map fst d) \<Longrightarrow> distinct (map fst (dput k v d))"
proof (induction k v d rule: dput.induct)
  case (2 k v k' v' d)
  then show ?case using keys_dput [of k v d] by (cases "k = k'") auto
qed simp

lemma dput_mem: "(x, y) \<in> set (dput k v d) \<Longrightarrow> (x, y) = (k, v) \<or> (x, y) \<in> set d"
  by (induction k v d rule: dput.induct) (auto split: if_splits)

lemma wellformed_dput:
  assumes "wellformed_fields specs m fs" "plain_json v" "is_text name" "spec_named specs name = Some spec"
    "value_errors specs name v = []" "name = ''verdict'' \<and> v = JStr REVISE \<longrightarrow> \<not> final_round m"
  shows "wellformed_fields specs m (dput name v fs)"
proof -
  have "distinct (map fst (dput name v fs))" using assms(1) by (simp add: wellformed_fields_def dput_distinct)
  moreover have "is_text k \<and> plain_json x \<and> spec_named specs k \<noteq> None \<and> value_errors specs k x = []"
    if "(k, x) \<in> set (dput name v fs)" for k x
    using dput_mem [OF that] assms by (auto simp: wellformed_fields_def list_all_iff)
  moreover have "dget (dput name v fs) ''verdict'' = (if name = ''verdict'' then v else dget fs ''verdict'')"
    by (simp add: dget_def map_of_dput)
  ultimately show ?thesis using assms(1,6) by (auto simp: wellformed_fields_def list_all_iff)
qed

lemma wellformed_in_order:
  assumes "wellformed_fields specs m fs"
  shows "wellformed_fields specs m (sort_key fst (map (\<lambda>(k, v). (k, in_order v)) fs))"
proof -
  have plain: "plain_json (JObj fs)" using assms by (simp add: wellformed_fields_def)
  then have "plain_json (in_order (JObj fs))" by (rule plain_in_order)
  moreover have "spec_named specs k \<noteq> None \<and> value_errors specs k (in_order x) = []" if "(k, x) \<in> set fs" for k x
    using that assms value_errors_in_order by (fastforce simp: wellformed_fields_def list_all_iff)
  moreover have "dget (sort_key fst (map (\<lambda>(k, v). (k, in_order v)) fs)) ''verdict'' = in_order (dget fs ''verdict'')"
    using map_of_in_order [of fs "''verdict''"] plain by (cases "map_of fs ''verdict''") (simp_all add: dget_def)
  moreover have "in_order v = JStr s \<longleftrightarrow> v = JStr s" for v s by (cases v) simp_all
  ultimately show ?thesis using assms by (auto simp: wellformed_fields_def list_all_iff)
qed

lemma known_field_text: "fields_for mode = Some specs \<Longrightarrow> spec_named specs name = Some spec \<Longrightarrow> is_text name"
proof -
  assume f: "fields_for mode = Some specs" "spec_named specs name = Some spec"
  then have "name \<in> fs_name ` set specs" by (auto simp: spec_named_def find_Some_iff)
  then show ?thesis using f(1)
    by (auto simp: fields_for_def RUN_FIELDS_def REVIEW_FIELDS_def field_of_def process_field_def ascii_is_text ascii_def split: if_splits)
qed

lemma mode_text: "fields_for mode = Some specs \<Longrightarrow> is_text mode"
  by (auto simp: fields_for_def MODE_RUN_def MODE_REVIEW_def ascii_is_text ascii_def split: if_splits)

lemma written_value_plain:
  "write_field json_error file m name t = Inr (v, new) \<Longrightarrow> text_input m (name, t) \<Longrightarrow> plain_json v"
  by (auto simp: write_field_def text_input_def parse_value_def Let_def split: option.splits sum.splits if_splits)

lemma wellformed_write:
  assumes "fields_for (mf_mode m) = Some specs" "wellformed_file specs m file" "text_input m (name, t)"
    "write_field json_error file m name t = Inr (v, new)"
  shows "wellformed_file specs m (Some new)"
proof -
  let ?old = "pending_fields (read_raw file)"
  obtain spec where spec: "spec_named specs name = Some spec" "parse_value json_error spec t = Inr v"
    "\<not> (name = ''verdict'' \<and> v = JStr REVISE \<and> final_round m)"
    "new = json_dumps_indent 0 (document_json (mf_mode m) (dput name v ?old))"
    using assms(1,4) by (auto simp: write_field_def split: option.splits sum.splits if_splits)
  have "wellformed_fields specs m ?old"
    using assms(2) by (auto simp: wellformed_file_def wellformed_fields_def pending_fields_def read_raw_def read_document_def dget_def)
  then have fs: "wellformed_fields specs m (dput name v ?old)" (is "wellformed_fields specs m ?fs")
    using spec by (intro wellformed_dput [where spec = spec])
      (auto simp: written_value_plain [OF assms(4,3)] known_field_text [OF assms(1)] parsed_value_errors)
  have "plain_json (document_json (mf_mode m) ?fs)"
    using fs mode_text [OF assms(1)] by (simp add: document_json_def wellformed_fields_def ascii_is_text ascii_def)
  from json_loads_dumps(2) [OF this, of 0]
  have "read_raw (Some new) = Some [(''fields'', JObj (sort_key fst (map (\<lambda>(k, v). (k, in_order v)) ?fs))),
      (''mode'', JStr (mf_mode m)), (''schema_version'', JInt 1)]"
    by (simp add: read_raw_def read_document_def spec(4) document_json_def SCHEMA_VERSION_def)
  then show ?thesis using wellformed_in_order [OF fs] by (auto simp: wellformed_file_def)
qed

lemma wellformed_writes:
  "fields_for (mf_mode m) = Some specs \<Longrightarrow> list_all (text_input m) cmds \<Longrightarrow> wellformed_file specs m file
   \<Longrightarrow> wellformed_file specs m (cli_writes json_error m file cmds)"
proof (induction cmds arbitrary: "file")
  case (Cons w cmds)
  then show ?case using wellformed_write [of m specs "file" "fst w" "snd w" json_error]
    by (cases w) (auto split: sum.splits)
qed simp

text \<open>
  C33: Whatever sequence of commands the agent runs, the file they leave is one the driver's validation accepts up
  to fields not written yet: no refused value, unknown field or garbled document, and in the last round no
  revision.
\<close>

theorem cli_file_validates:
  assumes "fields_for (mf_mode m) = Some specs" "list_all (text_input m) cmds" "cli_writes json_error m None cmds = Some t"
  shows "document_errors (read_raw (Some t)) (mf_mode m) = []
    \<and> field_errors (pending_fields (read_raw (Some t))) (mf_mode m) specs n
        = missing_errors (pending_fields (read_raw (Some t))) (mf_mode m) n
    \<and> (final_round m \<longrightarrow> dget (pending_fields (read_raw (Some t))) ''verdict'' \<noteq> JStr REVISE)"
proof -
  have "wellformed_file specs m (Some t)"
    using wellformed_writes [OF assms(1,2), of None json_error] assms(3) by (simp add: wellformed_file_def)
  then obtain fs where fs: "read_raw (Some t) = Some [(''fields'', JObj fs), (''mode'', JStr (mf_mode m)), (''schema_version'', JInt 1)]"
    "wellformed_fields specs m fs" by (auto simp: wellformed_file_def)
  have known: "k \<in> fs_name ` set specs" if "spec_named specs k \<noteq> None" for k
    using that by (auto simp: spec_named_def find_Some_iff)
  have "document_errors (read_raw (Some t)) (mf_mode m) = []"
    by (simp add: fs(1) document_errors_def dget_def SCHEMA_VERSION_def)
  moreover have "k \<in> fs_name ` set specs" if "k \<in> set (map fst fs)" for k
    using that fs(2) by (intro known) (auto simp: wellformed_fields_def list_all_iff)
  then have "filter (\<lambda>k. k \<notin> fs_name ` set specs) (map fst fs) = []" by (simp only: filter_empty_conv) blast
  then have "unknown_errors specs (mf_mode m) fs = []" by (simp only: unknown_errors_def) simp
  moreover have "concat (map (\<lambda>(name, v). value_errors specs name v) fs) = []"
    using fs(2) by (auto simp: wellformed_fields_def list_all_iff)
  moreover have "pending_fields (read_raw (Some t)) = fs" by (simp add: fs(1) pending_fields_def dget_def)
  ultimately show ?thesis using fs(2) by (simp add: field_errors_def wellformed_fields_def)
qed

definition demo_manifest :: manifest where
  "demo_manifest = \<lparr>mf_run_id = ''r'', mf_mode = MODE_REVIEW, mf_adapter = ''claude'', mf_workdir = CHECKOUT_DIR,
     mf_agent_timeout = JInt 9, mf_jobs_idle_timeout = JInt 9, mf_round = 3, mf_round_budget = 3, mf_schema_version = 1\<rparr>"

lemma cli_file_validates_witness:
  "document_errors (read_raw (cli_writes (\<lambda>_. []) demo_manifest None [(''verdict'', ''approve'')])) MODE_REVIEW = []"
proof -
  have m: "mf_mode demo_manifest = MODE_REVIEW" by (simp add: demo_manifest_def)
  have f: "fields_for (mf_mode demo_manifest) = Some REVIEW_FIELDS" by (simp add: m fields_for_def MODE_REVIEW_def MODE_RUN_def)
  have "parse_value (\<lambda>_. []) (field_of ''verdict'' (ENUM [APPROVE, REVISE, ESCALATE]) []) ''approve'' = Inr (JStr ''approve'')"
    by code_simp
  then have w: "\<exists>new. write_field (\<lambda>_. []) None demo_manifest ''verdict'' ''approve'' = Inr (JStr ''approve'', new)"
    by (simp add: write_field_def f review_specs REVISE_def)
  then have "list_all (text_input demo_manifest) [(''verdict'', ''approve'')]"
    by (auto simp: text_input_def ascii_is_text ascii_def)
  moreover obtain t where "cli_writes (\<lambda>_. []) demo_manifest None [(''verdict'', ''approve'')] = Some t" using w by auto
  ultimately show ?thesis using cli_file_validates [OF f, of "[(''verdict'', ''approve'')]" "\<lambda>_. []" t] m by simp
qed

end
