(* ===== verification/Stream_Stats.thy ===== *)
theory Stream_Stats
  imports Json_Parse Store_Events Text_Ops
begin

text \<open>
  What the drivers read of a session's output stream (\<open>stream_stats\<close> of \<open>worker/.../adapters.py\<close>, with
  \<open>normalize_model\<close> of \<open>identity.py\<close>): tool calls, tokens and the executed model, reconciled from the three model
  signals of the stream. The stream is agent output, so every line may have any shape.
\<close>

record stream_stats =
  ss_tool_calls :: nat
  ss_tokens :: "int option"
  ss_model :: string
  ss_model_note :: string

definition no_stats :: stream_stats where
  "no_stats = \<lparr>ss_tool_calls = 0, ss_tokens = None, ss_model = [], ss_model_note = []\<rparr>"

subsection \<open>Lines and events\<close>

text \<open>The lines of a text file: a carriage return, alone or before a line feed, ends one too.\<close>

fun universal :: "string \<Rightarrow> string" where
  "universal [] = []"
| "universal (c # s) =
     (if of_char c = (13 :: nat)
      then newline # (case s of [] \<Rightarrow> [] | d # t \<Rightarrow> if d = newline then universal t else universal s)
      else c # universal s)"

definition event_of :: "string \<Rightarrow> dict option" where
  "event_of line =
     (if strip line = [] then None
      else case json_loads (strip line) of Some (JObj d) \<Rightarrow> Some d | _ \<Rightarrow> None)"

definition events_of :: "string \<Rightarrow> dict list" where
  "events_of transcript = somes (map event_of (split_on newline (universal transcript)))"

definition typed :: "dict \<Rightarrow> string \<Rightarrow> bool" where
  "typed event kind \<longleftrightarrow> dget event ''type'' = JStr kind"

subsection \<open>Usage\<close>

text \<open>\<open>isinstance (value, int)\<close> holds of a boolean too.\<close>

definition count_of :: "json \<Rightarrow> int option" where
  "count_of v = (case v of JInt i \<Rightarrow> Some i | JBool b \<Rightarrow> Some (if b then 1 else 0) | _ \<Rightarrow> None)"

definition usage_total :: "json \<Rightarrow> int option" where
  "usage_total usage =
     (case usage of
        JObj d \<Rightarrow>
          (case somes [count_of (dget d ''input_tokens''), count_of (dget d ''output_tokens'')] of
             [] \<Rightarrow> None | ns \<Rightarrow> Some (sum_list ns))
      | _ \<Rightarrow> None)"

text \<open>\<open>(summed or 0) + call\<close>.\<close>

definition add_usage :: "json \<Rightarrow> int option \<Rightarrow> int option" where
  "add_usage usage summed =
     (case usage_total usage of
        None \<Rightarrow> summed
      | Some call \<Rightarrow> Some ((case summed of None \<Rightarrow> 0 | Some n \<Rightarrow> n) + call))"

subsection \<open>The Claude stream\<close>

record claude_scan =
  sc_tool_calls :: nat
  sc_summed :: "int option"
  sc_final :: "int option"
  sc_init_model :: string
  sc_turn_models :: "string list"
  sc_usage_models :: "string list"

definition fresh_scan :: claude_scan where
  "fresh_scan = \<lparr>sc_tool_calls = 0, sc_summed = None, sc_final = None, sc_init_model = [], sc_turn_models = [],
     sc_usage_models = []\<rparr>"

definition scan_init :: "dict \<Rightarrow> claude_scan \<Rightarrow> claude_scan" where
  "scan_init event sc =
     (case dget event ''model'' of
        JStr seen \<Rightarrow> if sc_init_model sc = [] then sc\<lparr>sc_init_model := seen\<rparr> else sc
      | _ \<Rightarrow> sc)"

text \<open>A turn of the main agent counts for the model; subagents and synthetic notices do not.\<close>

definition scan_turn_model :: "dict \<Rightarrow> dict \<Rightarrow> claude_scan \<Rightarrow> claude_scan" where
  "scan_turn_model event message sc =
     (case dget message ''model'' of
        JStr seen \<Rightarrow>
          if \<not> truthy (dget event ''parent_tool_use_id'') \<and> seen \<noteq> [] \<and> seen \<noteq> ''<synthetic>''
          then sc\<lparr>sc_turn_models := sc_turn_models sc @ [seen]\<rparr> else sc
      | _ \<Rightarrow> sc)"

definition is_tool_use :: "json \<Rightarrow> bool" where
  "is_tool_use block = (case block of JObj d \<Rightarrow> typed d ''tool_use'' | _ \<Rightarrow> False)"

definition tool_uses :: "json \<Rightarrow> nat" where
  "tool_uses content = (case content of JList blocks \<Rightarrow> length (filter is_tool_use blocks) | _ \<Rightarrow> 0)"

definition scan_assistant :: "dict \<Rightarrow> claude_scan \<Rightarrow> claude_scan" where
  "scan_assistant event sc =
     (case dget event ''message'' of
        JObj message \<Rightarrow>
          (let sc1 = scan_turn_model event message sc in
           sc1\<lparr>sc_tool_calls := sc_tool_calls sc1 + tool_uses (dget message ''content''),
               sc_summed := add_usage (dget message ''usage'') (sc_summed sc1)\<rparr>)
      | _ \<Rightarrow> sc)"

definition scan_result :: "dict \<Rightarrow> claude_scan \<Rightarrow> claude_scan" where
  "scan_result event sc =
     (let sc1 = (case usage_total (dget event ''usage'') of None \<Rightarrow> sc | Some n \<Rightarrow> sc\<lparr>sc_final := Some n\<rparr>)
      in case dget event ''modelUsage'' of JObj usage \<Rightarrow> sc1\<lparr>sc_usage_models := map fst usage\<rparr> | _ \<Rightarrow> sc1)"

definition claude_event :: "dict \<Rightarrow> claude_scan \<Rightarrow> claude_scan" where
  "claude_event event sc =
     (if typed event ''system'' \<and> dget event ''subtype'' = JStr ''init'' then scan_init event sc
      else if typed event ''assistant'' then scan_assistant event sc
      else if typed event ''result'' then scan_result event sc
      else sc)"

subsection \<open>One model from three signals\<close>

text \<open>A trailing \<open>[...]\<close> without a bracket inside is the decoration; a final line feed may follow it.\<close>

definition undecorated :: "string \<Rightarrow> string" where
  "undecorated s =
     (case rev s of
        [] \<Rightarrow> s
      | c # r \<Rightarrow>
          (let inner = takeWhile (\<lambda>x. x \<noteq> CHR ''['' \<and> x \<noteq> CHR '']'') r;
               front = dropWhile (\<lambda>x. x \<noteq> CHR ''['' \<and> x \<noteq> CHR '']'') r
           in if c = CHR '']'' \<and> inner \<noteq> [] \<and> front \<noteq> [] \<and> hd front = CHR ''['' then rev (tl front) else s))"

definition normalize_model :: "string \<Rightarrow> string" where
  "normalize_model seen =
     (if seen \<noteq> [] \<and> last seen = newline then undecorated (butlast seen) @ [newline] else undecorated seen)"

definition reconcile_models :: "string \<Rightarrow> string list \<Rightarrow> string list \<Rightarrow> string \<times> string" where
  "reconcile_models init_model turn_models usage_models =
     (if turn_models = []
      then (if init_model \<noteq> []
            then (init_model, ''no assistant turns in the stream; model is the session-init announcement only'')
            else if usage_models \<noteq> []
            then ([], ''no assistant turns or session init in the stream; usage records name ''
                    @ join '', '' (sort usage_models) @ '' but attribute no turn'')
            else ([], ''the stream carried no model signal''))
      else
        (let seen = rev (remdups (rev turn_models)); model = last turn_models;
             turns = map normalize_model turn_models
         in (model, join ''; ''
              ((if 1 < length seen then [''multiple models executed turns: '' @ join '', '' seen] else [])
               @ (if init_model \<noteq> [] \<and> normalize_model init_model \<notin> set turns
                  then [''session initialized as '' @ init_model @ '' but executed '' @ model] else [])
               @ (if usage_models \<noteq> [] \<and> set turns \<inter> set (map normalize_model usage_models) = {}
                  then [''usage records ('' @ join '', '' (sort usage_models) @ '') do not include any executed model'']
                  else [])))))"

definition claude_stats :: "string \<Rightarrow> stream_stats" where
  "claude_stats transcript =
     (let sc = fold claude_event (events_of transcript) fresh_scan;
          (model, note) = reconcile_models (sc_init_model sc) (sc_turn_models sc) (sc_usage_models sc)
      in \<lparr>ss_tool_calls = sc_tool_calls sc, ss_tokens = (case sc_final sc of Some n \<Rightarrow> Some n | None \<Rightarrow> sc_summed sc),
          ss_model = model, ss_model_note = note\<rparr>)"

subsection \<open>The Codex stream\<close>

definition TOOL_ITEM_TYPES :: "string list" where
  "TOOL_ITEM_TYPES = [''command_execution'', ''mcp_tool_call'', ''web_search'', ''file_change'']"

text \<open>
  A type that is a list or an object cannot be looked up in the set: \<open>TypeError\<close>, which nothing catches.
\<close>

definition is_tool_item :: "json \<Rightarrow> bool option" where
  "is_tool_item item = (case item of
       JObj d \<Rightarrow> (case dget d ''type'' of
           JStr t \<Rightarrow> Some (t \<in> set TOOL_ITEM_TYPES) | JList xs \<Rightarrow> None | JObj ob \<Rightarrow> None | _ \<Rightarrow> Some False)
     | _ \<Rightarrow> Some False)"

fun codex_scan :: "dict list \<Rightarrow> nat \<Rightarrow> int option \<Rightarrow> (nat \<times> int option) option" where
  "codex_scan [] calls tokens = Some (calls, tokens)"
| "codex_scan (event # rest) calls tokens =
     (if typed event ''item.completed''
      then (case is_tool_item (dget event ''item'') of
              None \<Rightarrow> None
            | Some b \<Rightarrow> codex_scan rest (if b then calls + 1 else calls) tokens)
      else if typed event ''turn.completed'' then codex_scan rest calls (add_usage (dget event ''usage'') tokens)
      else codex_scan rest calls tokens)"

definition codex_stats :: "string \<Rightarrow> stream_stats option" where
  "codex_stats transcript =
     map_option (\<lambda>(calls, tokens).
       \<lparr>ss_tool_calls = calls, ss_tokens = tokens, ss_model = [],
        ss_model_note = ''codex exec --json carries no model signal; the observed model comes from the session rollout journal''\<rparr>)
       (codex_scan (events_of transcript) 0 None)"

text \<open>The transcript of a job, when it can be read; an unknown adapter has no counters. \<open>None\<close> is a \<open>TypeError\<close>.\<close>

definition stream_stats_of :: "string \<Rightarrow> string option \<Rightarrow> stream_stats option" where
  "stream_stats_of adapter transcript =
     (case transcript of
        None \<Rightarrow> Some no_stats
      | Some t \<Rightarrow>
          if adapter = ''claude'' then Some (claude_stats t) else if adapter = ''codex'' then codex_stats t
          else Some no_stats)"

subsection \<open>What is reported was executed\<close>

text \<open>An observed model is the one of the last turn of the main agent, and one that differs is in the note.\<close>

lemma reconciled_model:
  "turns \<noteq> [] \<Longrightarrow> fst (reconcile_models init_model turns used) = last turns"
  by (simp add: reconcile_models_def Let_def)

lemma agreed_only:
  assumes "snd (reconcile_models init_model turns used) = []"
  shows "turns \<noteq> []" "set turns = {last turns}" "init_model \<noteq> [] \<Longrightarrow> normalize_model init_model = normalize_model (last turns)"
proof -
  show t: "turns \<noteq> []" using assms by (auto simp: reconcile_models_def split: if_splits)
  let ?seen = "rev (remdups (rev turns))"
  have parts: "join ''; '' (xs @ ys @ zs) = [] \<longleftrightarrow> xs @ ys @ zs = []"
    if "\<forall>s \<in> set (xs @ ys @ zs). s \<noteq> []" for xs ys zs :: "string list"
    using that by (cases "xs @ ys @ zs"; cases "tl (xs @ ys @ zs)") auto
  have empty: "(if 1 < length ?seen then [''multiple models executed turns: '' @ join '', '' ?seen] else []) = ([] :: string list)"
    "(if init_model \<noteq> [] \<and> normalize_model init_model \<notin> set (map normalize_model turns)
      then [''session initialized as '' @ init_model @ '' but executed '' @ last turns] else []) = ([] :: string list)"
    using assms t by (auto simp: reconcile_models_def Let_def split: if_splits)
  have "length ?seen \<le> 1" using empty(1) by (simp split: if_splits)
  moreover have "length ?seen = card (set turns)" by (simp add: length_remdups_card_conv)
  ultimately have "card (set turns) \<le> 1" by simp
  moreover have "last turns \<in> set turns" using t by simp
  ultimately show one: "set turns = {last turns}"
    by (metis List.finite_set card_le_Suc0_iff_eq One_nat_def singletonI subset_singleton_iff insert_absorb empty_iff subsetI singleton_iff)
  assume "init_model \<noteq> []"
  then have "normalize_model init_model \<in> normalize_model ` set turns" using empty(2) by (auto split: if_splits)
  then show "normalize_model init_model = normalize_model (last turns)" unfolding one by simp
qed

end
