(* ===== verification/Mirrors.thy ===== *)
theory Mirrors
  imports Git_Ops
begin

text \<open>
  The node-local mirrors (\<open>worker/.../gitops.py\<close>): what the cache root and its entries must look like before they
  are used, the names, the sanitized configuration, and the checkout that goes through a mirror. What \<open>lstat\<close>
  shows, the wait for the lock and the number of packs are arguments; SHA-256 is a parameter. The removal of a
  broken or half-made mirror leaves no trace here.
\<close>

subsection \<open>The trust boundary\<close>

datatype entry_type = Symlink | Directory | Regular | Special

record stat_info =
  si_type :: entry_type
  si_uid :: int
  si_mode :: nat

definition others_write :: "nat \<Rightarrow> bool" where
  "others_write mode \<longleftrightarrow> odd (mode div 2) \<or> odd (mode div 16)"

definition sticky :: "nat \<Rightarrow> bool" where
  "sticky mode \<longleftrightarrow> odd (mode div 512)"

definition octal4 :: "nat \<Rightarrow> string" where
  "octal4 n = concat (map show_nat [n div 512 mod 8, n div 64 mod 8, n div 8 mod 8, n mod 8])"

definition refusing :: string where "refusing = '' '' @ em_dash @ '' refusing to use it''"

text \<open>The problem with an entry, or none. \<open>Inl\<close> is the text of an \<open>OSError\<close> of \<open>lstat\<close>.\<close>

definition trusted_dir_error :: "int \<Rightarrow> string \<Rightarrow> string \<Rightarrow> string + stat_info \<Rightarrow> string option" where
  "trusted_dir_error euid path what st =
     (case st of
        Inl e \<Rightarrow> Some (what @ '' '' @ path @ '' is unusable: '' @ e)
      | Inr si \<Rightarrow>
          if si_type si = Symlink then Some (what @ '' '' @ path @ '' is a symlink'' @ refusing)
          else if si_type si \<noteq> Directory then Some (what @ '' '' @ path @ '' is not a directory'' @ refusing)
          else if si_uid si \<noteq> euid
          then Some (what @ '' '' @ path @ '' is owned by uid '' @ show_int (si_uid si) @ '', not the driver (uid ''
                 @ show_int euid @ '')'' @ refusing)
          else if others_write (si_mode si)
          then Some (what @ '' '' @ path @ '' is group/world writable (mode '' @ octal4 (si_mode si) @ '')'' @ refusing)
          else None)"

definition trusted_ancestor_error :: "int \<Rightarrow> string \<Rightarrow> string \<Rightarrow> string + stat_info \<Rightarrow> string option" where
  "trusted_ancestor_error euid path what st =
     (case st of
        Inl e \<Rightarrow> Some (what @ '' '' @ path @ '' is unusable: '' @ e)
      | Inr si \<Rightarrow>
          if si_type si \<noteq> Directory then Some (what @ '' '' @ path @ '' is not a real directory'' @ refusing)
          else if si_uid si \<noteq> 0 \<and> si_uid si \<noteq> euid
          then Some (what @ '' '' @ path @ '' is owned by uid '' @ show_int (si_uid si) @ '', neither root nor the driver (uid ''
                 @ show_int euid @ '')'' @ refusing)
          else if others_write (si_mode si) \<and> \<not> sticky (si_mode si)
          then Some (what @ '' '' @ path @ '' is writable by others without the sticky bit'' @ refusing)
          else None)"

text \<open>The two checks of the cache root; a root that is its own parent has one.\<close>

definition mirrors_root_error :: "int \<Rightarrow> string \<Rightarrow> (string \<times> (string + stat_info)) option \<Rightarrow> string + stat_info \<Rightarrow> string option" where
  "mirrors_root_error euid root_path parent_st st =
     (case (case parent_st of None \<Rightarrow> None | Some (p, pst) \<Rightarrow> trusted_ancestor_error euid p ''mirror root parent'' pst) of
        Some e \<Rightarrow> Some e
      | None \<Rightarrow> trusted_dir_error euid root_path ''mirror root'' st)"

text \<open>\<open>_entry_state\<close>: \<open>None\<close> when nothing is there.\<close>

definition entry_state :: "int \<Rightarrow> string \<Rightarrow> string \<Rightarrow> string + stat_info option \<Rightarrow> string + bool" where
  "entry_state euid path what st =
     (case st of
        Inl e \<Rightarrow> Inl (''cannot stat '' @ what @ '' '' @ path @ '': '' @ e)
      | Inr None \<Rightarrow> Inr False
      | Inr (Some si) \<Rightarrow>
          if si_type si = Symlink
          then Inl (what @ '' '' @ path @ '' is a symlink '' @ em_dash @ '' refusing to touch it'')
          else if si_type si \<noteq> Directory
          then Inl (what @ '' '' @ path @ '' is not a directory '' @ em_dash @ '' refusing to touch it'')
          else if si_uid si \<noteq> euid
          then Inl (what @ '' '' @ path @ '' is owned by uid '' @ show_int (si_uid si) @ '', not the driver (uid ''
                 @ show_int euid @ '') '' @ em_dash @ '' refusing to touch it'')
          else Inr True)"

subsection \<open>Names\<close>

definition MIRROR_TMP_SUFFIX :: string where "MIRROR_TMP_SUFFIX = ''.tmp''"
definition MIRROR_LOCK_SUFFIX :: string where "MIRROR_LOCK_SUFFIX = ''.lock''"
definition MIRROR_REPACK_PACK_LIMIT :: nat where "MIRROR_REPACK_PACK_LIMIT = 50"

definition name_char :: "char \<Rightarrow> bool" where
  "name_char c \<longleftrightarrow> is_digit c \<or> (97 \<le> (of_char (lower_char c) :: nat) \<and> (of_char (lower_char c) :: nat) \<le> 122)
     \<or> c \<in> {CHR ''.'', CHR ''_'', CHR ''-''}"

fun fold_runs :: "bool \<Rightarrow> string \<Rightarrow> string" where
  "fold_runs inside [] = []"
| "fold_runs inside (c # s) =
     (if name_char c then c # fold_runs False s
      else if inside then fold_runs True s else CHR ''-'' # fold_runs True s)"

definition strip_ends :: "string \<Rightarrow> string" where
  "strip_ends s = rev (dropWhile (\<lambda>c. c \<in> {CHR ''-'', CHR ''.''}) (rev (dropWhile (\<lambda>c. c \<in> {CHR ''-'', CHR ''.''}) s)))"

fun after_scheme :: "string \<Rightarrow> string" where
  "after_scheme [] = []"
| "after_scheme (c # s) =
     (if contains (c # s) ''://'' then (if startswith (c # s) ''://'' \<and> \<not> contains s ''://'' then drop 2 s else after_scheme s)
      else c # s)"

definition removesuffix :: "string \<Rightarrow> string \<Rightarrow> string" where
  "removesuffix s suffix = (if endswith s suffix then take (length s - length suffix) s else s)"

definition mirror_name :: "(string \<Rightarrow> string) \<Rightarrow> string \<Rightarrow> string" where
  "mirror_name sha256 url =
     str_or (strip_ends (take 60 (removesuffix (strip_ends (fold_runs False (after_scheme url))) ''.git''))) ''repo''
     @ ''-'' @ take 12 (sha256 url)"

definition mirror_path :: "(string \<Rightarrow> string) \<Rightarrow> string \<Rightarrow> string \<Rightarrow> string" where
  "mirror_path sha256 mirrors_dir url = mirrors_dir @ ''/'' @ mirror_name sha256 url"

subsection \<open>The checkout through a mirror\<close>

definition mirror_config :: "string \<Rightarrow> string \<Rightarrow> string" where
  "mirror_config mirror url =
     join [newline]
       [''[core]'', tabbed ''repositoryformatversion = 0'', tabbed ''filemode = true'', tabbed ''bare = true'',
        tabbed (''hooksPath = '' @ mirror @ ''/theozolith-no-hooks''),
        ''[gc]'', tabbed ''autoDetach = false'',
        ''[remote '' @ [dquote] @ ''origin'' @ [dquote] @ '']'', tabbed (''url = '' @ url),
        tabbed ''fetch = +refs/*:refs/*'', tabbed ''mirror = true'', []]"

definition sanitize_mirror :: "env \<Rightarrow> string \<Rightarrow> string \<Rightarrow> unit run" where
  "sanitize_mirror env mirror url = write_git_file env mirror ''config'' (mirror_config mirror url)"

record mirror_view =
  mv_sha256 :: "string \<Rightarrow> string"
  mv_dir :: string
  mv_url :: string
  mv_euid :: int
  mv_created :: "string option"
  mv_above :: "(string \<times> (string + stat_info)) option"
  mv_root :: "string + stat_info"
  mv_lock :: "exn option"
  mv_mirror :: "string + stat_info option"
  mv_shape :: bool
  mv_staging :: "string + stat_info option"
  mv_packs :: nat

definition view_mirror :: "mirror_view \<Rightarrow> string" where
  "view_mirror mv = mirror_path (mv_sha256 mv) (mv_dir mv) (mv_url mv)"

text \<open>\<open>mirror_lock\<close>: the root created and trusted before any lock file is opened.\<close>

definition lock_mirror :: "mirror_view \<Rightarrow> unit run" where
  "lock_mirror mv =
     (case mv_created mv of
        Some e \<Rightarrow> raise (Git_Error e)
      | None \<Rightarrow>
          (case mirrors_root_error (mv_euid mv) (mv_dir mv) (mv_above mv) (mv_root mv) of
             Some e \<Rightarrow> raise (Git_Error e)
           | None \<Rightarrow> (case mv_lock mv of Some e \<Rightarrow> raise e | None \<Rightarrow> ret ())))"

definition mirror_parses :: "env \<Rightarrow> string \<Rightarrow> bool run" where
  "mirror_parses env mirror =
     bindE (run_git env False [''--git-dir'', mirror, ''rev-parse'', ''--is-bare-repository''] []) (\<lambda>r.
       ret (gr_code r = 0 \<and> strip (gr_out r) = ''true''))"

definition adopt_mirror :: "env \<Rightarrow> mirror_view \<Rightarrow> bool run" where
  "adopt_mirror env mv =
     (case entry_state (mv_euid mv) (view_mirror mv) ''mirror'' (mv_mirror mv) of
        Inl e \<Rightarrow> raise (Git_Error e)
      | Inr False \<Rightarrow> ret False
      | Inr True \<Rightarrow>
          if mv_shape mv
          then bindE (sanitize_mirror env (view_mirror mv) (mv_url mv)) (\<lambda>_. mirror_parses env (view_mirror mv))
          else ret False)"

text \<open>The stage is renamed once its configuration is written; the trace names the file by its final place.\<close>

definition stage_mirror :: "env \<Rightarrow> mirror_view \<Rightarrow> unit run" where
  "stage_mirror env mv =
     (case entry_state (mv_euid mv) (view_mirror mv @ MIRROR_TMP_SUFFIX) ''mirror staging'' (mv_staging mv) of
        Inl e \<Rightarrow> raise (Git_Error e)
      | Inr _ \<Rightarrow>
          bindE (run_git env True [''clone'', ''--quiet'', ''--mirror'', mv_url mv, view_mirror mv @ MIRROR_TMP_SUFFIX] []) (\<lambda>r.
            if gr_code r \<noteq> 0 then raise (Git_Error (''git clone --mirror failed: '' @ strip (gr_err r)))
            else write_git_file env (view_mirror mv) ''config''
                   (mirror_config (view_mirror mv @ MIRROR_TMP_SUFFIX) (mv_url mv))))"

definition ensure_mirror_locked :: "env \<Rightarrow> mirror_view \<Rightarrow> unit run" where
  "ensure_mirror_locked env mv = bindE (adopt_mirror env mv) (\<lambda>adopted. if adopted then ret () else stage_mirror env mv)"

definition update_mirror_locked :: "env \<Rightarrow> mirror_view \<Rightarrow> unit run" where
  "update_mirror_locked env mv =
     bindE (git_do env True [''fetch'', ''--quiet'', ''--prune'', mv_url mv, ''+refs/*:refs/*''] (view_mirror mv)) (\<lambda>_.
       if MIRROR_REPACK_PACK_LIMIT < mv_packs mv
       then git_do env False [''repack'', ''-a'', ''-d'', ''--quiet''] (view_mirror mv) else ret ())"

definition clone_with_mirror :: "env \<Rightarrow> mirror_view \<Rightarrow> string \<Rightarrow> string \<Rightarrow> unit run" where
  "clone_with_mirror env mv dest branch =
     bindE (lock_mirror mv) (\<lambda>_.
     bindE (ensure_mirror_locked env mv) (\<lambda>_.
     bindE (update_mirror_locked env mv) (\<lambda>_.
       clone env (mv_url mv) dest branch (Some (view_mirror mv)))))"

end
