(* ===== verification/Isolation.thy ===== *)
theory Isolation
  imports Prelude
begin

text \<open>
  The judge's workspace (\<open>_agent_config_artifacts\<close> and \<open>_neutralize_agent_config\<close> of \<open>worker/.../reviewer.py\<close>):
  every agent-instruction file of the reviewed branch is removed from the working tree before the review session
  starts, whatever it is on disk, and the removal is verified. A tree holds names in the order the walk lists them.
\<close>

text \<open>A file (broken links included), a link to a directory, a directory.\<close>

datatype tree = File | Dir_Link | Folder "(string \<times> tree) list"

definition AGENT_CONFIG_NAMES :: "string list" where
  "AGENT_CONFIG_NAMES = [''CLAUDE.md'', ''CLAUDE.local.md'', ''AGENTS.md'', ''AGENTS.override.md'']"

definition AGENT_CONFIG_DIRS :: "string list" where
  "AGENT_CONFIG_DIRS = [''.claude'', ''.codex'']"

definition is_reserved :: "string \<Rightarrow> bool" where
  "is_reserved name \<longleftrightarrow> name \<in> set AGENT_CONFIG_NAMES \<or> name \<in> set AGENT_CONFIG_DIRS"

definition GIT_DIR :: string where "GIT_DIR = ''.git''"

text \<open>\<open>os.walk\<close> lists links to directories among the directories and does not follow them.\<close>

fun dirlike :: "tree \<Rightarrow> bool" where
  "dirlike File = False"
| "dirlike Dir_Link = True"
| "dirlike (Folder xs) = True"

definition walked :: "string \<Rightarrow> tree \<Rightarrow> bool" where
  "walked name t \<longleftrightarrow> \<not> (dirlike t \<and> name = GIT_DIR)"

lemma child_size: "(n, t) \<in> set xs \<Longrightarrow> size t < size (Folder xs)"
  by (induction xs) auto

function artifacts :: "string list \<Rightarrow> tree \<Rightarrow> string list list" where
  "artifacts path File = []"
| "artifacts path Dir_Link = []"
| "artifacts path (Folder xs) =
     map (\<lambda>(n, t). path @ [n]) (filter (\<lambda>(n, t). dirlike t \<and> n \<noteq> GIT_DIR \<and> is_reserved n) xs)
     @ map (\<lambda>(n, t). path @ [n]) (filter (\<lambda>(n, t). \<not> dirlike t \<and> is_reserved n) xs)
     @ concat (map (\<lambda>(n, t). if walked n t \<and> \<not> is_reserved n then artifacts (path @ [n]) t else []) xs)"
  by pat_completeness auto
termination by (relation "measure (\<lambda>(path, t). size t)") (auto dest: child_size)

text \<open>Removing what is at a path; a path that leads nowhere removes nothing.\<close>

function removed :: "string list \<Rightarrow> tree \<Rightarrow> tree" where
  "removed [] t = t"
| "removed [name] (Folder xs) = Folder (filter (\<lambda>(n, t). n \<noteq> name) xs)"
| "removed (name # next # path) (Folder xs) =
     Folder (map (\<lambda>(n, t). (n, if n = name then removed (next # path) t else t)) xs)"
| "removed (name # path) File = File"
| "removed (name # path) Dir_Link = Dir_Link"
  by pat_completeness auto
termination by (relation "measure (\<lambda>(path, t). length path)") auto

text \<open>\<open>stuck\<close> is the text of the \<open>OSError\<close> the removal of a path raises. \<open>Inl\<close> is a \<open>JudgeIsolationError\<close>.\<close>

definition rel_path :: "string list \<Rightarrow> string" where
  "rel_path = join ''/''"

fun remove_each :: "(string list \<Rightarrow> string option) \<Rightarrow> string list list \<Rightarrow> tree \<Rightarrow> string + tree" where
  "remove_each stuck [] t = Inr t"
| "remove_each stuck (p # ps) t =
     (case stuck p of
        Some e \<Rightarrow> Inl (''cannot remove agent-instruction artifact '' @ rel_path p @ '': '' @ e)
      | None \<Rightarrow> remove_each stuck ps (removed p t))"

definition neutralize_agent_config :: "(string list \<Rightarrow> string option) \<Rightarrow> tree \<Rightarrow> string + tree" where
  "neutralize_agent_config stuck t =
     (case remove_each stuck (artifacts [] t) t of
        Inl e \<Rightarrow> Inl e
      | Inr t' \<Rightarrow>
          if artifacts [] t' = [] then Inr t'
          else Inl (''agent-instruction artifacts survived removal: '' @ join '', '' (map rel_path (artifacts [] t'))))"

subsection \<open>What a session can load\<close>

text \<open>The paths of a tree that do not lead through the git directory, with what is there.\<close>

function paths :: "tree \<Rightarrow> (string list \<times> bool) list" where
  "paths File = []"
| "paths Dir_Link = []"
| "paths (Folder xs) =
     concat (map (\<lambda>(n, t). if walked n t then ([n], dirlike t) # map (\<lambda>(p, d). (n # p, d)) (paths t) else []) xs)"
  by pat_completeness auto
termination by (relation "measure size") (auto dest: child_size)

lemma git_dir_unreserved [simp]: "\<not> is_reserved GIT_DIR"
  by (simp add: is_reserved_def GIT_DIR_def AGENT_CONFIG_NAMES_def AGENT_CONFIG_DIRS_def)

lemma artifacts_empty:
  "artifacts path t = [] \<longleftrightarrow> (\<forall>(p, d) \<in> set (paths t). \<not> (\<exists>n \<in> set p. is_reserved n))"
proof (induction path t rule: artifacts.induct)
  case (3 path xs)
  have rec: "artifacts (path @ [n]) t = [] \<longleftrightarrow> (\<forall>(p, d) \<in> set (paths t). \<not> (\<exists>n \<in> set p. is_reserved n))"
    if "(n, t) \<in> set xs" "walked n t \<and> \<not> is_reserved n" for n t
    using 3 [OF that(1) refl that(2)] .
  show ?case (is "?l \<longleftrightarrow> ?r")
  proof
    assume l: ?l
    have "\<not> is_reserved n" if "(n, t) \<in> set xs" "walked n t" for n t
      using l that by (cases "dirlike t") (auto simp: filter_empty_conv walked_def)
    moreover from this have "artifacts (path @ [n]) t = []" if "(n, t) \<in> set xs" "walked n t" for n t
      using l that by (auto split: if_splits)
    ultimately show ?r using rec by (fastforce split: if_splits)
  next
    assume r: ?r
    have no: "\<not> is_reserved n" if "(n, t) \<in> set xs" "walked n t" for n t
    proof -
      have "([n], dirlike t) \<in> set (paths (Folder xs))" using that by (auto intro!: bexI [of _ "(n, t)"])
      then show ?thesis using r by fastforce
    qed
    have sub: "artifacts (path @ [n]) t = []" if "(n, t) \<in> set xs" "walked n t" for n t
    proof -
      have "\<not> (\<exists>m \<in> set p. is_reserved m)" if "(p, d) \<in> set (paths t)" for p d
      proof -
        have "(n # p, d) \<in> set (paths (Folder xs))"
          using that \<open>(n, t) \<in> set xs\<close> \<open>walked n t\<close> by (auto intro!: bexI [of _ "(n, t)"] image_eqI [of _ _ "(p, d)"])
        then show ?thesis using r by fastforce
      qed
      then show ?thesis using rec [OF that(1)] no that by blast
    qed
    show ?l using no sub by (auto simp: filter_empty_conv walked_def)
  qed
qed auto

lemma walked_removed [simp]: "p \<noteq> [] \<Longrightarrow> dirlike (removed p t) = dirlike t" "p \<noteq> [] \<Longrightarrow> walked n (removed p t) = walked n t"
proof -
  show "p \<noteq> [] \<Longrightarrow> dirlike (removed p t) = dirlike t"
    by (cases "(p, t)" rule: removed.cases) auto
  then show "p \<noteq> [] \<Longrightarrow> walked n (removed p t) = walked n t" by (simp add: walked_def)
qed

lemma in_paths_Folder:
  "(q, d) \<in> set (paths (Folder xs)) \<longleftrightarrow>
     (\<exists>n t. (n, t) \<in> set xs \<and> walked n t
        \<and> (q = [n] \<and> d = dirlike t \<or> (\<exists>r. q = n # r \<and> (r, d) \<in> set (paths t))))"
  by (auto split: if_splits) (fastforce)+

declare paths.simps(3) [simp del]

lemma in_removed_leaf:
  "(q, d) \<in> set (paths (removed [name] (Folder xs))) \<longleftrightarrow>
     (\<exists>n t. (n, t) \<in> set xs \<and> n \<noteq> name \<and> walked n t
        \<and> (q = [n] \<and> d = dirlike t \<or> (\<exists>r. q = n # r \<and> (r, d) \<in> set (paths t))))"
  by (auto simp: in_paths_Folder)

lemma removed_choice [simp]:
  "dirlike (if b then removed (k # path) t else t) = dirlike t"
  "walked n (if b then removed (k # path) t else t) = walked n t"
  by simp_all

lemma in_relabelled: "(n, t) \<in> set (map (\<lambda>(n, t). (n, g n t)) xs) \<longleftrightarrow> (\<exists>u. (n, u) \<in> set xs \<and> t = g n u)"
  by force

lemma in_removed_deep:
  "(q, d) \<in> set (paths (removed (name # k # path) (Folder xs))) \<longleftrightarrow>
     (\<exists>n t. (n, t) \<in> set xs \<and> walked n t
        \<and> (q = [n] \<and> d = dirlike t
           \<or> (\<exists>r. q = n # r \<and> (r, d) \<in> set (paths (if n = name then removed (k # path) t else t)))))"
proof -
  let ?g = "\<lambda>n t. if n = name then removed (k # path) t else t"
  have "(q, d) \<in> set (paths (removed (name # k # path) (Folder xs))) \<longleftrightarrow>
     (\<exists>n t u. (n, u) \<in> set xs \<and> t = ?g n u \<and> walked n t
        \<and> (q = [n] \<and> d = dirlike t \<or> (\<exists>r. q = n # r \<and> (r, d) \<in> set (paths t))))"
    unfolding removed.simps in_paths_Folder in_relabelled by blast
  also have "\<dots> \<longleftrightarrow> (\<exists>n u. (n, u) \<in> set xs \<and> walked n (?g n u)
        \<and> (q = [n] \<and> d = dirlike (?g n u) \<or> (\<exists>r. q = n # r \<and> (r, d) \<in> set (paths (?g n u)))))"
    by blast
  finally show ?thesis unfolding removed_choice .
qed

lemma removed_subset: "(q, d) \<in> set (paths (removed p t)) \<Longrightarrow> (q, d) \<in> set (paths t)"
proof (induction p t arbitrary: q rule: removed.induct)
  case (2 name xs)
  then show ?case unfolding in_removed_leaf in_paths_Folder by blast
next
  case (3 name k path xs)
  from 3(2) obtain n t where nt: "(n, t) \<in> set xs" "walked n t"
      "q = [n] \<and> d = dirlike t \<or> (\<exists>r. q = n # r \<and> (r, d) \<in> set (paths (if n = name then removed (k # path) t else t)))"
    unfolding in_removed_deep by blast
  then have "q = [n] \<and> d = dirlike t \<or> (\<exists>r. q = n # r \<and> (r, d) \<in> set (paths t))"
    using 3(1) [OF nt(1) refl] by (auto split: if_splits)
  then show ?case unfolding in_paths_Folder using nt(1,2) by blast
qed auto

lemma removed_gone: "p \<noteq> [] \<Longrightarrow> (p @ r, d) \<notin> set (paths (removed p t))"
proof (induction p t rule: removed.induct)
  case (2 name xs)
  then show ?case unfolding in_removed_leaf by auto
next
  case (3 name k path xs)
  show ?case
  proof
    assume "((name # k # path) @ r, d) \<in> set (paths (removed (name # k # path) (Folder xs)))"
    then obtain t where t: "(name, t) \<in> set xs" "((k # path) @ r, d) \<in> set (paths (removed (k # path) t))"
      unfolding in_removed_deep by auto
    then show False using 3(1) [OF t(1) refl] by simp
  qed
qed auto

lemma removed_keeps:
  assumes "p \<noteq> []" "is_reserved (last p)" "(q, d) \<in> set (paths t)" "\<not> (\<exists>n \<in> set q. is_reserved n)"
  shows "(q, d) \<in> set (paths (removed p t))"
  using assms
proof (induction p t arbitrary: q rule: removed.induct)
  case (2 name xs)
  from 2(3) obtain n t where nt: "(n, t) \<in> set xs" "walked n t"
      "q = [n] \<and> d = dirlike t \<or> (\<exists>r. q = n # r \<and> (r, d) \<in> set (paths t))"
    unfolding in_paths_Folder by blast
  then have "n \<noteq> name" using 2(2,4) by auto
  then show ?case unfolding in_removed_leaf using nt by blast
next
  case (3 name k path xs)
  from 3(4) obtain n t where nt: "(n, t) \<in> set xs" "walked n t"
      "q = [n] \<and> d = dirlike t \<or> (\<exists>r. q = n # r \<and> (r, d) \<in> set (paths t))"
    unfolding in_paths_Folder by blast
  have "(r, d) \<in> set (paths (if n = name then removed (k # path) t else t))"
    if "q = n # r" "(r, d) \<in> set (paths t)" for r
  proof (cases "n = name")
    case True
    have "\<not> (\<exists>n \<in> set r. is_reserved n)" using 3(5) that(1) by auto
    then show ?thesis using 3(1) [OF nt(1) refl True _ _ that(2)] 3(3) True by simp
  next
    case False
    then show ?thesis using that(2) by simp
  qed
  then show ?case unfolding in_removed_deep using nt by blast
qed auto

lemma artifact_of_prefix:
  assumes "(p @ n # r, d) \<in> set (paths t)" "\<not> (\<exists>m \<in> set p. is_reserved m)" "is_reserved n"
  shows "base @ p @ [n] \<in> set (artifacts base t)"
  using assms
proof (induction base t arbitrary: p rule: artifacts.induct)
  case (3 base xs)
  from 3(2) obtain m t where mt: "(m, t) \<in> set xs" "walked m t"
      "p @ n # r = [m] \<or> (\<exists>s. p @ n # r = m # s \<and> (s, d) \<in> set (paths t))"
    unfolding in_paths_Folder by blast
  show ?case
  proof (cases p)
    case Nil
    then have "m = n" using mt(3) by auto
    then have "base @ [n] \<in> set (map (\<lambda>(n, t). base @ [n]) (filter (\<lambda>(n, t). dirlike t \<and> n \<noteq> GIT_DIR \<and> is_reserved n) xs)
        @ map (\<lambda>(n, t). base @ [n]) (filter (\<lambda>(n, t). \<not> dirlike t \<and> is_reserved n) xs))"
      using mt(1,2) 3(4) by (cases "dirlike t") (force simp: walked_def)+
    then show ?thesis using Nil by (auto simp del: set_map set_filter)
  next
    case (Cons k p')
    then have "k = m" "(p' @ n # r, d) \<in> set (paths t)" "\<not> is_reserved m" "\<not> (\<exists>m \<in> set p'. is_reserved m)"
      using mt(3) 3(3) by auto
    then have "(base @ [m]) @ p' @ [n] \<in> set (artifacts (base @ [m]) t)"
      using 3(1) [OF mt(1) refl] mt(2) 3(4) by blast
    then show ?thesis using Cons \<open>k = m\<close> \<open>\<not> is_reserved m\<close> mt(1,2) by (auto intro!: bexI [of _ "(m, t)"])
  qed
qed auto

lemma artifact_end: "p \<in> set (artifacts base t) \<Longrightarrow> p \<noteq> [] \<and> is_reserved (last p)"
  by (induction base t rule: artifacts.induct) (auto split: if_splits)

lemma remove_each_paths:
  assumes "remove_each stuck ps t = Inr t'" "\<And>p. p \<in> set ps \<Longrightarrow> p \<noteq> [] \<and> is_reserved (last p)"
  shows "(q, d) \<in> set (paths t') \<Longrightarrow> (q, d) \<in> set (paths t)"
    and "(q, d) \<in> set (paths t) \<Longrightarrow> \<not> (\<exists>n \<in> set q. is_reserved n) \<Longrightarrow> (q, d) \<in> set (paths t')"
    and "p \<in> set ps \<Longrightarrow> (p @ r, d) \<notin> set (paths t')"
proof -
  have "((q, d) \<in> set (paths t') \<longrightarrow> (q, d) \<in> set (paths t))
     \<and> ((q, d) \<in> set (paths t) \<longrightarrow> \<not> (\<exists>n \<in> set q. is_reserved n) \<longrightarrow> (q, d) \<in> set (paths t'))
     \<and> (p \<in> set ps \<longrightarrow> (p @ r, d) \<notin> set (paths t'))" for q p
    using assms
  proof (induction ps arbitrary: t q p)
    case (Cons x xs)
    have x: "x \<noteq> []" "is_reserved (last x)" using Cons(3) [of x] by auto
    have step: "remove_each stuck xs (removed x t) = Inr t'" using Cons(2) by (auto split: option.splits)
    have ends: "\<And>p. p \<in> set xs \<Longrightarrow> p \<noteq> [] \<and> is_reserved (last p)" using Cons(3) by simp
    note IH = Cons(1) [OF step ends]
    show ?case
    proof (intro conjI impI)
      assume "(q, d) \<in> set (paths t')"
      then show "(q, d) \<in> set (paths t)" using IH removed_subset by blast
    next
      assume "(q, d) \<in> set (paths t)" "\<not> (\<exists>n \<in> set q. is_reserved n)"
      then show "(q, d) \<in> set (paths t')" using IH removed_keeps [OF x] by blast
    next
      assume "p \<in> set (x # xs)"
      then consider "p = x" | "p \<in> set xs" by auto
      then show "(p @ r, d) \<notin> set (paths t')"
      proof cases
        case 1
        then show ?thesis using IH removed_gone [OF x(1)] by blast
      next
        case 2
        then show ?thesis using IH by blast
      qed
    qed
  qed auto
  then show "(q, d) \<in> set (paths t') \<Longrightarrow> (q, d) \<in> set (paths t)"
    "(q, d) \<in> set (paths t) \<Longrightarrow> \<not> (\<exists>n \<in> set q. is_reserved n) \<Longrightarrow> (q, d) \<in> set (paths t')"
    "p \<in> set ps \<Longrightarrow> (p @ r, d) \<notin> set (paths t')" by blast+
qed

lemma remove_each_ends: "\<forall>p \<in> set ps. stuck p = None \<Longrightarrow> \<exists>t'. remove_each stuck ps t = Inr t'"
  by (induction ps arbitrary: t) auto

lemma first_reserved:
  assumes "\<exists>n \<in> set q. is_reserved n"
  obtains p n r where "q = p @ n # r" "\<not> (\<exists>m \<in> set p. is_reserved m)" "is_reserved n"
  using split_list_first_prop [OF assms] by blast

text \<open>
  C36: A review session starts in exactly the reviewed working tree without what is an agent-instruction file or lies in
  an agent-instruction directory, at any depth and in any shape; where every removal succeeds, so does the step.
\<close>

theorem judge_sees_no_instructions:
  "(\<forall>t'. neutralize_agent_config stuck t = Inr t' \<longrightarrow>
      set (paths t') = {(q, d) \<in> set (paths t). \<not> (\<exists>n \<in> set q. is_reserved n)})
   \<and> ((\<forall>p. stuck p = None) \<longrightarrow> (\<exists>t'. neutralize_agent_config stuck t = Inr t'))"
proof (intro conjI allI impI)
  fix t' assume "neutralize_agent_config stuck t = Inr t'"
  then have t': "remove_each stuck (artifacts [] t) t = Inr t'" "artifacts [] t' = []"
    by (auto simp: neutralize_agent_config_def split: sum.splits if_splits)
  note kept = remove_each_paths [OF t'(1) artifact_end [of _ "[]" t]]
  have clean: "\<not> (\<exists>n \<in> set q. is_reserved n)" if "(q, d) \<in> set (paths t')" for q d
    using t'(2) that unfolding artifacts_empty by blast
  show "set (paths t') = {(q, d) \<in> set (paths t). \<not> (\<exists>n \<in> set q. is_reserved n)}"
  proof (rule set_eqI, clarify)
    fix q d
    show "(q, d) \<in> set (paths t') \<longleftrightarrow> (q, d) \<in> {(q, d) \<in> set (paths t). \<not> (\<exists>n \<in> set q. is_reserved n)}"
      using kept(1,2) clean [of q d] by blast
  qed
next
  assume "\<forall>p. stuck p = None"
  then obtain t' where t': "remove_each stuck (artifacts [] t) t = Inr t'" using remove_each_ends by metis
  have "artifacts [] t' = []"
    unfolding artifacts_empty
  proof clarify
    fix q d n assume qd: "(q, d) \<in> set (paths t')" "n \<in> set q" "is_reserved n"
    then obtain p m r where q: "q = p @ m # r" "\<not> (\<exists>m \<in> set p. is_reserved m)" "is_reserved m"
      using first_reserved by blast
    have "(q, d) \<in> set (paths t)" using remove_each_paths(1) [OF t' artifact_end [of _ "[]" t]] qd(1) by blast
    then have "p @ [m] \<in> set (artifacts [] t)" using artifact_of_prefix [of p m r d t "[]"] q by simp
    then show False using remove_each_paths(3) [OF t' artifact_end [of _ "[]" t], of "p @ [m]" r d] qd(1) q(1) by simp
  qed
  then show "\<exists>t'. neutralize_agent_config stuck t = Inr t'" using t' by (simp add: neutralize_agent_config_def)
qed

theorem judge_sees_no_instructions_witness:
  "\<exists>t'. neutralize_agent_config (\<lambda>_. None) (Folder [(''CLAUDE.md'', Dir_Link), (''a'', File)]) = Inr t'
     \<and> ([''a''], False) \<in> set (paths t') \<and> ([''CLAUDE.md''], True) \<notin> set (paths t')"
proof -
  let ?t = "Folder [(''CLAUDE.md'', Dir_Link), (''a'', File)]"
  obtain t' where t': "neutralize_agent_config (\<lambda>_. None) ?t = Inr t'"
    using judge_sees_no_instructions [of "\<lambda>_. None" ?t] by blast
  have "set (paths ?t) = {([''CLAUDE.md''], True), ([''a''], False)}" by (simp add: paths.simps(3) walked_def GIT_DIR_def)
  moreover have "is_reserved ''CLAUDE.md''" "\<not> is_reserved ''a''" by code_simp+
  moreover have "set (paths t') = {(q, d) \<in> set (paths ?t). \<not> (\<exists>n \<in> set q. is_reserved n)}"
    using judge_sees_no_instructions [of "\<lambda>_. None" ?t] t' by blast
  ultimately have "([''a''], False) \<in> set (paths t')" "([''CLAUDE.md''], True) \<notin> set (paths t')" by simp_all
  then show ?thesis using t' by blast
qed

end
