(* ===== verification/Signals.thy ===== *)
theory Signals
  imports Text_Ops
begin

text \<open>
  Mechanical diff signals (\<open>worker/.../signals.py\<close>): what the reviewer is told of the size of a change, of
  the dependency manifests and of the sensitive paths it touches, computed from the lines of
  \<open>git diff --numstat\<close> and \<open>--name-status\<close>. A line that does not have the form raises \<open>ValueError\<close>, \<open>None\<close> here.
\<close>

definition DEPENDENCY_MANIFESTS :: "string list" where
  "DEPENDENCY_MANIFESTS =
     [''pyproject.toml'', ''uv.lock'', ''requirements.txt'', ''setup.py'', ''package.json'', ''package-lock.json'',
      ''pnpm-lock.yaml'', ''yarn.lock'', ''go.mod'', ''go.sum'', ''Cargo.toml'', ''Cargo.lock'', ''Gemfile'', ''Gemfile.lock'']"

definition SENSITIVE_FRAGMENTS :: "string list" where
  "SENSITIVE_FRAGMENTS =
     [''auth'', ''secret'', ''token'', ''credential'', ''migration'', ''.github/workflows'', ''dockerfile'', ''docker-compose'']"

record diff_signals =
  dg_files_changed :: nat
  dg_additions :: int
  dg_deletions :: int
  dg_dependency_files :: "string list"
  dg_sensitive_files :: "string list"

definition no_signals :: diff_signals where
  "no_signals = \<lparr>dg_files_changed = 0, dg_additions = 0, dg_deletions = 0, dg_dependency_files = [], dg_sensitive_files = []\<rparr>"

definition render_signals :: "diff_signals \<Rightarrow> string" where
  "render_signals sg = join [newline]
     [''- files changed: '' @ show_nat (dg_files_changed sg) @ '' (+'' @ show_int (dg_additions sg) @ '' / -''
        @ show_int (dg_deletions sg) @ '')'',
      ''- dependency manifests touched: '' @ str_or (join '', '' (dg_dependency_files sg)) ''none'',
      ''- sensitive paths touched: '' @ str_or (join '', '' (dg_sensitive_files sg)) ''none'']"

definition is_manifest :: "string \<Rightarrow> bool" where
  "is_manifest path \<longleftrightarrow> last (split_on (CHR ''/'') path) \<in> set DEPENDENCY_MANIFESTS"

definition is_sensitive :: "string \<Rightarrow> bool" where
  "is_sensitive path \<longleftrightarrow> list_ex (\<lambda>fragment. contains_text (lower path) fragment) SENSITIVE_FRAGMENTS"

definition note_path :: "bool \<Rightarrow> string \<Rightarrow> string list \<Rightarrow> string list" where
  "note_path hit path paths = (if hit \<and> path \<notin> set paths then paths @ [path] else paths)"

definition classify :: "string \<Rightarrow> diff_signals \<Rightarrow> diff_signals" where
  "classify path sg =
     sg\<lparr>dg_dependency_files := note_path (is_manifest path) path (dg_dependency_files sg),
        dg_sensitive_files := note_path (is_sensitive path) path (dg_sensitive_files sg)\<rparr>"

definition tab :: char where "tab = char_of (9 :: nat)"

text \<open>One count: \<open>-\<close> for a binary file adds nothing.\<close>

definition add_count :: "string \<Rightarrow> int \<Rightarrow> int option" where
  "add_count t n = (if t = ''-'' then Some n else map_option ((+) n) (py_int t))"

fun count_lines :: "string list \<Rightarrow> diff_signals \<Rightarrow> diff_signals option" where
  "count_lines [] sg = Some sg"
| "count_lines (line # rest) sg =
     (if strip line = [] then count_lines rest sg
      else (case split_max 2 tab line of
              [added, deleted, path] \<Rightarrow>
                (case add_count added (dg_additions sg) of
                   None \<Rightarrow> None
                 | Some a \<Rightarrow>
                     (case add_count deleted (dg_deletions sg) of
                        None \<Rightarrow> None
                      | Some d \<Rightarrow> count_lines rest (sg\<lparr>dg_additions := a, dg_deletions := d\<rparr>)))
            | _ \<Rightarrow> None))"

definition classify_line :: "string \<Rightarrow> diff_signals \<Rightarrow> diff_signals" where
  "classify_line line sg =
     (if strip line = [] then sg
      else fold classify (drop 1 (split_on tab line)) (sg\<lparr>dg_files_changed := dg_files_changed sg + 1\<rparr>))"

definition signals_from_git :: "string list \<Rightarrow> string list \<Rightarrow> diff_signals option" where
  "signals_from_git numstat_lines name_status_lines =
     map_option (fold classify_line name_status_lines) (count_lines numstat_lines no_signals)"

subsection \<open>Nothing sensitive is missed\<close>

text \<open>Every path a name-status line carries, both ends of a rename included.\<close>

definition changed_paths :: "string list \<Rightarrow> string list" where
  "changed_paths ls = concat (map (\<lambda>line. if strip line = [] then [] else drop 1 (split_on tab line)) ls)"

lemma fold_classify:
  "dg_sensitive_files (fold classify ps sg) = fold (\<lambda>p. note_path (is_sensitive p) p) ps (dg_sensitive_files sg)"
  "dg_dependency_files (fold classify ps sg) = fold (\<lambda>p. note_path (is_manifest p) p) ps (dg_dependency_files sg)"
  "dg_files_changed (fold classify ps sg) = dg_files_changed sg"
  "dg_additions (fold classify ps sg) = dg_additions sg" "dg_deletions (fold classify ps sg) = dg_deletions sg"
  by (induction ps arbitrary: sg) (simp_all add: classify_def)

lemma fold_note_path:
  "distinct ps \<Longrightarrow> distinct (fold (\<lambda>p. note_path (f p) p) qs ps)
     \<and> set (fold (\<lambda>p. note_path (f p) p) qs ps) = set ps \<union> {p \<in> set qs. f p}"
proof (induction qs arbitrary: ps)
  case (Cons q qs)
  have "distinct (note_path (f q) q ps)" "set (note_path (f q) q ps) = set ps \<union> {p. p = q \<and> f p}"
    using Cons.prems by (auto simp: note_path_def)
  then show ?case using Cons.IH [of "note_path (f q) q ps"] by auto
qed simp

lemma fold_classify_line:
  "dg_sensitive_files (fold classify_line ls sg) = fold (\<lambda>p. note_path (is_sensitive p) p) (changed_paths ls) (dg_sensitive_files sg)
   \<and> dg_dependency_files (fold classify_line ls sg) = fold (\<lambda>p. note_path (is_manifest p) p) (changed_paths ls) (dg_dependency_files sg)
   \<and> dg_files_changed (fold classify_line ls sg) = dg_files_changed sg + length (filter (\<lambda>line. strip line \<noteq> []) ls)"
  by (induction ls arbitrary: sg) (simp_all add: classify_line_def changed_paths_def fold_classify)

lemma count_lines_files: "count_lines ls sg = Some sg' \<Longrightarrow> dg_sensitive_files sg' = dg_sensitive_files sg
    \<and> dg_dependency_files sg' = dg_dependency_files sg \<and> dg_files_changed sg' = dg_files_changed sg"
  by (induction ls arbitrary: sg) (auto split: if_splits list.splits option.splits)

text \<open>
  C29: The signals name every sensitive path and every dependency manifest the change touches, at either end
  of a rename, once each and nothing else, and count one file for each line of the change.
\<close>

theorem signals_name_every_sensitive_path:
  assumes "signals_from_git numstat names = Some sg"
  shows "set (dg_sensitive_files sg) = {p \<in> set (changed_paths names). is_sensitive p}
    \<and> set (dg_dependency_files sg) = {p \<in> set (changed_paths names). is_manifest p}
    \<and> distinct (dg_sensitive_files sg) \<and> distinct (dg_dependency_files sg)
    \<and> dg_files_changed sg = length (filter (\<lambda>line. strip line \<noteq> []) names)"
proof -
  obtain sg0 where sg0: "count_lines numstat no_signals = Some sg0" "sg = fold classify_line names sg0"
    using assms by (auto simp: signals_from_git_def)
  then have "dg_sensitive_files sg0 = []" "dg_dependency_files sg0 = []" "dg_files_changed sg0 = 0"
    using count_lines_files by (simp_all add: no_signals_def)
  then show ?thesis using sg0(2) fold_classify_line [of names sg0] fold_note_path [of "[]"] by simp
qed

lemma signals_name_every_sensitive_path_witness:
  "\<exists>sg. signals_from_git [] [''R100'' @ [tab] @ ''src/Auth.py'' @ [tab] @ ''b''] = Some sg
     \<and> set (dg_sensitive_files sg) = {''src/Auth.py''}"
proof -
  let ?line = "''R100'' @ [tab] @ ''src/Auth.py'' @ [tab] @ ''b''"
  have "{p \<in> set (changed_paths [?line]). is_sensitive p} = {''src/Auth.py''}" by code_simp
  moreover have s: "signals_from_git [] [?line] = Some (fold classify_line [?line] no_signals)"
    by (simp add: signals_from_git_def)
  ultimately show ?thesis using signals_name_every_sensitive_path [OF s] by blast
qed

end
