(* ===== verification/Drivers.thy ===== *)
theory Drivers
  imports Evidence Prompts Stream_Stats Mirrors Isolation Proposal Signals Contexttree Write_Plans
begin

text \<open>
  What the two drivers (\<open>runner.py\<close>, \<open>reviewer.py\<close>) share: their configuration, the job directories of a driver,
  the events they emit, a container session seen from outside, and \<open>finally\<close>. A session is what its calls raise
  or return and what the container leaves in the job directory.
\<close>

subsection \<open>Effects\<close>

text \<open>\<open>try\<close>/\<open>finally\<close>: the cleanup runs on every path and its exception replaces what was under way.\<close>

definition finallyE :: "'a run \<Rightarrow> unit run \<Rightarrow> 'a run" where
  "finallyE m cleanup w =
     (case m w of (r, w1) \<Rightarrow> (case cleanup w1 of (Inl e, w2) \<Rightarrow> (Inl e, w2) | (Inr _, w2) \<Rightarrow> (r, w2)))"

definition exn_text :: "exn \<Rightarrow> string" where
  "exn_text e = (case e of
       GitHub_Error m _ \<Rightarrow> m
     | Cycle_Error ns \<Rightarrow> cycle_text ns
     | Cross_Repo_Error n r \<Rightarrow> cross_repo_text n r
     | Recursion_Error \<Rightarrow> ''maximum recursion depth exceeded''
     | Git_Error m \<Rightarrow> m
     | Session_Error m \<Rightarrow> m
     | Isolation_Error m \<Rightarrow> m
     | Run_Failed m _ \<Rightarrow> m
     | Other_Error m \<Rightarrow> m
     | Diverges \<Rightarrow> [])"

definition may_raise :: "exn option \<Rightarrow> unit run" where
  "may_raise e = (case e of None \<Rightarrow> ret () | Some e \<Rightarrow> raise e)"

definition IDENTITY_ERROR_PREFIX :: string where "IDENTITY_ERROR_PREFIX = ''identity: ''"

text \<open>The marker must begin the message, behind the wrapper of the session layer at most.\<close>

definition identity_error_detail :: "string \<Rightarrow> string option" where
  "identity_error_detail message =
     (let t = removeprefix message ''harness failed: '' in
      if startswith t IDENTITY_ERROR_PREFIX then Some (removeprefix t IDENTITY_ERROR_PREFIX) else None)"

definition PROPOSAL_FILE :: string where "PROPOSAL_FILE = ''output/proposal.json''"
definition RISK_PREFIX :: string where "RISK_PREFIX = ''risk:''"
definition DEVIATION_PREFIX :: string where "DEVIATION_PREFIX = ''deviation:''"

subsection \<open>Configuration\<close>

record driver_config =
  dv_repo :: repo
  dv_clone_url :: string
  dv_worker_id :: string
  dv_stack :: string
  dv_adapter :: string
  dv_run_image :: string
  dv_jobs_dir :: string
  dv_agent_timeout :: json
  dv_mirror :: mirror_view
  dv_json_error :: "string \<Rightarrow> string"

definition job_path :: "driver_config \<Rightarrow> string \<Rightarrow> string" where
  "job_path cfg run_id = dv_jobs_dir cfg @ ''/'' @ run_id"

definition checkout_path :: "driver_config \<Rightarrow> string \<Rightarrow> string" where
  "checkout_path cfg run_id = job_path cfg run_id @ ''/'' @ CHECKOUT_DIR"

subsection \<open>Job directories\<close>

definition job_files :: "string \<Rightarrow> world \<Rightarrow> job_dir" where
  "job_files run_id w = (case wd_jobs w run_id of None \<Rightarrow> [] | Some files \<Rightarrow> files)"

definition job_reading :: "string \<Rightarrow> (job_dir \<Rightarrow> 'a) \<Rightarrow> 'a run" where
  "job_reading run_id f w = (Inr (f (job_files run_id w)), w)"

definition job_changing :: "string \<Rightarrow> (job_dir \<Rightarrow> job_dir) \<Rightarrow> unit run" where
  "job_changing run_id f w = (Inr (), w\<lparr>wd_jobs := (wd_jobs w)(run_id \<mapsto> f (job_files run_id w))\<rparr>)"

text \<open>\<open>create_job_dir\<close> keeps what is there; \<open>rmtree\<close> removes the directory.\<close>

definition job_create :: "string \<Rightarrow> unit run" where
  "job_create run_id = job_changing run_id (\<lambda>files. files)"

definition job_remove :: "string \<Rightarrow> unit run" where
  "job_remove run_id w = (Inr (), w\<lparr>wd_jobs := (wd_jobs w)(run_id := None)\<rparr>)"

definition job_apply :: "string \<Rightarrow> (job_dir \<Rightarrow> exn + job_dir) \<Rightarrow> unit run" where
  "job_apply run_id f w =
     (case f (job_files run_id w) of
        Inl e \<Rightarrow> (Inl e, w)
      | Inr files \<Rightarrow> (Inr (), w\<lparr>wd_jobs := (wd_jobs w)(run_id \<mapsto> files)\<rparr>))"

definition snapshot_input :: "string \<Rightarrow> (string \<times> string) list run" where
  "snapshot_input run_id w =
     (case capture_input_snapshot (wd_snaps w) (job_files run_id w) run_id of
        (files, snaps) \<Rightarrow> (Inr files, w\<lparr>wd_snaps := snaps\<rparr>))"

definition drop_snapshot :: "string \<Rightarrow> unit run" where
  "drop_snapshot run_id w = (Inr (), w\<lparr>wd_snaps := discard_input_snapshot (wd_snaps w) run_id\<rparr>)"

definition job_stats :: "driver_config \<Rightarrow> string \<Rightarrow> stream_stats run" where
  "job_stats cfg run_id w =
     (case stream_stats_of (dv_adapter cfg) (map_of (job_files run_id w) TRANSCRIPT_FILE) of
        None \<Rightarrow> (Inl (Other_Error ''TypeError''), w) | Some st \<Rightarrow> (Inr st, w))"

text \<open>
  A file of the job directory read as text (\<open>_read_output\<close>, \<open>_job_text\<close>, \<open>proposal.raw_text\<close>): a missing file is
  caught, bytes that are no UTF-8 raise.
\<close>

definition undecodable :: exn where "undecodable = Other_Error ''UnicodeDecodeError''"

definition text_of :: "string \<Rightarrow> job_dir \<Rightarrow> exn + string option" where
  "text_of relpath job =
     (case map_of job relpath of
        None \<Rightarrow> Inr None
      | Some bytes \<Rightarrow> (case decoded bytes of None \<Rightarrow> Inl undecodable | Some t \<Rightarrow> Inr (Some t)))"

definition job_text :: "string \<Rightarrow> string \<Rightarrow> string option run" where
  "job_text run_id relpath w = (text_of relpath (job_files run_id w), w)"

definition read_transcript :: "string \<Rightarrow> string run" where
  "read_transcript run_id = bindE (job_text run_id TRANSCRIPT_FILE) (\<lambda>t. ret (opt_str t))"

definition raw_text :: "string \<Rightarrow> string option run" where
  "raw_text run_id = job_text run_id PROPOSAL_FILE"

text \<open>A file as its own line, whatever its last one is.\<close>

definition ended :: "string \<Rightarrow> string" where
  "ended t = (if endswith t [newline] then t else t @ [newline])"

definition optional_file :: "string \<Rightarrow> string option \<Rightarrow> (string \<times> string) list" where
  "optional_file name t = (case t of None \<Rightarrow> [] | Some t \<Rightarrow> [(name, ended t)])"

definition clear_job :: "string \<Rightarrow> bool \<Rightarrow> unit run" where
  "clear_job rid gone = (if gone then bindE (job_remove rid) (\<lambda>_. drop_snapshot rid) else ret ())"

subsection \<open>Events\<close>

definition emit :: "env \<Rightarrow> string \<Rightarrow> int \<Rightarrow> string \<Rightarrow> string \<Rightarrow> bool run" where
  "emit env phase issue_number run_id failure w =
     (Inr (en_emit env (length (wd_emits w))),
      w\<lparr>wd_emits := wd_emits w @ [\<lparr>em_after = length (wd_requests w), em_phase = phase, em_issue = issue_number,
           em_run = run_id, em_failure = failure\<rparr>]\<rparr>)"

subsection \<open>A container session\<close>

record session_view =
  sv_launch :: "exn option"
  sv_agent :: "exn + agent_outcome"
  sv_files :: "job_dir \<Rightarrow> job_dir"
  sv_gate :: "gate_file \<times> runner"
  sv_finish :: "exn option"

text \<open>The agent phase: the container has the job directory, checkout included, in its hands.\<close>

definition agent_phase :: "driver_config \<Rightarrow> string \<Rightarrow> session_view \<Rightarrow> agent_outcome run" where
  "agent_phase cfg run_id sv w =
     (sv_agent sv, w\<lparr>wd_git := wd_git w @ [Mounted (checkout_path cfg run_id)],
        wd_jobs := (wd_jobs w)(run_id \<mapsto> sv_files sv (job_files run_id w))\<rparr>)"

text \<open>The dependency closure as context, when the issue has edges.\<close>

definition write_closure :: "env \<Rightarrow> repo \<Rightarrow> string \<Rightarrow> string \<Rightarrow> dependency_closure \<Rightarrow> int \<Rightarrow> unit run" where
  "write_closure env repo rid wd closure issue_number =
     (if 1 < length (dc_order closure)
      then bindE (fetch_deps env repo (dc_order closure) issue_number (Some wd)) (\<lambda>snapshots.
             job_apply rid (write_deps ''input'' snapshots (dc_edges closure)))
      else ret ())"

subsection \<open>Evidence\<close>

definition record_text :: "dict \<Rightarrow> string" where
  "record_text d = json_dumps_indent 0 (JObj d) @ [newline]"

definition job_identity :: "string \<Rightarrow> json run" where
  "job_identity run_id w =
     (case read_identity (job_files run_id w) of
        None \<Rightarrow> (Inl undecodable, w)
      | Some None \<Rightarrow> (Inr JNull, w)
      | Some (Some d) \<Rightarrow> (Inr (JObj d), w))"

end
