(* ===== verification/Enacted.thy ===== *)
theory Enacted
  imports Drivers
begin

text \<open>
  What a driver changes on GitHub, apart from what it reads: a computation enacts a plan when the writes among its
  requests are those of the plan in its order, each sent at least once and at most \<open>MAX_RETRIES\<close> times, up to
  where it failed and all of them when it returned. Plans are told by a relation between the result and the plan,
  with one rule for each way of combining computations.
\<close>

subsection \<open>Reads\<close>

definition harmless :: "request \<Rightarrow> bool" where
  "harmless rq \<longleftrightarrow> rq_method rq = ''GET'' \<or> rq_path rq = ''/graphql''"

definition writes_of :: "request list \<Rightarrow> request list" where
  "writes_of rs = filter (\<lambda>rq. \<not> harmless rq) rs"

lemma writes_of_simps [simp]:
  "writes_of [] = []" "writes_of (rs @ ss) = writes_of rs @ writes_of ss"
  by (simp_all add: writes_of_def)

definition hushed :: "world \<Rightarrow> world \<Rightarrow> bool" where
  "hushed w w' \<longleftrightarrow> (\<exists>rs. wd_requests w' = wd_requests w @ rs \<and> list_all harmless rs)"

interpretation hush: frame hushed
proof unfold_locales
  show "hushed w w" for w by (simp add: hushed_def)
  show "hushed u w" if "hushed u v" "hushed v w" for u v w
    using that unfolding hushed_def by (metis append.assoc list_all_append)
qed

lemma same_requests_hushed: "wd_requests w' = wd_requests w \<Longrightarrow> hushed w w'"
  by (simp add: hushed_def)

lemma hush_of_gets: "gets.kept_by m \<Longrightarrow> hush.kept_by m"
  unfolding gets.kept_by_def hush.kept_by_def hushed_def reads_only_def list_all_iff harmless_def by blast

lemma hush_local [intro!]:
  "hush.kept_by (run_git env auth args cwd)" "hush.kept_by (write_git_file env wd rel t)"
  "hush.kept_by (job_changing rid f)" "hush.kept_by (job_reading rid g)" "hush.kept_by (job_remove rid)"
  "hush.kept_by (job_apply rid a)" "hush.kept_by (job_text rid p)" "hush.kept_by (job_identity rid)" "hush.kept_by (snapshot_input rid)" "hush.kept_by (drop_snapshot rid)"
  "hush.kept_by (job_stats cfg rid)" "hush.kept_by (emit env phase n rid failure)" "hush.kept_by (agent_phase cfg rid sv)"
  "hush.kept_by (push_evidence_files message files)" "hush.kept_by (may_raise e)"
  "hush.kept_by (now env)" "hush.kept_by (sleep d)" "hush.kept_by (lift x)" "hush.kept_by (note_write rq)"
  by (rule hush.kept_byI, rule same_requests_hushed,
      simp add: run_git_def write_git_file_def job_changing_def job_reading_def job_remove_def job_apply_def job_text_def job_identity_def
        snapshot_input_def drop_snapshot_def job_stats_def emit_def agent_phase_def push_evidence_files_def
        may_raise_def now_def sleep_def lift_def note_write_def Let_def split: option.split sum.split prod.split)+

lemma hush_exchange [intro!]: "harmless rq \<Longrightarrow> hush.kept_by (exchange env rq)"
  by (rule hush.kept_byI) (simp add: exchange_def hushed_def)

lemma hush_attempts [intro!]: "harmless rq \<Longrightarrow> hush.kept_by (attempts env rq left a)"
proof (induction left arbitrary: a)
  case 0
  then show ?case by (subst attempts.simps) (auto intro!: hush.kept_bind split: option.split)
next
  case (Suc left)
  note rec = Suc.IH [OF Suc.prems]
  show ?case using Suc.prems rec
    by (subst attempts.simps) (auto intro!: hush.kept_bind split: option.split)
qed

lemma hush_json [intro!]: "harmless \<lparr>rq_method = meth, rq_path = path, rq_body = body\<rparr> \<Longrightarrow> hush.kept_by (json_m env meth path body)"
  unfolding json_m_def request_m_def by (intro hush.kept_bind hush_attempts hush_local)

lemma hush_graphql [intro!]: "hush.kept_by (graphql env query variables)"
  unfolding graphql_def
  by (intro hush.kept_bind hush_json) (auto simp: harmless_def split: json.split)

lemma hush_thread_ids [intro!]: "hush.kept_by (thread_ids env node_id n page ids)"
  by (induction env node_id n page ids rule: thread_ids.induct) (auto intro!: hush.kept_bind)

lemma hush_threads_from [intro!]: "hush.kept_by (threads_from env js)"
  by (induction env js rule: threads_from.induct) (auto simp: thread_from_def intro!: hush.kept_bind)

lemma hush_threads_paged: "hush.kept_by (threads_paged env repo number n cursor threads)"
  by (induction env repo number n cursor threads rule: threads_paged.induct) (auto intro!: hush.kept_bind)

lemma hush_list_review_threads [intro!]: "hush.kept_by (list_review_threads env repo number)"
  by (simp add: list_review_threads_def hush_threads_paged)

lemma gets_listed [intro]: "gets.kept_by (listed env path key f)"
  unfolding listed_def by (intro gets.kept_bind gets_paged gets_lift)

lemma gets_surfaces [intro]:
  "gets.kept_by (list_comments env repo number)" "gets.kept_by (list_timeline env repo number)"
  "gets.kept_by (list_review_comments env repo number)" "gets.kept_by (list_reviews env repo number)"
  "gets.kept_by (list_check_runs env repo ref)" "gets.kept_by (list_statuses env repo ref)"
  unfolding list_comments_def list_timeline_def list_review_comments_def list_reviews_def list_check_runs_def
    list_statuses_def by blast+

lemmas hush_gets [intro!] = gets_surfaces [THEN hush_of_gets] gets_reads [THEN hush_of_gets]
  gets_default_branch [THEN hush_of_gets]

lemma hush_fetch_snapshot [intro!]: "hush.kept_by (fetch_snapshot env repo n pr)"
  unfolding fetch_snapshot_def Let_def
  by (intro hush.kept_bind hush_gets) (auto intro!: hush.kept_bind split: option.split)

lemma hush_git [intro!]:
  "hush.kept_by (git_checked env auth args cwd)" "hush.kept_by (git_unchecked env auth args cwd)"
  "hush.kept_by (git_do env auth args cwd)" "hush.kept_by (git_ok env args cwd)"
  "hush.kept_by (clone env url dest branch reference)"
  unfolding git_checked_def git_unchecked_def git_do_def git_ok_def clone_def
  by (auto intro!: hush.kept_bind)

lemma hush_git_ops [intro!]:
  "hush.kept_by (sanitize_checkout env wd url)" "hush.kept_by (checkout_branch env wd b c)"
  "hush.kept_by (ref_exists env wd ref)" "hush.kept_by (reset_hard env wd ref)"
  "hush.kept_by (cherry_pick env wd name email commits)" "hush.kept_by (commit_all env wd m name email)"
  "hush.kept_by (commit_empty env wd m name email)" "hush.kept_by (git_fetch env wd ref)"
  "hush.kept_by (git_push env wd b force)" "hush.kept_by (head_sha env wd)" "hush.kept_by (commit_exists env wd ref)"
  "hush.kept_by (is_ancestor env wd x y)" "hush.kept_by (diff_stat env wd ref)" "hush.kept_by (git_version env)"
  unfolding sanitize_checkout_def checkout_branch_def ref_exists_def reset_hard_def cherry_pick_def commit_all_def
    commit_empty_def git_fetch_def git_push_def head_sha_def commit_exists_def is_ancestor_def diff_stat_def git_version_def
  by (auto intro!: hush.kept_bind hush.kept_catch)

lemma hush_mirror [intro!]: "hush.kept_by (clone_with_mirror env mv dest branch)"
  unfolding clone_with_mirror_def lock_mirror_def ensure_mirror_locked_def adopt_mirror_def stage_mirror_def
    update_mirror_locked_def sanitize_mirror_def mirror_parses_def
  by (auto intro!: hush.kept_bind split: option.split sum.split bool.split)

lemma hush_commits [intro!]: "hush.kept_by (git_pr_commits env wd base head)"
  unfolding git_pr_commits_def by (auto intro!: hush.kept_bind split: option.split)

lemma hush_dep_commits [intro!]: "hush.kept_by (dep_pr_commits env wd pr)"
  unfolding dep_pr_commits_def merged_commits_def live_commits_def live_head_def
  by (auto intro!: hush.kept_bind hush.kept_catch split: option.split exn.split)

lemma hush_fetch_each [intro!]: "hush.kept_by (fetch_each env repo wd ns)"
  by (induction env repo wd ns rule: fetch_each.induct) (auto intro!: hush.kept_bind split: option.split)

lemma hush_fetch_deps [intro!]: "hush.kept_by (fetch_deps env repo order primary wd)"
  by (simp add: fetch_deps_def hush_fetch_each)

lemma hush_walk [intro!]: "hush.kept_by (walk_closure (list_blocked_by env repo) repo depth n)"
  by (rule hush_of_gets, rule gets_walk) blast

text \<open>The rule of \<open>finally\<close>, for every frame.\<close>

context frame
begin

lemma kept_finally [intro]:
  assumes "kept_by m" "kept_by c"
  shows "kept_by (finallyE m c)"
proof (rule kept_byI)
  fix w
  obtain r w1 where m: "m w = (r, w1)" by (cases "m w")
  obtain s w2 where c: "c w1 = (s, w2)" by (cases "c w1")
  have "R w w2" using kept_byD [OF assms(1) m] kept_byD [OF assms(2) c] trans by blast
  then show "R w (snd (finallyE m c w))" by (simp add: finallyE_def m c split: sum.split)
qed

end

subsection \<open>Plans\<close>

definition enacts :: "('a \<Rightarrow> request list \<Rightarrow> bool) \<Rightarrow> 'a run \<Rightarrow> bool" where
  "enacts Q m \<longleftrightarrow> (\<forall>w r w'. m w = (r, w') \<longrightarrow> (\<exists>rs p x. wd_requests w' = wd_requests w @ rs \<and> Q x p
      \<and> sent_of p (writes_of rs) \<and> (\<forall>y. r = Inr y \<longrightarrow> x = y \<and> all_sent p (writes_of rs))))"

lemma enactsE:
  assumes "enacts Q m" "m w = (r, w')"
  obtains rs p x where "wd_requests w' = wd_requests w @ rs" "Q x p" "sent_of p (writes_of rs)"
    "\<And>y. r = Inr y \<Longrightarrow> x = y \<and> all_sent p (writes_of rs)"
  using assms unfolding enacts_def by meson

lemma enactsI:
  assumes "\<And>w r w'. m w = (r, w') \<Longrightarrow> \<exists>rs p x. wd_requests w' = wd_requests w @ rs \<and> Q x p
      \<and> sent_of p (writes_of rs) \<and> (\<forall>y. r = Inr y \<longrightarrow> x = y \<and> all_sent p (writes_of rs))"
  shows "enacts Q m"
  using assms unfolding enacts_def by blast

lemma enacts_weaken: "enacts Q m \<Longrightarrow> (\<And>x p. Q x p \<Longrightarrow> Q' x p) \<Longrightarrow> enacts Q' m"
  unfolding enacts_def by meson

text \<open>A reading step, told what it can return.\<close>

lemma harmless_writes: "list_all harmless rs \<Longrightarrow> writes_of rs = []"
  by (simp add: writes_of_def list_all_iff filter_empty_conv)

lemma enacts_quiet_bind:
  assumes "hush.kept_by m" "\<And>x. enacts Q (f x)" "Q x0 p0"
  shows "enacts Q (bindE m f)"
proof (rule enactsI)
  fix w r w' assume "bindE m f w = (r, w')"
  then show "\<exists>rs p x. wd_requests w' = wd_requests w @ rs \<and> Q x p \<and> sent_of p (writes_of rs)
      \<and> (\<forall>y. r = Inr y \<longrightarrow> x = y \<and> all_sent p (writes_of rs))"
  proof (cases rule: bindE_cases)
    case (fail e)
    obtain rs where "wd_requests w' = wd_requests w @ rs" "list_all harmless rs"
      using hush.kept_byD [OF assms(1) fail(1)] by (auto simp: hushed_def)
    then show ?thesis using fail(2) assms(3) harmless_writes [of rs] sent_of.stop [of p0] by (metis sum.distinct(1))
  next
    case (step x w1)
    obtain rs where rs: "wd_requests w1 = wd_requests w @ rs" "list_all harmless rs"
      using hush.kept_byD [OF assms(1) step(1)] by (auto simp: hushed_def)
    obtain ss p y where "wd_requests w' = wd_requests w1 @ ss" "Q y p" "sent_of p (writes_of ss)"
      "\<And>z. r = Inr z \<Longrightarrow> y = z \<and> all_sent p (writes_of ss)"
      using enactsE [OF assms(2) step(2)] by metis
    then show ?thesis using rs harmless_writes [OF rs(2)]
      by (intro exI [of _ "rs @ ss"] exI [of _ p] exI [of _ y]) simp
  qed
qed

lemma enacts_job_reading:
  assumes "\<And>job. enacts Q (f (g job))"
  shows "enacts Q (bindE (job_reading rid g) f)"
  using assms unfolding enacts_def bindE_def job_reading_def by simp

lemma enacts_quiet:
  assumes "hush.kept_by m" "\<And>x. Q x []"
  shows "enacts Q m"
proof (rule enactsI)
  fix w r w' assume m: "m w = (r, w')"
  obtain rs where rs: "wd_requests w' = wd_requests w @ rs" "list_all harmless rs"
    using hush.kept_byD [OF assms(1) m] by (auto simp: hushed_def)
  have "sent_of [] (writes_of rs) \<and> all_sent [] (writes_of rs)" using harmless_writes [OF rs(2)] by simp
  then show "\<exists>rs p x. wd_requests w' = wd_requests w @ rs \<and> Q x p \<and> sent_of p (writes_of rs)
      \<and> (\<forall>y. r = Inr y \<longrightarrow> x = y \<and> all_sent p (writes_of rs))"
    using rs(1) assms(2)
    by (intro exI [of _ rs] exI [of _ "[]"] exI [of _ "case r of Inr y \<Rightarrow> y | Inl e \<Rightarrow> undefined"]) auto
qed

lemma enacts_ret: "Q x [] \<Longrightarrow> enacts Q (ret x)"
  by (rule enactsI) auto

lemma enacts_raise: "Q x p \<Longrightarrow> enacts Q (raise e)"
  by (rule enactsI) (auto intro: sent_of.stop)

lemma enacts_bind:
  assumes "enacts Q m" "\<And>x. enacts (R x) (f x)" "\<And>x y p q. Q x p \<Longrightarrow> R x y q \<Longrightarrow> S y (p @ q)"
  shows "enacts S (bindE m f)"
proof (rule enactsI)
  fix w r w' assume "bindE m f w = (r, w')"
  then show "\<exists>rs p x. wd_requests w' = wd_requests w @ rs \<and> S x p \<and> sent_of p (writes_of rs)
      \<and> (\<forall>y. r = Inr y \<longrightarrow> x = y \<and> all_sent p (writes_of rs))"
  proof (cases rule: bindE_cases)
    case (fail e)
    obtain rs p x where p: "wd_requests w' = wd_requests w @ rs" "Q x p" "sent_of p (writes_of rs)"
      using enactsE [OF assms(1) fail(1)] by metis
    obtain y q where "R x y q" using assms(2) [of x] unfolding enacts_def by (metis prod.exhaust)
    then show ?thesis using p assms(3) fail(2) sent_of_longer
      by (intro exI [of _ rs] exI [of _ "p @ q"] exI [of _ y]) auto
  next
    case (step x w1)
    obtain rs p where p: "wd_requests w1 = wd_requests w @ rs" "Q x p" "all_sent p (writes_of rs)"
      using enactsE [OF assms(1) step(1)] by metis
    obtain ss q y where q: "wd_requests w' = wd_requests w1 @ ss" "R x y q" "sent_of q (writes_of ss)"
      "\<And>z. r = Inr z \<Longrightarrow> y = z \<and> all_sent q (writes_of ss)"
      using enactsE [OF assms(2) step(2)] by metis
    show ?thesis
      by (rule exI [of _ "rs @ ss"], rule exI [of _ "p @ q"], rule exI [of _ y])
        (use p q assms(3) sent_of_append all_sent_append in auto)
  qed
qed

text \<open>A quiet end keeps what was sent.\<close>

lemma enacts_bind_quiet:
  assumes "enacts Q m" "\<And>x. hush.kept_by (f x)" "\<And>x y p. Q x p \<Longrightarrow> S y p"
  shows "enacts S (bindE m f)"
  by (rule enacts_bind [OF assms(1), where R = "\<lambda>x y q. q = []"]) (auto intro: enacts_quiet assms)

lemma enacts_bind_ret:
  assumes "enacts Q m" "\<And>x p. Q x p \<Longrightarrow> S (g x) p"
  shows "enacts S (bindE m (\<lambda>x. ret (g x)))"
  by (rule enacts_bind [OF assms(1), where R = "\<lambda>x y q. q = [] \<and> y = g x"]) (auto intro!: enacts_ret assms)

lemma enacts_follows:
  assumes "follows plan m" "list_all (\<lambda>rq. \<not> harmless rq) plan"
  shows "enacts (\<lambda>x p. p = plan) m"
proof (rule enactsI)
  fix w r w' assume m: "m w = (r, w')"
  obtain rs where rs: "wd_requests w' = wd_requests w @ rs" "sent_of plan rs" "\<And>x. r = Inr x \<Longrightarrow> all_sent plan rs"
    using followsE [OF assms(1) m] by metis
  have "writes_of rs = rs"
    using sent_of_set [OF rs(2)] assms(2) by (auto simp: writes_of_def list_all_iff filter_id_conv)
  then show "\<exists>rs p x. wd_requests w' = wd_requests w @ rs \<and> p = plan \<and> sent_of p (writes_of rs)
      \<and> (\<forall>y. r = Inr y \<longrightarrow> x = y \<and> all_sent p (writes_of rs))"
    using rs by (cases r) auto
qed

text \<open>\<open>try\<close>: whatever the body had sent stays, so the handler goes on from a prefix of its plan.\<close>

lemma enacts_catch_quiet:
  assumes "hush.kept_by m" "\<And>e. enacts Q (h e)" "\<And>w x w'. m w = (Inr x, w') \<Longrightarrow> Q x []"
  shows "enacts Q (catchE m h)"
proof (rule enactsI)
  fix w r w' assume run: "catchE m h w = (r, w')"
  obtain r1 w1 where m: "m w = (r1, w1)" by (cases "m w")
  obtain rs where rs: "wd_requests w1 = wd_requests w @ rs" "list_all harmless rs"
    using hush.kept_byD [OF assms(1) m] by (auto simp: hushed_def)
  show "\<exists>rs p x. wd_requests w' = wd_requests w @ rs \<and> Q x p \<and> sent_of p (writes_of rs)
      \<and> (\<forall>y. r = Inr y \<longrightarrow> x = y \<and> all_sent p (writes_of rs))"
  proof (cases r1)
    case (Inl e)
    then have "h e w1 = (r, w')" using run m by (simp add: catchE_def)
    then obtain ss p y where "wd_requests w' = wd_requests w1 @ ss" "Q y p" "sent_of p (writes_of ss)"
      "\<And>z. r = Inr z \<Longrightarrow> y = z \<and> all_sent p (writes_of ss)"
      using enactsE [OF assms(2)] by metis
    then show ?thesis using rs harmless_writes [OF rs(2)]
      by (intro exI [of _ "rs @ ss"] exI [of _ p] exI [of _ y]) simp
  next
    case (Inr x)
    then have "r = Inr x" "w' = w1" using run m by (simp_all add: catchE_def)
    then show ?thesis using rs harmless_writes [OF rs(2)] assms(3) [of w x w1] m Inr
      by (intro exI [of _ rs] exI [of _ "[]"] exI [of _ x]) simp
  qed
qed

lemma enacts_finally:
  assumes "enacts Q m" "hush.kept_by c"
  shows "enacts Q (finallyE m c)"
proof (rule enactsI)
  fix w r w' assume run: "finallyE m c w = (r, w')"
  obtain r1 w1 where m: "m w = (r1, w1)" by (cases "m w")
  obtain r2 w2 where c: "c w1 = (r2, w2)" by (cases "c w1")
  obtain rs p x where p: "wd_requests w1 = wd_requests w @ rs" "Q x p" "sent_of p (writes_of rs)"
      "\<And>y. r1 = Inr y \<Longrightarrow> x = y \<and> all_sent p (writes_of rs)"
    using enactsE [OF assms(1) m] by metis
  obtain ss where ss: "wd_requests w2 = wd_requests w1 @ ss" "list_all harmless ss"
    using hush.kept_byD [OF assms(2) c] by (auto simp: hushed_def)
  have "w' = w2" "\<And>y. r = Inr y \<Longrightarrow> r1 = Inr y" using run m c by (auto simp: finallyE_def split: sum.splits)
  then show "\<exists>rs p x. wd_requests w' = wd_requests w @ rs \<and> Q x p \<and> sent_of p (writes_of rs)
      \<and> (\<forall>y. r = Inr y \<longrightarrow> x = y \<and> all_sent p (writes_of rs))"
    using p ss harmless_writes [OF ss(2)]
    by (intro exI [of _ "rs @ ss"] exI [of _ p] exI [of _ x]) simp
qed

end
