(* ===== verification/Runner_Base.thy ===== *)
theory Runner_Base
  imports Enacted
begin

text \<open>
  The base a Run stands on (\<open>_walk_closure\<close>, \<open>_derive_checkout_base\<close>, \<open>_resolve_deleted_base\<close> and \<open>_verify_ship_base\<close>
  of \<open>worker/.../runner.py\<close>), and what following a deleted base can end in.
\<close>

definition infra :: string where "infra = ''infra''"

definition closure_error :: "exn \<Rightarrow> bool" where
  "closure_error e = (case e of Cycle_Error _ \<Rightarrow> True | Cross_Repo_Error _ _ \<Rightarrow> True | _ \<Rightarrow> False)"

definition closure_at_checkout :: "env \<Rightarrow> repo \<Rightarrow> int \<Rightarrow> dependency_closure run" where
  "closure_at_checkout env repo issue_number =
     catchE (walk_closure (list_blocked_by env repo) repo (en_depth env) issue_number)
       (\<lambda>e. if closure_error e
            then raise (Run_Failed (''dependency closure unresolvable at checkout: '' @ exn_text e) infra)
            else raise e)"

definition kind_text :: "decision_kind \<Rightarrow> string" where
  "kind_text k = (case k of READY \<Rightarrow> ''ready'' | CHAINED \<Rightarrow> ''chained'' | WAIT \<Rightarrow> ''wait'' | MALFORMED \<Rightarrow> ''malformed'')"

definition derive_checkout_base :: "env \<Rightarrow> repo \<Rightarrow> dependency_closure \<Rightarrow> string run" where
  "derive_checkout_base env repo closure =
     bindE (default_branch env repo) (\<lambda>trunk.
       if length (dc_order closure) = 1 then ret trunk
       else bindE (resolve (find_open_pr_by_head env repo) closure trunk) (\<lambda>d.
              if cd_kind d = WAIT \<or> cd_kind d = MALFORMED
              then raise (Run_Failed (''dependency chain unresolvable at checkout ('' @ kind_text (cd_kind d) @ ''): '' @ cd_reason d) infra)
              else ret (cd_base_branch d)))"

subsection \<open>A deleted base\<close>

definition no_proof :: "string \<Rightarrow> exn" where
  "no_proof gone = Run_Failed (''chained base '' @ gone @ '' no longer exists and no PR for it can be found '' @ em_dash
     @ '' cannot prove it merged; refusing to publish against a guessed base'') infra"

definition not_merged :: "string \<Rightarrow> pull_request \<Rightarrow> exn" where
  "not_merged gone pr = Run_Failed (''chained base '' @ gone @ '' no longer exists but its PR #'' @ show_int (pr_number pr)
     @ '' is '' @ pr_state pr @ '' and not merged '' @ em_dash @ '' a deleted branch without merge proof is unverifiable;''
     @ '' refusing to publish against a guessed base'') infra"

definition outside_naming :: "pull_request \<Rightarrow> exn" where
  "outside_naming pr = Run_Failed (''merged blocker PR #'' @ show_int (pr_number pr) @ '' targeted '' @ py_repr (pr_base_ref pr)
     @ '', outside the pipeline's branch naming '' @ em_dash @ '' refusing to follow it to a base'') infra"

definition base_loop :: "string list \<Rightarrow> exn" where
  "base_loop names = Run_Failed (''the merged-base chain loops ('' @ join '' -> '' names
     @ ''); refusing to publish against a guessed base'') infra"

text \<open>The loop; \<open>seen\<close> grows by a branch at each turn.\<close>

fun follow_merged ::
  "(string \<Rightarrow> pull_request option run) \<Rightarrow> (string \<Rightarrow> string option run) \<Rightarrow> string \<Rightarrow> nat \<Rightarrow> string list \<Rightarrow> string \<Rightarrow> string run" where
  "follow_merged pull_of head_of trunk 0 seen gone = raise Diverges"
| "follow_merged pull_of head_of trunk (Suc n) seen gone =
     bindE (pull_of gone) (\<lambda>found.
       case found of
         None \<Rightarrow> raise (no_proof gone)
       | Some pr \<Rightarrow>
           if \<not> pr_merged pr then raise (not_merged gone pr)
           else if pr_base_ref pr = trunk then ret trunk
           else if issue_for_branch (pr_base_ref pr) = None then raise (outside_naming pr)
           else if pr_base_ref pr \<in> set seen then raise (base_loop (seen @ [pr_base_ref pr]))
           else bindE (head_of (pr_base_ref pr)) (\<lambda>h.
                  if h \<noteq> None then ret (pr_base_ref pr)
                  else follow_merged pull_of head_of trunk n (seen @ [pr_base_ref pr]) (pr_base_ref pr)))"

definition resolve_deleted_base :: "env \<Rightarrow> repo \<Rightarrow> string \<Rightarrow> string \<Rightarrow> string run" where
  "resolve_deleted_base env repo base_branch trunk =
     follow_merged (\<lambda>b. find_pr_by_head env repo b ''all'') (branch_head env repo) trunk (en_fuel env) [base_branch] base_branch"

subsection \<open>The base a Run publishes against\<close>

definition ref_head :: "char \<Rightarrow> bool" where
  "ref_head c \<longleftrightarrow> is_digit c \<or> (97 \<le> (of_char (lower_char c) :: nat) \<and> (of_char (lower_char c) :: nat) \<le> 122) \<or> c = CHR ''_''"

definition safe_ref :: "string \<Rightarrow> bool" where
  "safe_ref s = (case s of [] \<Rightarrow> False
     | c # t \<Rightarrow> ref_head c \<and> list_all (\<lambda>x. ref_head x \<or> x \<in> {CHR ''.'', CHR ''/'', CHR ''+'', CHR ''-''}) t)"

definition verify_ship_base :: "env \<Rightarrow> string \<Rightarrow> string \<Rightarrow> string \<Rightarrow> unit run" where
  "verify_ship_base env wd base_branch base_sha =
     (if \<not> safe_ref base_branch
      then raise (Run_Failed (''resolved base branch '' @ py_repr base_branch @ '' is not a safe ref name'') infra)
      else
        bindE (catchE (git_fetch env wd base_branch)
                 (\<lambda>e. case e of
                    Git_Error m \<Rightarrow> raise (Run_Failed (''cannot fetch the resolved base '' @ base_branch @ '': '' @ m) infra)
                  | _ \<Rightarrow> raise e)) (\<lambda>_.
        bindE (is_ancestor env wd base_sha (''origin/'' @ base_branch)) (\<lambda>contained.
          if contained then ret ()
          else raise (Run_Failed (''the recorded base commit '' @ base_sha @ '' is not contained in the resolved base ''
                 @ base_branch @ '' '' @ em_dash @ '' publishing against it would fold blocker-owned changes into this PR's diff; refusing'') infra))))"

subsection \<open>Where following a deleted base ends\<close>

text \<open>
  The branch a merged and deleted base gave its work to: the default branch, or a live pipeline branch, reached
  through merged pull requests only.
\<close>

inductive gave_to :: "(string \<Rightarrow> pull_request option) \<Rightarrow> (string \<Rightarrow> bool) \<Rightarrow> string \<Rightarrow> string \<Rightarrow> string \<Rightarrow> bool"
  for pulls live trunk where
  trunk: "pulls gone = Some pr \<Longrightarrow> pr_merged pr \<Longrightarrow> pr_base_ref pr = trunk \<Longrightarrow> gave_to pulls live trunk gone trunk"
| live: "pulls gone = Some pr \<Longrightarrow> pr_merged pr \<Longrightarrow> pr_base_ref pr \<noteq> trunk \<Longrightarrow> issue_for_branch (pr_base_ref pr) \<noteq> None
     \<Longrightarrow> live (pr_base_ref pr) \<Longrightarrow> gave_to pulls live trunk gone (pr_base_ref pr)"
| dead: "pulls gone = Some pr \<Longrightarrow> pr_merged pr \<Longrightarrow> pr_base_ref pr \<noteq> trunk \<Longrightarrow> issue_for_branch (pr_base_ref pr) \<noteq> None
     \<Longrightarrow> \<not> live (pr_base_ref pr) \<Longrightarrow> gave_to pulls live trunk (pr_base_ref pr) b \<Longrightarrow> gave_to pulls live trunk gone b"

definition dead_step :: "(string \<Rightarrow> pull_request option) \<Rightarrow> (string \<Rightarrow> bool) \<Rightarrow> string \<Rightarrow> (string \<times> string) set" where
  "dead_step pulls live trunk = {(g, s). \<exists>pr. pulls g = Some pr \<and> pr_merged pr \<and> s = pr_base_ref pr \<and> s \<noteq> trunk
     \<and> issue_for_branch s \<noteq> None \<and> \<not> live s}"

lemma gave_to_acyclic: "gave_to pulls live trunk g b \<Longrightarrow> (g, g) \<notin> (dead_step pulls live trunk)\<^sup>+"
proof (induction rule: gave_to.induct)
  case (trunk g pr)
  then have "(g, s) \<notin> dead_step pulls live trunk" for s by (auto simp: dead_step_def)
  then show ?case by (metis tranclD)
next
  case (live g pr)
  then have "(g, s) \<notin> dead_step pulls live trunk" for s by (auto simp: dead_step_def)
  then show ?case by (metis tranclD)
next
  case (dead g pr b)
  let ?R = "dead_step pulls live trunk"
  have step: "(g, s) \<in> ?R \<longleftrightarrow> s = pr_base_ref pr" for s using dead.hyps by (auto simp: dead_step_def)
  show ?case
  proof
    assume "(g, g) \<in> ?R\<^sup>+"
    then have "(pr_base_ref pr, g) \<in> ?R\<^sup>*" using step by (metis tranclD)
    moreover have "(g, pr_base_ref pr) \<in> ?R" using step by blast
    ultimately have "(pr_base_ref pr, pr_base_ref pr) \<in> ?R\<^sup>+" by (rule rtrancl_into_trancl1)
    then show False using dead.IH by blast
  qed
qed

lemma follow_merged_ends:
  assumes pulls: "\<And>b w. b \<in> S \<Longrightarrow> \<exists>w'. pull_of b w = (Inr (pulls b), w')"
    and heads: "\<And>b w. b \<in> S \<Longrightarrow> \<exists>h w'. head_of b w = (Inr h, w') \<and> (h \<noteq> None \<longleftrightarrow> live b)"
    and closed: "\<And>b pr. b \<in> S \<Longrightarrow> pulls b = Some pr \<Longrightarrow> pr_base_ref pr \<in> S"
    and fin: "finite S"
  shows "card (S - (set seen - {gone})) < n \<Longrightarrow> gone \<in> S \<Longrightarrow> \<forall>x \<in> set seen. \<not> live x \<Longrightarrow> gone \<in> set seen
     \<Longrightarrow> \<forall>x \<in> set seen. (x, gone) \<in> (dead_step pulls live trunk)\<^sup>*
     \<Longrightarrow> (\<exists>b. gave_to pulls live trunk gone b \<and> fst (follow_merged pull_of head_of trunk n seen gone w) = Inr b)
        \<or> (\<nexists>b. gave_to pulls live trunk gone b) \<and> (\<exists>m. fst (follow_merged pull_of head_of trunk n seen gone w) = Inl (Run_Failed m infra))"
proof (induction n arbitrary: seen gone w)
  case (Suc n)
  let ?R = "dead_step pulls live trunk"
  obtain w1 where w1: "pull_of gone w = (Inr (pulls gone), w1)" using pulls Suc.prems(2) by blast
  show ?case
  proof (cases "pulls gone")
    case None
    then have "\<not> gave_to pulls live trunk gone b" for b by (auto elim: gave_to.cases)
    then show ?thesis using w1 None by (simp add: bindE_def no_proof_def raise_def)
  next
    case (Some pr)
    let ?s = "pr_base_ref pr"
    have s: "?s \<in> S" using closed [OF Suc.prems(2) Some] .
    consider (open_pr) "\<not> pr_merged pr" | (trunk) "pr_merged pr" "?s = trunk"
      | (foreign) "pr_merged pr" "?s \<noteq> trunk" "issue_for_branch ?s = None"
      | (loop) "pr_merged pr" "?s \<noteq> trunk" "issue_for_branch ?s \<noteq> None" "?s \<in> set seen"
      | (live) "pr_merged pr" "?s \<noteq> trunk" "issue_for_branch ?s \<noteq> None" "?s \<notin> set seen" "live ?s"
      | (dead) "pr_merged pr" "?s \<noteq> trunk" "issue_for_branch ?s \<noteq> None" "?s \<notin> set seen" "\<not> live ?s" by blast
    then show ?thesis
    proof cases
      case open_pr
      then have "\<not> gave_to pulls live trunk gone b" for b using Some by (auto elim: gave_to.cases)
      then show ?thesis using w1 Some open_pr by (simp add: bindE_def not_merged_def raise_def)
    next
      case trunk
      have "gave_to pulls live trunk gone trunk" using Some trunk by (rule gave_to.trunk)
      then show ?thesis using w1 Some trunk by (simp add: bindE_def ret_def)
    next
      case foreign
      then have "\<not> gave_to pulls live trunk gone b" for b using Some by (auto elim: gave_to.cases)
      then show ?thesis using w1 Some foreign by (simp add: bindE_def outside_naming_def raise_def)
    next
      case loop
      then have "(gone, ?s) \<in> ?R" using Some Suc.prems(3) by (auto simp: dead_step_def)
      moreover have "(?s, gone) \<in> ?R\<^sup>*" using Suc.prems(5) loop(4) by blast
      ultimately have "(gone, gone) \<in> ?R\<^sup>+" by (rule rtrancl_into_trancl2)
      then have "\<not> gave_to pulls live trunk gone b" for b using gave_to_acyclic by metis
      then show ?thesis using w1 Some loop by (auto simp: bindE_def base_loop_def outside_naming_def raise_def)
    next
      case live
      have gave: "gave_to pulls live trunk gone ?s" using Some live(1-3,5) by (rule gave_to.live)
      obtain h w2 where "head_of ?s w1 = (Inr h, w2)" "h \<noteq> None" using heads [OF s, of w1] live(5) by auto
      then show ?thesis using w1 Some live gave by (auto simp: bindE_def ret_def)
    next
      case dead
      have step: "(gone, ?s) \<in> ?R" using Some dead by (auto simp: dead_step_def)
      obtain w2 where w2: "head_of ?s w1 = (Inr None, w2)" using heads [OF s, of w1] dead(5) by auto
      have run: "follow_merged pull_of head_of trunk (Suc n) seen gone w
          = follow_merged pull_of head_of trunk n (seen @ [?s]) ?s w2"
        using w1 w2 Some dead by (auto simp: bindE_def)
      have gave: "gave_to pulls live trunk gone b \<longleftrightarrow> gave_to pulls live trunk ?s b" for b
      proof
        assume "gave_to pulls live trunk gone b"
        then show "gave_to pulls live trunk ?s b" using Some dead by (auto elim: gave_to.cases)
      qed (use Some dead gave_to.dead in blast)
      have "S - (set (seen @ [?s]) - {?s}) = S - (set seen - {gone}) - {gone}"
        using dead(4) Suc.prems(4) by auto
      moreover have "gone \<in> S - (set seen - {gone})" using Suc.prems(2) by simp
      ultimately have "card (S - (set (seen @ [?s]) - {?s})) < card (S - (set seen - {gone}))"
        using fin by (metis (no_types, lifting) card_Diff1_less finite_Diff)
      then have "card (S - (set (seen @ [?s]) - {?s})) < n" using Suc.prems(1) by linarith
      moreover have "\<forall>x \<in> set (seen @ [?s]). (x, ?s) \<in> ?R\<^sup>*" using Suc.prems(5) step by (auto intro: rtrancl_into_rtrancl)
      moreover have "\<forall>x \<in> set (seen @ [?s]). \<not> live x" using Suc.prems(3) dead(5) by simp
      ultimately show ?thesis unfolding run gave using s by (intro Suc.IH) simp_all
    qed
  qed
qed simp

text \<open>
  C39: While GitHub does not change, following a deleted base returns exactly the branch the work was proven to have been
  merged into: the default branch or a live pipeline branch, reached through merged pull requests only. When there is
  no such branch (no pull request, one that is not merged, a foreign target, a loop) the Run fails as infra. It
  always ends, with one turn of fuel for each branch the pull requests can lead to.
\<close>

theorem deleted_base_follows_proven_merges:
  assumes "\<And>b w. b \<in> S \<Longrightarrow> \<exists>w'. find_pr_by_head env repo b ''all'' w = (Inr (pulls b), w')"
    and "\<And>b w. b \<in> S \<Longrightarrow> \<exists>h w'. branch_head env repo b w = (Inr h, w') \<and> (h \<noteq> None \<longleftrightarrow> live b)"
    and "\<And>b pr. b \<in> S \<Longrightarrow> pulls b = Some pr \<Longrightarrow> pr_base_ref pr \<in> S"
    and "finite S" "card S < en_fuel env" "base \<in> S" "\<not> live base"
  shows "(\<exists>b. gave_to pulls live trunk base b \<and> fst (resolve_deleted_base env repo base trunk w) = Inr b)
     \<or> (\<nexists>b. gave_to pulls live trunk base b) \<and> (\<exists>m. fst (resolve_deleted_base env repo base trunk w) = Inl (Run_Failed m infra))"
  unfolding resolve_deleted_base_def
  by (rule follow_merged_ends [OF assms(1-4)]) (use assms(5-7) in auto)

text \<open>A merged blocker whose pull request went to the default branch.\<close>

definition demo_merged :: pull_request where
  "demo_merged = \<lparr>pr_number = 5, pr_title = [], pr_body = [], pr_head_ref = ''ozolith/issue-1'', pr_head_sha = ''c'',
     pr_base_ref = ''main'', pr_labels = [], pr_state = ''closed'', pr_merged = True, pr_merge_commit_sha = []\<rparr>"

definition demo_pull_items :: "json list" where
  "demo_pull_items = [JObj [(''base'', JObj [(''ref'', JStr ''main'')]),
     (''head'', JObj [(''ref'', JStr ''ozolith/issue-1''), (''sha'', JStr ''c'')]), (''merged_at'', JStr ''x''),
     (''number'', JInt 5), (''state'', JStr ''closed'')]]"

definition demo_pull_json :: string where
  "demo_pull_json = json_dumps (JList demo_pull_items)"

definition demo_deleted :: env where
  "demo_deleted = \<lparr>en_clock = int,
     en_transport = (\<lambda>_ rq. if rq_path rq = ''/repos/o/r/pulls?state=all&head=o%3Aozolith/issue-1''
        then Inr \<lparr>rp_status = 200, rp_headers = [], rp_body = demo_pull_json\<rparr>
        else if take 21 (rq_path rq) = ''/repos/o/r/branches/m''
        then Inr \<lparr>rp_status = 200, rp_headers = [], rp_body = []\<rparr>
        else if take 20 (rq_path rq) = ''/repos/o/r/branches/'' then Inr \<lparr>rp_status = 404, rp_headers = [], rp_body = []\<rparr>
        else Inr \<lparr>rp_status = 200, rp_headers = [], rp_body = ''[]''\<rparr>),
     en_git = (\<lambda>_ _. Inl (Git_Error [])), en_touch = (\<lambda>_ _. None), en_emit = (\<lambda>_. True), en_fuel = 4, en_depth = 9\<rparr>"

lemma demo_ok:
  assumes "en_transport env (wd_requests w) \<lparr>rq_method = ''GET'', rq_path = path, rq_body = None\<rparr> = Inr r" "rp_status r < 400"
    "response_json r = Inr j"
  shows "\<exists>w'. json_m env ''GET'' path None w = (Inr j, w')"
  using assms by (simp add: json_m_def request_m_def bindE_def exchange_def lift_def ret_def note_write_def attempts.simps)

lemma demo_missing:
  assumes "en_transport env (wd_requests w) \<lparr>rq_method = ''GET'', rq_path = path, rq_body = None\<rparr> = Inr r" "rp_status r = 404"
  shows "\<exists>w'. on_status 404 (bindE (json_m env ''GET'' path None) f) (ret x) w = (Inr x, w')"
  using assms
  by (simp add: on_status_def catchE_def json_m_def request_m_def bindE_def exchange_def ret_def attempts.simps now_def
      retry_delay_def request_failed_def raise_def)

lemma demo_reads:
  assumes "b \<in> {''ozolith/issue-1'', ''main''}"
  shows "\<exists>w'. find_pr_by_head demo_deleted ''o/r'' b ''all'' w = (Inr (if b = ''main'' then None else Some demo_merged), w')"
    and "\<exists>h w'. branch_head demo_deleted ''o/r'' b w = (Inr h, w') \<and> (h \<noteq> None \<longleftrightarrow> b = ''main'')"
proof -
  define path where "path b = repo_path ''o/r'' (''/pulls?state='' @ ''all'' @ ''&head='' @ quote ''/'' (takeWhile (\<lambda>c. c \<noteq> CHR ''/'') ''o/r'' @ '':'' @ b))" for b
  define items where "items b = (if b = ''main'' then [] else demo_pull_items)" for b :: string
  have heads: "(take 20 (repo_path ''o/r'' (''/branches/'' @ quote [] ''main'')), take 21 (repo_path ''o/r'' (''/branches/'' @ quote [] ''main''))) = (''/repos/o/r/branches/'', ''/repos/o/r/branches/m'')
      \<and> repo_path ''o/r'' (''/branches/'' @ quote [] ''main'') \<noteq> ''/repos/o/r/pulls?state=all&head=o%3Aozolith/issue-1''"
    "take 20 (repo_path ''o/r'' (''/branches/'' @ quote [] ''ozolith/issue-1'')) = ''/repos/o/r/branches/''
      \<and> take 21 (repo_path ''o/r'' (''/branches/'' @ quote [] ''ozolith/issue-1'')) \<noteq> ''/repos/o/r/branches/m''
      \<and> repo_path ''o/r'' (''/branches/'' @ quote [] ''ozolith/issue-1'') \<noteq> ''/repos/o/r/pulls?state=all&head=o%3Aozolith/issue-1''"
    by code_simp+
  have b: "b = ''ozolith/issue-1'' \<or> b = ''main''" using assms by blast
  have p: "path ''main'' \<noteq> ''/repos/o/r/pulls?state=all&head=o%3Aozolith/issue-1''"
    "path ''ozolith/issue-1'' = ''/repos/o/r/pulls?state=all&head=o%3Aozolith/issue-1''"
    "take 20 (path ''main'') \<noteq> ''/repos/o/r/branches/''" "take 21 (path ''main'') \<noteq> ''/repos/o/r/branches/m''"
    unfolding path_def by code_simp+
  have j: "response_json \<lparr>rp_status = 200, rp_headers = [], rp_body = demo_pull_json\<rparr> = Inr (JList demo_pull_items)"
  proof -
    have "plain_json (JList demo_pull_items)" by (simp add: demo_pull_items_def ascii_is_text ascii_def)
    moreover have "in_order (JList demo_pull_items) = JList demo_pull_items" by code_simp
    moreover have "demo_pull_json \<noteq> []" by (simp add: demo_pull_json_def)
    ultimately have "json_loads demo_pull_json = Some (JList demo_pull_items)" "demo_pull_json \<noteq> []"
      using json_loads_dumps(1) [of "JList demo_pull_items"] unfolding demo_pull_json_def by metis+
    then show ?thesis by (simp add: response_json_def)
  qed
  have j': "response_json \<lparr>rp_status = 200, rp_headers = [], rp_body = ''[]''\<rparr> = Inr (JList [])" by code_simp
  have batch: "batch_of None (JList []) = Inr []" "batch_of None (JList demo_pull_items) = Inr demo_pull_items"
    by (simp_all add: batch_of_def demo_pull_items_def)
  have pulls: "map_r pull_from demo_pull_items = Inr [demo_merged]" by code_simp
  have "\<exists>w'. json_m demo_deleted ''GET'' (path b) None w = (Inr (JList (items b)), w')"
  proof (rule demo_ok)
    show "en_transport demo_deleted (wd_requests w) \<lparr>rq_method = ''GET'', rq_path = path b, rq_body = None\<rparr>
        = Inr (if b = ''main'' then \<lparr>rp_status = 200, rp_headers = [], rp_body = ''[]''\<rparr>
               else \<lparr>rp_status = 200, rp_headers = [], rp_body = demo_pull_json\<rparr>)"
      using b p by (auto simp: demo_deleted_def)
  qed (use b j j' in \<open>auto simp: items_def\<close>)
  then obtain w1 where w1: "json_m demo_deleted ''GET'' (path b) None w = (Inr (JList (items b)), w1)" by blast
  have "pulls_with_head demo_deleted ''o/r'' ''all'' b w = (Inr (items b), w1)"
    using b batch w1 unfolding pulls_with_head_def path_def by (auto simp: bindE_def lift_def items_def)
  then show "\<exists>w'. find_pr_by_head demo_deleted ''o/r'' b ''all'' w = (Inr (if b = ''main'' then None else Some demo_merged), w')"
    using b pulls by (auto simp: find_pr_by_head_def bindE_def lift_def ret_def newest_pull_def items_def demo_merged_def)
  show "\<exists>h w'. branch_head demo_deleted ''o/r'' b w = (Inr h, w') \<and> (h \<noteq> None \<longleftrightarrow> b = ''main'')"
  proof (cases "b = ''main''")
    case True
    have "\<exists>w'. json_m demo_deleted ''GET'' (repo_path ''o/r'' (''/branches/'' @ quote [] b)) None w = (Inr JNull, w')"
    proof (rule demo_ok)
      show "en_transport demo_deleted (wd_requests w) \<lparr>rq_method = ''GET'', rq_path = repo_path ''o/r'' (''/branches/'' @ quote [] b), rq_body = None\<rparr>
          = Inr \<lparr>rp_status = 200, rp_headers = [], rp_body = []\<rparr>"
        using heads(1) True by (simp add: demo_deleted_def)
    qed (simp_all add: response_json_def)
    then show ?thesis using True
      by (auto simp: branch_head_def on_status_def catchE_def bindE_def lift_def ret_def)
  next
    case False
    have "\<exists>w'. branch_head demo_deleted ''o/r'' b w = (Inr None, w')"
      unfolding branch_head_def
    proof (rule demo_missing)
      show "en_transport demo_deleted (wd_requests w) \<lparr>rq_method = ''GET'', rq_path = repo_path ''o/r'' (''/branches/'' @ quote [] b), rq_body = None\<rparr>
          = Inr \<lparr>rp_status = 404, rp_headers = [], rp_body = []\<rparr>"
        using heads(2) b False by (simp add: demo_deleted_def)
    qed simp
    then show ?thesis using False by blast
  qed
qed

theorem deleted_base_follows_proven_merges_witness:
  "fst (resolve_deleted_base demo_deleted ''o/r'' ''ozolith/issue-1'' ''main'' (world_of empty_store)) = Inr ''main''"
proof -
  let ?pulls = "\<lambda>b. if b = ''main'' then None else Some demo_merged" and ?live = "\<lambda>b. b = ''main''"
  have "(\<exists>b. gave_to ?pulls ?live ''main'' ''ozolith/issue-1'' b
        \<and> fst (resolve_deleted_base demo_deleted ''o/r'' ''ozolith/issue-1'' ''main'' (world_of empty_store)) = Inr b)
     \<or> (\<nexists>b. gave_to ?pulls ?live ''main'' ''ozolith/issue-1'' b)
        \<and> (\<exists>m. fst (resolve_deleted_base demo_deleted ''o/r'' ''ozolith/issue-1'' ''main'' (world_of empty_store)) = Inl (Run_Failed m infra))"
  proof (rule deleted_base_follows_proven_merges [where S = "{''ozolith/issue-1'', ''main''}"])
    show "pr_base_ref pr \<in> {''ozolith/issue-1'', ''main''}" if "?pulls b = Some pr" for b pr
      using that by (auto simp: demo_merged_def split: if_splits)
    show "card {''ozolith/issue-1'', ''main''} < en_fuel demo_deleted" by (simp add: demo_deleted_def)
  qed (rule demo_reads, assumption, rule demo_reads, assumption, simp_all)
  moreover have base: "pr_base_ref demo_merged = ''main''" "pr_merged demo_merged" by (simp_all add: demo_merged_def)
  have gave: "gave_to ?pulls ?live ''main'' ''ozolith/issue-1'' ''main''"
    by (rule gave_to.trunk [where pr = demo_merged]) (simp_all add: base)
  have only: "b = ''main''" if "gave_to ?pulls ?live ''main'' ''ozolith/issue-1'' b" for b
    using that by cases (auto simp: base)
  ultimately show ?thesis using gave by metis
qed

end
