(* ===== verification/Run_State.thy ===== *)
theory Run_State
  imports Runner_Base
begin

text \<open>
  What a Run remembers while it works (\<open>RunReport\<close>, \<open>_RunContext\<close> and \<open>CompletionCarryover\<close> of \<open>runner.py\<close>): mutable
  objects that outlive an exception. A job takes that state and hands it on whether it returns or raises, so the
  failure path sees how far the body got.
\<close>

record carryover =
  co_checkout :: string
  co_proposal :: "string option"
  co_errors :: "string list"
  co_base_branch :: string
  co_base_sha :: string
  co_force :: bool

record run_report =
  rt_run_id :: string
  rt_issue :: int
  rt_round :: int
  rt_phase :: string
  rt_pr :: "int option"
  rt_branch :: string
  rt_head :: string
  rt_container :: string
  rt_agent_outcome :: string
  rt_gate_findings :: nat
  rt_reason :: string
  rt_failure_class :: string
  rt_carryover :: "carryover option"
  rt_evidence_pushed :: bool
  rt_evidence_discarded :: bool
  rt_notes :: "string list"

record run_context =
  cx_base_branch :: string
  cx_base_sha :: string
  cx_gate :: gate_result
  cx_section :: "decisions_section option"
  cx_force :: bool
  cx_errors :: "string list option"
  cx_input :: "(string \<times> string) list option"

record run_state =
  rs_report :: run_report
  rs_context :: run_context

definition no_gate :: gate_result where
  "no_gate = \<lparr>gt_steps_run = [], gt_findings = []\<rparr>"

definition new_report :: "string \<Rightarrow> int \<Rightarrow> run_report" where
  "new_report run_id issue_number =
     \<lparr>rt_run_id = run_id, rt_issue = issue_number, rt_round = 1, rt_phase = ''claimed'', rt_pr = None,
      rt_branch = branch_for issue_number, rt_head = [], rt_container = ''ozolith-run-'' @ run_id, rt_agent_outcome = [],
      rt_gate_findings = 0, rt_reason = [], rt_failure_class = [], rt_carryover = None, rt_evidence_pushed = False,
      rt_evidence_discarded = False, rt_notes = []\<rparr>"

definition new_context :: run_context where
  "new_context = \<lparr>cx_base_branch = [], cx_base_sha = [], cx_gate = no_gate, cx_section = None, cx_force = False,
     cx_errors = None, cx_input = None\<rparr>"

subsection \<open>Jobs\<close>

type_synonym 'a job = "run_state \<Rightarrow> ((exn + 'a) \<times> run_state) run"

definition retJ :: "'a \<Rightarrow> 'a job" where
  "retJ x st = ret (Inr x, st)"

definition raiseJ :: "exn \<Rightarrow> 'a job" where
  "raiseJ e st = ret (Inl e, st)"

definition bindJ :: "'a job \<Rightarrow> ('a \<Rightarrow> 'b job) \<Rightarrow> 'b job" where
  "bindJ m f st = bindE (m st) (\<lambda>(r, st'). case r of Inl e \<Rightarrow> ret (Inl e, st') | Inr x \<Rightarrow> f x st')"

definition catchJ :: "'a job \<Rightarrow> (exn \<Rightarrow> 'a job) \<Rightarrow> 'a job" where
  "catchJ m h st = bindE (m st) (\<lambda>(r, st'). case r of Inl e \<Rightarrow> h e st' | Inr x \<Rightarrow> ret (Inr x, st'))"

definition finallyJ :: "'a job \<Rightarrow> unit job \<Rightarrow> 'a job" where
  "finallyJ m c st = bindE (m st) (\<lambda>(r, st'). bindE (c st') (\<lambda>(s, st''). case s of Inl e \<Rightarrow> ret (Inl e, st'') | Inr _ \<Rightarrow> ret (r, st'')))"

text \<open>A step that leaves the state alone.\<close>

definition doing :: "'a run \<Rightarrow> 'a job" where
  "doing m st w = (case m w of (r, w') \<Rightarrow> (Inr (r, st), w'))"

definition looking :: "(run_state \<Rightarrow> 'a) \<Rightarrow> 'a job" where
  "looking f st = ret (Inr (f st), st)"

definition report :: "(run_report \<Rightarrow> run_report) \<Rightarrow> unit job" where
  "report f st = ret (Inr (), st\<lparr>rs_report := f (rs_report st)\<rparr>)"

definition context_set :: "(run_context \<Rightarrow> run_context) \<Rightarrow> unit job" where
  "context_set f st = ret (Inr (), st\<lparr>rs_context := f (rs_context st)\<rparr>)"

definition note_run :: "string \<Rightarrow> unit job" where
  "note_run s = report (\<lambda>r. r\<lparr>rt_notes := rt_notes r @ [s]\<rparr>)"

lemma bindJ_simps [simp]:
  "bindJ (retJ x) f = f x" "bindJ (raiseJ e) f = raiseJ e" "bindJ (looking g) f st = f (g st) st"
  "bindJ (report h) k st = k () (st\<lparr>rs_report := h (rs_report st)\<rparr>)"
  "bindJ (context_set c) k st = k () (st\<lparr>rs_context := c (rs_context st)\<rparr>)"
  by (simp_all add: fun_eq_iff bindJ_def retJ_def raiseJ_def looking_def report_def context_set_def)

lemma bindJ_doing: "bindJ (doing m) f st w = (case m w of (Inl e, w') \<Rightarrow> (Inr (Inl e, st), w') | (Inr x, w') \<Rightarrow> f x st w')"
  by (simp add: bindJ_def doing_def bindE_def ret_def split: prod.split sum.split)

subsection \<open>Frames of jobs\<close>

context frame
begin

definition kept_job :: "'a job \<Rightarrow> bool" where
  "kept_job m \<longleftrightarrow> (\<forall>st. kept_by (m st))"

lemma kept_job_basic [intro, simp]:
  "kept_job (retJ x)" "kept_job (raiseJ e)" "kept_job (looking f)" "kept_job (report g)" "kept_job (context_set h)"
  "kept_job (note_run s)"
  by (simp_all add: kept_job_def retJ_def raiseJ_def looking_def report_def context_set_def note_run_def)

lemma kept_doing [intro]: "kept_by m \<Longrightarrow> kept_job (doing m)"
  unfolding kept_job_def kept_by_def doing_def by (simp add: case_prod_beta)

lemma kept_bindJ [intro]: "kept_job m \<Longrightarrow> (\<And>x. kept_job (f x)) \<Longrightarrow> kept_job (bindJ m f)"
  unfolding kept_job_def bindJ_def by (auto intro!: kept_bind split: sum.split)

lemma kept_catchJ [intro]: "kept_job m \<Longrightarrow> (\<And>e. kept_job (h e)) \<Longrightarrow> kept_job (catchJ m h)"
  unfolding kept_job_def catchJ_def by (auto intro!: kept_bind split: sum.split)

lemma kept_finallyJ [intro]: "kept_job m \<Longrightarrow> kept_job c \<Longrightarrow> kept_job (finallyJ m c)"
  unfolding kept_job_def finallyJ_def by (auto intro!: kept_bind split: sum.split)

lemma kept_jobD: "kept_job m \<Longrightarrow> kept_by (m st)"
  by (simp add: kept_job_def)

end

end
