(* ===== verification/Runner.thy ===== *)
theory Runner
  imports Run_State
begin

text \<open>
  The implementer driver (\<open>worker/.../runner.py\<close>): one Run from the checkout to the pull request, its failure path,
  and the claim with its retries and its escalation. What git prints, what the session leaves, the outcomes of the
  evidence push and of the renames are arguments; log lines and advisory telemetry are left out, run events are not.
\<close>

definition CLAIM_RUN_BUDGET :: nat where "CLAIM_RUN_BUDGET = 2"
definition ACTIVATION_ATTEMPTS :: nat where "ACTIVATION_ATTEMPTS = 3"
definition EXCLUDED_METADATA :: "string list" where "EXCLUDED_METADATA = [''.claude/settings.local.json'']"

text \<open>
  How parking a job directory goes: the plain rename, the rename to a fresh name, the removal, the tombstone; and the
  suffix of the fresh name.
\<close>

record park_view =
  pk_plain :: bool
  pk_fallback :: bool
  pk_removed :: bool
  pk_tombstone :: bool
  pk_suffix :: string

text \<open>
  What a Run meets outside GitHub and git. \<open>vw_checkout\<close>: the checkout is there when evidence is collected;
  \<open>vw_gone\<close>: removing the job directory left nothing.
\<close>

record run_view =
  vw_run_id :: string
  vw_session :: session_view
  vw_adopted :: "exn option"
  vw_checkout :: bool
  vw_push :: "string option list"
  vw_gone :: bool
  vw_park :: park_view
  vw_stashed :: bool

subsection \<open>Small parts\<close>

definition exclude_metadata :: "env \<Rightarrow> string \<Rightarrow> unit run" where
  "exclude_metadata env wd = write_git_file env wd ''.git/info/exclude'' (concat (map (\<lambda>p. p @ [newline]) EXCLUDED_METADATA))"

definition write_issue_metadata :: "string \<Rightarrow> issue \<Rightarrow> int \<Rightarrow> unit run" where
  "write_issue_metadata rid i round_number =
     job_changing rid (atomic_write ''input/issue.json''
       (json_dumps_indent 0 (JObj [(''number'', JInt (is_number i)), (''title'', JStr (is_title i)), (''body'', JStr (is_body i)),
          (''labels'', JList (map JStr (sort (remdups (is_labels i))))), (''round'', JInt round_number)])))"

definition has_reasoning :: "decisions_section \<Rightarrow> bool" where
  "has_reasoning s \<longleftrightarrow> ds_decisions s \<noteq> [] \<or> ds_open_questions s \<noteq> [] \<or> ds_remaining_work s \<noteq> [] \<or> ds_dead_ends s \<noteq> []"

definition no_change_intro :: "decisions_section \<Rightarrow> string" where
  "no_change_intro s =
     join [newline]
       ([''This Run concluded that **no code change is needed**. The Worker's reasoning:'', []]
        @ (if ds_decisions s \<noteq> []
           then map (\<lambda>d. ''- **'' @ dn_what d @ ''**'' @ (if dn_why d \<noteq> [] then '' '' @ em_dash @ '' '' @ dn_why d else [])) (ds_decisions s)
           else map (\<lambda>item. ''- '' @ item) (ds_open_questions s @ ds_dead_ends s)))"

definition commit_message_with_trailer :: "string \<Rightarrow> string \<Rightarrow> int \<Rightarrow> int \<Rightarrow> string" where
  "commit_message_with_trailer proposed run_id issue_number round_n =
     join [newline]
       [rstrip proposed, [], ''Ozolith-Run: '' @ run_id, ''Ozolith-Issue: #'' @ show_int issue_number,
        ''Ozolith-Round: '' @ show_int round_n, []]"

definition compose_pr_body :: "int \<Rightarrow> string \<Rightarrow> decisions_section \<Rightarrow> string \<Rightarrow> string" where
  "compose_pr_body issue_number narrative s intro =
     upsert_section
       (join [newline, newline]
          ([''Closes #'' @ show_int issue_number @ ''.'']
           @ (if intro \<noteq> [] then [intro] else [])
           @ (if strip narrative \<noteq> [] then [strip narrative] else []))) s"

subsection \<open>The checkout\<close>

definition edgeless :: "int \<Rightarrow> dependency_closure" where
  "edgeless n = \<lparr>dc_order = [n], dc_edges = [n \<mapsto> []], dc_issues = Map.empty\<rparr>"

definition closure_for :: "env \<Rightarrow> repo \<Rightarrow> int \<Rightarrow> carryover option \<Rightarrow> dependency_closure job" where
  "closure_for env repo n completion =
     (case completion of
        None \<Rightarrow> doing (closure_at_checkout env repo n)
      | Some _ \<Rightarrow>
          catchJ (doing (walk_closure (list_blocked_by env repo) repo (en_depth env) n))
            (\<lambda>e. if closure_error e
                 then bindJ (note_run (''dependency closure unresolvable on the completion retry ('' @ exn_text e @ ''); input/deps omitted''))
                        (\<lambda>_. retJ (edgeless n))
                 else raiseJ e))"

definition settle_base :: "env \<Rightarrow> repo \<Rightarrow> pull_request option \<Rightarrow> dependency_closure \<Rightarrow> carryover option \<Rightarrow> unit job" where
  "settle_base env repo existing closure completion =
     (case completion of
        Some c \<Rightarrow> context_set (\<lambda>x. x\<lparr>cx_base_branch := co_base_branch c, cx_base_sha := co_base_sha c, cx_force := co_force c\<rparr>)
      | None \<Rightarrow>
          bindJ (case existing of
                   Some pr \<Rightarrow> retJ (pr_base_ref pr)
                 | None \<Rightarrow> doing (derive_checkout_base env repo closure))
            (\<lambda>b. context_set (\<lambda>x. x\<lparr>cx_base_branch := b, cx_force := False\<rparr>)))"

text \<open>The mirror is never load-bearing: one fallback to a full clone.\<close>

definition clone_base :: "env \<Rightarrow> driver_config \<Rightarrow> string \<Rightarrow> string \<Rightarrow> unit run" where
  "clone_base env cfg wd base =
     catchE (clone_with_mirror env (dv_mirror cfg) wd base)
       (\<lambda>e. case e of Git_Error _ \<Rightarrow> clone env (dv_clone_url cfg) wd base None | _ \<Rightarrow> raise e)"

definition disarm :: "env \<Rightarrow> driver_config \<Rightarrow> string \<Rightarrow> unit run" where
  "disarm env cfg wd = bindE (sanitize_checkout env wd (dv_clone_url cfg)) (\<lambda>_. exclude_metadata env wd)"

definition obtain_checkout :: "env \<Rightarrow> driver_config \<Rightarrow> run_view \<Rightarrow> carryover option \<Rightarrow> unit job" where
  "obtain_checkout env cfg vw completion =
     (let wd = checkout_path cfg (vw_run_id vw) in
      bindJ (looking (\<lambda>st. cx_base_branch (rs_context st))) (\<lambda>base.
      bindJ (doing (case completion of None \<Rightarrow> clone_base env cfg wd base | Some _ \<Rightarrow> may_raise (vw_adopted vw))) (\<lambda>_.
      bindJ (doing (disarm env cfg wd)) (\<lambda>_.
      bindJ (case completion of
               None \<Rightarrow> bindJ (doing (head_sha env wd)) (\<lambda>sha. context_set (\<lambda>x. x\<lparr>cx_base_sha := sha\<rparr>))
             | Some _ \<Rightarrow> retJ ()) (\<lambda>_.
        report (\<lambda>r. r\<lparr>rt_phase := ''checkout''\<rparr>))))))"

subsection \<open>The branch\<close>

text \<open>The reset a reviewer designated.\<close>

definition resume_at :: "env \<Rightarrow> string \<Rightarrow> string \<Rightarrow> string \<Rightarrow> verdict \<Rightarrow> unit job" where
  "resume_at env wd login email v =
     (if vd_resume_commit v = [] then retJ ()
      else
        bindJ (doing (commit_exists env wd (vd_resume_commit v))) (\<lambda>there.
          if there
          then
            bindJ (doing (head_sha env wd)) (\<lambda>sha.
            bindJ (if vd_resume_commit v \<noteq> sha
                   then bindJ (doing (reset_hard env wd (vd_resume_commit v))) (\<lambda>_. context_set (\<lambda>x. x\<lparr>cx_force := True\<rparr>))
                   else retJ ()) (\<lambda>_.
              if vd_cherry_pick v \<noteq> [] then doing (cherry_pick env wd login email (vd_cherry_pick v)) else retJ ()))
          else note_run (''designated resume commit '' @ vd_resume_commit v @ '' not found; resuming from branch head'')))"

definition found_verdict :: "comment list \<Rightarrow> verdict option run" where
  "found_verdict comments =
     (case latest_verdict comments of
        None \<Rightarrow> raise (Other_Error ''TypeError'')
      | Some found \<Rightarrow> ret (map_option fst found))"

text \<open>A round on an existing pull request: its commits, the standing verdict, the branch at its head or the designated commit.\<close>

definition resume_round ::
  "env \<Rightarrow> string \<Rightarrow> string \<Rightarrow> string \<Rightarrow> string \<Rightarrow> pull_request \<Rightarrow> context_snapshot \<Rightarrow> carryover option
    \<Rightarrow> (context_snapshot \<times> verdict option) job" where
  "resume_round env wd branch login email pr s completion =
     bindJ (report (\<lambda>r. r\<lparr>rt_round := int (attempts_on (pr_labels pr)) + 1, rt_pr := Some (pr_number pr)\<rparr>)) (\<lambda>_.
     bindJ (doing (git_fetch env wd branch)) (\<lambda>_.
     bindJ (if completion = None
            then bindJ (doing (git_checked env False [''merge-base'', ''HEAD'', ''FETCH_HEAD''] wd))
                   (\<lambda>sha. context_set (\<lambda>x. x\<lparr>cx_base_sha := sha\<rparr>))
            else retJ ()) (\<lambda>_.
     bindJ (doing (git_pr_commits env wd (''origin/'' @ pr_base_ref pr) ''FETCH_HEAD'')) (\<lambda>commits.
     bindJ (doing (found_verdict (cs_pr_conversation s))) (\<lambda>revised.
     bindJ (if completion = None
            then
              bindJ (doing (checkout_branch env wd branch True)) (\<lambda>_.
              bindJ (doing (reset_hard env wd ''FETCH_HEAD'')) (\<lambda>_.
                case revised of None \<Rightarrow> retJ () | Some v \<Rightarrow> resume_at env wd login email v))
            else retJ ()) (\<lambda>_.
       retJ (s\<lparr>cs_pr_commits := commits\<rparr>, revised)))))))"

text \<open>A first round: a branch no pull request references is overwritten, but only after asking again.\<close>

definition fresh_round :: "env \<Rightarrow> repo \<Rightarrow> string \<Rightarrow> string \<Rightarrow> unit job" where
  "fresh_round env repo wd branch =
     bindJ (doing (checkout_branch env wd branch True)) (\<lambda>_.
     bindJ (doing (ref_exists env wd (''origin/'' @ branch))) (\<lambda>stale.
       if \<not> stale then retJ ()
       else
         bindJ (doing (find_open_pr_by_head env repo branch)) (\<lambda>pr.
           if pr \<noteq> None
           then raiseJ (Run_Failed (''a PR for '' @ branch @ '' appeared during checkout; refusing to overwrite '' @ em_dash
                  @ '' the retry resumes it'') infra)
           else
             bindJ (context_set (\<lambda>x. x\<lparr>cx_force := True\<rparr>)) (\<lambda>_.
               note_run ''stale branch from a crashed Run overwritten (no PR referenced it)''))))"

definition take_branch ::
  "env \<Rightarrow> repo \<Rightarrow> string \<Rightarrow> string \<Rightarrow> string \<Rightarrow> string \<Rightarrow> pull_request option \<Rightarrow> context_snapshot \<Rightarrow> carryover option
    \<Rightarrow> (context_snapshot \<times> verdict option) job" where
  "take_branch env repo wd branch login email existing s completion =
     (case existing of
        Some pr \<Rightarrow> resume_round env wd branch login email pr s completion
      | None \<Rightarrow>
          bindJ (if completion = None then fresh_round env repo wd branch else retJ ()) (\<lambda>_. retJ (s, None)))"

subsection \<open>The input\<close>

definition chained_context :: "env \<Rightarrow> repo \<Rightarrow> string \<Rightarrow> string run" where
  "chained_context env repo base =
     bindE (default_branch env repo) (\<lambda>trunk.
       case (if base \<noteq> trunk then issue_for_branch base else None) of
         None \<Rightarrow> ret []
       | Some tip \<Rightarrow>
           bindE (find_open_pr_by_head env repo base) (\<lambda>pr. ret (chained_section base tip (map_option pr_number pr))))"

definition run_manifest :: "driver_config \<Rightarrow> string \<Rightarrow> int \<Rightarrow> manifest" where
  "run_manifest cfg rid round_number =
     \<lparr>mf_run_id = rid, mf_mode = MODE_RUN, mf_adapter = dv_adapter cfg, mf_workdir = CHECKOUT_DIR,
      mf_agent_timeout = dv_agent_timeout cfg, mf_jobs_idle_timeout = JFloat 600 ''600.0'', mf_round = round_number,
      mf_round_budget = 0, mf_schema_version = SCHEMA_VERSION\<rparr>"

definition completion_prompt :: "string \<Rightarrow> carryover option \<Rightarrow> string job" where
  "completion_prompt rid completion =
     (case completion of
        None \<Rightarrow> retJ []
      | Some c \<Rightarrow>
          bindJ (note_run ''completion retry: worktree and pending proposal preserved'') (\<lambda>_.
          bindJ (doing (case co_proposal c of
                   None \<Rightarrow> ret () | Some t \<Rightarrow> job_changing rid (atomic_write PROPOSAL_FILE t))) (\<lambda>_.
            retJ (retry_appendix (co_errors c)))))"

definition write_inputs ::
  "env \<Rightarrow> driver_config \<Rightarrow> string \<Rightarrow> context_snapshot \<Rightarrow> verdict option \<Rightarrow> dependency_closure \<Rightarrow> carryover option \<Rightarrow> unit job" where
  "write_inputs env cfg rid s revised closure completion =
     (let repo = dv_repo cfg; i = cs_issue s; n = is_number i in
      bindJ (doing (job_apply rid (write_tree ''input'' s))) (\<lambda>_.
      bindJ (doing (write_closure env repo rid (checkout_path cfg rid) closure n)) (\<lambda>_.
      bindJ (looking (\<lambda>st. (cx_base_branch (rs_context st), rt_round (rs_report st)))) (\<lambda>(base, round_number).
      bindJ (doing (chained_context env repo base)) (\<lambda>chained.
      bindJ (completion_prompt rid completion) (\<lambda>appendix.
      bindJ (doing (job_changing rid (atomic_write PROMPT_FILE
          (render_run_prompt i round_number revised chained (1 < length (dc_order closure)) @ appendix)))) (\<lambda>_.
      bindJ (doing (write_issue_metadata rid i round_number)) (\<lambda>_.
      bindJ (doing (job_changing rid (write_manifest (run_manifest cfg rid round_number)))) (\<lambda>_.
      bindJ (doing (snapshot_input rid)) (\<lambda>files. context_set (\<lambda>x. x\<lparr>cx_input := Some files\<rparr>)))))))))))"

subsection \<open>The session\<close>

definition gate_exn_text :: "gate_exn \<Rightarrow> string" where
  "gate_exn_text e = (case e of
       Gate_Config_Error m \<Rightarrow> m | Value_Error \<Rightarrow> ''ValueError'' | Type_Error \<Rightarrow> ''TypeError''
     | Overflow_Error \<Rightarrow> ''OverflowError'' | Runner_Error m \<Rightarrow> m)"

text \<open>A session error in the gate is a finding; anything else leaves the Run.\<close>

definition gate_outcome :: "session_view \<Rightarrow> gate_result run" where
  "gate_outcome sv =
     (case fst (run_gate (snd (sv_gate sv)) (fst (sv_gate sv))) of
        Inr g \<Rightarrow> ret g
      | Inl (Runner_Error m) \<Rightarrow>
          ret \<lparr>gt_steps_run = [],
               gt_findings = [new_finding ''gate'' ''error'' (''gate infrastructure failed: '' @ m) [] False]\<rparr>
      | Inl e \<Rightarrow> raise (Other_Error (gate_exn_text e)))"

definition await_agent :: "driver_config \<Rightarrow> string \<Rightarrow> session_view \<Rightarrow> (agent_outcome option \<times> string) job" where
  "await_agent cfg rid sv =
     catchJ
       (bindJ (doing (agent_phase cfg rid sv)) (\<lambda>a.
        bindJ (report (\<lambda>r. r\<lparr>rt_agent_outcome := describe_outcome a\<rparr>)) (\<lambda>_. retJ (Some a, []))))
       (\<lambda>e. case e of
          Session_Error m \<Rightarrow> bindJ (report (\<lambda>r. r\<lparr>rt_agent_outcome := ''harness-failed''\<rparr>)) (\<lambda>_. retJ (None, m))
        | _ \<Rightarrow> raiseJ e)"

definition completed :: "agent_outcome option \<Rightarrow> bool" where
  "completed a = (case a of None \<Rightarrow> False | Some x \<Rightarrow> ao_completed x)"

definition session_phase :: "env \<Rightarrow> driver_config \<Rightarrow> int \<Rightarrow> string \<Rightarrow> session_view \<Rightarrow> (agent_outcome option \<times> string \<times> gate_result) job" where
  "session_phase env cfg n rid sv =
     finallyJ
       (bindJ (await_agent cfg rid sv) (\<lambda>(a, harness_error).
          if \<not> completed a then retJ (a, harness_error, no_gate)
          else
            bindJ (doing (gate_outcome sv)) (\<lambda>g.
            bindJ (report (\<lambda>r. r\<lparr>rt_phase := ''gate'', rt_gate_findings := length (gt_findings g)\<rparr>)) (\<lambda>_.
            bindJ (context_set (\<lambda>x. x\<lparr>cx_gate := g\<rparr>)) (\<lambda>_.
            bindJ (doing (emit env ''gate'' n rid [])) (\<lambda>_. retJ (a, harness_error, g)))))))
       (doing (may_raise (sv_finish sv)))"

text \<open>The failure classes of a session that did not complete.\<close>

definition session_failure :: "agent_outcome option \<Rightarrow> string \<Rightarrow> exn" where
  "session_failure a harness_error =
     (if harness_error \<noteq> []
      then (if identity_error_detail harness_error \<noteq> None then Run_Failed harness_error ''identity''
            else if schema_error_detail harness_error \<noteq> None then Run_Failed harness_error infra
            else Run_Failed harness_error ''harness'')
      else case a of
             None \<Rightarrow> Run_Failed (''agent session '' @ describe_outcome no_outcome) ''harness''
           | Some x \<Rightarrow>
               if ao_timed_out x then Run_Failed ''agent session timed out'' ''timeout''
               else if ao_session_died x then Run_Failed ''agent session died'' ''session-died''
               else Run_Failed (''agent session '' @ describe_outcome x) ''harness'')"

definition with_findings :: "gate_result \<Rightarrow> decisions_section \<Rightarrow> decisions_section" where
  "with_findings g s = s\<lparr>ds_gate_findings := gt_findings g\<rparr>"

text \<open>The output proposal, validated again; its section goes into the evidence either way.\<close>

definition accept_proposal :: "driver_config \<Rightarrow> string \<Rightarrow> gate_result \<Rightarrow> run_proposal job" where
  "accept_proposal cfg rid g =
     bindJ (looking (\<lambda>st. rt_round (rs_report st))) (\<lambda>round_number.
     bindJ (doing (raw_text rid)) (\<lambda>raw.
       case validate_run_job (dv_json_error cfg) raw round_number of
         Inl errors \<Rightarrow>
           (case lenient_section (read_raw raw) of
              None \<Rightarrow> raiseJ (Other_Error ''TypeError'')
            | Some s \<Rightarrow>
                bindJ (context_set (\<lambda>x. x\<lparr>cx_section := Some (with_findings g s), cx_errors := Some errors\<rparr>)) (\<lambda>_.
                  raiseJ (Run_Failed (''output proposal invalid: '' @ join ''; '' errors) ''completion'')))
       | Inr p \<Rightarrow>
           bindJ (context_set (\<lambda>x. x\<lparr>cx_section := Some (with_findings g (rn_section p))\<rparr>)) (\<lambda>_.
             retJ (p\<lparr>rn_section := with_findings g (rn_section p)\<rparr>))))"

subsection \<open>Shipping\<close>

text \<open>The commit, an empty one when the session argued that nothing has to change; then the push. True when empty.\<close>

definition commit_work :: "env \<Rightarrow> string \<Rightarrow> string \<Rightarrow> string \<Rightarrow> int \<Rightarrow> run_proposal \<Rightarrow> bool job" where
  "commit_work env wd login email n p =
     bindJ (looking rs_report) (\<lambda>r.
       let message = commit_message_with_trailer (rn_commit_message p) (rt_run_id r) n (rt_round r) in
       bindJ (doing (commit_all env wd message login email)) (\<lambda>committed.
       bindJ (if \<not> committed \<and> \<not> has_reasoning (rn_section p)
              then raiseJ (Run_Failed ''run completed with no commits and no no-change reasoning'' ''no-changes'')
              else if \<not> committed then doing (commit_empty env wd message login email) else retJ ()) (\<lambda>_.
       bindJ (doing (head_sha env wd)) (\<lambda>sha.
       bindJ (report (\<lambda>r. r\<lparr>rt_head := sha\<rparr>)) (\<lambda>_.
       bindJ (looking (\<lambda>st. cx_force (rs_context st))) (\<lambda>force.
       bindJ (doing (git_push env wd (rt_branch r) force)) (\<lambda>_. retJ (\<not> committed))))))))"

definition foreign_base :: "string \<Rightarrow> exn" where
  "foreign_base b = Run_Failed (''PR base '' @ py_repr b @ '' is neither the default branch nor an ozolith/issue-N blocker branch ''
     @ em_dash @ '' a human retarget owns this PR; refusing to ship against a base outside the pipeline's naming'') infra"

text \<open>
  The base is reconciled with GitHub just before shipping. The result: the pull request as it is now, the base to
  ship against, and whether the driver has to retarget the pull request itself.
\<close>

definition reconcile_base ::
  "env \<Rightarrow> repo \<Rightarrow> string \<Rightarrow> pull_request option \<Rightarrow> (pull_request option \<times> based_on option \<times> bool) job" where
  "reconcile_base env repo wd existing =
     bindJ (doing (default_branch env repo)) (\<lambda>trunk.
     bindJ (doing (case existing of None \<Rightarrow> ret None | Some pr \<Rightarrow> bindE (get_pull env repo (pr_number pr)) (\<lambda>p. ret (Some p)))) (\<lambda>current.
     bindJ (looking rs_context) (\<lambda>x.
       let claimed = (case current of Some pr \<Rightarrow> pr_base_ref pr | None \<Rightarrow> cx_base_branch x) in
       bindJ (case current of
                Some pr \<Rightarrow>
                  if claimed \<noteq> cx_base_branch x
                  then note_run (''PR #'' @ show_int (pr_number pr) @ '' was retargeted from '' @ cx_base_branch x @ '' to '' @ claimed
                         @ '' during the session'')
                  else retJ ()
              | None \<Rightarrow> retJ ()) (\<lambda>_.
       bindJ (if claimed \<noteq> trunk \<and> issue_for_branch claimed = None then raiseJ (foreign_base claimed) else retJ ()) (\<lambda>_.
       bindJ (if claimed \<noteq> trunk
              then bindJ (doing (branch_head env repo claimed)) (\<lambda>h.
                     if h \<noteq> None then retJ (claimed, False)
                     else bindJ (doing (resolve_deleted_base env repo claimed trunk)) (\<lambda>b.
                          bindJ (note_run (''chained base '' @ claimed @ '' was merged and deleted during the session; the PR ''
                                   @ (if current \<noteq> None then ''retargets to'' else ''opens against'') @ '' '' @ b)) (\<lambda>_.
                            retJ (b, current \<noteq> None))))
              else retJ (claimed, False)) (\<lambda>(effective, by_walk).
       bindJ (if effective \<noteq> cx_base_branch x
              then bindJ (doing (verify_ship_base env wd effective (cx_base_sha x)))
                     (\<lambda>_. context_set (\<lambda>y. y\<lparr>cx_base_branch := effective\<rparr>))
              else retJ ()) (\<lambda>_.
         retJ (current,
               (if effective \<noteq> trunk
                then map_option (\<lambda>tip. \<lparr>bo_issue = tip, bo_sha = cx_base_sha x\<rparr>) (issue_for_branch effective) else None),
               by_walk))))))))"

text \<open>A new pull request; one that GitHub had already is brought to this Run's base, title and body.\<close>

definition open_pr ::
  "env \<Rightarrow> repo \<Rightarrow> int \<Rightarrow> run_proposal \<Rightarrow> string \<Rightarrow> based_on option \<Rightarrow> pull_request job" where
  "open_pr env repo n p intro based =
     bindJ (looking (\<lambda>st. (rt_branch (rs_report st), cx_base_branch (rs_context st)))) (\<lambda>(branch, base).
       let title = ''#'' @ show_int n @ '': '' @ rn_pr_title p;
           composed = upsert_zone (compose_pr_body n (rn_pr_description p) (rn_section p) intro) based in
       bindJ (doing (create_pr env repo branch base title composed)) (\<lambda>pr.
       bindJ (if pr_base_ref pr \<noteq> base \<or> pr_title pr \<noteq> title \<or> pr_body pr \<noteq> composed
              then
                (let retargeted = pr_base_ref pr \<noteq> base in
                 bindJ (doing (update_pr env repo (pr_number pr) (Some title) (Some composed)
                         (if retargeted then Some base else None))) (\<lambda>_.
                   note_run (if retargeted
                     then ''create-PR fallback found PR #'' @ show_int (pr_number pr) @ '' based on '' @ pr_base_ref pr
                            @ ''; retargeted to the derived base '' @ base @ '' and converged title/body''
                     else ''create-PR fallback found PR #'' @ show_int (pr_number pr) @ ''; converged title/body'')))
              else retJ ()) (\<lambda>_. retJ pr)))"

text \<open>A resumed pull request keeps what the proposal leaves out.\<close>

definition revise_pr ::
  "env \<Rightarrow> repo \<Rightarrow> int \<Rightarrow> run_proposal \<Rightarrow> string \<Rightarrow> based_on option \<Rightarrow> bool \<Rightarrow> pull_request \<Rightarrow> pull_request job" where
  "revise_pr env repo n p intro based by_walk pr =
     (let body = (if rn_pr_description p \<noteq> [] then compose_pr_body n (rn_pr_description p) (rn_section p) intro
                  else upsert_section (pr_body pr) (rn_section p)) in
      bindJ (looking (\<lambda>st. cx_base_branch (rs_context st))) (\<lambda>base.
      bindJ (doing (update_pr env repo (pr_number pr)
               (if rn_pr_title p \<noteq> [] then Some (''#'' @ show_int n @ '': '' @ rn_pr_title p) else None)
               (Some (upsert_zone body based)) (if by_walk then Some base else None))) (\<lambda>_. retJ pr)))"

definition publish_pr ::
  "env \<Rightarrow> repo \<Rightarrow> string \<Rightarrow> int \<Rightarrow> pull_request option \<Rightarrow> run_proposal \<Rightarrow> bool \<Rightarrow> unit job" where
  "publish_pr env repo wd n existing p hollow =
     (let intro = (if hollow then no_change_intro (rn_section p) else []) in
      bindJ (reconcile_base env repo wd existing) (\<lambda>(current, based, by_walk).
      bindJ (case current of
               None \<Rightarrow> open_pr env repo n p intro based
             | Some pr \<Rightarrow> revise_pr env repo n p intro based by_walk pr) (\<lambda>pr.
      bindJ (report (\<lambda>r. r\<lparr>rt_pr := Some (pr_number pr)\<rparr>)) (\<lambda>_.
      bindJ (doing (add_labels env repo (pr_number pr) [PR_READY])) (\<lambda>_.
      bindJ (report (\<lambda>r. r\<lparr>rt_phase := (if hollow then ''empty-pr'' else ''pr-open'')\<rparr>)) (\<lambda>_.
      bindJ (looking (\<lambda>st. rt_run_id (rs_report st))) (\<lambda>rid.
      bindJ (doing (emit env ''pr-open'' n rid [])) (\<lambda>_. retJ ()))))))))"

subsection \<open>Evidence\<close>

definition int_json :: "int option \<Rightarrow> json" where
  "int_json x = (case x of None \<Rightarrow> JNull | Some i \<Rightarrow> JInt i)"

definition run_json :: "driver_config \<Rightarrow> run_report \<Rightarrow> string \<Rightarrow> stream_stats \<Rightarrow> json \<Rightarrow> int \<Rightarrow> dict" where
  "run_json cfg r version st identity n =
     [(''run_id'', JStr (rt_run_id r)), (''worker_id'', JStr (dv_worker_id cfg)), (''stack'', JStr (dv_stack cfg)),
      (''adapter'', JStr (dv_adapter cfg)), (''run_image'', JStr (dv_run_image cfg)), (''git_version'', JStr version),
      (''model'', JStr (ss_model st)), (''model_note'', JStr (ss_model_note st)), (''identity'', identity),
      (''container'', JStr (rt_container r)), (''issue'', JInt n), (''round'', JInt (rt_round r)), (''pr'', int_json (rt_pr r)),
      (''branch'', JStr (rt_branch r)), (''head'', JStr (rt_head r)), (''phase'', JStr (rt_phase r)),
      (''agent_outcome'', JStr (rt_agent_outcome r)), (''tokens'', int_json (ss_tokens st)), (''reason'', JStr (rt_reason r)),
      (''failure_class'', JStr (rt_failure_class r)), (''notes'', JList (map JStr (rt_notes r)))]"

definition run_files ::
  "driver_config \<Rightarrow> run_report \<Rightarrow> run_context \<Rightarrow> int \<Rightarrow> string \<Rightarrow> string \<Rightarrow> string \<Rightarrow> stream_stats \<Rightarrow> json \<Rightarrow> string option
    \<Rightarrow> job_dir \<Rightarrow> (string \<times> string) list" where
  "run_files cfg r x n diffstat transcript version st identity raw job =
     (let prefix = run_dir n (rt_run_id r);
          s = (case cx_section x of Some s \<Rightarrow> s | None \<Rightarrow> fallback_section (str_or (rt_reason r) ''no decisions recorded''));
          input = (case cx_input x of Some files \<Rightarrow> files | None \<Rightarrow> collect_input job) in
      [(prefix @ ''/run.json'', record_text (run_json cfg r version st identity n)),
       (prefix @ ''/findings.json'', json_dumps_indent 0 (JList (map finding_json (gt_findings (cx_gate x)))) @ [newline]),
       (prefix @ ''/decisions.json'', to_json s @ [newline]),
       (prefix @ ''/transcript.txt'', str_or transcript (''(empty)'' @ [newline])),
       (prefix @ ''/diffstat.txt'', diffstat @ [newline])]
      @ optional_file (prefix @ ''/proposal.json'') raw
      @ map (\<lambda>(p, t). (prefix @ ''/'' @ p, t)) input)"

text \<open>The diffstat runs in the checkout, whatever state it is in.\<close>

definition run_diffstat :: "env \<Rightarrow> string \<Rightarrow> string \<Rightarrow> bool \<Rightarrow> string run" where
  "run_diffstat env wd base there =
     (if base \<noteq> [] \<and> there
      then catchE (diff_stat env wd (''origin/'' @ base)) (\<lambda>e. ret (''(diffstat unavailable: '' @ exn_text e @ '')''))
      else ret [])"

text \<open>True when the push is confirmed.\<close>

definition push_run_evidence :: "env \<Rightarrow> driver_config \<Rightarrow> int \<Rightarrow> run_view \<Rightarrow> bool job" where
  "push_run_evidence env cfg n vw =
     (let rid = vw_run_id vw in
      bindJ (looking (\<lambda>st. cx_base_branch (rs_context st))) (\<lambda>base.
      bindJ (doing (run_diffstat env (checkout_path cfg rid) base (vw_checkout vw))) (\<lambda>diffstat.
      bindJ (doing (read_transcript rid)) (\<lambda>transcript.
      bindJ (doing (job_stats cfg rid)) (\<lambda>st.
      bindJ (doing (git_version env)) (\<lambda>version.
      bindJ (doing (job_identity rid)) (\<lambda>identity.
      bindJ (doing (raw_text rid)) (\<lambda>raw.
      bindJ (doing (job_reading rid (\<lambda>job. job))) (\<lambda>job.
      bindJ (looking (\<lambda>s. run_files cfg (rs_report s) (rs_context s) n diffstat transcript version st identity raw job)) (\<lambda>files.
      bindJ (doing (push_evidence_files (''Evidence: run '' @ rid @ '' (issue #'' @ show_int n @ '')'') files)) (\<lambda>_.
        case push_bundle (vw_push vw) of
          None \<Rightarrow> retJ True
        | Some e \<Rightarrow> bindJ (note_run (''evidence push failed: '' @ e)) (\<lambda>_. retJ False))))))))))))"

text \<open>The failure path: evidence and the failed event; the claim stays.\<close>

definition fail_run :: "env \<Rightarrow> driver_config \<Rightarrow> int \<Rightarrow> run_view \<Rightarrow> string \<Rightarrow> string \<Rightarrow> unit job" where
  "fail_run env cfg n vw reason failure_class =
     bindJ (report (\<lambda>r. r\<lparr>rt_phase := ''failed'', rt_reason := reason, rt_failure_class := failure_class\<rparr>)) (\<lambda>_.
     bindJ (context_set (\<lambda>x. if cx_section x = None then x\<lparr>cx_section := Some (fallback_section reason)\<rparr> else x)) (\<lambda>_.
     bindJ (push_run_evidence env cfg n vw) (\<lambda>pushed.
     bindJ (report (\<lambda>r. r\<lparr>rt_evidence_pushed := pushed\<rparr>)) (\<lambda>_.
     bindJ (doing (emit env ''failed'' n (vw_run_id vw) failure_class)) (\<lambda>_. retJ ())))))"

definition stash_completion :: "driver_config \<Rightarrow> run_view \<Rightarrow> unit job" where
  "stash_completion cfg vw =
     bindJ (looking rs_context) (\<lambda>x.
       case cx_errors x of
         None \<Rightarrow> retJ ()
       | Some errors \<Rightarrow>
           if \<not> vw_checkout vw \<or> errors = [] \<or> \<not> vw_stashed vw then retJ ()
           else
             bindJ (doing (raw_text (vw_run_id vw))) (\<lambda>raw.
               report (\<lambda>r. r\<lparr>rt_carryover := Some
                 \<lparr>co_checkout = dv_jobs_dir cfg @ ''/.completion-'' @ vw_run_id vw @ ''/'' @ CHECKOUT_DIR, co_proposal = raw,
                  co_errors = errors, co_base_branch = cx_base_branch x, co_base_sha = cx_base_sha x,
                  co_force = cx_force x\<rparr>\<rparr>)))"

subsection \<open>The Run\<close>

definition run_to_pr :: "env \<Rightarrow> driver_config \<Rightarrow> int \<Rightarrow> run_view \<Rightarrow> carryover option \<Rightarrow> unit job" where
  "run_to_pr env cfg issue_number vw completion =
     (let repo = dv_repo cfg; rid = vw_run_id vw; wd = checkout_path cfg rid; branch = branch_for issue_number;
          sv = vw_session vw in
      bindJ (doing (viewer_login env repo)) (\<lambda>login.
      let email = login @ ''@users.noreply.github.com'' in
      bindJ (doing (find_open_pr_by_head env repo branch)) (\<lambda>existing.
      bindJ (closure_for env repo issue_number completion) (\<lambda>closure.
      bindJ (settle_base env repo existing closure completion) (\<lambda>_.
      bindJ (obtain_checkout env cfg vw completion) (\<lambda>_.
      bindJ (doing (fetch_snapshot env repo issue_number existing)) (\<lambda>s.
      bindJ (take_branch env repo wd branch login email existing s completion) (\<lambda>(s', revised).
      bindJ (write_inputs env cfg rid s' revised closure completion) (\<lambda>_.
      bindJ (doing (may_raise (sv_launch sv))) (\<lambda>_.
      bindJ (report (\<lambda>r. r\<lparr>rt_phase := ''agent''\<rparr>)) (\<lambda>_.
      let n = is_number (cs_issue s) in
      bindJ (session_phase env cfg n rid sv) (\<lambda>(a, harness_error, g).
      bindJ (doing (disarm env cfg wd)) (\<lambda>_.
      bindJ (if \<not> completed a then raiseJ (session_failure a harness_error) else retJ ()) (\<lambda>_.
      bindJ (accept_proposal cfg rid g) (\<lambda>p.
      bindJ (commit_work env wd login email n p) (\<lambda>hollow.
      bindJ (publish_pr env repo wd n existing p hollow) (\<lambda>_.
      bindJ (push_run_evidence env cfg n vw) (\<lambda>pushed.
        report (\<lambda>r. r\<lparr>rt_evidence_pushed := pushed\<rparr>)))))))))))))))))))"

subsection \<open>What becomes of the job directory\<close>

definition park_job :: "string \<Rightarrow> string \<Rightarrow> unit run" where
  "park_job rid name w =
     (Inr (), w\<lparr>wd_jobs := (wd_jobs w)(rid := None), wd_parked := (wd_parked w)(name \<mapsto> job_files rid w)\<rparr>)"

definition discarded :: "unit job" where
  "discarded = report (\<lambda>r. r\<lparr>rt_evidence_discarded := True\<rparr>)"

definition park_for_sweep :: "string \<Rightarrow> park_view \<Rightarrow> unit job" where
  "park_for_sweep rid pk =
     (if pk_plain pk then doing (park_job rid rid)
      else if pk_fallback pk then doing (park_job rid (rid @ ''-parked-'' @ pk_suffix pk))
      else if pk_removed pk \<or> pk_tombstone pk then bindJ (doing (job_remove rid)) (\<lambda>_. discarded)
      else retJ ())"

definition tidy_job :: "run_view \<Rightarrow> unit job" where
  "tidy_job vw =
     bindJ (looking (\<lambda>st. rt_evidence_pushed (rs_report st))) (\<lambda>pushed.
       if pushed then doing (clear_job (vw_run_id vw) (vw_gone vw))
       else
         bindJ (park_for_sweep (vw_run_id vw) (vw_park vw)) (\<lambda>_.
         bindJ (looking (\<lambda>st. rt_evidence_discarded (rs_report st))) (\<lambda>lost.
           if lost then doing (drop_snapshot (vw_run_id vw)) else retJ ())))"

subsection \<open>One Run of a claim\<close>

text \<open>Every exception of the body is a failed Run; what ends a loop for want of fuel is none of the program's.\<close>

definition run_failed :: "env \<Rightarrow> driver_config \<Rightarrow> int \<Rightarrow> run_view \<Rightarrow> carryover option \<Rightarrow> exn \<Rightarrow> unit job" where
  "run_failed env cfg n vw completion e =
     (case e of
        Run_Failed reason failure_class \<Rightarrow>
          bindJ (fail_run env cfg n vw reason failure_class) (\<lambda>_.
            if failure_class = ''completion'' \<and> completion = None then stash_completion cfg vw else retJ ())
      | Diverges \<Rightarrow> raiseJ Diverges
      | _ \<Rightarrow> fail_run env cfg n vw (''driver-side failure: '' @ exn_text e) infra)"

definition run_body :: "env \<Rightarrow> driver_config \<Rightarrow> issue \<Rightarrow> run_view \<Rightarrow> carryover option \<Rightarrow> unit job" where
  "run_body env cfg i vw completion =
     (let n = is_number i in
      finallyJ
        (catchJ
           (run_to_pr env cfg n vw completion)
           (run_failed env cfg n vw completion))
        (tidy_job vw))"

definition execute_run :: "env \<Rightarrow> driver_config \<Rightarrow> issue \<Rightarrow> run_view \<Rightarrow> carryover option \<Rightarrow> run_report run" where
  "execute_run env cfg i vw completion =
     bindE (job_create (vw_run_id vw)) (\<lambda>_.
     bindE (write_issue_metadata (vw_run_id vw) i 1) (\<lambda>_.
     bindE (run_body env cfg i vw completion
              \<lparr>rs_report = new_report (vw_run_id vw) (is_number i), rs_context = new_context\<rparr>) (\<lambda>(r, st).
       case r of Inl e \<Rightarrow> raise e | Inr _ \<Rightarrow> ret (rs_report st))))"

subsection \<open>The claim\<close>

definition evidence_note :: "repo \<Rightarrow> int \<Rightarrow> run_report \<Rightarrow> string" where
  "evidence_note repo n r =
     (if rt_evidence_pushed r then '' ([evidence]('' @ run_evidence_url repo n (rt_run_id r) @ ''))''
      else if rt_evidence_discarded r
      then '' '' @ em_dash @ '' evidence bundle '' @ ticked (run_dir n (rt_run_id r)) @ '' was lost (push failed after bounded retries''
             @ '' and the job directory could not be parked for boot-sweep recovery; loss accepted over a false in-flight signal)''
      else '' '' @ em_dash @ '' evidence bundle '' @ ticked (run_dir n (rt_run_id r)) @ '' is not yet published (push failed after''
             @ '' bounded retries; the job directory is retained for boot-sweep recovery)'')"

definition render_claim_escalation :: "repo \<Rightarrow> int \<Rightarrow> run_report list \<Rightarrow> string" where
  "render_claim_escalation repo n reports =
     join [newline]
       ([''All '' @ show_nat (length reports) @ '' Runs for this claim failed; the retry budget is spent (ADR-0016).'', []]
        @ map (\<lambda>r. ''- Run '' @ ticked (rt_run_id r) @ '' '' @ em_dash @ '' **'' @ rt_failure_class r @ ''**: '' @ rt_reason r
                 @ evidence_note repo n r) reports
        @ [[], ''The claim is released and escalated: '' @ ticked FAILED @ '' + '' @ ticked NEEDS_HUMAN
               @ ''. A human re-queues by removing '' @ ticked FAILED @ '' and restoring '' @ ticked PLAN_READY @ ''.''])"

definition escalate_claim :: "env \<Rightarrow> repo \<Rightarrow> int \<Rightarrow> run_report list \<Rightarrow> unit run" where
  "escalate_claim env repo n reports =
     bindE (add_labels env repo n [FAILED, NEEDS_HUMAN]) (\<lambda>_.
     bindE (add_comment env repo n (render_claim_escalation repo n reports)) (\<lambda>_.
     bindE (viewer_login env repo) (\<lambda>me.
     bindE (get_issue env repo n) (\<lambda>i.
     bindE (if me \<in> set (is_assignees i) then remove_assignee env repo n me else ret ()) (\<lambda>_.
     bindE (remove_label env repo n IN_PROGRESS) (\<lambda>_.
     bindE (emit env ''escalated'' n (rt_run_id (last reports)) (rt_failure_class (last reports))) (\<lambda>_. ret ())))))))"

text \<open>The claimed event until it lands; the grant is abandoned when it does not.\<close>

fun activated :: "env \<Rightarrow> int \<Rightarrow> string \<Rightarrow> nat \<Rightarrow> bool run" where
  "activated env n rid 0 = ret False"
| "activated env n rid (Suc k) =
     bindE (emit env ''claimed'' n rid []) (\<lambda>landed. if landed then ret True else activated env n rid k)"

definition announce :: "env \<Rightarrow> int \<Rightarrow> string \<Rightarrow> run_report list \<Rightarrow> bool run" where
  "announce env n rid reports =
     (if reports = [] then activated env n rid ACTIVATION_ATTEMPTS
      else bindE (emit env ''claimed'' n rid []) (\<lambda>_. ret True))"

text \<open>
  The loop over the Runs of a claim; \<open>views\<close> is what the k-th of them meets. The result says whether the budget is
  spent: the claim escalates.
\<close>

function claim_runs ::
  "env \<Rightarrow> driver_config \<Rightarrow> issue \<Rightarrow> (nat \<Rightarrow> run_view) \<Rightarrow> run_report list \<Rightarrow> nat \<Rightarrow> bool \<Rightarrow> carryover option
    \<Rightarrow> (run_report list \<times> bool) run" where
  "claim_runs env cfg i views reports full_runs used completion =
     (let vw = views (length reports);
          full = (if completion = None then full_runs + 1 else full_runs) in
      bindE (announce env (is_number i) (vw_run_id vw) reports) (\<lambda>go.
        if \<not> go then ret (reports, False)
        else
          bindE (execute_run env cfg i vw completion) (\<lambda>r.
            let done_runs = reports @ [r] in
            if rt_phase r \<noteq> ''failed'' then ret (done_runs, False)
            else if completion \<noteq> None then ret (done_runs, True)
            else if rt_failure_class r = ''completion'' \<and> \<not> used \<and> rt_carryover r \<noteq> None
            then claim_runs env cfg i views done_runs full True (rt_carryover r)
            else if CLAIM_RUN_BUDGET \<le> full then ret (done_runs, True)
            else claim_runs env cfg i views done_runs full used None)))"
  by pat_completeness auto
termination
  by (relation "measure (\<lambda>(env, cfg, i, views, reports, full_runs, used, completion).
      2 * (CLAIM_RUN_BUDGET - full_runs) + (if used then 0 else 1))") (auto simp: CLAIM_RUN_BUDGET_def)

declare claim_runs.simps [simp del]

definition execute_claim :: "env \<Rightarrow> driver_config \<Rightarrow> issue \<Rightarrow> (nat \<Rightarrow> run_view) \<Rightarrow> run_report list run" where
  "execute_claim env cfg i views =
     bindE (claim_runs env cfg i views [] 0 False None) (\<lambda>(reports, spent).
       if spent then bindE (escalate_claim env (dv_repo cfg) (is_number i) reports) (\<lambda>_. ret reports) else ret reports)"

end
