(* ===== verification/Reviewer.thy ===== *)
theory Reviewer
  imports Enacted
begin

text \<open>
  The reviewer driver (\<open>worker/.../reviewer.py\<close>): one review round from the checkout to the applied verdict. What
  git prints, the working tree the clone leaves, the files it cannot remove and the session are arguments; the log
  and the telemetry events are left out.
\<close>

subsection \<open>Applying a verdict\<close>

definition strip_claim_and_requeue :: "env \<Rightarrow> repo \<Rightarrow> int \<Rightarrow> unit run" where
  "strip_claim_and_requeue env repo issue_number =
     bindE (get_issue env repo issue_number) (\<lambda>i.
     bindE (each (is_assignees i) (remove_assignee env repo issue_number)) (\<lambda>_.
     bindE (remove_label env repo issue_number IN_PROGRESS) (\<lambda>_.
       add_labels env repo issue_number [PLAN_READY])))"

definition grade_labels :: "verdict \<Rightarrow> string list" where
  "grade_labels v = [NEEDS_HUMAN, DEVIATION_PREFIX @ py_str (vd_deviation v), RISK_PREFIX @ py_str (vd_risk v)]"

definition publish :: "env \<Rightarrow> repo \<Rightarrow> int \<Rightarrow> int \<Rightarrow> verdict \<Rightarrow> unit run" where
  "publish env repo pr issue_number v =
     bindE (add_comment env repo pr (render_comment v)) (\<lambda>_.
       if vd_verdict v = APPROVE then add_labels env repo pr (grade_labels v)
       else if vd_verdict v = REVISE
       then bindE (add_labels env repo pr [attempt_label (nat (vd_round v))]) (\<lambda>_.
            bindE (remove_label env repo pr PR_READY) (\<lambda>_. strip_claim_and_requeue env repo issue_number))
       else bindE (remove_label env repo pr PR_READY) (\<lambda>_. add_labels env repo pr [BLOCKED, NEEDS_HUMAN]))"

subsection \<open>The checkout and the inputs\<close>

definition checkout_pr :: "env \<Rightarrow> driver_config \<Rightarrow> pull_request \<Rightarrow> string \<Rightarrow> string run" where
  "checkout_pr env cfg pr wd =
     bindE (clone_with_mirror env (dv_mirror cfg) wd (pr_head_ref pr)) (\<lambda>_.
     bindE (sanitize_checkout env wd (dv_clone_url cfg)) (\<lambda>_.
     bindE (reset_hard env wd (pr_head_sha pr)) (\<lambda>_.
     bindE (git_fetch env wd (pr_base_ref pr)) (\<lambda>_.
       git_checked env False [''merge-base'', ''origin/'' @ pr_base_ref pr, ''HEAD''] wd))))"

definition isolate :: "(string list \<Rightarrow> string option) \<Rightarrow> tree \<Rightarrow> unit run" where
  "isolate stuck t = (case neutralize_agent_config stuck t of Inl e \<Rightarrow> raise (Isolation_Error e) | Inr _ \<Rightarrow> ret ())"

definition render_base_md :: "pull_request \<Rightarrow> string \<Rightarrow> based_on option \<Rightarrow> string" where
  "render_base_md pr base_commit b =
     join [newline]
       ([''# PR base'', [], ''- base-ref: '' @ pr_base_ref pr, ''- base-commit: '' @ base_commit]
        @ (case b of
             None \<Rightarrow> []
           | Some b \<Rightarrow> [''- based-on-issue: '' @ show_int (bo_issue b), ''- based-on-sha: '' @ bo_sha b])) @ [newline]"

text \<open>A zone whose blocker is not the base any more is stale and names no base.\<close>

definition live_zone :: "pull_request \<Rightarrow> based_on option" where
  "live_zone pr =
     (case parse_zone (pr_body pr) of
        None \<Rightarrow> None
      | Some b \<Rightarrow> if pr_base_ref pr \<noteq> branch_for (bo_issue b) then None else Some b)"

definition read_signals :: "string \<Rightarrow> string \<Rightarrow> diff_signals run" where
  "read_signals numstat name_status =
     (case signals_from_git (splitlines numstat) (splitlines name_status) of
        None \<Rightarrow> raise (Other_Error ''ValueError'') | Some sg \<Rightarrow> ret sg)"

definition write_facts :: "string \<Rightarrow> pull_request \<Rightarrow> string \<Rightarrow> based_on option \<Rightarrow> string \<Rightarrow> diff_signals \<Rightarrow> unit run" where
  "write_facts rid pr base_commit b name_status sg =
     bindE (job_changing rid (atomic_write ''input/pr/base.md'' (render_base_md pr base_commit b))) (\<lambda>_.
     bindE (job_changing rid (atomic_write ''input/pr/changed-files.md''
         (if name_status = [] then ''(none)'' @ [newline] else name_status @ [newline]))) (\<lambda>_.
       job_changing rid (atomic_write ''input/pr/signals.md'' (render_signals sg @ [newline]))))"

definition materialize_inputs ::
  "env \<Rightarrow> driver_config \<Rightarrow> pull_request \<Rightarrow> int \<Rightarrow> string \<Rightarrow> string \<Rightarrow> (issue \<times> based_on option \<times> bool) run" where
  "materialize_inputs env cfg pr issue_number rid base_commit =
     (let wd = checkout_path cfg rid; repo = dv_repo cfg; b = live_zone pr in
      bindE (git_checked env False [''diff'', ''--name-status'', base_commit, ''HEAD''] wd) (\<lambda>name_status.
      bindE (git_checked env False [''diff'', ''--numstat'', base_commit, ''HEAD''] wd) (\<lambda>numstat.
      bindE (read_signals numstat name_status) (\<lambda>sg.
      bindE (fetch_snapshot env repo issue_number (Some pr)) (\<lambda>s.
      bindE (git_pr_commits env wd (''origin/'' @ pr_base_ref pr) ''HEAD'') (\<lambda>commits.
      bindE (walk_closure (list_blocked_by env repo) repo (en_depth env) issue_number) (\<lambda>closure.
      bindE (job_apply rid (write_tree ''input'' (s\<lparr>cs_pr_commits := commits\<rparr>))) (\<lambda>_.
      bindE (write_closure env repo rid wd closure issue_number) (\<lambda>_.
      bindE (write_facts rid pr base_commit b name_status sg) (\<lambda>_.
        ret (cs_issue s, b, 1 < length (dc_order closure))))))))))))"

text \<open>An input failure is logged and skips the round: \<open>None\<close>.\<close>

definition input_failure :: "exn \<Rightarrow> bool" where
  "input_failure e = (case e of
       Git_Error _ \<Rightarrow> True | GitHub_Error _ _ \<Rightarrow> True | Isolation_Error _ \<Rightarrow> True | Cycle_Error _ \<Rightarrow> True
     | Cross_Repo_Error _ _ \<Rightarrow> True | _ \<Rightarrow> False)"

definition gather_inputs ::
  "env \<Rightarrow> driver_config \<Rightarrow> pull_request \<Rightarrow> int \<Rightarrow> string \<Rightarrow> tree \<Rightarrow> (string list \<Rightarrow> string option)
    \<Rightarrow> (issue \<times> based_on option \<times> bool) option run" where
  "gather_inputs env cfg pr issue_number rid t stuck =
     catchE
       (bindE (checkout_pr env cfg pr (checkout_path cfg rid)) (\<lambda>base_commit.
        bindE (isolate stuck t) (\<lambda>_.
        bindE (materialize_inputs env cfg pr issue_number rid base_commit) (\<lambda>x. ret (Some x)))))
       (\<lambda>e. if input_failure e then ret None else raise e)"

subsection \<open>Evidence\<close>

definition review_prefix :: "int \<Rightarrow> int \<Rightarrow> pull_request \<Rightarrow> string" where
  "review_prefix issue_number round_number pr =
     ''runs/issue-'' @ show_int issue_number @ ''/reviews/round-'' @ show_int round_number @ ''-'' @ take_points 12 (pr_head_sha pr)"

definition container_name :: "pull_request \<Rightarrow> int \<Rightarrow> string" where
  "container_name pr round_number = ''ozolith-review-'' @ show_int (pr_number pr) @ ''-round-'' @ show_int round_number"

definition base_record :: "driver_config \<Rightarrow> pull_request \<Rightarrow> int \<Rightarrow> int \<Rightarrow> stream_stats \<Rightarrow> json \<Rightarrow> string \<Rightarrow> dict" where
  "base_record cfg pr issue_number round_number st identity container =
     [(''pr'', JInt (pr_number pr)), (''issue'', JInt issue_number), (''round'', JInt round_number),
      (''head'', JStr (pr_head_sha pr)), (''run_image'', JStr (dv_run_image cfg)), (''model'', JStr (ss_model st)),
      (''model_note'', JStr (ss_model_note st)), (''identity'', identity), (''container'', JStr container)]"

definition failure_record :: "string \<Rightarrow> string option \<Rightarrow> dict \<Rightarrow> dict" where
  "failure_record error failure_class base =
     [(''verdict'', JNull), (''error'', JStr error)]
     @ (case failure_class of None \<Rightarrow> [] | Some c \<Rightarrow> [(''failure_class'', JStr c)]) @ base"

definition transcript_file :: "string \<Rightarrow> string \<Rightarrow> (string \<times> string) list" where
  "transcript_file prefix transcript = (if transcript = [] then [] else [(prefix @ ''-transcript.txt'', transcript)])"

definition escalation :: "int \<Rightarrow> string \<Rightarrow> string \<Rightarrow> verdict" where
  "escalation round_number evidence bundle_url =
     \<lparr>vd_verdict = ESCALATE, vd_round = round_number, vd_evidence = evidence, vd_deviation = JNull, vd_risk = JNull,
      vd_revised_plan = [], vd_resume_commit = [], vd_cherry_pick = [], vd_bundle_url = bundle_url,
      vd_process_issues = []\<rparr>"

definition evidence_message :: "string \<Rightarrow> int \<Rightarrow> int \<Rightarrow> string" where
  "evidence_message what round_number issue_number =
     ''Evidence: '' @ what @ '' round '' @ show_int round_number @ '' (issue #'' @ show_int issue_number @ '')''"

definition escalate_invalid_verdict ::
  "env \<Rightarrow> driver_config \<Rightarrow> pull_request \<Rightarrow> int \<Rightarrow> int \<Rightarrow> string \<Rightarrow> string \<Rightarrow> string \<Rightarrow> verdict run" where
  "escalate_invalid_verdict env cfg pr issue_number round_number rid reason transcript =
     (let prefix = review_prefix issue_number round_number pr @ ''-invalid'';
          proposal_path = prefix @ ''-proposal.json'' in
      bindE (job_stats cfg rid) (\<lambda>st.
      bindE (job_identity rid) (\<lambda>identity.
      bindE (raw_text rid) (\<lambda>raw.
      bindE (push_evidence_files (evidence_message ''invalid verdict, review'' round_number issue_number)
         ([(prefix @ ''.json'', record_text (failure_record reason None
             (base_record cfg pr issue_number round_number st identity (container_name pr round_number))))]
          @ optional_file proposal_path raw @ transcript_file prefix transcript)) (\<lambda>_.
      let v = escalation round_number
        (''The review session produced an invalid verdict; escalating to a human (one strike, no retry '' @ em_dash
         @ '' ADR-0014). Validation error: '' @ reason @ ''. ''
         @ (if raw \<noteq> None
            then ''The offending output proposal is preserved in the evidence bundle at '' @ ticked proposal_path @ ''.''
            else ''The session wrote no output proposal.''))
        (issue_evidence_url (dv_repo cfg) issue_number)
      in bindE (publish env (dv_repo cfg) (pr_number pr) issue_number v) (\<lambda>_. ret v))))))"

definition escalate_identity_failure ::
  "env \<Rightarrow> driver_config \<Rightarrow> pull_request \<Rightarrow> int \<Rightarrow> int \<Rightarrow> string \<Rightarrow> string \<Rightarrow> string \<Rightarrow> verdict run" where
  "escalate_identity_failure env cfg pr issue_number round_number rid reason transcript =
     (let prefix = review_prefix issue_number round_number pr @ ''-identity'' in
      bindE (job_stats cfg rid) (\<lambda>st.
      bindE (job_identity rid) (\<lambda>identity.
      bindE (push_evidence_files (evidence_message ''identity failure, review'' round_number issue_number)
         ([(prefix @ ''.json'', record_text (failure_record reason (Some ''identity'')
             (base_record cfg pr issue_number round_number st identity (container_name pr round_number))))]
          @ transcript_file prefix transcript)) (\<lambda>_.
      let v = escalation round_number
        (''The review session failed its baked-identity gate before any verdict existed; escalating to a human (one strike, no retry ''
         @ em_dash @ '' ADR-0045). Identity failure: '' @ reason)
        (issue_evidence_url (dv_repo cfg) issue_number)
      in bindE (publish env (dv_repo cfg) (pr_number pr) issue_number v) (\<lambda>_. ret v)))))"

definition record_schema_skew ::
  "driver_config \<Rightarrow> pull_request \<Rightarrow> int \<Rightarrow> int \<Rightarrow> string \<Rightarrow> string \<Rightarrow> (string \<times> string) list \<Rightarrow> unit run" where
  "record_schema_skew cfg pr issue_number round_number rid error trusted_input =
     (let prefix = review_prefix issue_number round_number pr @ ''-infra'' in
      bindE (job_stats cfg rid) (\<lambda>st.
      bindE (job_identity rid) (\<lambda>identity.
      bindE (job_text rid MANIFEST_FILE) (\<lambda>manifest.
      bindE (job_text rid STATUS_FILE) (\<lambda>status.
      bindE (read_transcript rid) (\<lambda>transcript.
        push_evidence_files (evidence_message ''schema skew, review'' round_number issue_number)
         ([(prefix @ ''.json'', record_text (failure_record (removeprefix error ''harness failed: '') (Some ''infra'')
             (base_record cfg pr issue_number round_number st identity (container_name pr round_number))))]
          @ optional_file (prefix @ ''-manifest.json'') manifest
          @ optional_file (prefix @ ''-status.json'') status
          @ transcript_file prefix transcript
          @ map (\<lambda>(p, t). (prefix @ ''-'' @ p, t)) trusted_input)))))))"

definition review_record :: "driver_config \<Rightarrow> pull_request \<Rightarrow> int \<Rightarrow> verdict \<Rightarrow> stream_stats \<Rightarrow> json \<Rightarrow> string \<Rightarrow> dict" where
  "review_record cfg pr issue_number v st identity container =
     [(''verdict'', JStr (vd_verdict v)), (''deviation'', vd_deviation v), (''risk'', vd_risk v),
      (''resume_commit'', JStr (vd_resume_commit v)), (''evidence'', JStr (vd_evidence v))]
     @ base_record cfg pr issue_number (vd_round v) st identity container"

text \<open>The round's files; without a container there is no transcript, identity or proposal.\<close>

type_synonym session_record = "string \<times> string \<times> json \<times> string option"

definition push_review_evidence ::
  "driver_config \<Rightarrow> pull_request \<Rightarrow> int \<Rightarrow> verdict \<Rightarrow> stream_stats \<Rightarrow> session_record option \<Rightarrow> unit run" where
  "push_review_evidence cfg pr issue_number v st held =
     (let prefix = review_prefix issue_number (vd_round v) pr in
      push_evidence_files (evidence_message ''review'' (vd_round v) issue_number)
        (case held of
           None \<Rightarrow> [(prefix @ ''.json'', record_text (review_record cfg pr issue_number v st JNull []))]
         | Some (container, transcript, identity, raw) \<Rightarrow>
             [(prefix @ ''.json'', record_text (review_record cfg pr issue_number v st identity container))]
             @ transcript_file prefix transcript
             @ (case raw of None \<Rightarrow> [] | Some t \<Rightarrow> [(prefix @ ''-proposal.json'', t)])))"

definition apply_verdict ::
  "env \<Rightarrow> driver_config \<Rightarrow> pull_request \<Rightarrow> int \<Rightarrow> verdict \<Rightarrow> stream_stats \<Rightarrow> session_record option \<Rightarrow> unit run" where
  "apply_verdict env cfg pr issue_number v st held =
     bindE (publish env (dv_repo cfg) (pr_number pr) issue_number v) (\<lambda>_.
       push_review_evidence cfg pr issue_number v st held)"

subsection \<open>A round\<close>

definition review_manifest :: "driver_config \<Rightarrow> string \<Rightarrow> int \<Rightarrow> manifest" where
  "review_manifest cfg rid round_number =
     \<lparr>mf_run_id = rid, mf_mode = MODE_REVIEW, mf_adapter = dv_adapter cfg, mf_workdir = CHECKOUT_DIR,
      mf_agent_timeout = dv_agent_timeout cfg, mf_jobs_idle_timeout = JFloat 600 ''600.0'', mf_round = round_number,
      mf_round_budget = ROUND_BUDGET, mf_schema_version = SCHEMA_VERSION\<rparr>"

definition session_failed ::
  "env \<Rightarrow> driver_config \<Rightarrow> pull_request \<Rightarrow> int \<Rightarrow> int \<Rightarrow> string \<Rightarrow> (string \<times> string) list \<Rightarrow> exn \<Rightarrow> verdict option run" where
  "session_failed env cfg pr issue_number round_number rid trusted_input e =
     (case e of
        Session_Error m \<Rightarrow>
          (case identity_error_detail m of
             None \<Rightarrow>
               bindE (if schema_error_detail m \<noteq> None
                      then record_schema_skew cfg pr issue_number round_number rid m trusted_input else ret ())
                 (\<lambda>_. raise e)
           | Some detail \<Rightarrow>
               bindE (read_transcript rid) (\<lambda>transcript.
               bindE (escalate_identity_failure env cfg pr issue_number round_number rid detail transcript) (\<lambda>v. ret (Some v))))
      | _ \<Rightarrow> raise e)"

text \<open>The session: on every way out it is finished and the checkout's git directory rewritten.\<close>

definition review_session ::
  "env \<Rightarrow> driver_config \<Rightarrow> pull_request \<Rightarrow> int \<Rightarrow> int \<Rightarrow> string \<Rightarrow> (string \<times> string) list \<Rightarrow> session_view \<Rightarrow> verdict option run" where
  "review_session env cfg pr issue_number round_number rid trusted_input sv =
     finallyE
       (catchE (bindE (agent_phase cfg rid sv) (\<lambda>_. ret None))
          (session_failed env cfg pr issue_number round_number rid trusted_input))
       (finallyE (may_raise (sv_finish sv)) (sanitize_checkout env (checkout_path cfg rid) (dv_clone_url cfg)))"

definition judge ::
  "env \<Rightarrow> driver_config \<Rightarrow> pull_request \<Rightarrow> int \<Rightarrow> int \<Rightarrow> string \<Rightarrow> verdict run" where
  "judge env cfg pr issue_number round_number rid =
     bindE (raw_text rid) (\<lambda>pending.
     bindE (read_transcript rid) (\<lambda>transcript.
       case validate_review_job (dv_json_error cfg) pending round_number
           (ROUND_BUDGET \<le> round_number) (pr_head_sha pr) (issue_evidence_url (dv_repo cfg) issue_number) of
         Inl reason \<Rightarrow> escalate_invalid_verdict env cfg pr issue_number round_number rid reason transcript
       | Inr v \<Rightarrow>
           bindE (job_stats cfg rid) (\<lambda>st.
           bindE (job_identity rid) (\<lambda>identity.
           bindE (raw_text rid) (\<lambda>raw.
           bindE (apply_verdict env cfg pr issue_number v st
               (Some (container_name pr round_number, transcript, identity, raw))) (\<lambda>_. ret v))))))"

definition launch_review ::
  "env \<Rightarrow> driver_config \<Rightarrow> pull_request \<Rightarrow> int \<Rightarrow> int \<Rightarrow> string \<Rightarrow> issue \<times> based_on option \<times> bool \<Rightarrow> session_view \<Rightarrow> verdict run" where
  "launch_review env cfg pr issue_number round_number rid = (\<lambda>(i, b, has_deps) sv.
     bindE (job_changing rid (atomic_write PROMPT_FILE
         (render_review_prompt i (pr_head_sha pr) round_number ROUND_BUDGET b has_deps))) (\<lambda>_.
     bindE (job_changing rid (write_manifest (review_manifest cfg rid round_number))) (\<lambda>_.
     bindE (snapshot_input rid) (\<lambda>trusted_input.
     bindE (may_raise (sv_launch sv)) (\<lambda>_.
     bindE (review_session env cfg pr issue_number round_number rid trusted_input sv) (\<lambda>over.
       case over of Some v \<Rightarrow> ret v | None \<Rightarrow> judge env cfg pr issue_number round_number rid))))))"

text \<open>\<open>gone\<close>: the removal of the job directory left nothing behind.\<close>

definition review_round ::
  "env \<Rightarrow> driver_config \<Rightarrow> pull_request \<Rightarrow> int \<Rightarrow> int \<Rightarrow> tree \<Rightarrow> (string list \<Rightarrow> string option) \<Rightarrow> session_view \<Rightarrow> bool
    \<Rightarrow> verdict option run" where
  "review_round env cfg pr issue_number round_number t stuck sv gone =
     (let rid = ''review-'' @ show_int (pr_number pr) @ ''-round-'' @ show_int round_number in
      bindE (job_create rid) (\<lambda>_.
        finallyE
          (bindE (gather_inputs env cfg pr issue_number rid t stuck) (\<lambda>inputs.
             case inputs of
               None \<Rightarrow> ret None
             | Some x \<Rightarrow> bindE (launch_review env cfg pr issue_number round_number rid x sv) (\<lambda>v. ret (Some v))))
          (clear_job rid gone)))"

definition exhausted :: "driver_config \<Rightarrow> int \<Rightarrow> verdict" where
  "exhausted cfg issue_number = escalation ROUND_BUDGET
     (''Round budget exhausted: '' @ show_int ROUND_BUDGET
      @ '' review rounds spent on this issue. A human decision is required to continue.'')
     (issue_evidence_url (dv_repo cfg) issue_number)"

definition review_pr ::
  "env \<Rightarrow> driver_config \<Rightarrow> pull_request \<Rightarrow> tree \<Rightarrow> (string list \<Rightarrow> string option) \<Rightarrow> session_view \<Rightarrow> bool \<Rightarrow> verdict option run" where
  "review_pr env cfg pr t stuck sv gone =
     (case issue_for_branch (pr_head_ref pr) of
        None \<Rightarrow> ret None
      | Some issue_number \<Rightarrow>
          let spent = int (attempts_on (pr_labels pr)) in
          if ROUND_BUDGET \<le> spent
          then (let v = exhausted cfg issue_number in
                bindE (apply_verdict env cfg pr issue_number v no_stats None) (\<lambda>_. ret (Some v)))
          else review_round env cfg pr issue_number (spent + 1) t stuck sv gone)"

text \<open>\<open>Reviewer.execute\<close>: what discovery said is checked again on GitHub.\<close>

definition review_item_number ::
  "env \<Rightarrow> driver_config \<Rightarrow> int \<Rightarrow> tree \<Rightarrow> (string list \<Rightarrow> string option) \<Rightarrow> session_view \<Rightarrow> bool \<Rightarrow> int run" where
  "review_item_number env cfg number t stuck sv gone =
     bindE (get_pull env (dv_repo cfg) number) (\<lambda>pr.
       if \<not> reviewable (pr_labels pr) then ret 0
       else bindE (review_pr env cfg pr t stuck sv gone) (\<lambda>v. ret (if v = None then 0 else 1)))"

end
