(* ===== verification/Reviewer_Safety.thy ===== *)
theory Reviewer_Safety
  imports Reviewer
begin

text \<open>
  What a review round does to GitHub: one verdict, explained before any label moves, or nothing.
\<close>

subsection \<open>The writes of a verdict\<close>

definition requeue_plan :: "repo \<Rightarrow> int \<Rightarrow> string list \<Rightarrow> request list" where
  "requeue_plan repo n logins =
     map (unassign_request repo n) logins @ [unlabel_request repo n IN_PROGRESS, label_request repo n [PLAN_READY]]"

definition verdict_plan :: "repo \<Rightarrow> int \<Rightarrow> int \<Rightarrow> verdict \<Rightarrow> string list \<Rightarrow> request list" where
  "verdict_plan repo pr n v logins =
     comment_request repo pr (render_comment v) #
     (if vd_verdict v = APPROVE then [label_request repo pr (grade_labels v)]
      else if vd_verdict v = REVISE
      then [label_request repo pr [attempt_label (nat (vd_round v))], unlabel_request repo pr PR_READY]
           @ requeue_plan repo n logins
      else [unlabel_request repo pr PR_READY, label_request repo pr [BLOCKED, NEEDS_HUMAN]])"

lemma writes_loud [simp]:
  "\<not> harmless (assign_request repo n ls)" "\<not> harmless (unassign_request repo n l)" "\<not> harmless (label_request repo n ls)"
  "\<not> harmless (unlabel_request repo n l)" "\<not> harmless (comment_request repo n b)"
  by (simp_all add: harmless_def write_requests issue_path_def repo_path_def)

lemmas enacts_write = enacts_follows [OF follows_writes(1)] enacts_follows [OF follows_writes(2)]
  enacts_follows [OF follows_writes(3)] enacts_follows [OF follows_writes(4)] enacts_follows [OF follows_writes(5)]

lemma requeue_enacts:
  "enacts (\<lambda>x p. \<exists>logins. p = requeue_plan repo n logins) (strip_claim_and_requeue env repo n)"
proof -
  have "follows (map (unassign_request repo n) ls @ [unlabel_request repo n IN_PROGRESS] @ [label_request repo n [PLAN_READY]])
      (bindE (each ls (remove_assignee env repo n)) (\<lambda>_.
       bindE (remove_label env repo n IN_PROGRESS) (\<lambda>_. add_labels env repo n [PLAN_READY])))" for ls
    by (intro follows_bind follows_each follows_writes)
  then have "enacts (\<lambda>x p. p = requeue_plan repo n ls)
      (bindE (each ls (remove_assignee env repo n)) (\<lambda>_.
       bindE (remove_label env repo n IN_PROGRESS) (\<lambda>_. add_labels env repo n [PLAN_READY])))" for ls
    unfolding requeue_plan_def by (intro enacts_follows) (auto simp: list_all_iff)
  then have "enacts (\<lambda>x p. \<exists>logins. p = requeue_plan repo n logins)
      (bindE (each ls (remove_assignee env repo n)) (\<lambda>_.
       bindE (remove_label env repo n IN_PROGRESS) (\<lambda>_. add_labels env repo n [PLAN_READY])))" for ls
    by (rule enacts_weaken) blast
  then show ?thesis
    unfolding strip_claim_and_requeue_def by (rule enacts_quiet_bind [rotated]) (blast intro: hush_gets)+
qed

lemma publish_enacts:
  "enacts (\<lambda>x p. \<exists>logins. p = verdict_plan repo pr n v logins) (publish env repo pr n v)"
proof -
  consider "vd_verdict v = APPROVE" | "vd_verdict v \<noteq> APPROVE" "vd_verdict v = REVISE"
    | "vd_verdict v \<noteq> APPROVE" "vd_verdict v \<noteq> REVISE" by blast
  then show ?thesis
  proof cases
    case 1
    have "follows ([comment_request repo pr (render_comment v)] @ [label_request repo pr (grade_labels v)])
        (publish env repo pr n v)"
      unfolding publish_def using 1 by (intro follows_bind) (auto intro!: follows_writes)
    then show ?thesis using 1 by (auto simp: verdict_plan_def intro!: enacts_weaken [OF enacts_follows])
  next
    case 2
    have run: "publish env repo pr n v =
        bindE (bindE (add_comment env repo pr (render_comment v)) (\<lambda>_.
          bindE (add_labels env repo pr [attempt_label (nat (vd_round v))]) (\<lambda>_. remove_label env repo pr PR_READY)))
        (\<lambda>_. strip_claim_and_requeue env repo n)"
      unfolding publish_def using 2 by (simp add: bindE_assoc)
    have "follows ([comment_request repo pr (render_comment v)] @ [label_request repo pr [attempt_label (nat (vd_round v))]]
        @ [unlabel_request repo pr PR_READY])
        (bindE (add_comment env repo pr (render_comment v)) (\<lambda>_.
          bindE (add_labels env repo pr [attempt_label (nat (vd_round v))]) (\<lambda>_. remove_label env repo pr PR_READY)))"
      by (intro follows_bind follows_writes)
    then show ?thesis
      unfolding run using 2 by (intro enacts_bind [OF enacts_follows requeue_enacts]) (auto simp: verdict_plan_def)
  next
    case 3
    have "follows ([comment_request repo pr (render_comment v)] @ [unlabel_request repo pr PR_READY]
        @ [label_request repo pr [BLOCKED, NEEDS_HUMAN]]) (publish env repo pr n v)"
      unfolding publish_def using 3 by (simp only: if_False) (intro follows_bind follows_writes)
    then show ?thesis using 3 by (auto simp: verdict_plan_def intro!: enacts_weaken [OF enacts_follows])
  qed
qed

subsection \<open>A round\<close>

text \<open>
  The verdicts a round may apply: once the budget is spent only an escalation, an approval with both grades, and a
  revision with a plan while a round is left.
\<close>

definition permitted :: "pull_request \<Rightarrow> verdict \<Rightarrow> bool" where
  "permitted pr v \<longleftrightarrow>
     vd_verdict v \<in> {APPROVE, REVISE, ESCALATE}
     \<and> (ROUND_BUDGET \<le> int (attempts_on (pr_labels pr)) \<longrightarrow> vd_verdict v = ESCALATE)
     \<and> (vd_verdict v = APPROVE \<longrightarrow> vd_deviation v \<in> JStr ` set GRADES \<and> vd_risk v \<in> JStr ` set GRADES)
     \<and> (vd_verdict v = REVISE \<longrightarrow> vd_round v = int (attempts_on (pr_labels pr)) + 1 \<and> vd_round v < ROUND_BUDGET
          \<and> \<not> blank (vd_revised_plan v))"

definition round_plan :: "repo \<Rightarrow> pull_request \<Rightarrow> int \<Rightarrow> verdict \<Rightarrow> request list \<Rightarrow> bool" where
  "round_plan repo pr n v p \<longleftrightarrow> permitted pr v \<and> (\<exists>logins. p = verdict_plan repo (pr_number pr) n v logins)"

definition round_plans :: "repo \<Rightarrow> pull_request \<Rightarrow> int \<Rightarrow> verdict option \<Rightarrow> request list \<Rightarrow> bool" where
  "round_plans repo pr n x p = (case x of None \<Rightarrow> p = [] | Some v \<Rightarrow> round_plan repo pr n v p)"

lemma kinds_differ [simp]: "ESCALATE \<noteq> APPROVE" "ESCALATE \<noteq> REVISE" "APPROVE \<noteq> REVISE"
  by (simp_all add: APPROVE_def REVISE_def ESCALATE_def)

lemma escalation_permitted [simp]: "permitted pr (escalation k evidence url)"
  by (simp add: permitted_def escalation_def)

lemma publish_plan: "permitted pr v \<Longrightarrow> enacts (\<lambda>_. round_plan repo pr n v) (publish env repo (pr_number pr) n v)"
  by (rule enacts_weaken [OF publish_enacts]) (auto simp: round_plan_def)

lemma hush_outputs [intro!]: "hush.kept_by (read_transcript rid)" "hush.kept_by (raw_text rid)"
  unfolding read_transcript_def raw_text_def by (auto intro!: hush.kept_bind)

lemma hush_inputs [intro!]:
  "hush.kept_by (checkout_pr env cfg pr wd)" "hush.kept_by (isolate stuck t)" "hush.kept_by (read_signals a b)"
  "hush.kept_by (write_facts rid pr base z names sg)" "hush.kept_by (write_closure env repo rid wd c n)"
  "hush.kept_by (job_create rid)" "hush.kept_by (clear_job rid gone)"
  "hush.kept_by (record_schema_skew cfg pr n k rid e files)" "hush.kept_by (push_review_evidence cfg pr n v st held)"
  unfolding checkout_pr_def isolate_def read_signals_def write_facts_def write_closure_def job_create_def clear_job_def
    record_schema_skew_def push_review_evidence_def Let_def
  by (auto intro!: hush.kept_bind split: sum.split option.split)

lemma hush_gather [intro!]: "hush.kept_by (gather_inputs env cfg pr n rid t stuck)"
  unfolding gather_inputs_def materialize_inputs_def Let_def by (auto intro!: hush.kept_bind hush.kept_catch)

lemma escalations_enact:
  "enacts (round_plan (dv_repo cfg) pr n) (escalate_invalid_verdict env cfg pr n k rid reason transcript)"
  "enacts (round_plan (dv_repo cfg) pr n) (escalate_identity_failure env cfg pr n k rid reason transcript)"
proof -
  have quiet: "\<exists>v p. round_plan (dv_repo cfg) pr n v p"
    by (auto simp: round_plan_def intro: escalation_permitted)
  then obtain v0 p0 where some_plan: "round_plan (dv_repo cfg) pr n v0 p0" by blast
  have last: "enacts (round_plan (dv_repo cfg) pr n)
      (bindE (publish env (dv_repo cfg) (pr_number pr) n (escalation k e url))
         (\<lambda>_. ret (escalation k e url)))" for e url
    by (rule enacts_bind_ret [OF publish_plan]) simp_all
  show "enacts (round_plan (dv_repo cfg) pr n) (escalate_invalid_verdict env cfg pr n k rid reason transcript)"
    unfolding escalate_invalid_verdict_def Let_def
    by (intro enacts_quiet_bind [where Q = "round_plan (dv_repo cfg) pr n" and ?x0.0 = v0 and ?p0.0 = p0] some_plan last) blast+
  show "enacts (round_plan (dv_repo cfg) pr n) (escalate_identity_failure env cfg pr n k rid reason transcript)"
    unfolding escalate_identity_failure_def Let_def
    by (intro enacts_quiet_bind [where Q = "round_plan (dv_repo cfg) pr n" and ?x0.0 = v0 and ?p0.0 = p0] some_plan last) blast+
qed

lemma session_enacts:
  "enacts (round_plans (dv_repo cfg) pr n) (review_session env cfg pr n k rid files sv)"
proof -
  have none: "round_plans (dv_repo cfg) pr n None []" by (simp add: round_plans_def)
  have raised: "enacts (round_plans (dv_repo cfg) pr n) (raise e)" for e
    by (rule enacts_raise [where x = None and p = "[]"]) (rule none)
  have "enacts (round_plans (dv_repo cfg) pr n) (session_failed env cfg pr n k rid files e)" for e
  proof -
    have "enacts (round_plans (dv_repo cfg) pr n)
        (bindE (escalate_identity_failure env cfg pr n k rid detail transcript) (\<lambda>v. ret (Some v)))" for detail transcript
      by (rule enacts_bind_ret [OF escalations_enact(2)]) (simp add: round_plans_def)
    note quiet = enacts_quiet_bind [where Q = "round_plans (dv_repo cfg) pr n" and ?x0.0 = None and ?p0.0 = "[]", OF _ _ none]
    have identity: "enacts (round_plans (dv_repo cfg) pr n) (bindE (read_transcript rid) (\<lambda>transcript.
        bindE (escalate_identity_failure env cfg pr n k rid detail transcript) (\<lambda>v. ret (Some v))))" for detail
      by (rule quiet [OF hush_outputs(1)]) fact
    have "enacts (round_plans (dv_repo cfg) pr n) (bindE (record_schema_skew cfg pr n k rid m files) (\<lambda>_. raise e))" for m
      by (rule quiet) (auto intro!: raised)
    then show ?thesis
      unfolding session_failed_def by (auto simp: raised identity split: exn.split option.split)
  qed
  moreover have "round_plans (dv_repo cfg) pr n x []"
    if "bindE (agent_phase cfg rid sv) (\<lambda>_. ret None) w = (Inr x, w')" for x w w'
    using that none by (auto simp: bindE_def split: prod.splits sum.splits)
  ultimately show ?thesis
    unfolding review_session_def
    by (intro enacts_finally enacts_catch_quiet hush.kept_finally hush.kept_bind) auto
qed

lemma judge_enacts:
  assumes "k = int (attempts_on (pr_labels pr)) + 1" "k \<le> ROUND_BUDGET"
  shows "enacts (round_plan (dv_repo cfg) pr n) (judge env cfg pr n k rid)"
proof -
  have some_plan: "round_plan (dv_repo cfg) pr n (escalation k [] []) (verdict_plan (dv_repo cfg) (pr_number pr) n (escalation k [] []) [])"
    by (auto simp: round_plan_def)
  have ok: "permitted pr v"
    if "validate_review_job je raw k (ROUND_BUDGET \<le> k) resume url = Inr v" for je raw resume url v
  proof -
    obtain d where "validate_review d k (ROUND_BUDGET \<le> k) resume url = Inr v"
      using \<open>validate_review_job je raw k (ROUND_BUDGET \<le> k) resume url = Inr v\<close>
      by (auto simp: validate_review_job_def split: sum.splits)
    from accepted_verdict [OF this] show ?thesis using assms by (auto simp: permitted_def)
  qed
  have apply_it: "enacts (round_plan (dv_repo cfg) pr n)
      (bindE (apply_verdict env cfg pr n v st held) (\<lambda>_. ret v))" if "permitted pr v" for v st held
    unfolding apply_verdict_def
    by (rule enacts_bind_ret [OF enacts_bind_quiet [OF publish_plan [OF that], where S = "\<lambda>_. round_plan (dv_repo cfg) pr n v"]])
      blast+
  show ?thesis
    unfolding judge_def
    by (auto intro!: escalations_enact apply_it ok
        enacts_quiet_bind [where Q = "round_plan (dv_repo cfg) pr n" and ?x0.0 = "escalation k [] []" and
          ?p0.0 = "verdict_plan (dv_repo cfg) (pr_number pr) n (escalation k [] []) []"] simp: some_plan split: sum.split)
qed

lemma launch_enacts:
  assumes "k = int (attempts_on (pr_labels pr)) + 1" "k \<le> ROUND_BUDGET"
  shows "enacts (round_plan (dv_repo cfg) pr n) (launch_review env cfg pr n k rid x sv)"
proof -
  define v0 where "v0 = escalation k [] []"
  define p0 where "p0 = verdict_plan (dv_repo cfg) (pr_number pr) n v0 []"
  have p0: "round_plan (dv_repo cfg) pr n v0 p0" by (auto simp: round_plan_def v0_def p0_def)
  note quiet = enacts_quiet_bind [where Q = "round_plan (dv_repo cfg) pr n" and ?x0.0 = v0 and ?p0.0 = p0, OF _ _ p0]
  have over: "enacts (round_plan (dv_repo cfg) pr n)
      (bindE (review_session env cfg pr n k rid files sv)
        (\<lambda>over. case over of Some v \<Rightarrow> ret v | None \<Rightarrow> judge env cfg pr n k rid))" for files
  proof (rule enacts_bind [OF session_enacts, where R = "\<lambda>over y q. case over of Some v \<Rightarrow> y = v \<and> q = []
          | None \<Rightarrow> round_plan (dv_repo cfg) pr n y q"])
    show "enacts (\<lambda>y q. case over of Some v \<Rightarrow> y = v \<and> q = [] | None \<Rightarrow> round_plan (dv_repo cfg) pr n y q)
        (case over of Some v \<Rightarrow> ret v | None \<Rightarrow> judge env cfg pr n k rid)" for over
      using judge_enacts [OF assms] by (cases over) (auto intro: enacts_ret)
  qed (auto simp: round_plans_def split: option.splits)
  show ?thesis
    unfolding launch_review_def case_prod_beta by (intro quiet over hush_local)
qed

lemma round_enacts:
  assumes "k = int (attempts_on (pr_labels pr)) + 1" "k \<le> ROUND_BUDGET"
  shows "enacts (round_plans (dv_repo cfg) pr n) (review_round env cfg pr n k t stuck sv gone)"
proof -
  note quiet = enacts_quiet_bind [where Q = "round_plans (dv_repo cfg) pr n" and ?x0.0 = None and ?p0.0 = "[]"]
  have none: "round_plans (dv_repo cfg) pr n None []" by (simp add: round_plans_def)
  have "enacts (round_plans (dv_repo cfg) pr n)
      (case inputs of None \<Rightarrow> ret None
       | Some x \<Rightarrow> bindE (launch_review env cfg pr n k rid x sv) (\<lambda>v. ret (Some v)))" for inputs rid
    by (cases inputs) (auto intro!: enacts_ret none enacts_bind_ret [OF launch_enacts [OF assms]] simp: round_plans_def)
  then show ?thesis
    unfolding review_round_def Let_def by (intro quiet enacts_finally hush_inputs hush_gather none)
qed

lemma review_enacts:
  "enacts (\<lambda>x p. case x of None \<Rightarrow> p = []
     | Some v \<Rightarrow> \<exists>n. issue_for_branch (pr_head_ref pr) = Some n \<and> round_plan (dv_repo cfg) pr n v p)
     (review_pr env cfg pr t stuck sv gone)"
proof (cases "issue_for_branch (pr_head_ref pr)")
  case None
  then show ?thesis by (simp add: review_pr_def enacts_ret)
next
  case (Some n)
  have "enacts (round_plans (dv_repo cfg) pr n) (review_pr env cfg pr t stuck sv gone)"
  proof (cases "ROUND_BUDGET \<le> int (attempts_on (pr_labels pr))")
    case True
    have "enacts (round_plans (dv_repo cfg) pr n)
        (bindE (bindE (publish env (dv_repo cfg) (pr_number pr) n (exhausted cfg n))
            (\<lambda>_. push_review_evidence cfg pr n (exhausted cfg n) no_stats None)) (\<lambda>_. ret (Some (exhausted cfg n))))"
      by (rule enacts_bind_ret [OF enacts_bind_quiet [OF publish_plan, where S = "\<lambda>_. round_plan (dv_repo cfg) pr n (exhausted cfg n)"]])
        (auto simp: round_plans_def exhausted_def)
    then show ?thesis using True Some by (simp add: review_pr_def Let_def apply_verdict_def)
  next
    case False
    then show ?thesis using round_enacts [of _ pr cfg n] Some by (simp add: review_pr_def Let_def)
  qed
  then show ?thesis
    by (rule enacts_weaken) (auto simp: round_plans_def Some split: option.splits)
qed

text \<open>
  C38: Whatever GitHub, git and the session do, a review of a pull request applies at most one verdict: the comment that
  explains it goes out before any label moves, then the labels of that verdict in a fixed order, each write at least
  once and none but those. A returned verdict was applied in full; without one nothing was written. Once the round
  budget is spent the verdict is an escalation, an approval carries both grades, and a revision has a plan and leaves
  a round.
\<close>

theorem review_applies_at_most_one_verdict:
  assumes "review_pr env cfg pr t stuck sv gone w = (r, w')"
  shows "\<exists>rs. wd_requests w' = wd_requests w @ rs
    \<and> (case r of
         Inr None \<Rightarrow> writes_of rs = []
       | Inr (Some v) \<Rightarrow> permitted pr v \<and> (\<exists>n logins. issue_for_branch (pr_head_ref pr) = Some n
            \<and> all_sent (verdict_plan (dv_repo cfg) (pr_number pr) n v logins) (writes_of rs))
       | Inl e \<Rightarrow> writes_of rs = [] \<or> (\<exists>v n logins. permitted pr v \<and> issue_for_branch (pr_head_ref pr) = Some n
            \<and> sent_of (verdict_plan (dv_repo cfg) (pr_number pr) n v logins) (writes_of rs)))"
  using review_enacts assms
proof (rule enactsE)
  fix rs p x
  assume p: "wd_requests w' = wd_requests w @ rs"
    "case x of None \<Rightarrow> p = []
      | Some v \<Rightarrow> \<exists>n. issue_for_branch (pr_head_ref pr) = Some n \<and> round_plan (dv_repo cfg) pr n v p"
    "sent_of p (writes_of rs)" "\<And>y. r = Inr y \<Longrightarrow> x = y \<and> all_sent p (writes_of rs)"
  show ?thesis
  proof (intro exI conjI)
    show "case r of
         Inr None \<Rightarrow> writes_of rs = []
       | Inr (Some v) \<Rightarrow> permitted pr v \<and> (\<exists>n logins. issue_for_branch (pr_head_ref pr) = Some n
            \<and> all_sent (verdict_plan (dv_repo cfg) (pr_number pr) n v logins) (writes_of rs))
       | Inl e \<Rightarrow> writes_of rs = [] \<or> (\<exists>v n logins. permitted pr v \<and> issue_for_branch (pr_head_ref pr) = Some n
            \<and> sent_of (verdict_plan (dv_repo cfg) (pr_number pr) n v logins) (writes_of rs))"
    proof (cases r)
      case (Inl e)
      then show ?thesis using p(2,3) by (cases x) (simp, simp add: round_plan_def, blast)
    next
      case (Inr y)
      then show ?thesis using p(4) [OF Inr] p(2) by (cases y) (simp, simp add: round_plan_def, blast)
    qed
  qed (rule p(1))
qed

definition demo_github :: env where
  "demo_github = \<lparr>en_clock = int, en_transport = (\<lambda>_ rq. Inr \<lparr>rp_status = 200, rp_headers = [], rp_body = []\<rparr>),
     en_git = (\<lambda>_ _. Inl (Git_Error [])), en_touch = (\<lambda>_ _. None), en_emit = (\<lambda>_. True), en_fuel = 4, en_depth = 9\<rparr>"

definition demo_driver :: driver_config where
  "demo_driver = \<lparr>dv_repo = ''o/r'', dv_clone_url = ''u'', dv_worker_id = ''w'', dv_stack = ''s'', dv_adapter = ''claude'',
     dv_run_image = ''i'', dv_jobs_dir = ''/j'', dv_agent_timeout = JInt 9,
     dv_mirror = \<lparr>mv_sha256 = (\<lambda>_. []), mv_dir = ''/m'', mv_url = ''u'', mv_euid = 1, mv_created = None, mv_above = None,
        mv_root = Inl [], mv_lock = None, mv_mirror = Inr None, mv_shape = False, mv_staging = Inr None, mv_packs = 0\<rparr>,
     dv_json_error = (\<lambda>_. [])\<rparr>"

definition demo_branch :: "string list \<Rightarrow> pull_request" where
  "demo_branch labels = \<lparr>pr_number = 9, pr_title = ''t'', pr_body = [], pr_head_ref = ''ozolith/issue-7'', pr_head_sha = ''c'',
     pr_base_ref = ''main'', pr_labels = labels, pr_state = ''open'', pr_merged = False, pr_merge_commit_sha = []\<rparr>"

definition demo_unlaunched :: session_view where
  "demo_unlaunched = \<lparr>sv_launch = Some (Other_Error ''e''), sv_agent = Inr no_outcome, sv_files = (\<lambda>job. job),
     sv_gate = (Missing, \<lambda>_ _. Inr (True, [])), sv_finish = None\<rparr>"

text \<open>A GitHub that accepts every write.\<close>

definition always :: "'a run \<Rightarrow> bool" where
  "always m \<longleftrightarrow> (\<forall>w. \<exists>x w'. m w = (Inr x, w'))"

lemma always_basic [intro!]:
  "always (ret x)" "always (note_write rq)" "always (push_evidence_files message files)"
  by (auto simp: always_def note_write_def push_evidence_files_def)

lemma always_bind [intro!]: "always m \<Longrightarrow> (\<And>x. always (f x)) \<Longrightarrow> always (bindE m f)"
  unfolding always_def bindE_def by (metis (no_types, lifting) prod.case sum.case(2))

lemma always_catch: "always m \<Longrightarrow> always (catchE m h)"
  unfolding always_def catchE_def by (metis (no_types, lifting) prod.case sum.case(2))

lemma demo_request: "always (json_m demo_github meth path body)" "always (request_m demo_github meth path body)"
proof -
  have "always (attempts demo_github rq n a)" for rq n a
    by (subst attempts.simps) (auto simp: always_def bindE_def exchange_def demo_github_def note_write_def ret_def)
  then show req: "always (request_m demo_github meth path body)" by (simp add: request_m_def)
  have "\<exists>r w'. attempts demo_github rq n a w = (Inr r, w') \<and> rp_body r = []" for rq n a w
    by (subst attempts.simps) (simp add: bindE_def exchange_def demo_github_def note_write_def ret_def)
  then show "always (json_m demo_github meth path body)"
    by (auto simp: always_def json_m_def request_m_def bindE_def lift_def response_json_def split: prod.split sum.split)
      (metis (no_types, lifting) Inr_inject Inl_Inr_False prod.inject)+
qed

lemma demo_writes [intro!]:
  "always (add_comment demo_github repo n b)" "always (add_labels demo_github repo n ls)"
  "always (remove_label demo_github repo n l)"
  unfolding add_comment_def add_labels_def remove_label_def on_status_def
  by (auto intro!: demo_request always_catch)

lemma demo_spent:
  "\<exists>w'. review_pr demo_github demo_driver (demo_branch [''attempt-3'']) t stuck sv gone w
     = (Inr (Some (exhausted demo_driver 7)), w')"
proof -
  have "issue_for_branch (pr_head_ref (demo_branch [''attempt-3''])) = Some 7"
    "int (attempts_on (pr_labels (demo_branch [''attempt-3'']))) = 3" by code_simp+
  then have run: "review_pr demo_github demo_driver (demo_branch [''attempt-3'']) t stuck sv gone
      = bindE (apply_verdict demo_github demo_driver (demo_branch [''attempt-3'']) 7 (exhausted demo_driver 7) no_stats None)
          (\<lambda>_. ret (Some (exhausted demo_driver 7)))"
    by (simp add: review_pr_def Let_def ROUND_BUDGET_def)
  have "always (apply_verdict demo_github demo_driver (demo_branch [''attempt-3'']) 7 (exhausted demo_driver 7) no_stats None)"
    unfolding apply_verdict_def publish_def push_review_evidence_def Let_def
    by (auto simp: exhausted_def escalation_def)
  then show ?thesis unfolding run by (auto simp: always_def bindE_def ret_def dest!: spec [of _ w])
qed

theorem review_applies_at_most_one_verdict_witness:
  "\<exists>rs v n logins. wd_requests (snd (review_pr demo_github demo_driver (demo_branch [''attempt-3'']) File (\<lambda>_. None)
      demo_unlaunched True (world_of empty_store))) = rs \<and> vd_verdict v = ESCALATE
      \<and> all_sent (verdict_plan ''o/r'' 9 n v logins) (writes_of rs)"
proof -
  obtain w' where run: "review_pr demo_github demo_driver (demo_branch [''attempt-3'']) File (\<lambda>_. None) demo_unlaunched True
      (world_of empty_store) = (Inr (Some (exhausted demo_driver 7)), w')" using demo_spent by blast
  have "wd_requests (world_of empty_store) = []" "dv_repo demo_driver = ''o/r''" "pr_number (demo_branch [''attempt-3'']) = 9"
    by (simp_all add: world_of_def demo_driver_def demo_branch_def)
  then have "\<exists>n logins. all_sent (verdict_plan ''o/r'' 9 n (exhausted demo_driver 7) logins) (writes_of (wd_requests w'))"
    using review_applies_at_most_one_verdict [OF run] by simp metis
  moreover have "vd_verdict (exhausted demo_driver 7) = ESCALATE" by (simp add: exhausted_def escalation_def)
  ultimately show ?thesis unfolding run snd_conv by blast
qed

subsection \<open>Infrastructure failures\<close>

definition never_returns :: "'a run \<Rightarrow> bool" where
  "never_returns m \<longleftrightarrow> (\<forall>w. isl (fst (m w)))"

lemma never_raise [simp]: "never_returns (raise e)"
  by (simp add: never_returns_def)

lemma never_bind_first: "never_returns m \<Longrightarrow> never_returns (bindE m f)"
  by (auto simp: never_returns_def bindE_def split: prod.split sum.split) (metis fst_conv isl_def sum.disc(2))

lemma never_bind: "(\<And>x. never_returns (f x)) \<Longrightarrow> never_returns (bindE m f)"
  by (auto simp: never_returns_def bindE_def split: prod.split sum.split)

lemma never_finally: "never_returns m \<Longrightarrow> never_returns (finallyE m c)"
  by (auto simp: never_returns_def finallyE_def split: prod.split sum.split) (metis fst_conv)

lemma never_hush_bind:
  assumes "hush.kept_by m" "never_returns m"
  shows "hush.kept_by (bindE m f)"
proof (rule hush.kept_byI)
  fix w
  obtain e w' where m: "m w = (Inl e, w')"
    using assms(2) by (cases "m w", cases "fst (m w)") (auto simp: never_returns_def dest: spec [of _ w])
  then show "hushed w (snd (bindE m f w))" using hush.kept_byD [OF assms(1) m] by (simp add: bindE_def)
qed

definition never_some :: "'a option run \<Rightarrow> bool" where
  "never_some m \<longleftrightarrow> (\<forall>w v. fst (m w) \<noteq> Inr (Some v))"

lemma never_some_bind: "(\<And>x. never_some (f x)) \<Longrightarrow> never_some (bindE m f)"
  by (auto simp: never_some_def bindE_def split: prod.split sum.split)

lemma never_some_finally: "never_some m \<Longrightarrow> never_some (finallyE m c)"
  by (auto simp: never_some_def finallyE_def split: prod.split sum.split) (metis fst_conv)

lemma never_some_return: "never_returns m \<Longrightarrow> never_some m" "never_some (ret None)"
  by (auto simp: never_some_def never_returns_def) (metis sum.disc(2))

definition infra_failure :: "session_view \<Rightarrow> bool" where
  "infra_failure sv \<longleftrightarrow> sv_launch sv \<noteq> None
     \<or> (\<exists>e. sv_agent sv = Inl e \<and> (\<forall>m. e = Session_Error m \<longrightarrow> identity_error_detail m = None))"

lemma failed_session:
  assumes "sv_agent sv = Inl e" "\<forall>m. e = Session_Error m \<longrightarrow> identity_error_detail m = None"
  shows "hush.kept_by (review_session env cfg pr n k rid files sv)" "never_returns (review_session env cfg pr n k rid files sv)"
proof -
  have failed: "hush.kept_by (session_failed env cfg pr n k rid files e)" "never_returns (session_failed env cfg pr n k rid files e)"
    unfolding session_failed_def using assms(2)
    by (cases e; auto intro!: hush.kept_bind never_bind)+
  have body: "catchE (bindE (agent_phase cfg rid sv) (\<lambda>_. ret None)) (session_failed env cfg pr n k rid files)
      = bindE (catchE (bindE (agent_phase cfg rid sv) (\<lambda>_. ret ())) (\<lambda>_. ret ())) (\<lambda>_. session_failed env cfg pr n k rid files e)"
    using assms(1) by (auto simp: fun_eq_iff catchE_def bindE_def agent_phase_def ret_def)
  show "hush.kept_by (review_session env cfg pr n k rid files sv)"
    unfolding review_session_def body by (intro hush.kept_finally hush.kept_bind hush.kept_catch failed) auto
  show "never_returns (review_session env cfg pr n k rid files sv)"
    unfolding review_session_def body by (intro never_finally never_bind failed)
qed

lemma failed_launch:
  assumes "infra_failure sv"
  shows "hush.kept_by (launch_review env cfg pr n k rid x sv)" "never_returns (launch_review env cfg pr n k rid x sv)"
proof -
  have rest: "hush.kept_by (bindE (may_raise (sv_launch sv)) (\<lambda>_. bindE (review_session env cfg pr n k rid files sv) f))
      \<and> never_returns (bindE (may_raise (sv_launch sv)) (\<lambda>_. bindE (review_session env cfg pr n k rid files sv) f))"
    for files and f :: "verdict option \<Rightarrow> verdict run"
  proof (cases "sv_launch sv")
    case None
    then obtain e where "sv_agent sv = Inl e" "\<forall>m. e = Session_Error m \<longrightarrow> identity_error_detail m = None"
      using assms by (auto simp: infra_failure_def)
    from failed_session [OF this] show ?thesis
      by (intro conjI hush.kept_bind hush_local never_hush_bind never_bind [of _ "may_raise (sv_launch sv)"] never_bind_first)
  qed (simp add: may_raise_def)
  show "hush.kept_by (launch_review env cfg pr n k rid x sv)"
    unfolding launch_review_def case_prod_beta
    by (rule hush.kept_bind, rule hush_local, rule hush.kept_bind, rule hush_local, rule hush.kept_bind, rule hush_local)
      (rule rest [THEN conjunct1])
  show "never_returns (launch_review env cfg pr n k rid x sv)"
    unfolding launch_review_def case_prod_beta
    by (rule never_bind, rule never_bind, rule never_bind) (rule rest [THEN conjunct2])
qed

text \<open>
  A round whose session could not be launched, died or was refused before it produced a verdict (and not for the
  identity of its model) writes nothing to GitHub and returns no verdict, so the pull request stays reviewable.
\<close>

theorem infra_failure_writes_nothing:
  assumes "review_pr env cfg pr t stuck sv gone w = (r, w')" "int (attempts_on (pr_labels pr)) < ROUND_BUDGET"
    "infra_failure sv"
  shows "hushed w w' \<and> (\<forall>v. r \<noteq> Inr (Some v))"
proof (cases "issue_for_branch (pr_head_ref pr)")
  case None
  then show ?thesis using assms(1) by (auto simp: review_pr_def hush.refl)
next
  case (Some n)
  define k where "k = int (attempts_on (pr_labels pr)) + 1"
  obtain rid where rid: "rid = ''review-'' @ show_int (pr_number pr) @ ''-round-'' @ show_int k" by simp
  define body where "body = bindE (gather_inputs env cfg pr n rid t stuck) (\<lambda>inputs. case inputs of None \<Rightarrow> ret None
      | Some x \<Rightarrow> bindE (launch_review env cfg pr n k rid x sv) (\<lambda>v. ret (Some v)))"
  have run: "review_pr env cfg pr t stuck sv gone = bindE (job_create rid) (\<lambda>_. finallyE body (clear_job rid gone))"
  proof -
    have "review_pr env cfg pr t stuck sv gone = review_round env cfg pr n k t stuck sv gone"
      using Some assms(2) by (simp add: review_pr_def k_def Let_def)
    then show ?thesis by (simp only: review_round_def Let_def rid body_def)
  qed
  have "hush.kept_by body"
    unfolding body_def using failed_launch [OF assms(3)]
    by (auto intro!: hush.kept_bind split: option.split)
  then have "hush.kept_by (review_pr env cfg pr t stuck sv gone)"
    unfolding run by (intro hush.kept_bind hush.kept_finally hush_inputs)
  moreover have "never_some (review_pr env cfg pr t stuck sv gone)"
    unfolding run body_def using failed_launch(2) [OF assms(3)]
    by (intro never_some_bind never_some_finally) (auto intro!: never_some_return never_bind_first split: option.split)
  ultimately show ?thesis using assms(1) unfolding never_some_def by (metis fst_conv hush.kept_byD)
qed

theorem infra_failure_writes_nothing_witness:
  "\<exists>r w'. review_pr demo_github demo_driver (demo_branch []) File (\<lambda>_. None) demo_unlaunched True (world_of empty_store) = (r, w')
     \<and> writes_of (wd_requests w') = []"
proof -
  obtain r w' where run: "review_pr demo_github demo_driver (demo_branch []) File (\<lambda>_. None) demo_unlaunched True
      (world_of empty_store) = (r, w')" by fastforce
  have "hushed (world_of empty_store) w'"
    using infra_failure_writes_nothing [OF run]
    by (simp add: demo_branch_def attempts_on_def ROUND_BUDGET_def infra_failure_def demo_unlaunched_def)
  then have "writes_of (wd_requests w') = []"
    by (auto simp: hushed_def world_of_def harmless_writes)
  with run show ?thesis by blast
qed

end
