(* ===== verification/Runner_Safety.thy ===== *)
theory Runner_Safety
  imports Runner Reviewer_Safety
begin

text \<open>
  What the Runs of a claim do to GitHub: a Run ships a pull request or writes nothing, and only the end of the claim
  touches the issue.
\<close>

subsection \<open>The writes of a Run\<close>

text \<open>A new pull request, an edit of one, the label that puts one up for review.\<close>

definition ship_write :: "repo \<Rightarrow> request \<Rightarrow> bool" where
  "ship_write repo rq \<longleftrightarrow>
     (rq_method rq = ''POST'' \<and> rq_path rq = repo_path repo ''/pulls'')
     \<or> (\<exists>n. rq_method rq = ''PATCH'' \<and> rq_path rq = repo_path repo (''/pulls/'' @ show_int n))
     \<or> (\<exists>n. rq = label_request repo n [PR_READY])"

definition shipping :: "repo \<Rightarrow> world \<Rightarrow> world \<Rightarrow> bool" where
  "shipping repo w w' \<longleftrightarrow>
     (\<exists>rs. wd_requests w' = wd_requests w @ rs \<and> list_all (\<lambda>rq. harmless rq \<or> ship_write repo rq) rs)"

interpretation ship: frame "shipping repo" for repo
proof unfold_locales
  show "shipping repo w w" for w by (simp add: shipping_def)
  show "shipping repo u w" if uv: "shipping repo u v" and vw: "shipping repo v w" for u v w
  proof -
    obtain rs where rs: "wd_requests v = wd_requests u @ rs" "list_all (\<lambda>rq. harmless rq \<or> ship_write repo rq) rs"
      using uv unfolding shipping_def by blast
    obtain ss where ss: "wd_requests w = wd_requests v @ ss" "list_all (\<lambda>rq. harmless rq \<or> ship_write repo rq) ss"
      using vw unfolding shipping_def by blast
    from rs ss show ?thesis unfolding shipping_def by (intro exI [of _ "rs @ ss"]) simp
  qed
qed

lemma ship_of_hush: "hush.kept_by m \<Longrightarrow> ship.kept_by repo m"
  unfolding hush.kept_by_def ship.kept_by_def hushed_def shipping_def list_all_iff by blast

lemma ship_of_hush_job: "hush.kept_job m \<Longrightarrow> ship.kept_job repo m"
  by (simp add: hush.kept_job_def ship.kept_job_def ship_of_hush)

lemma ship_of_follows:
  assumes "follows plan m" "list_all (ship_write repo) plan"
  shows "ship.kept_by repo m"
proof (rule ship.kept_byI)
  fix w
  obtain r w' where m: "m w = (r, w')" by (cases "m w")
  obtain rs where rs: "wd_requests w' = wd_requests w @ rs" "sent_of plan rs" using followsE [OF assms(1) m] by metis
  have "list_all (ship_write repo) rs" using sent_of_set [OF rs(2)] assms(2) by (auto simp: list_all_iff)
  then show "shipping repo w (snd (m w))" using rs(1) m by (auto simp: shipping_def list_all_iff)
qed

lemma ship_json:
  assumes "ship_write repo \<lparr>rq_method = meth, rq_path = path, rq_body = body\<rparr>"
  shows "ship.kept_by repo (json_m env meth path body)"
proof -
  have "follows [\<lparr>rq_method = meth, rq_path = path, rq_body = body\<rparr>] (json_m env meth path body)"
    by (rule follows_sends, rule sends_json)
  then show ?thesis by (rule ship_of_follows) (simp add: assms)
qed

lemma ship_writes [intro!]:
  "ship.kept_by repo (create_pr env repo head base title body)" "ship.kept_by repo (update_pr env repo n t b c)"
  "ship.kept_by repo (add_labels env repo n [PR_READY])"
proof -
  show "ship.kept_by repo (add_labels env repo n [PR_READY])"
    by (rule ship_of_follows [OF follows_writes(3)]) (auto simp: ship_write_def)
  show "ship.kept_by repo (update_pr env repo n t b c)"
    unfolding update_pr_def Let_def by (auto intro!: ship.kept_bind ship_json simp: ship_write_def)
  have post: "ship.kept_by repo (bindE (json_m env ''POST'' (repo_path repo ''/pulls'') b) (\<lambda>j. lift (pull_from j)))" for b
    by (intro ship.kept_bind ship_json) (auto simp: ship_write_def intro: ship_of_hush)
  have again: "ship.kept_by repo (bindE (find_open_pr_by_head env repo head)
      (\<lambda>existing. case existing of Some p \<Rightarrow> ret p | None \<Rightarrow> raise e))" for e :: exn
    by (intro ship_of_hush hush.kept_bind) (auto split: option.split)
  show "ship.kept_by repo (create_pr env repo head base title body)"
    unfolding create_pr_def
    by (rule ship.kept_catch [OF post]) (auto intro: again split: exn.split)
qed

subsection \<open>What a Run reads\<close>

lemma hush_viewer [intro!]: "hush.kept_by (viewer_login env repo)"
proof -
  have keep: "hush.kept_by (\<lambda>w'. (Inr l, w'\<lparr>wd_logins := (wd_logins w')(repo \<mapsto> l)\<rparr>))" for l :: string
    by (rule hush.kept_byI, rule same_requests_hushed) simp
  have fetch: "hush.kept_by (bindE (json_m env ''GET'' ''/user'' None) (\<lambda>j. bindE (lift (named ''login'' j))
      (\<lambda>l w'. (Inr l, w'\<lparr>wd_logins := (wd_logins w')(repo \<mapsto> l)\<rparr>))))"
    by (intro hush.kept_bind hush_json hush_local keep) (simp add: harmless_def)
  show ?thesis
    by (rule hush.kept_byI) (use hush.kept_byD [OF fetch] in \<open>auto simp: viewer_login_def ret_def hush.refl split: option.split intro: surjective_pairing\<close>)
qed

lemma hush_follow_merged:
  assumes "\<And>b. hush.kept_by (pull_of b)" "\<And>b. hush.kept_by (head_of b)"
  shows "hush.kept_by (follow_merged pull_of head_of trunk n seen gone)"
  by (induction n arbitrary: seen gone) (auto intro!: hush.kept_bind assms split: option.split)

lemma hush_base [intro!]:
  "hush.kept_by (closure_at_checkout env repo n)" "hush.kept_by (derive_checkout_base env repo c)"
  "hush.kept_by (resolve_deleted_base env repo b trunk)" "hush.kept_by (verify_ship_base env wd b sha)"
  unfolding closure_at_checkout_def derive_checkout_base_def resolve_deleted_base_def verify_ship_base_def
  by (auto intro!: hush.kept_bind hush.kept_catch hush_follow_merged hush_of_gets [OF gets_resolve]
      split: exn.split)

lemma hush_park [intro!]: "hush.kept_by (park_job rid name)"
  by (rule hush.kept_byI, rule same_requests_hushed) (simp add: park_job_def)

lemma hush_parts [intro!]:
  "hush.kept_by (exclude_metadata env wd)" "hush.kept_by (write_issue_metadata rid i k)" "hush.kept_by (clone_base env cfg wd b)"
  "hush.kept_by (disarm env cfg wd)" "hush.kept_by (found_verdict cs)" "hush.kept_by (chained_context env repo b)"
  "hush.kept_by (gate_outcome sv)" "hush.kept_by (run_diffstat env wd b there)"
  unfolding exclude_metadata_def write_issue_metadata_def clone_base_def disarm_def found_verdict_def chained_context_def
    gate_outcome_def run_diffstat_def
  by (auto intro!: hush.kept_bind hush.kept_catch split: exn.split option.split sum.split gate_exn.split)

lemma hush_jobs [intro!]:
  "hush.kept_job (closure_for env repo n completion)" "hush.kept_job (settle_base env repo existing c completion)"
  "hush.kept_job (obtain_checkout env cfg vw completion)" "hush.kept_job (fresh_round env repo wd branch)"
  "hush.kept_job (resume_at env wd login email v)"
  unfolding closure_for_def settle_base_def obtain_checkout_def fresh_round_def resume_at_def Let_def
  by (auto intro!: hush.kept_bindJ hush.kept_catchJ hush.kept_doing split: option.split)

lemma hush_branch [intro!]:
  "hush.kept_job (take_branch env repo wd branch login email existing s completion)"
  "hush.kept_job (write_inputs env cfg rid s revised c completion)"
  unfolding take_branch_def resume_round_def write_inputs_def completion_prompt_def Let_def
  by (auto intro!: hush.kept_bindJ hush.kept_doing split: option.split)

lemma hush_session [intro!]:
  "hush.kept_job (session_phase env cfg n rid sv)" "hush.kept_job (accept_proposal cfg rid g)"
  "hush.kept_job (commit_work env wd login email n p)" "hush.kept_job (reconcile_base env repo wd existing)"
  unfolding session_phase_def await_agent_def accept_proposal_def commit_work_def reconcile_base_def Let_def
  by (auto intro!: hush.kept_bindJ hush.kept_catchJ hush.kept_finallyJ hush.kept_doing hush.kept_bind
      split: option.split sum.split exn.split)

lemma hush_evidence [intro!]:
  "hush.kept_job (push_run_evidence env cfg n vw)"
  unfolding push_run_evidence_def Let_def
  by (auto intro!: hush.kept_bindJ hush.kept_doing split: option.split)

lemma hush_stash [intro!]: "hush.kept_job (stash_completion cfg vw)"
  unfolding stash_completion_def by (auto intro!: hush.kept_bindJ hush.kept_doing split: option.split)

lemma hush_failing [intro!]:
  "hush.kept_job (fail_run env cfg n vw reason cls)" "hush.kept_job (run_failed env cfg n vw completion e)"
  unfolding fail_run_def run_failed_def
  by (auto intro!: hush.kept_bindJ hush.kept_doing split: exn.split)

lemma hush_tidy [intro!]: "hush.kept_job (tidy_job vw)"
  unfolding tidy_job_def park_for_sweep_def discarded_def
  by (auto intro!: hush.kept_bindJ hush.kept_doing simp del: bindJ_simps)

subsection \<open>One Run\<close>

lemma ship_publish [intro!]: "ship.kept_job repo (publish_pr env repo wd n existing p hollow)"
  unfolding publish_pr_def open_pr_def revise_pr_def Let_def
  by (intro ship.kept_bindJ) (auto intro!: ship.kept_bindJ ship.kept_doing simp del: bindJ_simps split: option.split
      intro: ship_of_hush_job ship_of_hush)

lemma ship_body [intro!]: "ship.kept_job (dv_repo cfg) (run_to_pr env cfg n vw completion)"
  unfolding run_to_pr_def Let_def
  by (auto intro!: ship.kept_bindJ ship.kept_doing intro: ship_of_hush ship_of_hush_job)

lemma ship_run: "ship.kept_by (dv_repo cfg) (execute_run env cfg i vw completion)"
proof -
  have "ship.kept_job (dv_repo cfg) (run_body env cfg i vw completion)"
    unfolding run_body_def Let_def 
    by (intro ship.kept_finallyJ ship.kept_catchJ ship_body ship_of_hush_job hush_failing hush_tidy)
  then show ?thesis
    unfolding execute_run_def
    by (intro ship.kept_bind ship.kept_jobD) (auto intro!: ship_of_hush split: sum.split)
qed

subsection \<open>The Runs of a claim\<close>

definition failed_run :: "run_report \<Rightarrow> bool" where
  "failed_run r \<longleftrightarrow> rt_phase r = ''failed''"

text \<open>The Runs that follow \<open>reports\<close>: each but the last failed, the last one too when the budget is spent.\<close>

definition runs_on :: "run_report list \<Rightarrow> run_report list \<Rightarrow> bool \<Rightarrow> bool" where
  "runs_on reports new spent \<longleftrightarrow>
     list_all failed_run (butlast new)
     \<and> (if new = [] then reports = [] \<and> \<not> spent else failed_run (last new) = spent)"

definition runs_left :: "nat \<Rightarrow> bool \<Rightarrow> carryover option \<Rightarrow> nat" where
  "runs_left full used completion =
     (if completion = None then CLAIM_RUN_BUDGET - full + (if used then 0 else 1) else 1)"

lemma runs_on_more: "runs_on (reports @ [r]) new spent \<Longrightarrow> failed_run r \<Longrightarrow> runs_on reports (r # new) spent"
  by (auto simp: runs_on_def split: if_splits)

lemma hush_activated [intro!]: "hush.kept_by (activated env n rid k)"
  by (induction env n rid k rule: activated.induct) (auto intro!: hush.kept_bind)

lemma hush_announce [intro!]: "hush.kept_by (announce env n rid reports)"
  unfolding announce_def by (auto intro!: hush.kept_bind)

lemma announced:
  "announce env n rid reports w = (Inr go, w') \<Longrightarrow> reports \<noteq> [] \<Longrightarrow> go"
  by (auto simp: announce_def bindE_def ret_def split: prod.splits sum.splits)

lemma claim_runs_end:
  assumes "claim_runs env cfg i views reports full used completion w = (Inr (all, spent), w')"
    and "full < CLAIM_RUN_BUDGET \<or> completion \<noteq> None" "completion = None \<or> used"
  shows "\<exists>new. all = reports @ new \<and> length new \<le> runs_left full used completion \<and> runs_on reports new spent"
  using assms
proof (induction env cfg i views reports full used completion arbitrary: w rule: claim_runs.induct)
  case (1 env cfg i views reports full used completion)
  define rid where "rid = vw_run_id (views (length reports))"
  define full' where "full' = (if completion = None then full + 1 else full)"
  note run = "1.prems"(1)
  from run obtain go w1 where go: "announce env (is_number i) rid reports w = (Inr go, w1)"
    by (subst (asm) claim_runs.simps) (auto simp: Let_def rid_def bindE_def split: prod.splits sum.splits)
  show ?case
  proof (cases go)
    case False
    then have "all = reports" "\<not> spent" "reports = []"
      using run go announced [OF go] by (subst (asm) claim_runs.simps, auto simp: Let_def rid_def bindE_def ret_def)+
    then show ?thesis by (intro exI [of _ "[]"]) (simp add: runs_on_def)
  next
    case True
    obtain r w2 where r: "execute_run env cfg i (views (length reports)) completion w1 = (Inr r, w2)"
      using run go True by (subst (asm) claim_runs.simps) (auto simp: Let_def rid_def bindE_def split: prod.splits sum.splits)
    have "claim_runs env cfg i views reports full used completion w = (if rt_phase r \<noteq> ''failed'' then ret (reports @ [r], False)
            else if completion \<noteq> None then ret (reports @ [r], True)
            else if rt_failure_class r = ''completion'' \<and> \<not> used \<and> rt_carryover r \<noteq> None
            then claim_runs env cfg i views (reports @ [r]) full' True (rt_carryover r)
            else if CLAIM_RUN_BUDGET \<le> full' then ret (reports @ [r], True)
            else claim_runs env cfg i views (reports @ [r]) full' used None) w2"
      by (subst claim_runs.simps) (simp only: Let_def bindE_def go [unfolded rid_def] r True full'_def prod.case sum.case
          not_True_eq_False if_False)
    with run have rest: "(if rt_phase r \<noteq> ''failed'' then ret (reports @ [r], False)
            else if completion \<noteq> None then ret (reports @ [r], True)
            else if rt_failure_class r = ''completion'' \<and> \<not> used \<and> rt_carryover r \<noteq> None
            then claim_runs env cfg i views (reports @ [r]) full' True (rt_carryover r)
            else if CLAIM_RUN_BUDGET \<le> full' then ret (reports @ [r], True)
            else claim_runs env cfg i views (reports @ [r]) full' used None) w2 = (Inr (all, spent), w')"
      by simp
    consider (well) "rt_phase r \<noteq> ''failed''" | (last_try) "rt_phase r = ''failed''" "completion \<noteq> None"
      | (retry) "rt_phase r = ''failed''" "completion = None" "rt_failure_class r = ''completion''" "\<not> used" "rt_carryover r \<noteq> None"
      | (over) "rt_phase r = ''failed''" "completion = None"
          "\<not> (rt_failure_class r = ''completion'' \<and> \<not> used \<and> rt_carryover r \<noteq> None)" "CLAIM_RUN_BUDGET \<le> full'"
      | (again) "rt_phase r = ''failed''" "completion = None"
          "\<not> (rt_failure_class r = ''completion'' \<and> \<not> used \<and> rt_carryover r \<noteq> None)" "\<not> CLAIM_RUN_BUDGET \<le> full'"
      by blast
    then show ?thesis
    proof cases
      case well
      then have "all = reports @ [r]" "\<not> spent" using rest by (simp_all add: ret_def)
      then show ?thesis using well "1.prems"(2) by (intro exI [of _ "[r]"]) (auto simp: runs_on_def runs_left_def failed_run_def)
    next
      case last_try
      then have "all = reports @ [r]" "spent" using rest by (simp_all add: ret_def)
      then show ?thesis using last_try by (intro exI [of _ "[r]"]) (auto simp: runs_on_def runs_left_def failed_run_def)
    next
      case over
      then have "all = reports @ [r]" "spent" using rest by (auto simp: ret_def)
      then show ?thesis using over "1.prems"(2)
        by (intro exI [of _ "[r]"]) (auto simp: runs_on_def runs_left_def failed_run_def)
    next
      case retry
      then have "claim_runs env cfg i views (reports @ [r]) full' True (rt_carryover r) w2 = (Inr (all, spent), w')"
        using rest by simp
      then obtain new where new: "all = (reports @ [r]) @ new" "length new \<le> runs_left full' True (rt_carryover r)"
          "runs_on (reports @ [r]) new spent"
        using "1.IH"(1) [of "views (length reports)" full' go "reports @ [r]" r] True retry by (auto simp: full'_def)
      then show ?thesis using retry "1.prems"(2)
        by (intro exI [of _ "r # new"]) (auto simp: runs_on_more failed_run_def runs_left_def)
    next
      case again
      then have "claim_runs env cfg i views (reports @ [r]) full' used None w2 = (Inr (all, spent), w')"
        using rest by auto
      then obtain new where new: "all = (reports @ [r]) @ new" "length new \<le> runs_left full' used None"
          "runs_on (reports @ [r]) new spent"
        using "1.IH"(2) [of "views (length reports)" full' go "reports @ [r]" r] True again by (auto simp: full'_def)
      then show ?thesis using again
        by (intro exI [of _ "r # new"]) (auto simp: runs_on_more failed_run_def runs_left_def full'_def)
    qed
  qed
qed

lemma claim_runs_ship [intro!]:
  "ship.kept_by (dv_repo cfg) (claim_runs env cfg i views reports full used completion)"
proof (induction env cfg i views reports full used completion rule: claim_runs.induct)
  case (1 env cfg i views reports full used completion)
  show ?case
    unfolding claim_runs.simps [of env cfg i views reports] Let_def
    by (rule ship.kept_bind, rule ship_of_hush, rule hush_announce)
      (auto intro!: ship.kept_bind ship_run "1.IH" simp del: not_None_eq)
qed

subsection \<open>The end of a claim\<close>

definition claim_plan :: "repo \<Rightarrow> int \<Rightarrow> run_report list \<Rightarrow> string list \<Rightarrow> request list" where
  "claim_plan repo n reports mine =
     [label_request repo n [FAILED, NEEDS_HUMAN], comment_request repo n (render_claim_escalation repo n reports)]
     @ map (unassign_request repo n) mine @ [unlabel_request repo n IN_PROGRESS]"

lemma escalation_enacts:
  "enacts (\<lambda>x p. \<exists>mine. length mine \<le> 1 \<and> p = claim_plan repo n reports mine) (escalate_claim env repo n reports)"
proof -
  have first: "enacts (\<lambda>x p. p = [label_request repo n [FAILED, NEEDS_HUMAN], comment_request repo n (render_claim_escalation repo n reports)])
      (bindE (add_labels env repo n [FAILED, NEEDS_HUMAN]) (\<lambda>_. add_comment env repo n (render_claim_escalation repo n reports)))"
    using enacts_follows [OF follows_bind [OF follows_writes(3) follows_writes(5)]] by simp
  have last: "enacts (\<lambda>x p. \<exists>mine. length mine \<le> 1 \<and> p = map (unassign_request repo n) mine @ [unlabel_request repo n IN_PROGRESS])
      (bindE (if here then remove_assignee env repo n me else ret ()) (\<lambda>_. bindE (remove_label env repo n IN_PROGRESS)
         (\<lambda>_. bindE (emit env ph n rid cls) (\<lambda>_. ret ()))))" (is "enacts ?Q _") for here me ph rid cls
  proof -
    let ?mine = "if here then [me] else []"
    have "enacts (\<lambda>x p. p = map (unassign_request repo n) ?mine @ [unlabel_request repo n IN_PROGRESS])
        (bindE (if here then remove_assignee env repo n me else ret ()) (\<lambda>_. remove_label env repo n IN_PROGRESS))"
      by (rule enacts_follows, rule follows_bind) auto
    then have "enacts ?Q (bindE (bindE (if here then remove_assignee env repo n me else ret ())
        (\<lambda>_. remove_label env repo n IN_PROGRESS)) (\<lambda>_. bindE (emit env ph n rid cls) (\<lambda>_. ret ())))"
      by (rule enacts_bind_quiet) (auto intro!: hush.kept_bind exI [of _ ?mine])
    then show ?thesis by (simp add: bindE_assoc)
  qed
  have rest: "enacts (\<lambda>x p. \<exists>mine. length mine \<le> 1 \<and> p = map (unassign_request repo n) mine @ [unlabel_request repo n IN_PROGRESS])
      (bindE (viewer_login env repo) (\<lambda>me. bindE (get_issue env repo n) (\<lambda>i.
        bindE (if me \<in> set (is_assignees i) then remove_assignee env repo n me else ret ()) (\<lambda>_.
        bindE (remove_label env repo n IN_PROGRESS) (\<lambda>_. bindE (emit env ph n rid cls) (\<lambda>_. ret ()))))))" for ph rid cls
    by (intro enacts_quiet_bind [where ?x0.0 = "()" and ?p0.0 = "[unlabel_request repo n IN_PROGRESS]"] last)
      (auto intro!: exI [of _ "[]"])
  have whole: "escalate_claim env repo n reports = bindE (bindE (add_labels env repo n [FAILED, NEEDS_HUMAN])
      (\<lambda>_. add_comment env repo n (render_claim_escalation repo n reports)))
      (\<lambda>_. bindE (viewer_login env repo) (\<lambda>me. bindE (get_issue env repo n) (\<lambda>i.
        bindE (if me \<in> set (is_assignees i) then remove_assignee env repo n me else ret ()) (\<lambda>_.
        bindE (remove_label env repo n IN_PROGRESS)
          (\<lambda>_. bindE (emit env ''escalated'' n (rt_run_id (last reports)) (rt_failure_class (last reports))) (\<lambda>_. ret ()))))))"
    by (simp add: escalate_claim_def bindE_assoc)
  show ?thesis
    unfolding whole by (rule enacts_bind [OF first rest]) (auto simp: claim_plan_def)
qed

text \<open>
  C37: A claim ends once, whatever GitHub, git and the sessions do. Its Runs (two at most, and one completion retry) only
  ship: what they write to GitHub opens or edits a pull request or puts it up for review, and the claimed issue is
  left alone. When a Run succeeds or the grant is abandoned nothing follows. When every Run failed the issue is
  escalated: the two labels, the comment that lists the Runs, the Worker's own assignment at most, and the
  in-progress label last, in that order. An exception on the way leaves a prefix of that.
\<close>

theorem claim_ends_once:
  assumes "execute_claim env cfg i views w = (r, w')"
  shows "\<exists>w1 rs. shipping (dv_repo cfg) w w1 \<and> wd_requests w' = wd_requests w1 @ rs
     \<and> (case r of
          Inl e \<Rightarrow> \<exists>reports mine. length mine \<le> 1 \<and> sent_of (claim_plan (dv_repo cfg) (is_number i) reports mine) (writes_of rs)
        | Inr reports \<Rightarrow> length reports \<le> CLAIM_RUN_BUDGET + 1
            \<and> ((reports = [] \<or> list_all failed_run (butlast reports) \<and> \<not> failed_run (last reports)) \<and> writes_of rs = []
               \<or> reports \<noteq> [] \<and> list_all failed_run reports
                 \<and> (\<exists>mine. length mine \<le> 1 \<and> all_sent (claim_plan (dv_repo cfg) (is_number i) reports mine) (writes_of rs))))"
  using assms unfolding execute_claim_def
proof (cases rule: bindE_cases)
  case (fail e)
  then show ?thesis
    by (intro exI [of _ w'] exI [of _ "[]"])
      (auto intro: ship.kept_byD [OF claim_runs_ship] intro!: sent_of.stop exI [of _ "[] :: string list"])
next
  case (step x w1)
  obtain reports spent where x: "x = (reports, spent)" by (cases x)
  have ship: "shipping (dv_repo cfg) w w1" using ship.kept_byD [OF claim_runs_ship step(1)] .
  have ends: "length reports \<le> CLAIM_RUN_BUDGET + 1" "runs_on [] reports spent"
    using claim_runs_end [OF step(1) [unfolded x]] by (auto simp: runs_left_def CLAIM_RUN_BUDGET_def)
  show ?thesis
  proof (cases spent)
    case False
    then have "r = Inr reports" "w' = w1" using step(2) x by (simp_all add: ret_def)
    then show ?thesis using ship ends False
      by (intro exI [of _ w1] exI [of _ "[]"]) (auto simp: runs_on_def split: if_splits)
  next
    case True
    then have run: "bindE (escalate_claim env (dv_repo cfg) (is_number i) reports) (\<lambda>_. ret reports) w1 = (r, w')"
      using step(2) x by simp
    have "enacts (\<lambda>x p. x = reports \<and> (\<exists>mine. length mine \<le> 1 \<and> p = claim_plan (dv_repo cfg) (is_number i) reports mine))
        (bindE (escalate_claim env (dv_repo cfg) (is_number i) reports) (\<lambda>_. ret reports))"
      by (rule enacts_bind_ret [OF escalation_enacts]) simp
    from enactsE [OF this run] obtain rs p x where p: "wd_requests w' = wd_requests w1 @ rs"
        "x = reports" "\<exists>mine. length mine \<le> 1 \<and> p = claim_plan (dv_repo cfg) (is_number i) reports mine"
        "sent_of p (writes_of rs)" "\<And>y. r = Inr y \<Longrightarrow> x = y \<and> all_sent p (writes_of rs)" by metis
    have some: "reports \<noteq> []" "list_all failed_run (butlast reports)" "failed_run (last reports)"
      using ends(2) True by (auto simp: runs_on_def split: if_splits)
    then have failed: "list_all failed_run reports"
      by (metis append_butlast_last_id list_all_append list.pred_inject)
    show ?thesis
      by (intro exI [of _ w1] exI [of _ rs]) (use ship p ends(1) some(1) failed in \<open>auto split: sum.split\<close>)
  qed
qed

subsection \<open>What leaves a Run\<close>

text \<open>A job that hands on its state always, raises nothing that \<open>E\<close> excludes, and establishes \<open>P\<close> of the state when it began with it.\<close>

definition ends_in :: "(exn \<Rightarrow> bool) \<Rightarrow> (run_state \<Rightarrow> bool) \<Rightarrow> 'a job \<Rightarrow> bool" where
  "ends_in E P m \<longleftrightarrow> (\<forall>st w. P st \<longrightarrow> (\<exists>r st' w'. m st w = (Inr (r, st'), w') \<and> P st' \<and> (\<forall>e. r = Inl e \<longrightarrow> E e)))"

lemma ends_inE:
  assumes "ends_in E P m" "P st"
  obtains r st' w' where "m st w = (Inr (r, st'), w')" "P st'" "\<And>e. r = Inl e \<Longrightarrow> E e"
  using assms unfolding ends_in_def by meson

lemma ends_basic [intro!]:
  "ends_in E P (retJ x)" "ends_in E P (looking f)" "(\<And>st. P st \<Longrightarrow> P (st\<lparr>rs_report := g (rs_report st)\<rparr>)) \<Longrightarrow> ends_in E P (report g)"
  "(\<And>st. P st \<Longrightarrow> P (st\<lparr>rs_context := h (rs_context st)\<rparr>)) \<Longrightarrow> ends_in E P (context_set h)"
  by (auto simp: ends_in_def retJ_def looking_def report_def context_set_def ret_def)

lemma ends_raise: "E e \<Longrightarrow> ends_in E P (raiseJ e)"
  by (simp add: ends_in_def raiseJ_def ret_def)

lemma ends_doing: "(\<And>w e w'. m w = (Inl e, w') \<Longrightarrow> E e) \<Longrightarrow> ends_in E P (doing m)"
  unfolding ends_in_def doing_def by (auto split: prod.split)

lemma ends_bind:
  assumes "ends_in E P m" "\<And>x. ends_in E P (f x)"
  shows "ends_in E P (bindJ m f)"
  unfolding ends_in_def
proof (intro allI impI)
  fix st w assume "P st"
  then obtain r st1 w1 where m: "m st w = (Inr (r, st1), w1)" "P st1" "\<And>e. r = Inl e \<Longrightarrow> E e" using ends_inE [OF assms(1)] by metis
  show "\<exists>r st' w'. bindJ m f st w = (Inr (r, st'), w') \<and> P st' \<and> (\<forall>e. r = Inl e \<longrightarrow> E e)"
  proof (cases r)
    case (Inl e)
    then show ?thesis using m by (simp add: bindJ_def bindE_def ret_def)
  next
    case (Inr x)
    obtain s st2 w2 where "f x st1 w1 = (Inr (s, st2), w2)" "P st2" "\<And>e. s = Inl e \<Longrightarrow> E e"
      using ends_inE [OF assms(2) m(2)] by metis
    then show ?thesis using m Inr by (simp add: bindJ_def bindE_def)
  qed
qed

lemma ends_catch:
  assumes "ends_in (\<lambda>_. True) P m" "\<And>e. ends_in E P (h e)"
  shows "ends_in E P (catchJ m h)"
  unfolding ends_in_def
proof (intro allI impI)
  fix st w assume "P st"
  then obtain r st1 w1 where m: "m st w = (Inr (r, st1), w1)" "P st1" using ends_inE [OF assms(1)] by metis
  show "\<exists>r st' w'. catchJ m h st w = (Inr (r, st'), w') \<and> P st' \<and> (\<forall>e. r = Inl e \<longrightarrow> E e)"
  proof (cases r)
    case (Inl e)
    obtain s st2 w2 where "h e st1 w1 = (Inr (s, st2), w2)" "P st2" "\<And>e. s = Inl e \<Longrightarrow> E e"
      using ends_inE [OF assms(2) m(2)] by metis
    then show ?thesis using m Inl by (simp add: catchJ_def bindE_def)
  next
    case (Inr x)
    then show ?thesis using m by (simp add: catchJ_def bindE_def ret_def)
  qed
qed

lemma ends_finally:
  assumes "ends_in E P m" "ends_in E P c"
  shows "ends_in E P (finallyJ m c)"
  unfolding ends_in_def
proof (intro allI impI)
  fix st w assume "P st"
  then obtain r st1 w1 where m: "m st w = (Inr (r, st1), w1)" "P st1" "\<And>e. r = Inl e \<Longrightarrow> E e" using ends_inE [OF assms(1)] by metis
  obtain s st2 w2 where c: "c st1 w1 = (Inr (s, st2), w2)" "P st2" "\<And>e. s = Inl e \<Longrightarrow> E e"
    using ends_inE [OF assms(2) m(2)] by metis
  show "\<exists>r st' w'. finallyJ m c st w = (Inr (r, st'), w') \<and> P st' \<and> (\<forall>e. r = Inl e \<longrightarrow> E e)"
    using m c by (cases s) (simp_all add: finallyJ_def bindE_def ret_def)
qed

lemma ends_any [intro!]: "ends_in (\<lambda>_. True) (\<lambda>_. True) (doing m)" "ends_in (\<lambda>_. True) (\<lambda>_. True) (raiseJ e)"
  by (auto intro: ends_doing ends_raise)

lemma body_hands_on: "ends_in (\<lambda>_. True) (\<lambda>_. True) (run_to_pr env cfg n vw completion)"
  unfolding run_to_pr_def closure_for_def settle_base_def obtain_checkout_def take_branch_def resume_round_def resume_at_def
    fresh_round_def write_inputs_def completion_prompt_def session_phase_def await_agent_def accept_proposal_def
    commit_work_def publish_pr_def reconcile_base_def open_pr_def revise_pr_def push_run_evidence_def note_run_def Let_def
  by (intro ends_bind ends_catch ends_finally ends_basic ends_any TrueI allI impI conjI
      | rule ends_any | split prod.split option.split sum.split exn.split if_split)+

text \<open>What holds of the state when a job returns.\<close>

definition gives :: "(run_state \<Rightarrow> bool) \<Rightarrow> 'a job \<Rightarrow> bool" where
  "gives P m \<longleftrightarrow> (\<forall>st w x st' w'. m st w = (Inr (Inr x, st'), w') \<longrightarrow> P st')"

lemma gives_last: "(\<And>x. gives P (f x)) \<Longrightarrow> gives P (bindJ m f)"
  unfolding gives_def bindJ_def bindE_def by (auto simp: ret_def split: prod.splits sum.splits)

lemma gives_first:
  assumes "gives P m" "\<And>x. ends_in E P (f x)"
  shows "gives P (bindJ m f)"
  unfolding gives_def
proof (intro allI impI)
  fix st w y st' w' assume run: "bindJ m f st w = (Inr (Inr y, st'), w')"
  then obtain x st1 w1 where m: "m st w = (Inr (Inr x, st1), w1)" and f: "f x st1 w1 = (Inr (Inr y, st'), w')"
    by (auto simp: bindJ_def bindE_def ret_def split: prod.splits sum.splits)
  have "P st1" using assms(1) m unfolding gives_def by blast
  from ends_inE [OF assms(2) this, of x w1] f show "P st'" by auto
qed

lemma gives_report: "(\<And>st. P (st\<lparr>rs_report := g (rs_report st)\<rparr>)) \<Longrightarrow> gives P (report g)"
  by (auto simp: gives_def report_def ret_def)

text \<open>Pushing the bundle changes the notes at most.\<close>

definition as_reported :: "(string \<times> string \<times> string \<Rightarrow> bool) \<Rightarrow> run_state \<Rightarrow> bool" where
  "as_reported p st \<longleftrightarrow> p (rt_phase (rs_report st), rt_reason (rs_report st), rt_failure_class (rs_report st))"

text \<open>
  What the push of evidence reads back from the job directory, in its order: the transcript as text, its counts, the
  identity record and the proposal. The first of them that raises, if any does.
\<close>

definition evidence_fault :: "driver_config \<Rightarrow> job_dir \<Rightarrow> exn option" where
  "evidence_fault cfg job =
     (if \<not> isl (text_of TRANSCRIPT_FILE job)
      then (if stream_stats_of (dv_adapter cfg) (map_of job TRANSCRIPT_FILE) = None then Some (Other_Error ''TypeError'')
            else if read_identity job = None \<or> isl (text_of PROPOSAL_FILE job) then Some undecodable else None)
      else Some undecodable)"

lemma text_of_raises: "text_of p job = Inl e \<Longrightarrow> e = undecodable"
  by (auto simp: text_of_def split: option.splits)

text \<open>Job directories stay as they are while evidence is read and pushed.\<close>

definition same_jobs :: "world \<Rightarrow> world \<Rightarrow> bool" where
  "same_jobs w w' \<longleftrightarrow> wd_jobs w' = wd_jobs w"

interpretation jobs: frame same_jobs
  by unfold_locales (simp_all add: same_jobs_def)

lemma jobs_git [intro]: "jobs.kept_by (run_diffstat env wd b there)" "jobs.kept_by (git_version env)"
proof -
  have git: "jobs.kept_by (run_git env auth args cwd)" for auth args cwd
    by (rule jobs.kept_byI) (simp add: run_git_def same_jobs_def Let_def)
  show "jobs.kept_by (run_diffstat env wd b there)" "jobs.kept_by (git_version env)"
    unfolding run_diffstat_def git_version_def diff_stat_def git_checked_def git_unchecked_def
    by (auto intro!: jobs.kept_bind jobs.kept_catch git)
qed

lemma quiet_diffstat: "\<exists>d w'. run_diffstat env wd b there w = (Inr d, w') \<and> wd_jobs w' = wd_jobs w"
proof -
  obtain r w' where run: "run_diffstat env wd b there w = (r, w')" by (rule prod.exhaust)
  then have "\<exists>d. r = Inr d" by (cases r) (auto simp: run_diffstat_def catchE_def ret_def split: prod.splits sum.splits if_splits)
  then show ?thesis using run jobs.kept_byD [OF jobs_git(1) run] by (auto simp: same_jobs_def)
qed

lemma quiet_version: "\<exists>v w'. git_version env w = (Inr v, w') \<and> wd_jobs w' = wd_jobs w"
proof -
  obtain r w' where run: "git_version env w = (r, w')" by (rule prod.exhaust)
  then have "\<exists>d. r = Inr d" by (cases r) (auto simp: git_version_def catchE_def ret_def split: prod.splits sum.splits)
  then show ?thesis using run jobs.kept_byD [OF jobs_git(2) run] by (auto simp: same_jobs_def)
qed

lemma evidence_outcome:
  "\<exists>r st' w'. push_run_evidence env cfg n vw st w = (Inr (r, st'), w') \<and> wd_jobs w' = wd_jobs w
     \<and> (as_reported p st \<longrightarrow> as_reported p st')
     \<and> (case evidence_fault cfg (job_files (vw_run_id vw) w) of Some f \<Rightarrow> r = Inl f | None \<Rightarrow> \<not> isl r)"
proof -
  let ?rid = "vw_run_id vw" and ?job = "job_files (vw_run_id vw) w"
  obtain d w1 where d: "run_diffstat env (checkout_path cfg ?rid) (cx_base_branch (rs_context st)) (vw_checkout vw) w = (Inr d, w1)"
      "wd_jobs w1 = wd_jobs w" using quiet_diffstat by blast
  obtain v w2 where v: "git_version env w1 = (Inr v, w2)" "wd_jobs w2 = wd_jobs w1" using quiet_version by blast
  have files: "job_files ?rid w1 = ?job" "job_files ?rid w2 = ?job" using d(2) v(2) by (simp_all add: job_files_def)
  note step = push_run_evidence_def Let_def bindJ_simps bindJ_doing d(1) v(1) read_transcript_def raw_text_def job_text_def
    job_stats_def job_identity_def job_reading_def files bindE_def ret_def
  show ?thesis
  proof (cases "text_of TRANSCRIPT_FILE ?job")
    case (Inl e)
    then show ?thesis using d(2) by (simp add: step evidence_fault_def text_of_raises [OF Inl])
  next
    case t: (Inr t)
    show ?thesis
    proof (cases "stream_stats_of (dv_adapter cfg) (map_of ?job TRANSCRIPT_FILE)")
      case None
      then show ?thesis using t d(2) by (simp add: step evidence_fault_def)
    next
      case s: (Some stats)
      show ?thesis
      proof (cases "read_identity ?job")
        case None
        then show ?thesis using t s d(2) v(2) by (simp add: step evidence_fault_def)
      next
        case i: (Some identity)
        show ?thesis
        proof (cases "text_of PROPOSAL_FILE ?job")
          case (Inl e)
          then show ?thesis using t s i d(2) v(2)
            by (cases identity) (simp_all add: step evidence_fault_def text_of_raises [OF Inl])
        next
          case (Inr raw)
          then show ?thesis using t s i d(2) v(2)
            by (cases identity; cases "push_bundle (vw_push vw)")
              (simp_all add: step evidence_fault_def push_evidence_files_def note_run_def report_def retJ_def as_reported_def)
        qed
      qed
    qed
  qed
qed

lemma evidence_keeps: "ends_in (\<lambda>_. True) (as_reported p) (push_run_evidence env cfg n vw)"
  unfolding ends_in_def using evidence_outcome by blast

lemma ends_local [intro!]:
  "ends_in E P (doing (park_job rid name))" "ends_in E P (doing (job_remove rid))" "ends_in E P (doing (drop_snapshot rid))"
  "ends_in E P (doing (clear_job rid gone))" "ends_in E P (doing (job_reading rid g))" "ends_in E P (doing (emit env ph n rid cls))"
  by (rule ends_doing, simp add: clear_job_def park_job_def job_remove_def drop_snapshot_def job_reading_def emit_def
      bindE_def ret_def split: if_splits)+

lemma tidy_keeps: "ends_in E (as_reported p) (tidy_job vw)"
  unfolding tidy_job_def park_for_sweep_def discarded_def
  by (auto intro!: ends_bind simp: as_reported_def simp del: bindJ_simps)

lemma stash_keeps:
  assumes "as_reported p st" "\<not> isl (text_of PROPOSAL_FILE (job_files (vw_run_id vw) w))"
  shows "\<exists>st' w'. stash_completion cfg vw st w = (Inr (Inr (), st'), w') \<and> as_reported p st'"
proof -
  obtain raw where "raw_text (vw_run_id vw) w = (Inr raw, w)"
    using assms(2) by (cases "text_of PROPOSAL_FILE (job_files (vw_run_id vw) w)") (auto simp: raw_text_def job_text_def)
  then show ?thesis using assms(1)
    by (auto simp: stash_completion_def bindJ_doing report_def retJ_def ret_def as_reported_def split: option.split)
qed

text \<open>The report of a failed body.\<close>

definition told_failure :: "exn \<Rightarrow> string \<times> string \<times> string" where
  "told_failure e = (case e of
       Run_Failed reason failure_class \<Rightarrow> (''failed'', reason, failure_class)
     | _ \<Rightarrow> (''failed'', ''driver-side failure: '' @ exn_text e, infra))"

lemma fail_run_tells:
  "case evidence_fault cfg (job_files (vw_run_id vw) w) of
     Some f \<Rightarrow> \<exists>st' w'. fail_run env cfg n vw reason cls st w = (Inr (Inl f, st'), w')
   | None \<Rightarrow> \<exists>st' w'. fail_run env cfg n vw reason cls st w = (Inr (Inr (), st'), w') \<and> wd_jobs w' = wd_jobs w
       \<and> as_reported ((=) (''failed'', reason, cls)) st'"
proof -
  let ?P = "as_reported ((=) (''failed'', reason, cls))"
  let ?st = "st\<lparr>rs_report := (rs_report st)\<lparr>rt_phase := ''failed'', rt_reason := reason, rt_failure_class := cls\<rparr>\<rparr>"
  let ?st' = "?st\<lparr>rs_context := (\<lambda>x. if cx_section x = None then x\<lparr>cx_section := Some (fallback_section reason)\<rparr> else x) (rs_context ?st)\<rparr>"
  have start: "?P ?st'" by (simp add: as_reported_def)
  obtain r st1 w1 where e: "push_run_evidence env cfg n vw ?st' w = (Inr (r, st1), w1)" "wd_jobs w1 = wd_jobs w" "?P st1"
      "case evidence_fault cfg (job_files (vw_run_id vw) w) of Some f \<Rightarrow> r = Inl f | None \<Rightarrow> \<not> isl r"
    using evidence_outcome [of env cfg n vw ?st' w "(=) (''failed'', reason, cls)"] start by blast
  have run: "fail_run env cfg n vw reason cls st w = bindJ (push_run_evidence env cfg n vw) (\<lambda>pushed.
     bindJ (report (\<lambda>r. r\<lparr>rt_evidence_pushed := pushed\<rparr>)) (\<lambda>_.
     bindJ (doing (emit env ''failed'' n (vw_run_id vw) cls)) (\<lambda>_. retJ ()))) ?st' w"
    by (simp add: fail_run_def)
  show ?thesis
    using e unfolding run bindJ_def [of "push_run_evidence env cfg n vw"]
    by (cases "evidence_fault cfg (job_files (vw_run_id vw) w)")
      (auto simp: bindE_def bindJ_doing emit_def retJ_def ret_def as_reported_def isl_def split: sum.split)
qed

lemma run_failed_tells:
  assumes "e \<noteq> Diverges"
  shows "case evidence_fault cfg (job_files (vw_run_id vw) w) of
     Some f \<Rightarrow> \<exists>st' w'. run_failed env cfg n vw completion e st w = (Inr (Inl f, st'), w')
   | None \<Rightarrow> \<exists>st' w'. run_failed env cfg n vw completion e st w = (Inr (Inr (), st'), w')
       \<and> as_reported ((=) (told_failure e)) st'"
proof (cases "evidence_fault cfg (job_files (vw_run_id vw) w)")
  case (Some f)
  have fail: "\<exists>st' w'. fail_run env cfg n vw reason cls st w = (Inr (Inl f, st'), w')" for reason cls
    using fail_run_tells [where cfg = cfg and vw = vw and w = w and env = env and n = n and reason = reason and cls = cls and st = st] Some by simp
  have "\<exists>st' w'. bindJ (fail_run env cfg n vw reason cls) k st w = (Inr (Inl f, st'), w')"
    for reason cls and k :: "unit \<Rightarrow> unit job"
    using fail [of reason cls] by (elim exE) (simp add: bindJ_def bindE_def ret_def)
  then show ?thesis unfolding run_failed_def Some option.case using assms fail by (cases e) auto
next
  case None
  have fail: "\<exists>st' w'. fail_run env cfg n vw reason cls st w = (Inr (Inr (), st'), w') \<and> wd_jobs w' = wd_jobs w
       \<and> as_reported ((=) (''failed'', reason, cls)) st'" for reason cls
    using fail_run_tells [where cfg = cfg and vw = vw and w = w and env = env and n = n and reason = reason and cls = cls and st = st] None by simp
  have "\<not> isl (text_of PROPOSAL_FILE (job_files (vw_run_id vw) w))"
    using None by (auto simp: evidence_fault_def split: if_splits)
  then have legible: "\<not> isl (text_of PROPOSAL_FILE (job_files (vw_run_id vw) v))" if "wd_jobs v = wd_jobs w" for v
    using that by (simp add: job_files_def)
  have after: "\<exists>st' w'. bindJ (fail_run env cfg n vw reason cls) (\<lambda>_. if c then stash_completion cfg vw else retJ ()) st w
      = (Inr (Inr (), st'), w') \<and> as_reported ((=) (''failed'', reason, cls)) st'" for reason cls c
  proof -
    obtain st1 w1 where f: "fail_run env cfg n vw reason cls st w = (Inr (Inr (), st1), w1)" "wd_jobs w1 = wd_jobs w"
        "as_reported ((=) (''failed'', reason, cls)) st1" using fail by blast
    then show ?thesis using stash_keeps [OF f(3) legible [OF f(2)], of cfg]
      by (cases c) (auto simp: bindJ_def bindE_def retJ_def ret_def)
  qed
  have tells: "\<exists>st' w'. fail_run env cfg n vw reason cls st w = (Inr (Inr (), st'), w')
      \<and> as_reported ((=) (''failed'', reason, cls)) st'" for reason cls using fail [of reason cls] by blast
  show ?thesis
    unfolding run_failed_def told_failure_def None option.case using assms after tells by (cases e) auto
qed

text \<open>What a body that returned has reported.\<close>

definition told_shipping :: "string \<times> string \<times> string \<Rightarrow> bool" where
  "told_shipping p \<longleftrightarrow> fst p = ''pr-open'' \<or> fst p = ''empty-pr''"

lemma publish_gives: "gives (as_reported told_shipping) (publish_pr env repo wd n existing p hollow)"
proof -
  have "gives (as_reported told_shipping) (bindJ (report (\<lambda>r. r\<lparr>rt_phase := (if hollow then ''empty-pr'' else ''pr-open'')\<rparr>)) (\<lambda>_.
      bindJ (looking (\<lambda>st. rt_run_id (rs_report st))) (\<lambda>rid.
      bindJ (doing (emit env ''pr-open'' n rid [])) (\<lambda>_. retJ ()))))"
    by (rule gives_first [where E = "\<lambda>_. True"])
      (auto intro!: gives_report ends_bind simp: as_reported_def told_shipping_def simp del: bindJ_simps)
  note tail = this
  show ?thesis unfolding publish_pr_def Let_def
    by (rule tail | rule gives_last | split prod.split, intro allI impI)+
qed

lemma body_gives: "gives (as_reported told_shipping) (run_to_pr env cfg n vw completion)"
proof -
  have "gives (as_reported told_shipping) (bindJ (publish_pr env repo wd m existing p hollow) (\<lambda>_.
      bindJ (push_run_evidence env cfg k vw) (\<lambda>pushed. report (\<lambda>r. r\<lparr>rt_evidence_pushed := pushed\<rparr>))))"
    for repo wd m existing p hollow k
    by (rule gives_first [OF publish_gives, where E = "\<lambda>_. True"])
      (auto intro!: ends_bind evidence_keeps simp: as_reported_def)
  note tail = this
  show ?thesis unfolding run_to_pr_def Let_def
    by (rule tail | rule gives_last | split prod.split, intro allI impI)+
qed

definition run_start :: "driver_config \<Rightarrow> issue \<Rightarrow> run_view \<Rightarrow> world \<Rightarrow> world" where
  "run_start cfg i vw w = snd (write_issue_metadata (vw_run_id vw) i 1 (snd (job_create (vw_run_id vw) w)))"

definition first_state :: "issue \<Rightarrow> run_view \<Rightarrow> run_state" where
  "first_state i vw = \<lparr>rs_report = new_report (vw_run_id vw) (is_number i), rs_context = new_context\<rparr>"

lemma execute_run_unfolds:
  "execute_run env cfg i vw completion w =
     (case run_body env cfg i vw completion (first_state i vw) (run_start cfg i vw w) of
        (Inl e, w') \<Rightarrow> (Inl e, w')
      | (Inr (Inl e, st), w') \<Rightarrow> (Inl e, w')
      | (Inr (Inr _, st), w') \<Rightarrow> (Inr (rs_report st), w'))"
  by (simp add: execute_run_def run_start_def first_state_def job_create_def write_issue_metadata_def job_changing_def
      bindE_def ret_def raise_def split: prod.split sum.split)

text \<open>The body inside \<open>try\<close>, and what becomes of the job directory after it.\<close>

definition tried :: "env \<Rightarrow> driver_config \<Rightarrow> issue \<Rightarrow> run_view \<Rightarrow> carryover option \<Rightarrow> unit job" where
  "tried env cfg i vw completion =
     catchJ (run_to_pr env cfg (is_number i) vw completion) (run_failed env cfg (is_number i) vw completion)"

lemma run_body_tried: "run_body env cfg i vw completion = finallyJ (tried env cfg i vw completion) (tidy_job vw)"
  by (simp add: run_body_def tried_def Let_def)

lemma reports_what_is_tried:
  assumes "tried env cfg i vw completion (first_state i vw) (run_start cfg i vw w) = (Inr (r, st), w2)" "as_reported p st"
  shows "case r of
      Inl e \<Rightarrow> \<exists>w3. execute_run env cfg i vw completion w = (Inl e, w3)
    | Inr _ \<Rightarrow> \<exists>x w3. execute_run env cfg i vw completion w = (Inr x, w3) \<and> p (rt_phase x, rt_reason x, rt_failure_class x)"
proof -
  obtain u st3 w3 where "tidy_job vw st w2 = (Inr (u, st3), w3)" "as_reported p st3" "\<And>e. u = Inl e \<Longrightarrow> False"
    by (rule ends_inE [OF tidy_keeps [where E = "\<lambda>_. False"] assms(2), of vw w2]) auto
  then have "run_body env cfg i vw completion (first_state i vw) (run_start cfg i vw w) = (Inr (r, st3), w3)"
    using assms(1) by (cases u) (simp_all add: run_body_tried finallyJ_def bindE_def ret_def)
  then show ?thesis using \<open>as_reported p st3\<close>
    by (cases r) (simp_all add: execute_run_unfolds as_reported_def)
qed

lemma reports_shipping:
  assumes "run_to_pr env cfg (is_number i) vw completion (first_state i vw) (run_start cfg i vw w) = (Inr (Inr x, st), w1)"
  shows "\<exists>r w2. execute_run env cfg i vw completion w = (Inr r, w2) \<and> rt_phase r \<in> {''pr-open'', ''empty-pr''}"
proof -
  have "as_reported told_shipping st" using body_gives assms unfolding gives_def by blast
  moreover have "tried env cfg i vw completion (first_state i vw) (run_start cfg i vw w) = (Inr (Inr x, st), w1)"
    using assms by (simp add: tried_def catchJ_def bindE_def ret_def)
  ultimately show ?thesis using reports_what_is_tried by (fastforce simp: told_shipping_def)
qed

lemma reports_divergence:
  assumes "run_to_pr env cfg (is_number i) vw completion (first_state i vw) (run_start cfg i vw w) = (Inr (Inl Diverges, st), w1)"
  shows "\<exists>w2. execute_run env cfg i vw completion w = (Inl Diverges, w2)"
proof -
  have "tried env cfg i vw completion (first_state i vw) (run_start cfg i vw w) = (Inr (Inl Diverges, st), w1)"
    using assms by (simp add: tried_def catchJ_def bindE_def run_failed_def raiseJ_def ret_def)
  from reports_what_is_tried [OF this, of "\<lambda>_. True"] show ?thesis by (simp add: as_reported_def)
qed

lemma reports_failure:
  assumes "run_to_pr env cfg (is_number i) vw completion (first_state i vw) (run_start cfg i vw w) = (Inr (Inl e, st), w1)"
    "e \<noteq> Diverges"
  shows "case evidence_fault cfg (job_files (vw_run_id vw) w1) of
      Some f \<Rightarrow> \<exists>w2. execute_run env cfg i vw completion w = (Inl f, w2)
    | None \<Rightarrow> \<exists>r w2. execute_run env cfg i vw completion w = (Inr r, w2)
         \<and> (rt_phase r, rt_reason r, rt_failure_class r) = told_failure e"
proof -
  have failed: "tried env cfg i vw completion (first_state i vw) (run_start cfg i vw w)
      = run_failed env cfg (is_number i) vw completion e st w1"
    using assms(1) by (simp add: tried_def catchJ_def bindE_def)
  note outcome = run_failed_tells [OF assms(2), where cfg = cfg and vw = vw and w = w1 and env = env
      and n = "is_number i" and completion = completion and st = st]
  show ?thesis
  proof (cases "evidence_fault cfg (job_files (vw_run_id vw) w1)")
    case (Some f)
    then obtain st2 w2 where "run_failed env cfg (is_number i) vw completion e st w1 = (Inr (Inl f, st2), w2)"
      using outcome by auto
    from reports_what_is_tried [OF failed [unfolded this], of "\<lambda>_. True"] Some show ?thesis by (simp add: as_reported_def)
  next
    case None
    then obtain st2 w2 where told: "run_failed env cfg (is_number i) vw completion e st w1 = (Inr (Inr (), st2), w2)"
        "as_reported ((=) (told_failure e)) st2"
      using outcome by auto
    from reports_what_is_tried [OF failed [unfolded told(1)] told(2)] None show ?thesis by fastforce
  qed
qed

text \<open>
  C40: A Run ends in a report exactly when the files its failure path reads back can be read. When the body returned, the
  report says that the pull request is open. When it raised, wherever that was (GitHub, git, the container, the
  agent, the gate, the proposal, the evidence), the report says failed, with the reason and the class of the failure,
  or that the driver failed, if the job directory the body left has a transcript that is UTF-8 and can be counted, an
  identity record that is UTF-8 and a proposal that is UTF-8 (or lacks them); otherwise the failure path raises the
  error of the first of these reads itself and \<open>execute_run\<close> ends in that exception, without a report.
\<close>

theorem run_always_reports:
  "\<exists>b st w1. run_to_pr env cfg (is_number i) vw completion (first_state i vw) (run_start cfg i vw w) = (Inr (b, st), w1)
     \<and> (case b of
          Inr _ \<Rightarrow> \<exists>r w2. execute_run env cfg i vw completion w = (Inr r, w2) \<and> rt_phase r \<in> {''pr-open'', ''empty-pr''}
        | Inl e \<Rightarrow>
            if e = Diverges then \<exists>w2. execute_run env cfg i vw completion w = (Inl Diverges, w2)
            else (case evidence_fault cfg (job_files (vw_run_id vw) w1) of
                Some f \<Rightarrow> \<exists>w2. execute_run env cfg i vw completion w = (Inl f, w2)
              | None \<Rightarrow> \<exists>r w2. execute_run env cfg i vw completion w = (Inr r, w2)
                   \<and> (rt_phase r, rt_reason r, rt_failure_class r) = told_failure e))"
proof -
  obtain b st w1 where body: "run_to_pr env cfg (is_number i) vw completion (first_state i vw) (run_start cfg i vw w)
      = (Inr (b, st), w1)"
    by (rule ends_inE [OF body_hands_on TrueI, of env cfg "is_number i" vw completion "first_state i vw" "run_start cfg i vw w"])
      blast
  show ?thesis
  proof (cases b)
    case (Inr x)
    show ?thesis using reports_shipping [OF body [unfolded Inr]] body Inr
      by (intro exI [of _ b] exI [of _ st] exI [of _ w1] conjI) simp_all
  next
    case (Inl e)
    show ?thesis
    proof (cases "e = Diverges")
      case True
      show ?thesis using reports_divergence [OF body [unfolded Inl True]] body Inl True
        by (intro exI [of _ b] exI [of _ st] exI [of _ w1] conjI) simp_all
    next
      case False
      show ?thesis using reports_failure [OF body [unfolded Inl] False] body Inl False
        by (intro exI [of _ b] exI [of _ st] exI [of _ w1] conjI) simp_all
    qed
  qed
qed

subsection \<open>At work\<close>

text \<open>A daemon that cannot be told: the grant is abandoned.\<close>

definition demo_mute :: env where
  "demo_mute = demo_github\<lparr>en_emit := (\<lambda>_. False)\<rparr>"

definition demo_view :: run_view where
  "demo_view = \<lparr>vw_run_id = ''r'', vw_session = demo_unlaunched, vw_adopted = None, vw_checkout = False, vw_push = [],
     vw_gone = True, vw_park = \<lparr>pk_plain = True, pk_fallback = False, pk_removed = False, pk_tombstone = False, pk_suffix = []\<rparr>,
     vw_stashed = False\<rparr>"

definition demo_issue :: issue where
  "demo_issue = \<lparr>is_number = 7, is_title = ''t'', is_body = [], is_labels = [], is_assignees = [], is_is_pr = False, is_state = ''open'', is_state_reason = [], is_repo = ''o/r''\<rparr>"

lemma abandoned: "\<exists>w'. execute_claim demo_mute demo_driver demo_issue (\<lambda>_. demo_view) w = (Inr [], w')"
  by (simp add: execute_claim_def claim_runs.simps announce_def bindE_def emit_def demo_mute_def ret_def Let_def
      ACTIVATION_ATTEMPTS_def numeral_3_eq_3)

theorem claim_ends_once_witness:
  "\<exists>w'. execute_claim demo_mute demo_driver demo_issue (\<lambda>_. demo_view) (world_of empty_store) = (Inr [], w')
     \<and> (\<exists>w1. shipping ''o/r'' (world_of empty_store) w1 \<and> hushed w1 w')"
proof -
  obtain w' where run: "execute_claim demo_mute demo_driver demo_issue (\<lambda>_. demo_view) (world_of empty_store) = (Inr [], w')"
    using abandoned by blast
  have "dv_repo demo_driver = ''o/r''" by (simp add: demo_driver_def)
  with claim_ends_once [OF run] obtain w1 rs where "shipping ''o/r'' (world_of empty_store) w1"
      "wd_requests w' = wd_requests w1 @ rs" "writes_of rs = []" by auto
  then show ?thesis using run by (auto simp: hushed_def writes_of_def list_all_iff filter_empty_conv)
qed



end
