(* ===== verification/Sessions.thy ===== *)
theory Sessions
  imports Jobdir
begin

text \<open>
  One run container as its driver and its harness see it: \<open>ContainerSession\<close> of \<open>worker/.../sessions.py\<close> and
  \<open>serve_jobs\<close> of \<open>worker/.../harness/main.py\<close>. The two sides share only the job directory, so their composition
  is a step relation whose steps are the file operations of either side; the wall-clock loops of the driver
  are functions of what their polls saw.
\<close>

definition pad3 :: "nat \<Rightarrow> string" where
  "pad3 n = replicate (3 - length (show_nat n)) (CHR ''0'') @ show_nat n"

datatype driver_phase = Idle | Waiting job_request | Given_Up | Closed

datatype harness_phase = Scanning | Serving "string list" | Running job_request "string list" | Stopped string | Crashed

record session =
  se_files :: job_dir
  se_sequence :: nat
  se_driver :: driver_phase
  se_harness :: harness_phase
  se_submitted :: "job_request list"
  se_ran :: "job_request list"
  se_results :: "(job_request \<times> job_result) list"
  se_answers :: "(job_request \<times> bool \<times> string) list"

definition new_session :: "job_dir \<Rightarrow> session" where
  "new_session job = \<lparr>se_files = job, se_sequence = 0, se_driver = Idle, se_harness = Scanning, se_submitted = [],
     se_ran = [], se_results = [], se_answers = []\<rparr>"

subsection \<open>The driver's steps\<close>

definition next_request :: "nat \<Rightarrow> string \<Rightarrow> string \<Rightarrow> json \<Rightarrow> job_request" where
  "next_request n name command timeout =
     \<lparr>jq_name = pad3 (Suc n) @ ''-'' @ name, jq_command = command, jq_timeout = timeout\<rparr>"

text \<open>The first half of \<open>run_job\<close>: the request is written under the next sequence number.\<close>

definition submit_job :: "string \<Rightarrow> string \<Rightarrow> json \<Rightarrow> driver_phase \<Rightarrow> session \<Rightarrow> session" where
  "submit_job name command timeout phase s =
     (let q = next_request (se_sequence s) name command timeout in
      s\<lparr>se_sequence := Suc (se_sequence s), se_files := write_job_request q (se_files s), se_driver := phase,
        se_submitted := se_submitted s @ [q]\<rparr>)"

definition run_job_begin :: "string \<Rightarrow> string \<Rightarrow> json \<Rightarrow> session \<Rightarrow> session" where
  "run_job_begin name command timeout s =
     submit_job name command timeout (Waiting (next_request (se_sequence s) name command timeout)) s"

text \<open>One poll of \<open>run_job\<close> that found the result.\<close>

definition run_job_poll :: "session \<Rightarrow> session option" where
  "run_job_poll s =
     (case se_driver s of
        Waiting q \<Rightarrow>
          (case read_job_result (jq_name q) (se_files s) of
             Some (Some r) \<Rightarrow> Some (s\<lparr>se_driver := Idle, se_answers := se_answers s @ [(q, jr_ok r, jr_output r)]\<rparr>)
           | _ \<Rightarrow> None)
      | _ \<Rightarrow> None)"

text \<open>The request of \<open>finish\<close>, with the default timeout.\<close>

definition finish_request :: "session \<Rightarrow> session" where
  "finish_request s = submit_job ''shutdown'' [] (JFloat 900 ''900.0'') Closed s"

subsection \<open>The harness's steps\<close>

text \<open>Up to the runner call: the pass over the pending requests, one request at a time.\<close>

definition stem :: "string \<Rightarrow> string" where
  "stem name = take (length name - 5) name"

definition unreadable_result :: "string \<Rightarrow> job_result" where
  "unreadable_result name = \<lparr>jr_name = stem name, jr_ok = False, jr_exit_code = - 1, jr_output = ''unreadable request''\<rparr>"

definition harness_step :: "session \<Rightarrow> session" where
  "harness_step s =
     (case se_harness s of
        Scanning \<Rightarrow>
          (case pending_job_requests (se_files s) of
             [] \<Rightarrow> s
           | p # ps \<Rightarrow> s\<lparr>se_harness := Serving (p # ps)\<rparr>)
      | Serving [] \<Rightarrow> s\<lparr>se_harness := Scanning\<rparr>
      | Serving (p # ps) \<Rightarrow>
          (case read_job_request (JOBS_IN_DIR @ ''/'' @ p) (se_files s) of
             None \<Rightarrow> s\<lparr>se_harness := Crashed\<rparr>
           | Some None \<Rightarrow> s\<lparr>se_harness := Serving ps, se_files := write_job_result (unreadable_result p) (se_files s)\<rparr>
           | Some (Some q) \<Rightarrow>
               if jq_command q = [] then s\<lparr>se_harness := Stopped []\<rparr>
               else s\<lparr>se_harness := Running q ps, se_ran := se_ran s @ [q]\<rparr>)
      | _ \<Rightarrow> s)"

definition harness_result :: "bool \<Rightarrow> int \<Rightarrow> string \<Rightarrow> session \<Rightarrow> session option" where
  "harness_result ok code output s =
     (case se_harness s of
        Running q ps \<Rightarrow>
          (let r = \<lparr>jr_name = jq_name q, jr_ok = ok, jr_exit_code = code, jr_output = output\<rparr> in
           Some (s\<lparr>se_harness := Serving ps, se_files := write_job_result r (se_files s), se_results := se_results s @ [(q, r)]\<rparr>))
      | _ \<Rightarrow> None)"

definition idle_timeout_text :: string where
  "idle_timeout_text = ''idle timeout: no job or shutdown request from the driver''"

subsection \<open>The composition\<close>

text \<open>
  What the driver asks for has names without a slash, and its texts and the runner's output are text. The
  driver may give up at any poll, and the harness at any empty scan.
\<close>

definition plain_name :: "string \<Rightarrow> bool" where
  "plain_name name \<longleftrightarrow> is_text name \<and> CHR ''/'' \<notin> set name"

inductive protocol_step :: "session \<Rightarrow> session \<Rightarrow> bool" where
  submit: "se_driver s = Idle \<Longrightarrow> plain_name name \<Longrightarrow> is_text command \<Longrightarrow> timeout_value timeout
     \<Longrightarrow> protocol_step s (run_job_begin name command timeout s)"
| answer: "run_job_poll s = Some s' \<Longrightarrow> protocol_step s s'"
| give_up: "se_driver s = Waiting q \<Longrightarrow> protocol_step s (s\<lparr>se_driver := Given_Up\<rparr>)"
| shut: "se_driver s = Idle \<or> se_driver s = Given_Up \<Longrightarrow> protocol_step s (finish_request s)"
| harness: "protocol_step s (harness_step s)"
| result: "harness_result ok code output s = Some s' \<Longrightarrow> is_text output \<Longrightarrow> protocol_step s s'"
| idle: "se_harness s = Scanning \<Longrightarrow> pending_job_requests (se_files s) = []
     \<Longrightarrow> protocol_step s (s\<lparr>se_harness := Stopped idle_timeout_text\<rparr>)"

inductive_cases protocol_stepE: "protocol_step s s'"

definition fresh_job_dir :: "job_dir \<Rightarrow> bool" where
  "fresh_job_dir job \<longleftrightarrow> distinct (map fst job)
     \<and> (\<forall>p\<in>fst ` set job. \<not> startswith p (JOBS_IN_DIR @ ''/'') \<and> \<not> startswith p (JOBS_OUT_DIR @ ''/''))"

inductive reachable_session :: "job_dir \<Rightarrow> session \<Rightarrow> bool" for job where
  start: "reachable_session job (new_session job)"
| step: "reachable_session job s \<Longrightarrow> protocol_step s s' \<Longrightarrow> reachable_session job s'"

subsection \<open>Sequence numbers\<close>

lemma read_nat_zeros: "read_nat (replicate k (CHR ''0'') @ s) = read_nat s"
  by (induction k) (simp_all add: read_nat_def)

lemma read_pad3 [simp]: "read_nat (pad3 n) = n"
  by (simp add: pad3_def read_nat_zeros read_show_nat)

lemma pad3_digits: "c \<in> set (pad3 n) \<Longrightarrow> is_digit c"
  using isdigit_show_nat [of n] by (auto simp: pad3_def isdigit_def list_all_iff is_digit_def)

lemma pad3_not_dash: "CHR ''-'' \<notin> set (pad3 n)" "CHR ''/'' \<notin> set (pad3 n)"
proof -
  have "\<not> is_digit (CHR ''-'')" "\<not> is_digit (CHR ''/'')" by (simp_all add: is_digit_def)
  then show "CHR ''-'' \<notin> set (pad3 n)" "CHR ''/'' \<notin> set (pad3 n)" using pad3_digits by blast+
qed

lemma pad3_text [simp]: "is_text (pad3 n)"
proof (rule ascii_is_text)
  have "is_digit c \<Longrightarrow> (of_char c :: nat) < 128" for c by (simp add: is_digit_def)
  then show "ascii (pad3 n)" unfolding ascii_def list_all_iff using pad3_digits by blast
qed

lemma numbered_name_inject: "pad3 m @ ''-'' @ x = pad3 n @ ''-'' @ y \<Longrightarrow> m = n"
proof -
  assume e: "pad3 m @ ''-'' @ x = pad3 n @ ''-'' @ y"
  have t: "takeWhile (\<lambda>c. c \<noteq> CHR ''-'') (pad3 k @ ''-'' @ z) = pad3 k" for k z
  proof -
    have "takeWhile (\<lambda>c. c \<noteq> CHR ''-'') (pad3 k @ CHR ''-'' # z) = pad3 k @ takeWhile (\<lambda>c. c \<noteq> CHR ''-'') (CHR ''-'' # z)"
      using pad3_not_dash(1) [of k] by (intro takeWhile_append2) auto
    then show ?thesis by simp
  qed
  have "pad3 m = pad3 n" using arg_cong [OF e, of "takeWhile (\<lambda>c. c \<noteq> CHR ''-'')"] t by metis
  then show "m = n" by (metis read_pad3)
qed

subsection \<open>The files of a session\<close>

lemma written_paths: "fst ` set (atomic_write path t job) = insert path (fst ` set job)"
  by (induction path t job rule: atomic_write.induct) auto

lemma distinct_written: "distinct (map fst job) \<Longrightarrow> distinct (map fst (atomic_write path t job))"
proof (induction path t job rule: atomic_write.induct)
  case (2 path t p u job)
  have "p \<noteq> path \<Longrightarrow> p \<notin> fst ` set (atomic_write path t job)" using 2 by (simp add: written_paths)
  with 2 show ?case by auto
qed simp

lemma job_file_inject [simp]: "job_file dir x = job_file dir y \<longleftrightarrow> x = y"
  by (simp add: job_file_def)

lemma job_file_apart [simp]:
  "job_file JOBS_IN_DIR x \<noteq> job_file JOBS_OUT_DIR y" "job_file JOBS_OUT_DIR y \<noteq> job_file JOBS_IN_DIR x"
  "startswith (job_file JOBS_IN_DIR x) (JOBS_IN_DIR @ ''/'')" "startswith (job_file JOBS_OUT_DIR x) (JOBS_OUT_DIR @ ''/'')"
  "\<not> startswith (job_file JOBS_IN_DIR x) (JOBS_OUT_DIR @ ''/'')" "\<not> startswith (job_file JOBS_OUT_DIR x) (JOBS_IN_DIR @ ''/'')"
  by (simp_all add: job_file_def JOBS_IN_DIR_def JOBS_OUT_DIR_def startswith_def)

definition files_wired :: "job_dir \<Rightarrow> job_request list \<Rightarrow> (job_request \<times> job_result) list \<Rightarrow> bool" where
  "files_wired job submitted results \<longleftrightarrow>
     distinct (map fst job)
     \<and> (\<forall>p\<in>fst ` set job. startswith p (JOBS_IN_DIR @ ''/'') \<longrightarrow> (\<exists>q\<in>set submitted. p = job_file JOBS_IN_DIR (jq_name q)))
     \<and> (\<forall>p\<in>fst ` set job. startswith p (JOBS_OUT_DIR @ ''/'') \<longrightarrow> (\<exists>(q, r)\<in>set results. p = job_file JOBS_OUT_DIR (jq_name q)))
     \<and> (\<forall>q\<in>set submitted. plain_name (jq_name q) \<and> read_job_request (job_file JOBS_IN_DIR (jq_name q)) job = Some (Some q))
     \<and> (\<forall>(q, r)\<in>set results. q \<in> set submitted \<and> read_job_result (jq_name q) job = Some (Some r))"

lemma files_wiredD:
  assumes "files_wired job submitted results"
  shows "distinct (map fst job)"
    and "p \<in> fst ` set job \<Longrightarrow> startswith p (JOBS_IN_DIR @ ''/'') \<Longrightarrow> \<exists>q\<in>set submitted. p = job_file JOBS_IN_DIR (jq_name q)"
    and "p \<in> fst ` set job \<Longrightarrow> startswith p (JOBS_OUT_DIR @ ''/'') \<Longrightarrow> \<exists>(q, r)\<in>set results. p = job_file JOBS_OUT_DIR (jq_name q)"
    and "q \<in> set submitted \<Longrightarrow> plain_name (jq_name q)"
    and "q \<in> set submitted \<Longrightarrow> read_job_request (job_file JOBS_IN_DIR (jq_name q)) job = Some (Some q)"
    and "(q, r) \<in> set results \<Longrightarrow> q \<in> set submitted \<and> read_job_result (jq_name q) job = Some (Some r)"
  using assms unfolding files_wired_def by auto

lemma read_result_other:
  "jr_name r \<noteq> name \<Longrightarrow> read_job_result name (write_job_result r job) = read_job_result name job"
  by (simp add: read_job_result_def write_job_result_def read_other_json)

lemma reads_across [simp]:
  "read_job_result name (write_job_request q job) = read_job_result name job"
  "read_job_request (job_file JOBS_IN_DIR name) (write_job_result r job) = read_job_request (job_file JOBS_IN_DIR name) job"
  by (simp_all add: read_job_result_def read_job_request_def write_job_result_def write_job_request_def read_other_json)

lemma read_request_other:
  "jq_name q \<noteq> name \<Longrightarrow> read_job_request (job_file JOBS_IN_DIR name) (write_job_request q job) = read_job_request (job_file JOBS_IN_DIR name) job"
  by (simp add: read_job_request_def write_job_request_def read_other_json)

lemma files_wired_request:
  assumes "files_wired job submitted results" "jq_name q \<notin> jq_name ` set submitted" "plain_name (jq_name q)" "text_request q"
  shows "files_wired (write_job_request q job) (submitted @ [q]) results"
proof -
  have paths: "fst ` set (write_job_request q job) = insert (job_file JOBS_IN_DIR (jq_name q)) (fst ` set job)"
    by (simp add: write_job_request_def write_json_def written_paths)
  have "read_job_request (job_file JOBS_IN_DIR (jq_name p)) (write_job_request q job) = Some (Some p)"
    if "p \<in> set (submitted @ [q])" for p
    using that assms(2) files_wiredD(5) [OF assms(1), of p] read_request_other [of q "jq_name p" job] request_reads_back [OF assms(4)]
    by (cases "p = q") auto
  moreover have "distinct (map fst (write_job_request q job))"
    using files_wiredD(1) [OF assms(1)] by (simp add: write_job_request_def write_json_def distinct_written)
  ultimately show ?thesis using assms(1,3) unfolding files_wired_def paths by auto
qed

lemma files_wired_result:
  assumes "files_wired job submitted results" "jq_name q \<notin> jq_name ` fst ` set results" "q \<in> set submitted"
    "jr_name r = jq_name q" "is_text (jr_output r)"
  shows "files_wired (write_job_result r job) submitted (results @ [(q, r)])"
proof -
  have paths: "fst ` set (write_job_result r job) = insert (job_file JOBS_OUT_DIR (jq_name q)) (fst ` set job)"
    by (simp add: write_job_result_def write_json_def written_paths assms(4))
  have name: "is_text (jr_name r)" using files_wiredD(4) [OF assms(1,3)] assms(4) by (simp add: plain_name_def)
  have "read_job_result (jq_name p) (write_job_result r job) = Some (Some r')"
    if p: "(p, r') \<in> set (results @ [(q, r)])" for p r'
  proof (cases "(p, r') \<in> set results")
    case True
    then have "jq_name p \<in> jq_name ` fst ` set results" by (metis fst_conv image_eqI)
    then have "jr_name r \<noteq> jq_name p" using assms(2,4) by metis
    then show ?thesis using read_result_other files_wiredD(6) [OF assms(1) True] by simp
  next
    case False
    then show ?thesis using p result_reads_back [OF name assms(5), of job] assms(4) by auto
  qed
  moreover have "distinct (map fst (write_job_result r job))"
    using files_wiredD(1) [OF assms(1)] by (simp add: write_job_result_def write_json_def distinct_written)
  ultimately show ?thesis using assms(1,3) unfolding files_wired_def paths by (auto simp: case_prod_beta)
qed

subsection \<open>What is pending\<close>

lemma startswith_split: "startswith p d \<Longrightarrow> p = d @ drop (length d) p"
  by (metis append_take_drop_id startswith_def)

lemma drop_prefix: "startswith p d \<Longrightarrow> drop (length d) p = n \<longleftrightarrow> p = d @ n"
  using startswith_split [of p d] by auto

lemma json_names_alt:
  "json_names dir job =
     filter (\<lambda>n. CHR ''/'' \<notin> set n \<and> endswith n ''.json'')
       (map (drop (length (dir @ ''/''))) (filter (\<lambda>p. startswith p (dir @ ''/'')) (map fst job)))"
  by (simp add: json_names_def)

lemma json_names_iff:
  "n \<in> set (json_names dir job) \<longleftrightarrow> CHR ''/'' \<notin> set n \<and> endswith n ''.json'' \<and> dir @ ''/'' @ n \<in> fst ` set job"
proof -
  have s: "startswith ((dir @ ''/'') @ n) (dir @ ''/'')" by (simp add: startswith_def)
  have "n \<in> drop (length (dir @ ''/'')) ` {p \<in> fst ` set job. startswith p (dir @ ''/'')} \<longleftrightarrow> (dir @ ''/'') @ n \<in> fst ` set job"
    (is "?l = ?r")
  proof
    assume ?l
    then obtain p where p: "n = drop (length (dir @ ''/'')) p" "p \<in> fst ` set job" "startswith p (dir @ ''/'')" by blast
    then show ?r using drop_prefix [OF p(3), of n] by metis
  next
    assume r: ?r
    then show ?l using s drop_prefix [OF s, of n] by (intro image_eqI [of _ _ "(dir @ ''/'') @ n"]) auto
  qed
  then show ?thesis unfolding json_names_alt by auto
qed

lemma json_names_distinct: "distinct (map fst job) \<Longrightarrow> distinct (json_names dir job)"
proof -
  assume d: "distinct (map fst job)"
  have "inj_on (drop (length (dir @ ''/''))) {p. startswith p (dir @ ''/'')}"
  proof (rule inj_onI)
    fix x y assume "x \<in> {p. startswith p (dir @ ''/'')}" "y \<in> {p. startswith p (dir @ ''/'')}"
      "drop (length (dir @ ''/'')) x = drop (length (dir @ ''/'')) y"
    then show "x = y" using drop_prefix [of x "dir @ ''/''"] drop_prefix [of y "dir @ ''/''"] by (metis mem_Collect_eq)
  qed
  then have "distinct (map (drop (length (dir @ ''/''))) (filter (\<lambda>p. startswith p (dir @ ''/'')) (map fst job)))"
    using distinct_filter [OF d] unfolding distinct_map [of "drop _"] by (auto intro: inj_on_subset)
  then show ?thesis unfolding json_names_alt by simp
qed

lemma job_file_name: "dir @ CHR ''/'' # n @ ''.json'' = job_file dir n"
  by (simp add: job_file_def)

lemma pending_wired:
  assumes "files_wired job submitted results"
  shows "distinct (pending_job_requests job)"
    and "p \<in> set (pending_job_requests job)
      \<Longrightarrow> \<exists>q\<in>set submitted. p = jq_name q @ ''.json'' \<and> jq_name q \<notin> jq_name ` fst ` set results"
    and "q \<in> set submitted \<Longrightarrow> jq_name q \<notin> jq_name ` fst ` set results \<Longrightarrow> hd (jq_name q @ ''.json'') \<noteq> CHR ''.''
      \<Longrightarrow> jq_name q @ ''.json'' \<in> set (pending_job_requests job)"
proof -
  show "distinct (pending_job_requests job)"
    using json_names_distinct [OF files_wiredD(1) [OF assms]] by (simp add: pending_job_requests_def)
next
  assume "p \<in> set (pending_job_requests job)"
  then have p: "JOBS_IN_DIR @ ''/'' @ p \<in> fst ` set job" "p \<notin> set (json_names JOBS_OUT_DIR job)"
    "CHR ''/'' \<notin> set p" "endswith p ''.json''"
    by (auto simp: pending_job_requests_def json_names_iff)
  have "startswith (JOBS_IN_DIR @ ''/'' @ p) (JOBS_IN_DIR @ ''/'')" by (simp add: startswith_def)
  then obtain q where q: "q \<in> set submitted" "JOBS_IN_DIR @ ''/'' @ p = job_file JOBS_IN_DIR (jq_name q)"
    using files_wiredD(2) [OF assms p(1)] by blast
  then have name: "p = jq_name q @ ''.json''" by (simp add: job_file_def)
  have "jq_name q \<notin> jq_name ` fst ` set results"
  proof
    assume "jq_name q \<in> jq_name ` fst ` set results"
    then obtain q' r where r: "(q', r) \<in> set results" "jq_name q' = jq_name q" by auto
    then have "read_job_result (jq_name q) job = Some (Some r)" using files_wiredD(6) [OF assms] by metis
    then have "map_of job (job_file JOBS_OUT_DIR (jq_name q)) \<noteq> None"
      by (auto simp: read_job_result_def read_json_def split: option.splits)
    then have "job_file JOBS_OUT_DIR (jq_name q) \<in> fst ` set job" by (simp add: map_of_eq_None_iff)
    then show False using p(2-4) name by (simp add: json_names_iff job_file_def)
  qed
  then show "\<exists>q\<in>set submitted. p = jq_name q @ ''.json'' \<and> jq_name q \<notin> jq_name ` fst ` set results"
    using q(1) name by blast
next
  assume q: "q \<in> set submitted" "jq_name q \<notin> jq_name ` fst ` set results" "hd (jq_name q @ ''.json'') \<noteq> CHR ''.''"
  have "map_of job (job_file JOBS_IN_DIR (jq_name q)) \<noteq> None"
    using files_wiredD(5) [OF assms q(1)] by (auto simp: read_job_request_def read_json_def split: option.splits)
  then have "job_file JOBS_IN_DIR (jq_name q) \<in> fst ` set job" by (simp add: map_of_eq_None_iff)
  moreover have "job_file JOBS_OUT_DIR (jq_name q) \<notin> fst ` set job"
    using files_wiredD(3) [OF assms, of "job_file JOBS_OUT_DIR (jq_name q)"] q(2) by force
  moreover have "\<not> startswith (jq_name q @ ''.json'') ''.''" using q(3)
    by (cases "jq_name q @ ''.json''") (auto simp: startswith_def)
  ultimately show "jq_name q @ ''.json'' \<in> set (pending_job_requests job)"
    using files_wiredD(4) [OF assms q(1)]
    by (simp add: pending_job_requests_def json_names_iff job_file_name plain_name_def endswith_def)
qed

subsection \<open>The invariant of a session\<close>

definition queued :: "session \<Rightarrow> string list" where
  "queued s = (case se_harness s of Serving ps \<Rightarrow> ps | Running q ps \<Rightarrow> ps | _ \<Rightarrow> [])"

definition in_flight :: "session \<Rightarrow> job_request list" where
  "in_flight s = (case se_harness s of Running q ps \<Rightarrow> [q] | _ \<Rightarrow> [])"

definition numbered :: "job_request list \<Rightarrow> bool" where
  "numbered qs \<longleftrightarrow> (\<forall>i<length qs. \<exists>name. jq_name (qs ! i) = pad3 (Suc i) @ ''-'' @ name)"

definition session_inv :: "session \<Rightarrow> bool" where
  "session_inv s \<longleftrightarrow>
     files_wired (se_files s) (se_submitted s) (se_results s)
     \<and> numbered (se_submitted s) \<and> length (se_submitted s) = se_sequence s
     \<and> se_ran s = map fst (se_results s) @ in_flight s
     \<and> distinct (map jq_name (se_ran s)) \<and> set (se_ran s) \<subseteq> set (se_submitted s)
     \<and> distinct (queued s)
     \<and> (\<forall>p\<in>set (queued s). \<exists>q\<in>set (se_submitted s). p = jq_name q @ ''.json'' \<and> jq_name q \<notin> jq_name ` set (se_ran s))
     \<and> (\<forall>(q, ok, out)\<in>set (se_answers s). \<exists>r. (q, r) \<in> set (se_results s) \<and> jr_ok r = ok \<and> jr_output r = out)
     \<and> (\<forall>q. se_driver s = Waiting q \<longrightarrow> q \<in> set (se_submitted s))"

lemma numbered_append:
  "numbered qs \<Longrightarrow> numbered (qs @ [next_request (length qs) name command timeout])"
  by (auto simp: numbered_def nth_append next_request_def less_Suc_eq)

lemma numbered_new:
  assumes "numbered qs"
  shows "jq_name (next_request (length qs) name command timeout) \<notin> jq_name ` set qs"
proof
  assume "jq_name (next_request (length qs) name command timeout) \<in> jq_name ` set qs"
  then obtain i where i: "i < length qs" "pad3 (Suc (length qs)) @ ''-'' @ name = jq_name (qs ! i)"
    by (auto simp: in_set_conv_nth next_request_def)
  then obtain x where "pad3 (Suc (length qs)) @ ''-'' @ name = pad3 (Suc i) @ ''-'' @ x"
    using assms unfolding numbered_def by metis
  then show False using i(1) numbered_name_inject by blast
qed

lemma numbered_distinct: "numbered qs \<Longrightarrow> distinct (map jq_name qs)"
proof -
  assume n: "numbered qs"
  have "map jq_name qs ! i \<noteq> map jq_name qs ! j" if "i < length qs" "j < length qs" "i \<noteq> j" for i j
  proof -
    note ij = that
    obtain x where x: "jq_name (qs ! i) = pad3 (Suc i) @ ''-'' @ x" using n ij(1) unfolding numbered_def by blast
    obtain y where y: "jq_name (qs ! j) = pad3 (Suc j) @ ''-'' @ y" using n ij(2) unfolding numbered_def by blast
    show ?thesis using that numbered_name_inject [of "Suc i" x "Suc j" y] x y by auto
  qed
  then show ?thesis by (simp add: distinct_conv_nth)
qed

lemma session_invD:
  assumes "session_inv s"
  shows "files_wired (se_files s) (se_submitted s) (se_results s)" "numbered (se_submitted s)"
    "length (se_submitted s) = se_sequence s" "se_ran s = map fst (se_results s) @ in_flight s"
    "distinct (map jq_name (se_ran s))" "set (se_ran s) \<subseteq> set (se_submitted s)" "distinct (queued s)"
    "p \<in> set (queued s) \<Longrightarrow> \<exists>q\<in>set (se_submitted s). p = jq_name q @ ''.json'' \<and> jq_name q \<notin> jq_name ` set (se_ran s)"
    "(q, ok, out) \<in> set (se_answers s) \<Longrightarrow> \<exists>r. (q, r) \<in> set (se_results s) \<and> jr_ok r = ok \<and> jr_output r = out"
    "se_driver s = Waiting q \<Longrightarrow> q \<in> set (se_submitted s)"
  using assms unfolding session_inv_def by blast+

text \<open>A step that starts no job.\<close>

lemma session_inv_change:
  assumes "session_inv s" "se_ran s' = se_ran s" "distinct (queued s')" "set (queued s') \<subseteq> set (queued s)"
    and "numbered (se_submitted s')" "length (se_submitted s') = se_sequence s'" "set (se_submitted s) \<subseteq> set (se_submitted s')"
    and "files_wired (se_files s') (se_submitted s') (se_results s')" "se_ran s = map fst (se_results s') @ in_flight s'"
    and "\<And>a b c. (a, b, c) \<in> set (se_answers s') \<Longrightarrow> \<exists>x. (a, x) \<in> set (se_results s') \<and> jr_ok x = b \<and> jr_output x = c"
    and "\<And>q. se_driver s' = Waiting q \<Longrightarrow> q \<in> set (se_submitted s')"
  shows "session_inv s'"
  unfolding session_inv_def assms(2)
  using assms(3-11) session_invD(5,6) [OF assms(1)] session_invD(8) [OF assms(1)]
  by (intro conjI ballI) blast+

lemma inv_submit:
  assumes "session_inv s" "plain_name name" "is_text command" "timeout_value timeout"
    "phase = Closed \<or> phase = Waiting (next_request (se_sequence s) name command timeout)"
  shows "session_inv (submit_job name command timeout phase s)"
proof -
  let ?q = "next_request (se_sequence s) name command timeout"
  note len = session_invD(3) [OF assms(1)]
  have q: "plain_name (jq_name ?q)" "text_request ?q"
    using assms(2-4) pad3_not_dash(2) [of "Suc (se_sequence s)"]
      is_text_append [OF pad3_text is_text_append [OF ascii_is_text [of "''-''"], of name]]
    by (simp_all add: plain_name_def next_request_def text_request_def ascii_def)
  have new: "jq_name ?q \<notin> jq_name ` set (se_submitted s)"
    using numbered_new [OF session_invD(2) [OF assms(1)]] len by simp
  have "numbered (se_submitted s @ [?q])" using numbered_append [OF session_invD(2) [OF assms(1)]] len by simp
  moreover have "files_wired (write_job_request ?q (se_files s)) (se_submitted s @ [?q]) (se_results s)"
    by (rule files_wired_request [OF session_invD(1) [OF assms(1)] new q])
  ultimately show ?thesis using assms(5) len session_invD(4,7,9) [OF assms(1)]
    by (intro session_inv_change [OF assms(1)]) (auto simp: submit_job_def Let_def queued_def in_flight_def)
qed

lemma inv_answer:
  assumes "session_inv s" "run_job_poll s = Some s'"
  shows "session_inv s'"
proof -
  obtain q r where q: "se_driver s = Waiting q" "read_job_result (jq_name q) (se_files s) = Some (Some r)"
    "s' = s\<lparr>se_driver := Idle, se_answers := se_answers s @ [(q, jr_ok r, jr_output r)]\<rparr>"
    using assms(2) by (auto simp: run_job_poll_def split: driver_phase.splits option.splits)
  note wired = session_invD(1) [OF assms(1)]
  have "map_of (se_files s) (job_file JOBS_OUT_DIR (jq_name q)) \<noteq> None"
    using q(2) by (auto simp: read_job_result_def read_json_def split: option.splits)
  then have "job_file JOBS_OUT_DIR (jq_name q) \<in> fst ` set (se_files s)" by (simp add: map_of_eq_None_iff)
  from files_wiredD(3) [OF wired this] obtain q' r' where r: "(q', r') \<in> set (se_results s)" "jq_name q' = jq_name q"
    by auto
  have "q' \<in> set (se_submitted s)" "q \<in> set (se_submitted s)"
    using files_wiredD(6) [OF wired r(1)] session_invD(10) [OF assms(1) q(1)] by auto
  then have "q' = q" using numbered_distinct [OF session_invD(2) [OF assms(1)]] r(2)
    by (metis distinct_map inj_onD)
  moreover have "r' = r" using files_wiredD(6) [OF wired r(1)] r(2) q(2) by simp
  ultimately have "(q, r) \<in> set (se_results s)" using r(1) by simp
  show ?thesis
  proof (rule session_inv_change [OF assms(1)])
    fix a b c assume "(a, b, c) \<in> set (se_answers s')"
    then show "\<exists>x. (a, x) \<in> set (se_results s') \<and> jr_ok x = b \<and> jr_output x = c"
      using session_invD(9) [OF assms(1)] \<open>(q, r) \<in> set (se_results s)\<close> by (auto simp: q(3))
  qed (use session_invD(1-4,7) [OF assms(1)] in \<open>simp_all add: q(3) queued_def in_flight_def\<close>)
qed

lemma inv_scan:
  assumes "session_inv s" "se_harness s = Scanning" "pending_job_requests (se_files s) = ps"
  shows "session_inv (s\<lparr>se_harness := Serving ps\<rparr>)"
proof -
  note wired = session_invD(1) [OF assms(1)]
  have ran: "se_ran s = map fst (se_results s)" using session_invD(4) [OF assms(1)] assms(2) by (simp add: in_flight_def)
  have "distinct ps" "\<forall>p\<in>set ps. \<exists>q\<in>set (se_submitted s). p = jq_name q @ ''.json'' \<and> jq_name q \<notin> jq_name ` set (se_ran s)"
    using pending_wired(1,2) [OF wired] assms(3) ran by auto
  then show ?thesis using assms(1,2) ran unfolding session_inv_def by (simp add: queued_def in_flight_def)
qed

lemma inv_serve:
  assumes "session_inv s" "se_harness s = Serving (p # ps)"
  obtains q where "read_job_request (JOBS_IN_DIR @ ''/'' @ p) (se_files s) = Some (Some q)"
    "session_inv (s\<lparr>se_harness := Running q ps, se_ran := se_ran s @ [q]\<rparr>)" "q \<in> set (se_submitted s)" "p = jq_name q @ ''.json''"
proof -
  note wired = session_invD(1) [OF assms(1)]
  have queue: "queued s = p # ps" using assms(2) by (simp add: queued_def)
  obtain q where q: "q \<in> set (se_submitted s)" "p = jq_name q @ ''.json''" "jq_name q \<notin> jq_name ` set (se_ran s)"
    using session_invD(8) [OF assms(1), of p] queue by auto
  have read: "read_job_request (JOBS_IN_DIR @ ''/'' @ p) (se_files s) = Some (Some q)"
    using files_wiredD(5) [OF wired q(1)] q(2) by (simp add: job_file_def)
  have other: "x \<notin> jq_name ` set (se_ran s @ [q])"
    if "x @ ''.json'' \<in> set ps" "x \<notin> jq_name ` set (se_ran s)" for x
    using that q(2) session_invD(7) [OF assms(1)] queue by auto
  have "\<forall>p'\<in>set ps. \<exists>q'\<in>set (se_submitted s). p' = jq_name q' @ ''.json'' \<and> jq_name q' \<notin> jq_name ` set (se_ran s @ [q])"
  proof
    fix p' assume p': "p' \<in> set ps"
    then obtain q' where q': "q' \<in> set (se_submitted s)" "p' = jq_name q' @ ''.json''" "jq_name q' \<notin> jq_name ` set (se_ran s)"
      using session_invD(8) [OF assms(1), of p'] queue by auto
    then show "\<exists>q'\<in>set (se_submitted s). p' = jq_name q' @ ''.json'' \<and> jq_name q' \<notin> jq_name ` set (se_ran s @ [q])"
      using other [of "jq_name q'"] p' by blast
  qed
  moreover have "se_ran s = map fst (se_results s)" using session_invD(4) [OF assms(1)] assms(2) by (simp add: in_flight_def)
  moreover have "distinct ps" using session_invD(7) [OF assms(1)] queue by simp
  ultimately have "session_inv (s\<lparr>se_harness := Running q ps, se_ran := se_ran s @ [q]\<rparr>)"
    using assms q session_invD(5,6) [OF assms(1)] unfolding session_inv_def by (simp add: queued_def in_flight_def image_image)
  then show ?thesis using that read q by blast
qed

lemma inv_pause:
  assumes "session_inv s" "in_flight s = []" "h \<in> {Scanning, Crashed} \<or> h = Stopped e"
  shows "session_inv (s\<lparr>se_harness := h\<rparr>)"
proof (rule session_inv_change [OF assms(1)])
  show "se_ran s = map fst (se_results (s\<lparr>se_harness := h\<rparr>)) @ in_flight (s\<lparr>se_harness := h\<rparr>)"
    using session_invD(4) [OF assms(1)] assms(2,3) by (auto simp: in_flight_def)
qed (use session_invD(1-3,9,10) [OF assms(1)] assms(3) in \<open>auto simp: queued_def\<close>)

lemma inv_harness:
  assumes "session_inv s"
  shows "session_inv (harness_step s)"
proof (cases "se_harness s")
  case Scanning
  then show ?thesis using inv_scan [OF assms Scanning] assms
    by (auto simp: harness_step_def split: list.splits)
next
  case (Serving ps)
  then have idle: "in_flight s = []" by (simp add: in_flight_def)
  show ?thesis
  proof (cases ps)
    case Nil
    then show ?thesis using inv_pause [OF assms idle] Serving by (simp add: harness_step_def)
  next
    case (Cons p qs)
    obtain q where "read_job_request (JOBS_IN_DIR @ ''/'' @ p) (se_files s) = Some (Some q)"
      "session_inv (s\<lparr>se_harness := Running q qs, se_ran := se_ran s @ [q]\<rparr>)"
      using inv_serve [OF assms] Serving Cons by metis
    then show ?thesis using inv_pause [OF assms idle, of "Stopped []" "[]"] Serving Cons by (simp add: harness_step_def)
  qed
qed (use assms in \<open>simp_all add: harness_step_def\<close>)

lemma inv_result:
  assumes "session_inv s" "harness_result ok code output s = Some s'" "is_text output"
  shows "session_inv s'"
proof -
  obtain q ps where h: "se_harness s = Running q ps" using assms(2) by (auto simp: harness_result_def split: harness_phase.splits)
  let ?r = "\<lparr>jr_name = jq_name q, jr_ok = ok, jr_exit_code = code, jr_output = output\<rparr>"
  have s': "s' = s\<lparr>se_harness := Serving ps, se_files := write_job_result ?r (se_files s), se_results := se_results s @ [(q, ?r)]\<rparr>"
    using assms(2) h by (simp add: harness_result_def Let_def)
  have ran: "se_ran s = map fst (se_results s) @ [q]" using session_invD(4) [OF assms(1)] h by (simp add: in_flight_def)
  have new: "jq_name q \<notin> jq_name ` fst ` set (se_results s)" using session_invD(5) [OF assms(1)] ran by (simp add: image_image)
  have "q \<in> set (se_submitted s)" using session_invD(6) [OF assms(1)] ran by auto
  then have "files_wired (write_job_result ?r (se_files s)) (se_submitted s) (se_results s @ [(q, ?r)])"
    using files_wired_result [OF session_invD(1) [OF assms(1)] new] assms(3) by simp
  moreover have "\<exists>r. (a, r) \<in> set (se_results s @ [(q, ?r)]) \<and> jr_ok r = b \<and> jr_output r = c"
    if "(a, b, c) \<in> set (se_answers s)" for a b c
    using session_invD(9) [OF assms(1) that] by auto
  ultimately show ?thesis using ran h session_invD(2,3,7,10) [OF assms(1)]
    by (intro session_inv_change [OF assms(1)]) (simp_all add: s' queued_def in_flight_def)
qed

lemma inv_start: "fresh_job_dir job \<Longrightarrow> session_inv (new_session job)"
  by (auto simp: session_inv_def new_session_def fresh_job_dir_def files_wired_def numbered_def in_flight_def queued_def)

lemma inv_step:
  assumes "protocol_step s s'" "session_inv s"
  shows "session_inv s'"
  using assms
proof (cases rule: protocol_step.cases)
  case (submit name command timeout)
  then show ?thesis using inv_submit [OF assms(2)] by (simp add: run_job_begin_def)
next
  case (give_up q)
  then show ?thesis using session_invD(1-4,7,9) [OF assms(2)]
    by (intro session_inv_change [OF assms(2)]) (simp_all add: queued_def in_flight_def)
next
  case shut
  have "timeout_value (JFloat 900 ''900.0'')"
    by (simp add: timeout_value_def float_repr_def read_number_def digits_def is_digit_def read_fraction_def read_exponent_def
        trunc_decimal_def read_nat_def exponent_value_def Let_def)
  then show ?thesis unfolding shut(1) finish_request_def
    by (intro inv_submit [OF assms(2)]) (simp_all add: plain_name_def ascii_is_text ascii_def)
next
  case idle
  then show ?thesis unfolding idle(1) by (intro inv_pause [OF assms(2)]) (simp_all add: in_flight_def)
qed (use inv_answer inv_harness inv_result assms(2) in blast)+

lemma reachable_inv: "reachable_session job s \<Longrightarrow> fresh_job_dir job \<Longrightarrow> session_inv s"
  by (induction rule: reachable_session.induct) (simp_all add: inv_start inv_step)

text \<open>
  C31: Whatever the interleaving of driver and harness, every job the driver submits runs at most once, nothing
  else ever runs, and each answer the driver takes is the result the runner gave for that very job.
\<close>

theorem jobs_run_once_answers_match:
  assumes "reachable_session job s" "fresh_job_dir job"
  shows "distinct (map jq_name (se_ran s)) \<and> set (se_ran s) \<subseteq> set (se_submitted s) \<and> distinct (map jq_name (se_submitted s))
    \<and> (\<forall>(q, ok, out)\<in>set (se_answers s). q \<in> set (se_ran s) \<and> (\<exists>r. (q, r) \<in> set (se_results s) \<and> jr_ok r = ok \<and> jr_output r = out))"
proof -
  note inv = reachable_inv [OF assms]
  have "q \<in> set (se_ran s)" if "(q, r) \<in> set (se_results s)" for q r
    using that session_invD(4) [OF inv] by force
  then show ?thesis using session_invD(5,6,9) [OF inv] numbered_distinct [OF session_invD(2) [OF inv]] by blast
qed

definition demo_session :: session where
  "demo_session = run_job_begin ''gate'' ''make'' (JInt 9) (new_session [])"

lemma demo_session_reachable: "reachable_session [] demo_session" "fresh_job_dir []"
proof -
  have "protocol_step (new_session []) demo_session" unfolding demo_session_def
    by (rule protocol_step.submit) (simp_all add: new_session_def plain_name_def ascii_is_text ascii_def timeout_value_def)
  then show "reachable_session [] demo_session" by (rule reachable_session.step [OF reachable_session.start])
qed (simp add: fresh_job_dir_def)

lemma jobs_run_once_answers_match_witness: "distinct (map jq_name (se_ran demo_session))"
  using jobs_run_once_answers_match [OF demo_session_reachable] by blast

subsection \<open>Progress\<close>

definition serving :: "session \<Rightarrow> bool" where
  "serving s \<longleftrightarrow> (case se_harness s of Scanning \<Rightarrow> True | Serving ps \<Rightarrow> True | Running q ps \<Rightarrow> True | _ \<Rightarrow> False)"

text \<open>The steps the harness is away from its next result.\<close>

definition distance :: "session \<Rightarrow> nat" where
  "distance s = 4 * (length (se_submitted s) - length (se_results s))
     + (case se_harness s of Serving [] \<Rightarrow> 3 | Scanning \<Rightarrow> 2 | Serving (p # ps) \<Rightarrow> 1 | _ \<Rightarrow> 0)"

lemma results_bounded:
  assumes "session_inv s"
  shows "length (se_ran s) \<le> length (se_submitted s)"
proof -
  have "length (map jq_name (se_ran s)) = card (jq_name ` set (se_ran s))"
    using distinct_card [OF session_invD(5) [OF assms]] by simp
  also have "\<dots> \<le> card (jq_name ` set (se_submitted s))" using session_invD(6) [OF assms] by (intro card_mono) auto
  also have "\<dots> \<le> length (se_submitted s)" by (metis card_length length_map set_map)
  finally show ?thesis by simp
qed

lemma progress:
  assumes "session_inv s" "serving s" "\<forall>q\<in>set (se_submitted s). jq_command q \<noteq> []"
    and "q \<in> set (se_submitted s)" "q \<notin> fst ` set (se_results s)"
  shows "\<exists>s'. protocol_step s s' \<and> serving s' \<and> distance s' < distance s \<and> se_driver s' = se_driver s
    \<and> se_submitted s' = se_submitted s"
proof (cases "se_harness s")
  case Scanning
  have name: "jq_name q \<notin> jq_name ` fst ` set (se_results s)"
    using assms(4,5) files_wiredD(6) [OF session_invD(1) [OF assms(1)]] numbered_distinct [OF session_invD(2) [OF assms(1)]]
    by (auto simp: distinct_map dest: inj_onD)
  obtain i x where "jq_name q = pad3 (Suc i) @ ''-'' @ x"
    using session_invD(2) [OF assms(1)] assms(4) unfolding numbered_def by (metis in_set_conv_nth)
  moreover have "hd (pad3 n @ ''-'' @ x) \<noteq> CHR ''.''" for n
    using pad3_digits [of "hd (pad3 n)" n] by (cases "pad3 n") (auto simp: is_digit_def)
  ultimately have "hd (jq_name q) \<noteq> CHR ''.''" "jq_name q \<noteq> []" by simp_all
  then have "hd (jq_name q @ ''.json'') \<noteq> CHR ''.''" by simp
  then obtain p ps where "pending_job_requests (se_files s) = p # ps"
    using pending_wired(3) [OF session_invD(1) [OF assms(1)] assms(4) name] by (metis list.set_cases)
  then have "harness_step s = s\<lparr>se_harness := Serving (p # ps)\<rparr>" using Scanning by (simp add: harness_step_def)
  then show ?thesis using protocol_step.harness [of s] Scanning by (auto simp: serving_def distance_def)
next
  case (Serving ps)
  show ?thesis
  proof (cases ps)
    case Nil
    then have "harness_step s = s\<lparr>se_harness := Scanning\<rparr>" using Serving by (simp add: harness_step_def)
    then show ?thesis using protocol_step.harness [of s] Serving Nil by (auto simp: serving_def distance_def)
  next
    case (Cons p qs)
    obtain r where "read_job_request (JOBS_IN_DIR @ ''/'' @ p) (se_files s) = Some (Some r)" "r \<in> set (se_submitted s)"
      using inv_serve [OF assms(1)] Serving Cons by metis
    then have "harness_step s = s\<lparr>se_harness := Running r qs, se_ran := se_ran s @ [r]\<rparr>"
      using Serving Cons assms(3) by (simp add: harness_step_def)
    then show ?thesis using protocol_step.harness [of s] Serving Cons by (auto simp: serving_def distance_def)
  qed
next
  case (Running r ps)
  have less: "length (se_results s) < length (se_submitted s)"
    using results_bounded [OF assms(1)] session_invD(4) [OF assms(1)] Running by (simp add: in_flight_def)
  have "\<exists>s'. harness_result True 0 [] s = Some s' \<and> serving s' \<and> se_submitted s' = se_submitted s
      \<and> se_driver s' = se_driver s \<and> length (se_results s') = Suc (length (se_results s)) \<and> (\<exists>ps. se_harness s' = Serving ps)"
    using Running by (simp add: harness_result_def serving_def Let_def)
  then obtain s' where "harness_result True 0 [] s = Some s'" "serving s'" "se_submitted s' = se_submitted s" "se_driver s' = se_driver s"
      "length (se_results s') = Suc (length (se_results s))" "\<exists>ps. se_harness s' = Serving ps"
    by blast
  note s' = this
  have "protocol_step s s'" using protocol_step.result [of True 0 "[]"] s'(1) by simp
  moreover have "distance s' \<le> 4 * (length (se_submitted s') - length (se_results s')) + 3"
    using s'(6) by (auto simp: distance_def split: list.split)
  then have "distance s' < distance s" using s'(3,5) less by (simp add: distance_def Running)
  ultimately show ?thesis using s'(2-4) by blast
qed (use assms(2) in \<open>simp_all add: serving_def\<close>)

text \<open>
  C32: As long as the harness serves, the job the driver waits for can be brought to an answer: neither an old
  request nor the order of the files can keep it from being run.
\<close>

theorem waiting_job_gets_answer:
  assumes "reachable_session job s" "fresh_job_dir job" "se_driver s = Waiting q" "serving s"
    and "list_all (\<lambda>q. jq_command q \<noteq> []) (se_submitted s)"
  shows "\<exists>s' ok out. protocol_step\<^sup>*\<^sup>* s s' \<and> (q, ok, out) \<in> set (se_answers s') \<and> se_driver s' = Idle"
proof -
  have "session_inv s \<Longrightarrow> se_driver s = Waiting q \<Longrightarrow> serving s \<Longrightarrow> list_all (\<lambda>q. jq_command q \<noteq> []) (se_submitted s)
    \<Longrightarrow> \<exists>s' ok out. protocol_step\<^sup>*\<^sup>* s s' \<and> (q, ok, out) \<in> set (se_answers s') \<and> se_driver s' = Idle" for s
  proof (induction "distance s" arbitrary: s rule: less_induct)
    case less
    note q = session_invD(10) [OF less.prems(1,2)]
    show ?case
    proof (cases "q \<in> fst ` set (se_results s)")
      case True
      then obtain r where "(q, r) \<in> set (se_results s)" by force
      then have "run_job_poll s = Some (s\<lparr>se_driver := Idle, se_answers := se_answers s @ [(q, jr_ok r, jr_output r)]\<rparr>)"
        using files_wiredD(6) [OF session_invD(1) [OF less.prems(1)]] less.prems(2) by (simp add: run_job_poll_def)
      then have "protocol_step s (s\<lparr>se_driver := Idle, se_answers := se_answers s @ [(q, jr_ok r, jr_output r)]\<rparr>)"
        by (rule protocol_step.answer)
      then show ?thesis by (intro exI conjI, rule r_into_rtranclp) auto
    next
      case False
      obtain s' where s': "protocol_step s s'" "serving s'" "distance s' < distance s" "se_driver s' = Waiting q"
          "se_submitted s' = se_submitted s"
        using progress [OF less.prems(1,3) _ q False] less.prems(2,4) by (auto simp: list_all_iff)
      then have "\<exists>t ok out. protocol_step\<^sup>*\<^sup>* s' t \<and> (q, ok, out) \<in> set (se_answers t) \<and> se_driver t = Idle"
        using less.hyps [OF s'(3)] inv_step [OF s'(1) less.prems(1)] less.prems(4) by simp
      then show ?thesis using s'(1) by (meson converse_rtranclp_into_rtranclp)
    qed
  qed
  then show ?thesis using reachable_inv [OF assms(1,2)] assms(3-5) by blast
qed

lemma waiting_job_gets_answer_witness:
  "\<exists>s' ok out. protocol_step\<^sup>*\<^sup>* demo_session s'
     \<and> (next_request 0 ''gate'' ''make'' (JInt 9), ok, out) \<in> set (se_answers s') \<and> se_driver s' = Idle"
  by (rule waiting_job_gets_answer [OF demo_session_reachable])
    (simp_all add: demo_session_def run_job_begin_def submit_job_def new_session_def serving_def next_request_def Let_def)

subsection \<open>The waits of the driver\<close>

text \<open>
  One iteration of \<open>wait_for_agent\<close>: the status it reads, the liveness answer (or the error of the engine), the
  status of the last read and the clock. A wait that runs out of polls has not returned.
\<close>

record agent_poll =
  ap_status :: "status option"
  ap_alive :: "string + bool"
  ap_last :: "status option"
  ap_clock :: time

datatype session_exn = Session_Error string | Engine_Error string

definition agent_phase_over :: "status option \<Rightarrow> session_exn + agent_outcome option" where
  "agent_phase_over status =
     (case status of
        None \<Rightarrow> Inr None
      | Some s \<Rightarrow>
          if st_phase s = PHASE_FAILED
          then Inl (Session_Error (''harness failed: '' @ str_or (st_error s) ''no error recorded''))
          else if st_phase s \<in> {PHASE_SERVING_JOBS, PHASE_DONE}
          then Inr (Some (case st_agent s of None \<Rightarrow> no_outcome | Some a \<Rightarrow> a))
          else Inr None)"

text \<open>\<open>shown\<close> is the budget as the message prints it.\<close>

definition agent_gone :: "status option \<Rightarrow> session_exn + agent_outcome" where
  "agent_gone status =
     (case agent_phase_over status of
        Inl e \<Rightarrow> Inl e
      | Inr (Some a) \<Rightarrow> Inr a
      | Inr None \<Rightarrow> Inl (Session_Error ''run container exited before the agent phase completed''))"

fun wait_for_agent :: "time \<Rightarrow> string \<Rightarrow> agent_poll list \<Rightarrow> (session_exn + agent_outcome) option" where
  "wait_for_agent deadline shown [] = None"
| "wait_for_agent deadline shown (p # ps) =
     (case agent_phase_over (ap_status p) of
        Inl e \<Rightarrow> Some (Inl e)
      | Inr (Some a) \<Rightarrow> Some (Inr a)
      | Inr None \<Rightarrow>
          (case ap_alive p of
             Inl e \<Rightarrow> Some (Inl (Engine_Error e))
           | Inr False \<Rightarrow> Some (agent_gone (ap_last p))
           | Inr True \<Rightarrow>
               if deadline \<le> ap_clock p
               then Some (Inl (Session_Error (''agent phase did not complete within '' @ shown @ ''s'')))
               else wait_for_agent deadline shown ps))"

record job_poll =
  jp_result :: "job_result option"
  jp_alive :: "string + bool"
  jp_clock :: time

fun run_job_wait :: "time \<Rightarrow> string \<Rightarrow> string \<Rightarrow> job_poll list \<Rightarrow> (session_exn + bool \<times> string) option" where
  "run_job_wait deadline shown job_name [] = None"
| "run_job_wait deadline shown job_name (p # ps) =
     (case jp_result p of
        Some r \<Rightarrow> Some (Inr (jr_ok r, jr_output r))
      | None \<Rightarrow>
          (case jp_alive p of
             Inl e \<Rightarrow> Some (Inl (Engine_Error e))
           | Inr False \<Rightarrow> Some (Inl (Session_Error (''run container died while executing job '' @ job_name)))
           | Inr True \<Rightarrow>
               if deadline \<le> jp_clock p
               then Some (Inl (Session_Error (''job '' @ job_name @ '' produced no result within '' @ shown @ ''s'')))
               else run_job_wait deadline shown job_name ps))"

text \<open>The requests \<open>launch\<close> and \<open>finish\<close> make of the engine; an engine error of the shutdown is swallowed.\<close>

datatype engine_call = Remove string | Launch string | Wait string int

definition launch_calls :: "string \<Rightarrow> engine_call list" where
  "launch_calls name = [Remove name, Launch name]"

definition finish_calls :: "string \<Rightarrow> manifest \<Rightarrow> string + bool \<Rightarrow> engine_call list" where
  "finish_calls name m alive =
     (if serve_jobs_mode m \<and> alive = Inr True then [Wait name 60] else []) @ [Remove name]"

text \<open>
  The wait for the agent ends at the first poll past the deadline at the latest, and answers an outcome only when
  the harness reported one.
\<close>

lemma wait_for_agent_ends:
  assumes "p \<in> set ps" "deadline \<le> ap_clock p"
  shows "wait_for_agent deadline shown ps \<noteq> None"
  using assms by (induction ps) (auto split: sum.split option.split bool.split)

lemma wait_for_agent_outcome:
  assumes "wait_for_agent deadline shown ps = Some (Inr a)"
  shows "\<exists>p\<in>set ps. \<exists>s. (ap_status p = Some s \<or> ap_last p = Some s) \<and> st_phase s \<in> {PHASE_SERVING_JOBS, PHASE_DONE}
    \<and> a = (case st_agent s of None \<Rightarrow> no_outcome | Some a \<Rightarrow> a)"
  using assms
proof (induction ps)
  case (Cons p ps)
  have over: "\<exists>t. s = Some t \<and> st_phase t \<in> {PHASE_SERVING_JOBS, PHASE_DONE} \<and> b = (case st_agent t of None \<Rightarrow> no_outcome | Some a \<Rightarrow> a)"
    if "agent_phase_over s = Inr (Some b)" for s b
    using that by (auto simp: agent_phase_over_def split: option.splits if_splits)
  have gone: "agent_gone s = Inr b \<Longrightarrow> agent_phase_over s = Inr (Some b)" for s b
    by (auto simp: agent_gone_def split: sum.splits option.splits)
  consider "agent_phase_over (ap_status p) = Inr (Some a)" | "agent_phase_over (ap_last p) = Inr (Some a)"
    | "wait_for_agent deadline shown ps = Some (Inr a)"
    using Cons.prems gone by (auto split: sum.splits option.splits bool.splits if_splits)
  then show ?case
  proof cases
    case 1
    then show ?thesis using over by (metis list.set_intros(1))
  next
    case 2
    then show ?thesis using over by (metis list.set_intros(1))
  next
    case 3
    then show ?thesis using Cons.IH by (metis list.set_intros(2))
  qed
qed simp

lemma run_job_wait_ends:
  assumes "p \<in> set ps" "deadline \<le> jp_clock p"
  shows "run_job_wait deadline shown job_name ps \<noteq> None"
  using assms by (induction ps) (auto split: sum.split option.split bool.split)

end
