(* ===== verification/Store_Admission.thy ===== *)
theory Store_Admission
  imports Store_Access "HOL-Library.Multiset"
begin

text \<open>
  Who gets in: browser sessions refine a map from raw ids to expiries, a join token admits at most
  as many nodes as it has uses and none after its expiry, and the list of unregistered sightings
  is bounded, without duplicates. The digest function is assumed to be injective on the ids in
  play, the documented collision resistance of SHA-256.
\<close>

subsection \<open>Sessions\<close>

datatype session_op = Create string time | Check string | Delete string | Truncate

fun session_step :: "(string \<Rightarrow> string) \<Rightarrow> time \<Rightarrow> session_op \<Rightarrow> store \<Rightarrow> store" where
  "session_step digest now (Create raw ttl) s =
     (case create_session digest now raw ttl s of Inl _ \<Rightarrow> s | Inr s' \<Rightarrow> s')"
| "session_step digest now (Check raw) s = snd (session_active digest now raw s)"
| "session_step digest now (Delete raw) s = delete_session digest raw s"
| "session_step digest now Truncate s = truncate_sessions s"

definition session_run :: "(string \<Rightarrow> string) \<Rightarrow> (time \<times> session_op) list \<Rightarrow> store \<Rightarrow> store" where
  "session_run digest ops s = fold (\<lambda>(now, op). session_step digest now op) ops s"

text \<open>The contract: a map from raw ids to expiries; checking a session changes nothing.\<close>

fun session_spec :: "time \<Rightarrow> session_op \<Rightarrow> (string \<Rightarrow> time option) \<Rightarrow> string \<Rightarrow> time option" where
  "session_spec now (Create raw ttl) m = m(raw \<mapsto> now + ttl)"
| "session_spec now (Check raw) m = m"
| "session_spec now (Delete raw) m = m(raw := None)"
| "session_spec now Truncate m = Map.empty"

definition live_at :: "time \<Rightarrow> (string \<Rightarrow> time option) \<Rightarrow> string \<Rightarrow> bool" where
  "live_at now m raw \<longleftrightarrow> (\<exists>e. m raw = Some e \<and> now < e)"

text \<open>
  The simulation: at time \<open>now\<close> the table and the map hold the same unexpired sessions, and an id
  that the map does not know has no row.
\<close>

fun row_agrees :: "time \<Rightarrow> session_row option \<Rightarrow> time option \<Rightarrow> bool" where
  "row_agrees now None e \<longleftrightarrow> (case e of None \<Rightarrow> True | Some x \<Rightarrow> x \<le> now)"
| "row_agrees now (Some r) e \<longleftrightarrow> e = Some (ss_expires_at r)"

definition session_of :: "(string \<Rightarrow> string) \<Rightarrow> string \<Rightarrow> store \<Rightarrow> session_row option" where
  "session_of digest raw s = row_of ss_id_hash (digest raw) (t_sessions s)"

definition sessions_rel :: "(string \<Rightarrow> string) \<Rightarrow> time \<Rightarrow> store \<Rightarrow> (string \<Rightarrow> time option) \<Rightarrow> bool" where
  "sessions_rel digest now s m \<longleftrightarrow> (\<forall>raw. row_agrees now (session_of digest raw s) (m raw))"

lemma session_active_rel:
  assumes "sessions_rel digest now s m" "raw \<noteq> []"
  shows "fst (session_active digest now raw s) \<longleftrightarrow> live_at now m raw"
proof -
  have "row_agrees now (session_of digest raw s) (m raw)"
    using assms(1) by (simp add: sessions_rel_def)
  with assms(2) show ?thesis
    by (cases "session_of digest raw s")
      (auto simp: session_of_def session_active_def live_at_def split: option.splits)
qed

lemma row_agrees_later: "row_agrees now r e \<Longrightarrow> now \<le> now' \<Longrightarrow> row_agrees now' r e"
  by (cases r) (auto split: option.splits)

lemma sessions_rel_later:
  "sessions_rel digest now s m \<Longrightarrow> now \<le> now' \<Longrightarrow> sessions_rel digest now' s m"
  by (auto simp: sessions_rel_def intro: row_agrees_later)

lemma session_of_delete:
  assumes "inj digest"
  shows "session_of digest x (s\<lparr>t_sessions := delete_where (\<lambda>r. ss_id_hash r = digest raw) (t_sessions s)\<rparr>)
    = (if x = raw then None else session_of digest x s)"
proof (cases "x = raw")
  case False
  then have "digest raw \<noteq> digest x" using assms by (simp add: inj_eq)
  with False show ?thesis by (simp add: session_of_def row_of_delete_other)
qed (simp add: session_of_def)

lemma session_active_cases:
  "snd (session_active digest now raw s) = s
   \<or> (\<exists>r. session_of digest raw s = Some r \<and> ss_expires_at r \<le> now
        \<and> snd (session_active digest now raw s) =
          s\<lparr>t_sessions := delete_where (\<lambda>r. ss_id_hash r = digest raw) (t_sessions s)\<rparr>)"
  by (simp add: session_active_def session_of_def split: option.split)

lemma session_step_rel:
  assumes rel: "sessions_rel digest now s m" and inj: "inj digest"
    and fresh: "\<And>raw ttl. op = Create raw ttl \<Longrightarrow> m raw = None"
  shows "sessions_rel digest now (session_step digest now op s) (session_spec now op m)"
  unfolding sessions_rel_def
proof
  fix x
  have at: "row_agrees now (session_of digest y s) (m y)" for y
    using rel by (simp add: sessions_rel_def)
  show "row_agrees now (session_of digest x (session_step digest now op s)) (session_spec now op m x)"
  proof (cases op)
    case (Create raw ttl)
    have none: "session_of digest raw s = None"
      using at [of raw] fresh [OF Create] by (cases "session_of digest raw s") auto
    then have "\<not> has_key ss_id_hash (digest raw) (t_sessions s)"
      by (simp add: session_of_def has_key_iff row_of_None_iff)
    then have "session_of digest x (session_step digest now op s) =
        (if x = raw then Some \<lparr>ss_id_hash = digest raw, ss_created_at = now, ss_expires_at = now + ttl\<rparr>
         else session_of digest x s)"
      using none inj unfolding Create
      by (auto simp: create_session_def session_of_def row_of_append inj_eq split: option.split)
    then show ?thesis using at [of x] by (simp add: Create)
  next
    case (Check raw)
    consider "session_step digest now op s = s"
      | r where "session_of digest raw s = Some r" "ss_expires_at r \<le> now"
          "session_step digest now op s =
            s\<lparr>t_sessions := delete_where (\<lambda>r. ss_id_hash r = digest raw) (t_sessions s)\<rparr>"
      using session_active_cases [of digest now raw s] unfolding Check by auto
    then show ?thesis
    proof cases
      case 1
      then show ?thesis using at [of x] by (simp add: Check)
    next
      case 2
      then show ?thesis
        using at [of x] by (auto simp: session_of_delete [OF inj] Check)
    qed
  next
    case (Delete raw)
    then show ?thesis
      using at [of x] by (simp add: delete_session_def session_of_delete [OF inj])
  next
    case Truncate
    then show ?thesis by (simp add: truncate_sessions_def session_of_def row_of_def)
  qed
qed

text \<open>A run whose clock does not go back and whose random ids are fresh.\<close>

fun created_by :: "session_op \<Rightarrow> string set" where
  "created_by (Create raw ttl) = {raw}"
| "created_by _ = {}"

fun session_trace_ok :: "time \<Rightarrow> string set \<Rightarrow> (time \<times> session_op) list \<Rightarrow> bool" where
  "session_trace_ok t used [] \<longleftrightarrow> True"
| "session_trace_ok t used ((now, op) # ops) \<longleftrightarrow>
     t \<le> now \<and> created_by op \<inter> used = {} \<and> session_trace_ok now (created_by op \<union> used) ops"

fun last_time :: "time \<Rightarrow> (time \<times> session_op) list \<Rightarrow> time" where
  "last_time t [] = t"
| "last_time t ((now, _) # ops) = last_time now ops"

lemma session_spec_dom: "dom (session_spec now op m) \<subseteq> created_by op \<union> dom m"
  by (cases op) (auto simp: dom_def)

lemma session_run_rel:
  assumes "sessions_rel digest t s m" "inj digest" "session_trace_ok t used ops" "dom m \<subseteq> used"
  shows "sessions_rel digest (last_time t ops) (session_run digest ops s)
    (fold (\<lambda>(now, op). session_spec now op) ops m)"
  using assms
proof (induction t used ops arbitrary: s m rule: session_trace_ok.induct)
  case (1 t used)
  then show ?case by (simp add: session_run_def)
next
  case (2 t used now op ops)
  have ok: "t \<le> now" "created_by op \<inter> used = {}" "session_trace_ok now (created_by op \<union> used) ops"
    using "2.prems"(3) by auto
  have rel: "sessions_rel digest now s m"
    by (rule sessions_rel_later [OF "2.prems"(1) ok(1)])
  have "m raw = None" if "op = Create raw ttl" for raw ttl
    using that ok(2) "2.prems"(4) by auto
  then have step: "sessions_rel digest now (session_step digest now op s) (session_spec now op m)"
    by (rule session_step_rel [OF rel "2.prems"(2)])
  have "dom (session_spec now op m) \<subseteq> created_by op \<union> used"
    using session_spec_dom [of now op m] "2.prems"(4) by blast
  from "2.IH" [OF step "2.prems"(2) ok(3) this] show ?case by (simp add: session_run_def)
qed

text \<open>
  session checks refine the map from ids to expiries: after any run with a monotone clock and
  fresh ids, a session is active exactly when it was created, not deleted or truncated since, and
  has not expired; the rows that checks reap on the way are never missed.
\<close>

theorem sessions_refine_expiry_map:
  assumes "inj digest" and "session_trace_ok 0 {} ops" and "last_time 0 ops \<le> now" and "raw \<noteq> []"
  shows "fst (session_active digest now raw (session_run digest ops empty_store)) \<longleftrightarrow>
    live_at now (fold (\<lambda>(now, op). session_spec now op) ops Map.empty) raw"
proof -
  have "sessions_rel digest 0 empty_store Map.empty"
    by (simp add: sessions_rel_def session_of_def empty_store_def row_of_def)
  from session_run_rel [OF this assms(1,2)] show ?thesis
    using sessions_rel_later [OF _ assms(3)] session_active_rel [OF _ assms(4)] by simp
qed

theorem sessions_refine_expiry_map_witness:
  "let ops = [(10, Create ''a'' 5), (11, Create ''b'' 90), (12, Check ''a''), (20, Check ''a''), (21, Delete ''c'')]
   in fst (session_active id 30 ''b'' (session_run id ops empty_store))
    \<and> \<not> fst (session_active id 30 ''a'' (session_run id ops empty_store))"
proof -
  let ?ops = "[(10, Create ''a'' 5), (11, Create ''b'' 90), (12, Check ''a''), (20, Check ''a''), (21, Delete ''c'')]"
  have "session_trace_ok 0 {} ?ops" "last_time 0 ?ops \<le> 30" by simp_all
  from sessions_refine_expiry_map [OF inj_on_id this, of "''b''"]
    sessions_refine_expiry_map [OF inj_on_id this, of "''a''"]
  show ?thesis by (simp add: live_at_def id_def)
qed

subsection \<open>Join tokens\<close>

datatype token_op =
    Mint string string time int
  | Redeem string
  | Revoke string
  | Token_List

fun token_step :: "(string \<Rightarrow> string) \<Rightarrow> time \<Rightarrow> token_op \<Rightarrow> store \<Rightarrow> bool \<times> store" where
  "token_step digest now (Mint raw token_id ttl uses) s =
     (case create_join_token digest now raw token_id ttl uses s of
        Inl _ \<Rightarrow> (False, s) | Inr s' \<Rightarrow> (False, s'))"
| "token_step digest now (Redeem raw) s = redeem_join_token digest now raw s"
| "token_step digest now (Revoke token_id) s = (False, snd (revoke_join_token token_id s))"
| "token_step digest now Token_List s = (False, snd (join_tokens now s))"

text \<open>The times at which a run's redemptions of \<open>raw\<close> are accepted.\<close>

fun admissions :: "(string \<Rightarrow> string) \<Rightarrow> string \<Rightarrow> (time \<times> token_op) list \<Rightarrow> store \<Rightarrow> time list" where
  "admissions digest raw [] s = []"
| "admissions digest raw ((now, op) # ops) s =
     (let (ok, s') = token_step digest now op s in
      (if ok \<and> op = Redeem raw then [now] else []) @ admissions digest raw ops s')"

definition token_run :: "(string \<Rightarrow> string) \<Rightarrow> (time \<times> token_op) list \<Rightarrow> store \<Rightarrow> store" where
  "token_run digest ops s = fold (\<lambda>(now, op) s. snd (token_step digest now op s)) ops s"

definition minted :: "(string \<Rightarrow> string) \<Rightarrow> string \<Rightarrow> token_op \<Rightarrow> bool" where
  "minted digest raw op \<longleftrightarrow> (\<exists>raw' i ttl uses. op = Mint raw' i ttl uses \<and> digest raw' = digest raw)"

definition token_inv :: "string \<Rightarrow> time \<Rightarrow> int \<Rightarrow> store \<Rightarrow> bool" where
  "token_inv h expiry k s \<longleftrightarrow> unique_key jt_token_hash (t_join_tokens s) \<and>
     (\<forall>r \<in> set (t_join_tokens s). jt_token_hash r = h \<longrightarrow> jt_expires_at r = expiry \<and> jt_uses_left r \<le> k)"

lemma unique_token_step:
  "unique_key jt_token_hash (t_join_tokens s) \<Longrightarrow>
   unique_key jt_token_hash (t_join_tokens (snd (token_step digest now op s)))"
  by (cases op) (auto simp: create_join_token_def redeem_join_token_def revoke_join_token_def
      join_tokens_def Let_def unique_key_def has_key_iff delete_where_def distinct_map_filter
      update_where_def o_def if_distrib [of jt_token_hash] cong: if_cong split: option.split)

lemma token_run_unique: "unique_key jt_token_hash (t_join_tokens (token_run digest ops empty_store))"
proof -
  have "unique_key jt_token_hash (t_join_tokens s) \<Longrightarrow>
      unique_key jt_token_hash (t_join_tokens (token_run digest ops s))" for s
    by (induction ops arbitrary: s) (auto simp: token_run_def unique_token_step)
  then show ?thesis by (simp add: empty_store_def unique_key_def)
qed

lemma redeem_rows:
  assumes "q \<in> set (t_join_tokens (snd (redeem_join_token digest now raw' s)))"
  shows "\<exists>q0 \<in> set (t_join_tokens s). jt_token_hash q0 = jt_token_hash q
    \<and> jt_expires_at q0 = jt_expires_at q \<and> jt_uses_left q \<le> jt_uses_left q0"
proof (cases "row_of jt_token_hash (digest raw') (t_join_tokens s)")
  case None
  then show ?thesis using assms by (auto simp: redeem_join_token_def intro: bexI [of _ q])
next
  case (Some row)
  then consider "q \<in> set (t_join_tokens s)"
    | q0 where "q0 \<in> set (t_join_tokens s)" "q = q0\<lparr>jt_uses_left := jt_uses_left q0 - 1\<rparr>"
    using assms by (auto simp: redeem_join_token_def Let_def set_update_where split: if_splits)
  then show ?thesis by cases force+
qed

lemma token_step_rows:
  assumes "q \<in> set (t_join_tokens (snd (token_step digest now op s)))" "jt_token_hash q = digest raw"
    "\<not> minted digest raw op"
  shows "\<exists>q0 \<in> set (t_join_tokens s). jt_token_hash q0 = digest raw
    \<and> jt_expires_at q0 = jt_expires_at q \<and> jt_uses_left q \<le> jt_uses_left q0"
proof (cases op)
  case (Mint raw' i ttl uses)
  then have "digest raw' \<noteq> digest raw" using assms(3) by (auto simp: minted_def)
  then have "q \<in> set (t_join_tokens s)"
    using assms(1,2) Mint by (auto simp: create_join_token_def split: if_splits)
  then show ?thesis using assms(2) by auto
next
  case (Redeem raw')
  then show ?thesis using redeem_rows [of q digest now raw' s] assms(1,2) by auto
next
  case (Revoke i)
  then show ?thesis using assms(1,2) by (auto simp: revoke_join_token_def)
next
  case Token_List
  then show ?thesis using assms(1,2) by (auto simp: join_tokens_def Let_def)
qed

lemma token_inv_step:
  assumes "token_inv (digest raw) expiry k s" "\<not> minted digest raw op"
  shows "token_inv (digest raw) expiry k (snd (token_step digest now op s))"
proof -
  have "unique_key jt_token_hash (t_join_tokens (snd (token_step digest now op s)))"
    using assms(1) by (simp add: token_inv_def unique_token_step)
  moreover have "\<forall>r \<in> set (t_join_tokens (snd (token_step digest now op s))).
      jt_token_hash r = digest raw \<longrightarrow> jt_expires_at r = expiry \<and> jt_uses_left r \<le> k"
    using token_step_rows [OF _ _ assms(2)] assms(1) unfolding token_inv_def by (metis order_trans)
  ultimately show ?thesis by (simp add: token_inv_def)
qed

lemma token_inv_redeem:
  assumes "token_inv (digest raw) expiry k s" "redeem_join_token digest now raw s = (True, s')"
  shows "token_inv (digest raw) expiry (k - 1) s'" "1 \<le> k" "now < expiry"
proof -
  obtain row where row: "row_of jt_token_hash (digest raw) (t_join_tokens s) = Some row"
      "now < jt_expires_at row" "0 < jt_uses_left row"
    using assms(2) by (auto simp: redeem_join_token_def Let_def split: option.splits if_splits)
  then have r: "row \<in> set (t_join_tokens s)" "jt_token_hash row = digest raw"
    by (auto dest: row_of_SomeD)
  then have fields: "jt_expires_at row = expiry" "jt_uses_left row \<le> k"
    using assms(1) by (auto simp: token_inv_def)
  show "1 \<le> k" "now < expiry" using row fields by auto
  have only: "q = row" if "q \<in> set (t_join_tokens s)" "jt_token_hash q = digest raw" for q
    using that r(2) row(1) row_of_unique [of jt_token_hash "t_join_tokens s" "digest raw" q] assms(1)
    by (auto simp: token_inv_def)
  have "unique_key jt_token_hash (t_join_tokens s')"
    using unique_token_step [of s digest now "Redeem raw"] assms by (simp add: token_inv_def)
  moreover have "jt_expires_at q = expiry \<and> jt_uses_left q \<le> k - 1"
    if q: "q \<in> set (t_join_tokens s')" "jt_token_hash q = digest raw" for q
  proof -
    from row(1,2,3) assms(2) consider "q \<in> set (t_join_tokens s)" "jt_id q \<noteq> jt_id row"
      | q0 where "q0 \<in> set (t_join_tokens s)" "q = (if jt_id q0 = jt_id row
          then q0\<lparr>jt_uses_left := jt_uses_left q0 - 1\<rparr> else q0)"
      using q(1) by (auto simp: redeem_join_token_def Let_def set_update_where split: if_splits)
    then show ?thesis
    proof cases
      case 1
      then show ?thesis using only [of q] q(2) by simp
    next
      case 2
      then have "q0 = row" using only [of q0] q(2) by (simp split: if_splits)
      then show ?thesis using 2(2) fields by simp
    qed
  qed
  ultimately show "token_inv (digest raw) expiry (k - 1) s'" by (simp add: token_inv_def)
qed

lemma admissions_bounded:
  assumes "token_inv (digest raw) expiry k s" "0 \<le> k" "\<forall>(now, op) \<in> set ops. \<not> minted digest raw op"
  shows "int (length (admissions digest raw ops s)) \<le> k
    \<and> (\<forall>t \<in> set (admissions digest raw ops s). t < expiry)"
  using assms
proof (induction digest raw ops s arbitrary: k rule: admissions.induct)
  case (2 digest raw now op ops s)
  obtain ok s' where st: "token_step digest now op s = (ok, s')" by (rule prod.exhaust)
  have ops: "\<forall>(now, op) \<in> set ops. \<not> minted digest raw op" using "2.prems"(3) by auto
  show ?case
  proof (cases "ok \<and> op = Redeem raw")
    case True
    then have "redeem_join_token digest now raw s = (True, s')" using st by simp
    note redeemed = token_inv_redeem [OF "2.prems"(1) this]
    from redeemed(2) have "0 \<le> k - 1" by simp
    from "2.IH" [OF refl st [symmetric] redeemed(1) this ops] show ?thesis
      using True st redeemed(3) by auto
  next
    case False
    have "token_inv (digest raw) expiry k s'"
      using token_inv_step [where op = op and now = now and digest = digest and raw = raw, OF "2.prems"(1)] "2.prems"(3) st by auto
    from "2.IH" [OF refl st [symmetric] this "2.prems"(2) ops] show ?thesis
      using False st by auto
  qed
qed simp

text \<open>
  C21: a join token admits at most \<open>max 1 uses\<close> nodes, each before its expiry, whatever else happens
  to the token table; revoking, listing and other tokens only ever reduce it.
\<close>

theorem join_token_admits_at_most_uses:
  assumes "create_join_token digest t raw token_id ttl uses (token_run digest before empty_store) = Inr s"
    and "\<forall>(now, op) \<in> set after. \<not> minted digest raw op"
  shows "int (length (admissions digest raw after s)) \<le> max 1 uses
    \<and> (\<forall>now \<in> set (admissions digest raw after s). now < t + ttl)"
proof -
  let ?s0 = "token_run digest before empty_store"
  have s: "t_join_tokens s = t_join_tokens ?s0 @ [\<lparr>jt_id = token_id, jt_token_hash = digest raw,
      jt_created_at = t, jt_expires_at = t + ttl, jt_uses_left = max 1 uses\<rparr>]"
    and fresh: "digest raw \<notin> jt_token_hash ` set (t_join_tokens ?s0)"
    using assms(1) by (auto simp: create_join_token_def has_key_iff split: if_splits)
  have "token_inv (digest raw) (t + ttl) (max 1 uses) s"
    using s fresh token_run_unique [of digest before] by (auto simp: token_inv_def unique_key_def image_iff)
  from admissions_bounded [OF this _ assms(2)] show ?thesis by simp
qed

theorem join_token_admits_at_most_uses_witness:
  "let s = (case create_join_token id 10 ''tok'' ''i'' 100 2 empty_store of Inr s \<Rightarrow> s | Inl _ \<Rightarrow> empty_store)
   in admissions id ''tok'' [(20, Redeem ''tok''), (30, Redeem ''x''), (40, Redeem ''tok''), (50, Redeem ''tok'')] s
       = [20, 40]
    \<and> int (length (admissions id ''tok'' [(20, Redeem ''tok''), (30, Redeem ''x''), (40, Redeem ''tok''),
         (50, Redeem ''tok'')] s)) \<le> 2"
proof -
  let ?s = "case create_join_token id 10 ''tok'' ''i'' 100 2 empty_store of Inr s \<Rightarrow> s | Inl _ \<Rightarrow> empty_store"
  let ?ops = "[(20, Redeem ''tok''), (30, Redeem ''x''), (40, Redeem ''tok''), (50, Redeem ''tok'')]"
  have "create_join_token id 10 ''tok'' ''i'' 100 2 (token_run id [] empty_store) = Inr ?s"
    by (simp add: create_join_token_def token_run_def empty_store_def has_key_def)
  from join_token_admits_at_most_uses [OF this, of ?ops] have "int (length (admissions id ''tok'' ?ops ?s)) \<le> 2"
    by (simp add: minted_def)
  moreover have "admissions id ''tok'' ?ops ?s = [20, 40]" by code_simp
  ultimately show ?thesis by (simp only: Let_def)
qed

subsection \<open>Unregistered sightings\<close>

datatype sighting = Sight time string string | Registered string

fun sight_step :: "sighting \<Rightarrow> store \<Rightarrow> store" where
  "sight_step (Sight now name source) s = record_unregistered now name source s"
| "sight_step (Registered name) s = clear_unregistered name s"

lemma fold_delete_keys:
  "fold (\<lambda>d. delete_where (\<lambda>r. key r = key d)) ds rows = filter (\<lambda>r. key r \<notin> key ` set ds) rows"
  by (induction ds arbitrary: rows) (auto simp: delete_where_def intro: filter_cong)

lemma keep_prefix:
  assumes "unique_key key rows" "mset sorted_rows = mset rows"
  shows "mset (filter (\<lambda>r. key r \<notin> key ` set (drop n sorted_rows)) rows) = mset (take n sorted_rows)"
proof -
  have "distinct (map key sorted_rows)"
    using assms mset_eq_imp_distinct_iff [of "map key sorted_rows" "map key rows"]
    by (simp add: unique_key_def)
  then have "distinct (map key (take n sorted_rows) @ map key (drop n sorted_rows))"
    by (metis append_take_drop_id map_append)
  then have apart: "\<forall>r \<in> set (take n sorted_rows). key r \<notin> key ` set (drop n sorted_rows)"
    by auto
  have "filter (\<lambda>r. key r \<notin> key ` set (drop n sorted_rows)) (take n sorted_rows @ drop n sorted_rows)
      = take n sorted_rows"
    unfolding filter_append using apart by (simp add: filter_empty_conv)
  then show ?thesis using assms(2) by (metis append_take_drop_id mset_filter)
qed

definition sighted :: "time \<Rightarrow> string \<Rightarrow> string \<Rightarrow> store \<Rightarrow> unregistered_row list" where
  "sighted now name source s = upsert unregistered_key
     \<lparr>ur_name = name, ur_source = source, ur_first_seen = now, ur_last_seen = now, ur_beats = 1\<rparr>
     (\<lambda>r. r\<lparr>ur_last_seen := now, ur_beats := ur_beats r + 1\<rparr>) (t_unregistered s)"

lemma sighted_unique:
  "unique_key unregistered_key (t_unregistered s) \<Longrightarrow> unique_key unregistered_key (sighted now n src s)"
  unfolding sighted_def by (rule unique_key_upsert) (simp_all add: unregistered_key_def)

lemma record_unregistered_rows:
  fixes now :: time and name source :: string
  assumes "unique_key unregistered_key (t_unregistered s)"
  defines "rows \<equiv> sighted now (take_points 64 (str_or name ''(unnamed)'')) (take_points 64 (str_or source ''?'')) s"
  shows "t_unregistered (record_unregistered now name source s) =
      filter (\<lambda>r. unregistered_key r \<notin> unregistered_key ` set (drop UNREGISTERED_CAP (newest_first rows))) rows"
    and "mset (t_unregistered (record_unregistered now name source s)) =
      mset (take UNREGISTERED_CAP (newest_first rows))"
proof -
  show eq: "t_unregistered (record_unregistered now name source s) =
      filter (\<lambda>r. unregistered_key r \<notin> unregistered_key ` set (drop UNREGISTERED_CAP (newest_first rows))) rows"
    by (simp add: record_unregistered_def Let_def fold_delete_keys rows_def sighted_def)
  show "mset (t_unregistered (record_unregistered now name source s)) =
      mset (take UNREGISTERED_CAP (newest_first rows))"
    unfolding eq by (rule keep_prefix) (use assms(1) in \<open>simp_all add: rows_def sighted_unique newest_first_def\<close>)
qed

lemma unique_filter: "unique_key key rows \<Longrightarrow> unique_key key (filter P rows)"
  by (simp add: unique_key_def distinct_map_filter)

lemma sight_step_inv:
  assumes "unique_key unregistered_key (t_unregistered s)" "length (t_unregistered s) \<le> UNREGISTERED_CAP"
  shows "unique_key unregistered_key (t_unregistered (sight_step op s))
    \<and> length (t_unregistered (sight_step op s)) \<le> UNREGISTERED_CAP"
proof (cases op)
  case (Sight now name source)
  let ?rows = "sighted now (take_points 64 (str_or name ''(unnamed)'')) (take_points 64 (str_or source ''?'')) s"
  have "length (t_unregistered (record_unregistered now name source s)) =
      length (take UNREGISTERED_CAP (newest_first ?rows))"
    using record_unregistered_rows(2) [OF assms(1)] mset_eq_length by blast
  moreover have "unique_key unregistered_key (t_unregistered (record_unregistered now name source s))"
    unfolding record_unregistered_rows(1) [OF assms(1)] by (intro unique_filter sighted_unique assms(1))
  ultimately show ?thesis using Sight by simp
next
  case (Registered name)
  then show ?thesis
    using assms le_trans [OF length_filter_le [of "\<lambda>r. ur_name r \<noteq> name" "t_unregistered s"]]
    by (simp add: clear_unregistered_def delete_where_def unique_filter)
qed

text \<open>
  the sightings of unregistered nodes never hold two rows of one name and source nor more than
  \<open>UNREGISTERED_CAP\<close> rows, and a new sighting keeps exactly the \<open>UNREGISTERED_CAP\<close> rows last
  seen, itself counted, dropping the oldest.
\<close>

theorem sightings_bounded_newest_kept:
  fixes ops :: "sighting list"
  defines "s \<equiv> fold sight_step ops empty_store"
  shows "unique_key unregistered_key (t_unregistered s) \<and> length (t_unregistered s) \<le> UNREGISTERED_CAP
    \<and> mset (t_unregistered (record_unregistered now name source s)) =
        mset (take UNREGISTERED_CAP (newest_first
          (sighted now (take_points 64 (str_or name ''(unnamed)'')) (take_points 64 (str_or source ''?'')) s)))"
proof -
  have "unique_key unregistered_key (t_unregistered s) \<and> length (t_unregistered s) \<le> UNREGISTERED_CAP"
    unfolding s_def
  proof (induction ops rule: rev_induct)
    case Nil
    show ?case by (simp add: empty_store_def unique_key_def)
  next
    case (snoc op ops)
    then show ?case using sight_step_inv [of "fold sight_step ops empty_store" op] by simp
  qed
  then show ?thesis using record_unregistered_rows(2) by blast
qed

end
