(* ===== verification/Store_Claims.thy ===== *)
theory Store_Claims
  imports Event_Evidence
begin

text \<open>
  What the coordination logic reads from the event log: the live claims are the latest Run events
  of the full history, whatever was evicted; and the quarantine gate of a node closes exactly at
  two consecutive failed Runs since its last release.
\<close>

subsection \<open>Live claims\<close>

definition run_of :: "repo \<Rightarrow> int \<Rightarrow> event_row \<Rightarrow> bool" where
  "run_of r i e \<longleftrightarrow> ev_type e = EVENT_RUN \<and> ev_repo e = Some r \<and> ev_issue e = Some i"

definition latest_run :: "event_row list \<Rightarrow> repo \<Rightarrow> int \<Rightarrow> event_row option" where
  "latest_run h r i = find (run_of r i) (rev h)"

lemma find_last:
  assumes "sorted_wrt (\<lambda>a b. ev_id a < ev_id b) es"
  shows "find P (rev es) = Some e \<longleftrightarrow>
    e \<in> set es \<and> P e \<and> (\<forall>e' \<in> set es. P e' \<longrightarrow> ev_id e' \<le> ev_id e)"
  using assms
proof (induction es rule: rev_induct)
  case (snoc a es)
  then have a: "\<forall>e \<in> set es. ev_id e < ev_id a" by (simp add: sorted_wrt_append)
  show ?case
  proof (cases "P a")
    case True
    with a show ?thesis by (auto simp: not_less [symmetric] less_imp_le)
  next
    case False
    with snoc show ?thesis by (auto simp: sorted_wrt_append)
  qed
qed simp

lemma latest_run_SomeD:
  "latest_run h r i = Some e \<Longrightarrow> run_of r i e"
  by (auto simp: latest_run_def find_Some_iff)

lemma run_not_evictable: "run_of r i e \<Longrightarrow> \<not> evictable e"
  by (auto simp: run_of_def evictable_def)

lemma latest_run_evicted:
  assumes "log_reach s h g"
  shows "latest_run (t_events s) r i = latest_run h r i"
proof -
  have "filter (run_of r i) (t_events s) = filter (run_of r i) h"
    using log_reach_inv [OF assms] run_not_evictable
    by (auto simp: log_inv_def intro!: filter_cong)
  moreover have "find P (rev es) = find P (rev (filter P es))" for P :: "event_row \<Rightarrow> bool" and es
    by (induction es rule: rev_induct) auto
  ultimately show ?thesis unfolding latest_run_def by metis
qed

text \<open>
  C18: a live claim on an issue is the latest Run event ever recorded for it, when that event's
  phase is claimed, gate or failed; eviction of the log never adds, drops or changes a claim.
\<close>

theorem live_claims_are_latest_runs:
  assumes "log_reach s h g" and "r \<noteq> []"
  shows "c \<in> set (live_claims s) \<and> lc_repo c = r \<and> lc_issue c = i
    \<longleftrightarrow> (\<exists>e p. latest_run h r i = Some e \<and> ev_phase e = Some p \<and> p \<in> set LIVE_RUN_PHASES
          \<and> c = claim_of e)"
proof -
  have ids: "sorted_wrt (\<lambda>a b. ev_id a < ev_id b) (t_events s)"
    using log_reach_inv [OF assms(1)] by (simp add: log_inv_def sorted_wrt_filter)
  have last: "latest_run h r i = Some e \<longleftrightarrow> e \<in> set (latest_runs (t_events s)) \<and> run_of r i e" for e
  proof -
    have "latest_run h r i = Some e \<longleftrightarrow> e \<in> set (t_events s) \<and> run_of r i e
        \<and> (\<forall>e' \<in> set (t_events s). run_of r i e' \<longrightarrow> ev_id e' \<le> ev_id e)"
      using latest_run_evicted [OF assms(1), of r i] find_last [OF ids, of "run_of r i" e]
      unfolding latest_run_def by simp
    then show ?thesis
      by (auto simp: latest_runs_def run_of_def issue_run_def claim_key_def list_ex_iff not_less)
  qed
  have key: "lc_repo (claim_of e) = r \<and> lc_issue (claim_of e) = i \<longleftrightarrow> run_of r i e"
    if "e \<in> set (latest_runs (t_events s))" for e
    using that assms(2)
    by (auto simp: claim_of_def run_of_def latest_runs_def issue_run_def opt_str_def split: option.splits)
  have live: "is_live e \<longleftrightarrow> (\<exists>p. ev_phase e = Some p \<and> p \<in> set LIVE_RUN_PHASES)" if "run_of r i e" for e
    using that assms(2) by (auto simp: is_live_def run_of_def opt_str_def split: option.splits)
  show ?thesis
  proof -
    have "c \<in> set (live_claims s) \<longleftrightarrow> (\<exists>e. e \<in> set (latest_runs (t_events s)) \<and> is_live e \<and> c = claim_of e)"
      by (auto simp: live_claims_def)
    then show ?thesis unfolding last using key live by metis
  qed
qed

text \<open>A run with a claim, a failure and an eviction between them.\<close>

theorem live_claims_are_latest_runs_witness:
  "\<exists>s h g. log_reach s h g \<and> g \<noteq> [] \<and>
     (\<exists>c \<in> set (live_claims s). lc_repo c = ''o/r'' \<and> lc_issue c = 7)"
proof -
  let ?claim = "[(''type'', JStr EVENT_RUN), (''repo'', JStr ''o/r''), (''issue'', JInt 7),
      (''phase'', JStr ''claimed'')]"
  let ?p = "[(''type'', JStr EVENT_PROGRESS)]"
  let ?s1 = "record_event 1 1 ?claim empty_store"
  let ?s2 = "record_event 2 2 ?p ?s1"
  let ?s = "snd (evict_progress 3 0 ?s2)"
  let ?h = "[event_row_of 1 1 ?claim, event_row_of 2 2 ?p]"
  have "log_reach ?s2 ?h []"
    using log_record [OF log_record [OF log_start, of 1 1 ?claim], of 2 2 ?p] by (simp add: empty_store_def)
  from log_evict [OF this refl, of 3 0] obtain g where g: "log_reach ?s ?h g"
      "g = filter (\<lambda>e. e \<notin> set (t_events ?s)) (t_events ?s2)" by auto
  have "filter (\<lambda>e. e \<notin> set (t_events ?s)) (t_events ?s2) \<noteq> []" by code_simp
  moreover have "\<exists>c \<in> set (live_claims ?s). lc_repo c = ''o/r'' \<and> lc_issue c = 7"
  proof -
    have l: "latest_run ?h ''o/r'' 7 = Some (event_row_of 1 1 ?claim)"
        "ev_phase (event_row_of 1 1 ?claim) = Some ''claimed''" "''claimed'' \<in> set LIVE_RUN_PHASES"
      by code_simp+
    with live_claims_are_latest_runs [OF g(1), of "''o/r''" "claim_of (event_row_of 1 1 ?claim)" 7]
    show ?thesis by blast
  qed
  ultimately show ?thesis using g by blast
qed

subsection \<open>The quarantine gate\<close>

datatype gate = Fine | Strike | Closed

datatype gate_op = Record time time dict | Release string

definition outcome_of :: "string \<Rightarrow> dict \<Rightarrow> string option" where
  "outcome_of n event =
     (if field_text event ''type'' = EVENT_RUN \<and> event_str event ''node'' = Some n
      then event_str event ''phase'' else None)"

fun gate_step :: "string \<Rightarrow> gate_op \<Rightarrow> gate \<Rightarrow> gate" where
  "gate_step n (Record now now2 event) g =
     (if outcome_of n event = Some ''failed'' then (case g of Fine \<Rightarrow> Strike | _ \<Rightarrow> Closed)
      else if outcome_of n event = Some ''pr-open'' then (case g of Closed \<Rightarrow> Closed | _ \<Rightarrow> Fine)
      else g)"
| "gate_step n (Release node) g = (if node = n \<and> g = Closed then Fine else g)"

fun store_step :: "gate_op \<Rightarrow> store \<Rightarrow> store" where
  "store_step (Record now now2 event) s = record_event now now2 event s"
| "store_step (Release node) s = snd (release_quarantine node s)"

definition gate_of :: "string \<Rightarrow> node_health_row list \<Rightarrow> gate" where
  "gate_of n rows = (case row_of nh_node n rows of
       None \<Rightarrow> Fine
     | Some r \<Rightarrow> if nh_quarantined r then Closed else if nh_consecutive_failures r = 0 then Fine else Strike)"

definition health_inv :: "string \<Rightarrow> node_health_row list \<Rightarrow> bool" where
  "health_inv n rows \<longleftrightarrow> (\<forall>r. row_of nh_node n rows = Some r \<longrightarrow>
     0 \<le> nh_consecutive_failures r \<and> (\<not> nh_quarantined r \<longrightarrow> nh_consecutive_failures r \<le> 1))"

lemma row_of_update_node:
  assumes "\<And>r. nh_node (f r) = nh_node r"
  shows "row_of nh_node n (update_where (\<lambda>r. nh_node r = node \<and> P r) f rows) =
    (if n = node then map_option (\<lambda>r. if P r then f r else r) (row_of nh_node n rows)
     else row_of nh_node n rows)"
  using assms by (induction rows) (auto simp: update_where_def row_of_def)

lemmas row_of_update_node' = row_of_update_node [where P = "\<lambda>_. True", simplified]

lemma bump_failures_row:
  defines "old \<equiv> \<lambda>s node. row_of nh_node node (t_node_health s)"
  shows "n \<noteq> node \<Longrightarrow> old (bump_failures now node i r s) n = old s n"
    and "\<exists>h. old (bump_failures now node i r s) node = Some h
      \<and> nh_consecutive_failures h = (case old s node of None \<Rightarrow> 1 | Some g \<Rightarrow> nh_consecutive_failures g + 1)
      \<and> nh_quarantined h = (2 \<le> nh_consecutive_failures h
          \<or> (case old s node of None \<Rightarrow> False | Some g \<Rightarrow> nh_quarantined g))"
proof -
  let ?h = "upsert nh_node \<lparr>nh_node = node, nh_consecutive_failures = 1, nh_quarantined = False,
      nh_reason = [], nh_since = None\<rparr> (\<lambda>r. r\<lparr>nh_consecutive_failures := nh_consecutive_failures r + 1\<rparr>)
      (t_node_health s)"
  define new where "new = (case row_of nh_node node (t_node_health s) of
         None \<Rightarrow> \<lparr>nh_node = node, nh_consecutive_failures = 1, nh_quarantined = False,
            nh_reason = [], nh_since = None\<rparr>
       | Some r \<Rightarrow> r\<lparr>nh_consecutive_failures := nh_consecutive_failures r + 1\<rparr>)"
  have row: "row_of nh_node m ?h = (if m = node then Some new else row_of nh_node m (t_node_health s))" for m
    by (subst row_of_upsert) (auto simp: new_def split: option.split)
  show "n \<noteq> node \<Longrightarrow> old (bump_failures now node i r s) n = old s n"
    by (simp add: bump_failures_def Let_def old_def row row_of_update_node')
  have new_fields: "nh_consecutive_failures new = (case old s node of None \<Rightarrow> 1 | Some g \<Rightarrow> nh_consecutive_failures g + 1)"
      "nh_quarantined new = (case old s node of None \<Rightarrow> False | Some g \<Rightarrow> nh_quarantined g)"
    by (simp_all add: new_def old_def split: option.split)
  show "\<exists>h. old (bump_failures now node i r s) node = Some h
      \<and> nh_consecutive_failures h = (case old s node of None \<Rightarrow> 1 | Some g \<Rightarrow> nh_consecutive_failures g + 1)
      \<and> nh_quarantined h = (2 \<le> nh_consecutive_failures h
          \<or> (case old s node of None \<Rightarrow> False | Some g \<Rightarrow> nh_quarantined g))"
    unfolding new_fields [symmetric]
    by (auto simp: bump_failures_def Let_def old_def row row_of_update_node' QUARANTINE_AFTER_FAILURES_def)
qed

lemma bump_failures_gate:
  assumes "health_inv n (t_node_health s)"
  shows "gate_of n (t_node_health (bump_failures now node i r s)) =
      (if node = n then (case gate_of n (t_node_health s) of Fine \<Rightarrow> Strike | _ \<Rightarrow> Closed)
       else gate_of n (t_node_health s))"
    and "health_inv n (t_node_health (bump_failures now node i r s))"
proof -
  show "gate_of n (t_node_health (bump_failures now node i r s)) =
      (if node = n then (case gate_of n (t_node_health s) of Fine \<Rightarrow> Strike | _ \<Rightarrow> Closed)
       else gate_of n (t_node_health s))"
    using assms bump_failures_row(1) [where n = n and node = node and now = now and i = i and r = r and s = s]
      bump_failures_row(2) [where node = node and now = now and i = i and r = r and s = s]
    unfolding gate_of_def health_inv_def
    by (cases "node = n"; cases "row_of nh_node n (t_node_health s)") (auto split: if_splits)
  show "health_inv n (t_node_health (bump_failures now node i r s))"
    using assms bump_failures_row(1) [where n = n and node = node and now = now and i = i and r = r and s = s]
      bump_failures_row(2) [where node = node and now = now and i = i and r = r and s = s]
    unfolding health_inv_def
    by (cases "node = n"; cases "row_of nh_node n (t_node_health s)") auto
qed

lemma record_event_gate:
  assumes "health_inv n (t_node_health s)"
  shows "gate_of n (t_node_health (record_event now now2 event s)) =
      gate_step n (Record now now2 event) (gate_of n (t_node_health s))"
    and "health_inv n (t_node_health (record_event now now2 event s))"
proof -
  have reset: "gate_of n (update_where (\<lambda>h. nh_node h = node) (\<lambda>h. h\<lparr>nh_consecutive_failures := 0\<rparr>) rows) =
      (if node = n then (case gate_of n rows of Closed \<Rightarrow> Closed | _ \<Rightarrow> Fine) else gate_of n rows)"
    "health_inv n rows \<Longrightarrow>
      health_inv n (update_where (\<lambda>h. nh_node h = node) (\<lambda>h. h\<lparr>nh_consecutive_failures := 0\<rparr>) rows)"
    for node rows
    unfolding gate_of_def health_inv_def by (auto simp: row_of_update_node' split: option.splits)
  let ?r = "event_row_of (t_event_seq s + 1) now event"
  have fields: "ev_type ?r = field_text event ''type''" "ev_node ?r = event_str event ''node''"
      "ev_phase ?r = event_str event ''phase''"
    by (simp_all add: event_row_of_def)
  have "gate_of n (t_node_health (record_event now now2 event s)) =
      gate_step n (Record now now2 event) (gate_of n (t_node_health s))
    \<and> health_inv n (t_node_health (record_event now now2 event s))"
    unfolding record_event_def Let_def fields gate_step.simps outcome_of_def
    using assms by (auto simp: reset bump_failures_gate split: option.split)
  then show "gate_of n (t_node_health (record_event now now2 event s)) =
      gate_step n (Record now now2 event) (gate_of n (t_node_health s))"
    and "health_inv n (t_node_health (record_event now now2 event s))" by auto
qed

lemma release_gate:
  assumes "health_inv n (t_node_health s)"
  shows "gate_of n (t_node_health (snd (release_quarantine node s))) =
      gate_step n (Release node) (gate_of n (t_node_health s))"
    and "health_inv n (t_node_health (snd (release_quarantine node s)))"
  using assms unfolding release_quarantine_def gate_of_def health_inv_def
  by (auto simp: row_of_update_node split: option.splits)

text \<open>
  C19: The dispatch gate of a node follows the three-state automaton of its Run outcomes (fine, failed
  once, closed): it closes exactly at the second failed Run with no pull request opened in between
  (\<open>QUARANTINE_AFTER_FAILURES\<close> is 2), opening a pull request never reopens it, and only a release does.
\<close>

theorem quarantine_follows_outcomes:
  "node_quarantine n (fold store_step ops empty_store) \<noteq> None \<longleftrightarrow> fold (gate_step n) ops Fine = Closed"
proof -
  have "gate_of n (t_node_health (fold store_step ops empty_store)) = fold (gate_step n) ops Fine
      \<and> health_inv n (t_node_health (fold store_step ops empty_store))"
  proof (induction ops rule: rev_induct)
    case Nil
    show ?case by (simp add: gate_of_def health_inv_def empty_store_def row_of_def)
  next
    case (snoc op ops)
    then show ?case using record_event_gate release_gate by (cases op) (simp_all del: gate_step.simps)
  qed
  then have "gate_of n (t_node_health (fold store_step ops empty_store)) = fold (gate_step n) ops Fine" ..
  then show ?thesis
    by (simp only: node_quarantine_def gate_of_def) (auto split: option.splits if_splits)
qed

end
