(* ===== verification/Store_Health.thy ===== *)
theory Store_Health
  imports Store_Access
begin

text \<open>
  The heartbeat's effects on a node's health over whole runs: any interleaving of version and
  drivers beats of any nodes with operators queueing commands, nodes fetching, deferring and
  completing them. The convergence ladders are the abstract ladders of the off-target streaks,
  the two tables share one restart lever, and a queued command is handed out until it is
  completed.
\<close>

subsection \<open>Runs\<close>

datatype node_op =
    Version_Beat time string string string bool
  | Drivers_Beat time string "string option" string bool
  | Queue time string string "string option" bool
  | Deliver time string
  | Complete string "(time \<times> int) list"
  | Defer string "json list"

primrec node_step :: "int \<Rightarrow> node_op \<Rightarrow> store \<Rightarrow> string option \<times> store" where
  "node_step t (Version_Beat now node reported pin deferred) s =
     observe_version now node reported pin t deferred s"
| "node_step t (Drivers_Beat now node reported desired deferred) s =
     observe_drivers now node reported desired t deferred s"
| "node_step t (Queue now node verb target force) s =
     (None, snd (queue_command now node verb target force s))"
| "node_step t (Deliver now node) s = (None, snd (pending_commands now node s))"
| "node_step t (Complete node ids) s = (None, complete_commands node ids s)"
| "node_step t (Defer node ds) s = (None, record_deferrals node ds s)"

definition node_run :: "int \<Rightarrow> node_op list \<Rightarrow> store \<Rightarrow> store" where
  "node_run t ops s = fold (\<lambda>op s. snd (node_step t op s)) ops s"

lemma node_run_snoc: "node_run t (ops @ [op]) s = snd (node_step t op (node_run t ops s))"
  by (simp add: node_run_def)

lemma node_run_Nil [simp]: "node_run t [] s = s"
  by (simp add: node_run_def)

subsection \<open>Streaks\<close>

text \<open>What one operation does to the count of consecutive off-target beats of a node.\<close>

definition off_target :: "string option \<Rightarrow> string \<Rightarrow> bool \<Rightarrow> bool" where
  "off_target reported desired deferred \<longleftrightarrow>
     desired \<noteq> [] \<and> reported \<noteq> None \<and> reported \<noteq> Some desired \<and> \<not> deferred"

fun version_count :: "string \<Rightarrow> node_op \<Rightarrow> int \<Rightarrow> int" where
  "version_count n (Version_Beat now node reported pin deferred) k =
     (if node \<noteq> n then k
      else if off_target (if reported = [] then None else Some reported) pin deferred then k + 1 else 0)"
| "version_count n _ k = k"

fun drivers_count :: "string \<Rightarrow> node_op \<Rightarrow> int \<Rightarrow> int" where
  "drivers_count n (Drivers_Beat now node reported desired deferred) k =
     (if node \<noteq> n then k else if off_target reported desired deferred then k + 1 else 0)"
| "drivers_count n _ k = k"

definition version_streak :: "string \<Rightarrow> node_op list \<Rightarrow> int" where
  "version_streak n ops = fold (version_count n) ops 0"

definition drivers_streak :: "string \<Rightarrow> node_op list \<Rightarrow> int" where
  "drivers_streak n ops = fold (drivers_count n) ops 0"

text \<open>The rungs a streak of \<open>k\<close> off-target beats has reached.\<close>

definition rung :: "int \<Rightarrow> int \<Rightarrow> ladder" where
  "rung t k = (if k \<le> 0 then Converged else Offpin k (t \<le> k) (2 * t \<le> k))"

definition beat_action :: "int \<Rightarrow> int \<Rightarrow> string option" where
  "beat_action t k =
     (if k = t then Some ''restart-queued'' else if k = 2 * t then Some ''escalated'' else None)"

lemma ladder_beat_rung:
  assumes "0 < t" "0 \<le> k"
  shows "ladder_beat t (rung t k) =
    (beat_action t (k + 1), rung t (k + 1))"
  using assms by (auto simp: rung_def beat_action_def)

lemma streak_nonneg: "0 \<le> version_streak n ops" "0 \<le> drivers_streak n ops"
proof -
  have v: "0 \<le> k \<Longrightarrow> 0 \<le> version_count n op k" and d: "0 \<le> k \<Longrightarrow> 0 \<le> drivers_count n op k" for op k
    by (cases op; simp)+
  show "0 \<le> version_streak n ops"
    unfolding version_streak_def by (induction ops rule: rev_induct) (auto intro: v)
  show "0 \<le> drivers_streak n ops"
    unfolding drivers_streak_def by (induction ops rule: rev_induct) (auto intro: d)
qed

subsection \<open>One step on the ladders\<close>

context health_table
begin

lemma beat_rung:
  assumes "0 < t" "0 \<le> k" "ladder_of n (rows s) = rung t k"
  shows "ladder_of n (rows (snd (observe_convergence rows put now node reported desired t deferred s)))
    = rung t (if node \<noteq> n then k else if off_target reported desired deferred then k + 1 else 0)"
proof (cases "node = n")
  case False
  then show ?thesis using assms(3) other_node [of n node] by simp
next
  case node: True
  show ?thesis
  proof (cases "off_target reported desired deferred")
    case True
    with node offpin_beat [of desired reported deferred now n t s] show ?thesis
      using assms ladder_beat_rung [OF assms(1,2)] by (auto simp: off_target_def)
  next
    case False
    with node reset_converged(2) [of desired reported deferred n now t s] show ?thesis
      by (auto simp: off_target_def rung_def)
  qed
qed

end

lemma commands_health [simp]:
  "t_version_health (snd (queue_command now n v g f s)) = t_version_health s"
  "t_drivers_health (snd (queue_command now n v g f s)) = t_drivers_health s"
  "t_version_health (snd (pending_commands now n s)) = t_version_health s"
  "t_drivers_health (snd (pending_commands now n s)) = t_drivers_health s"
  "t_version_health (complete_commands n ids s) = t_version_health s"
  "t_drivers_health (complete_commands n ids s) = t_drivers_health s"
  "t_version_health (record_deferrals n ds s) = t_version_health s"
  "t_drivers_health (record_deferrals n ds s) = t_drivers_health s"
  by (simp_all add: queue_command_def insert_command_def Let_def pending_commands_def
      complete_commands_def record_deferrals_def)

lemma observe_version_drivers [simp]:
  "t_drivers_health (snd (observe_version now n r p t d s)) = t_drivers_health s"
  by (auto simp: observe_version_def observe_convergence_def put_version_health_def
      insert_command_def Let_def split: option.split)

lemma observe_drivers_version [simp]:
  "t_version_health (snd (observe_drivers now n r p t d s)) = t_version_health s"
  by (auto simp: observe_drivers_def observe_convergence_def put_drivers_health_def
      insert_command_def Let_def split: option.split)

lemma node_step_rungs:
  assumes "0 < t" "0 \<le> k" "0 \<le> d"
    and "ladder_of n (t_version_health s) = rung t k" "ladder_of n (t_drivers_health s) = rung t d"
  shows "ladder_of n (t_version_health (snd (node_step t op s))) = rung t (version_count n op k)"
    "ladder_of n (t_drivers_health (snd (node_step t op s))) = rung t (drivers_count n op d)"
proof -
  note v = version_table.beat_rung [OF assms(1,2,4), folded observe_version_def]
  note w = drivers_table.beat_rung [OF assms(1,3,5), folded observe_drivers_def]
  show "ladder_of n (t_version_health (snd (node_step t op s))) = rung t (version_count n op k)"
    using v assms(4) by (cases op) (simp_all add: observe_version_def)
  show "ladder_of n (t_drivers_health (snd (node_step t op s))) = rung t (drivers_count n op d)"
    using w assms(5) by (cases op) simp_all
qed

text \<open>
  over any run of heartbeats and commands, a node's two convergence ladders are the rungs of
  its own two streaks of off-target beats, independent of the other table, the other nodes and the
  commands.
\<close>

theorem ladders_follow_streaks:
  assumes "0 < t"
    and "ladder_of n (t_version_health s) = Converged" and "ladder_of n (t_drivers_health s) = Converged"
  shows "ladder_of n (t_version_health (node_run t ops s)) = rung t (version_streak n ops)
    \<and> ladder_of n (t_drivers_health (node_run t ops s)) = rung t (drivers_streak n ops)"
proof (induction ops rule: rev_induct)
  case Nil
  then show ?case using assms by (simp add: version_streak_def drivers_streak_def rung_def)
next
  case (snoc op ops)
  then show ?case
    using node_step_rungs [OF assms(1) streak_nonneg [of n ops]]
    by (simp add: node_run_snoc version_streak_def drivers_streak_def)
qed

theorem ladders_follow_streaks_witness:
  "let b = \<lambda>r. Version_Beat 10 ''n'' r ''v2'' False;
       ops = [b ''v1'', b ''v1'', Drivers_Beat 10 ''n'' (Some []) ''h'' False, b ''v1'', b ''v1'']
   in ladder_of ''n'' (t_version_health (node_run 2 ops empty_store)) = Offpin 4 True True
     \<and> ladder_of ''n'' (t_drivers_health (node_run 2 ops empty_store)) = Offpin 1 False False"
proof -
  let ?b = "\<lambda>r. Version_Beat 10 ''n'' r ''v2'' False"
  let ?ops = "[?b ''v1'', ?b ''v1'', Drivers_Beat 10 ''n'' (Some []) ''h'' False, ?b ''v1'', ?b ''v1'']"
  have "ladder_of ''n'' (t_version_health (node_run 2 ?ops empty_store)) = rung 2 (version_streak ''n'' ?ops)
    \<and> ladder_of ''n'' (t_drivers_health (node_run 2 ?ops empty_store)) = rung 2 (drivers_streak ''n'' ?ops)"
    by (rule ladders_follow_streaks) (simp_all add: empty_store_def ladder_of_def row_of_def)
  moreover have "version_streak ''n'' ?ops = 4" "drivers_streak ''n'' ?ops = 1" by code_simp+
  ultimately show ?thesis by (simp add: rung_def)
qed

lemma version_action:
  assumes "0 < t" "0 \<le> k" "ladder_of n (t_version_health s) = rung t k" "off_target (if r = [] then None else Some r) pin deferred"
  shows "fst (observe_version now n r pin t deferred s) =
    beat_action t (k + 1)"
proof -
  have "fst (observe_version now n r pin t deferred s) = fst (ladder_beat t (rung t k))"
    using version_table.offpin_beat [of pin "if r = [] then None else Some r" deferred now n t s] assms(3,4)
    unfolding observe_version_def off_target_def by (auto simp: prod_eq_iff)
  then show ?thesis by (simp add: ladder_beat_rung [OF assms(1,2)])
qed

lemma drivers_action:
  assumes "0 < t" "0 \<le> k" "ladder_of n (t_drivers_health s) = rung t k" "off_target r desired deferred"
  shows "fst (observe_drivers now n r desired t deferred s) =
    beat_action t (k + 1)"
proof -
  have "fst (observe_drivers now n r desired t deferred s) = fst (ladder_beat t (rung t k))"
    using drivers_table.offpin_beat [of desired r deferred now n t s] assms(3,4)
    unfolding observe_drivers_def off_target_def by (auto simp: prod_eq_iff)
  then show ?thesis by (simp add: ladder_beat_rung [OF assms(1,2)])
qed

lemma empty_rungs:
  assumes "0 < t"
  shows "ladder_of n (t_version_health (node_run t ops empty_store)) = rung t (version_streak n ops)"
    "ladder_of n (t_drivers_health (node_run t ops empty_store)) = rung t (drivers_streak n ops)"
proof (induction ops rule: rev_induct)
  case Nil
  show "ladder_of n (t_version_health (node_run t [] empty_store)) = rung t (version_streak n [])"
    and "ladder_of n (t_drivers_health (node_run t [] empty_store)) = rung t (drivers_streak n [])"
    by (simp_all add: version_streak_def drivers_streak_def rung_def empty_store_def ladder_of_def row_of_def)
next
  case (snoc op ops)
  note step = node_step_rungs [OF assms streak_nonneg [of n ops] snoc.IH, of op]
  show "ladder_of n (t_version_health (node_run t (ops @ [op]) empty_store)) = rung t (version_streak n (ops @ [op]))"
    and "ladder_of n (t_drivers_health (node_run t (ops @ [op]) empty_store)) = rung t (drivers_streak n (ops @ [op]))"
    using step by (simp_all add: node_run_snoc version_streak_def drivers_streak_def)
qed

text \<open>
  after any run, an off-target beat answers "restart-queued" exactly when it is the
  \<open>threshold\<close>-th of its streak and "escalated" exactly when it is the \<open>2 * threshold\<close>-th, in each of
  the two tables.
\<close>

theorem beats_act_at_thresholds:
  fixes ops :: "node_op list"
  assumes "0 < t"
  defines "s \<equiv> node_run t ops empty_store"
  shows "(off_target (if reported = [] then None else Some reported) pin deferred \<longrightarrow>
      fst (observe_version now n reported pin t deferred s) = beat_action t (version_streak n ops + 1))
    \<and> (off_target hash desired deferred \<longrightarrow>
      fst (observe_drivers now n hash desired t deferred s) = beat_action t (drivers_streak n ops + 1))"
  unfolding s_def
  using version_action [OF assms(1) streak_nonneg(1) empty_rungs(1) [OF assms(1)]]
    drivers_action [OF assms(1) streak_nonneg(2) empty_rungs(2) [OF assms(1)]] by blast

theorem beats_act_at_thresholds_witness:
  "let ops = [Version_Beat 10 ''n'' ''v1'' ''v2'' False, Drivers_Beat 10 ''n'' (Some []) ''h'' False,
              Version_Beat 20 ''n'' ''v1'' ''v2'' False]
   in fst (observe_version 30 ''n'' ''v1'' ''v2'' 3 False (node_run 3 ops empty_store)) = Some ''restart-queued''
     \<and> fst (observe_drivers 30 ''n'' (Some []) ''h'' 3 False (node_run 3 ops empty_store)) = None"
proof -
  let ?ops = "[Version_Beat 10 ''n'' ''v1'' ''v2'' False, Drivers_Beat 10 ''n'' (Some []) ''h'' False,
              Version_Beat 20 ''n'' ''v1'' ''v2'' False]"
  have "version_streak ''n'' ?ops = 2" "drivers_streak ''n'' ?ops = 1" by code_simp+
  with beats_act_at_thresholds [of 3 "''v1''" "''v2''" False 30 "''n''" ?ops "Some []" "''h''"]
  show ?thesis by (simp add: off_target_def beat_action_def)
qed

subsection \<open>The shared restart lever\<close>

definition open_restarts :: "string \<Rightarrow> store \<Rightarrow> nat" where
  "open_restarts n s = length (filter (\<lambda>c. open_for n c \<and> cm_verb c = ''restart'') (t_commands s))"

fun operator_restarts :: "string \<Rightarrow> node_op list \<Rightarrow> nat" where
  "operator_restarts n [] = 0"
| "operator_restarts n (Queue now node verb target force # ops) =
     (if node = n \<and> verb = ''restart'' then 1 else 0) + operator_restarts n ops"
| "operator_restarts n (_ # ops) = operator_restarts n ops"

lemma operator_restarts_append:
  "operator_restarts n (xs @ ys) = operator_restarts n xs + operator_restarts n ys"
  by (induction n xs rule: operator_restarts.induct) simp_all

lemma restart_pending_open: "restart_pending n s \<longleftrightarrow> open_restarts n s \<noteq> 0"
  by (auto simp: restart_pending_def open_restarts_def open_for_def list_ex_iff filter_empty_conv)

lemma length_filter_update:
  assumes "\<And>r. Q (if p r then f r else r) \<Longrightarrow> Q r"
  shows "length (filter Q (update_where p f rows)) \<le> length (filter Q rows)"
proof (induction rows)
  case (Cons r rows)
  then show ?case
    using assms [of r] by (cases "Q (if p r then f r else r)") (simp_all add: update_where_def)
qed (simp add: update_where_def)

lemma beat_open_restarts:
  assumes "t_commands s' = t_commands s \<or> \<not> restart_pending node s
     \<and> t_commands s' = t_commands (insert_command now node ''restart'' None False s)"
  shows "open_restarts n s' \<le> max 1 (open_restarts n s)"
  using assms by (auto simp: restart_pending_open) (auto simp: open_restarts_def insert_command_def open_for_def)

lemma complete_open_restarts: "open_restarts n (complete_commands node ids s) \<le> open_restarts n s"
proof -
  let ?Q = "\<lambda>c. open_for n c \<and> cm_verb c = ''restart''"
  have "length (filter ?Q (fold (\<lambda>(now, i). update_where (\<lambda>c. cm_id c = i \<and> cm_node c = node)
      (\<lambda>c. c\<lparr>cm_completed_at := Some now, cm_deferred_reason := None\<rparr>)) ids cs)) \<le> length (filter ?Q cs)" for cs
  proof (induction ids arbitrary: cs)
    case (Cons p ids)
    obtain now i where p: "p = (now, i)" by (rule prod.exhaust)
    show ?case
      unfolding p fold.simps o_apply prod.case
      by (rule order_trans [OF Cons.IH length_filter_update]) (auto simp: open_for_def split: if_splits)
  qed simp
  then show ?thesis by (simp add: open_restarts_def complete_commands_def)
qed

lemma node_step_open_restarts:
  "open_restarts n (snd (node_step t op s)) \<le> max 1 (open_restarts n s) + operator_restarts n [op]"
proof (cases op)
  case (Version_Beat now node reported pin deferred)
  then show ?thesis
    using beat_open_restarts [OF version_table.beat_commands] by (simp add: observe_version_def)
next
  case (Drivers_Beat now node reported desired deferred)
  then show ?thesis
    using beat_open_restarts [OF drivers_table.beat_commands] by (simp add: observe_drivers_def)
next
  case (Queue now node verb target force)
  then show ?thesis by (simp add: open_restarts_def queue_command_def insert_command_def Let_def open_for_def)
next
  case (Deliver now node)
  have "open_restarts n (snd (pending_commands now node s)) \<le> open_restarts n s"
    unfolding open_restarts_def pending_commands_def
    by (simp, rule length_filter_update) (auto simp: open_for_def split: if_splits)
  then show ?thesis using Deliver by simp
next
  case (Complete node ids)
  then show ?thesis using complete_open_restarts [of n node ids s] by simp
next
  case (Defer node ds)
  have "open_restarts n (record_deferrals node ds s) \<le> open_restarts n s"
    unfolding open_restarts_def record_deferrals_def
    by (simp, rule length_filter_update) (auto simp: open_for_def split: if_splits)
  then show ?thesis using Defer by simp
qed

text \<open>
  the two ladders of a node share one restart lever: whatever the order of their beats, at
  most one restart beyond those an operator queued is ever pending.
\<close>

theorem one_restart_lever:
  "open_restarts n (node_run t ops empty_store) \<le> 1 + operator_restarts n ops"
proof (induction ops rule: rev_induct)
  case Nil
  then show ?case by (simp add: open_restarts_def empty_store_def)
next
  case (snoc op ops)
  then show ?case
    using node_step_open_restarts [of n t op "node_run t ops empty_store"]
    by (simp add: node_run_snoc operator_restarts_append)
qed

subsection \<open>Delivery\<close>

fun completes :: "string \<Rightarrow> int \<Rightarrow> node_op \<Rightarrow> bool" where
  "completes n i (Complete node ids) \<longleftrightarrow> node = n \<and> i \<in> snd ` set ids"
| "completes n i _ \<longleftrightarrow> False"

definition waiting :: "string \<Rightarrow> int \<times> string \<times> string option \<times> bool \<Rightarrow> store \<Rightarrow> bool" where
  "waiting n d s \<longleftrightarrow> (\<exists>c \<in> set (t_commands s). open_for n c
     \<and> (cm_id c, cm_verb c, cm_target c, cm_force c) = d)"

lemma pending_commands_waiting: "d \<in> set (fst (pending_commands now n s)) \<longleftrightarrow> waiting n d s"
  by (auto simp: pending_commands_def waiting_def)

lemma complete_waiting:
  assumes "waiting n d s" "node \<noteq> n \<or> fst d \<notin> snd ` set ids"
  shows "waiting n d (complete_commands node ids s)"
proof -
  let ?up = "\<lambda>(now, i). update_where (\<lambda>c. cm_id c = i \<and> cm_node c = node)
      (\<lambda>c. c\<lparr>cm_completed_at := Some now, cm_deferred_reason := None\<rparr>)"
  have "c \<in> set (fold ?up ids cs)"
    if "c \<in> set cs" "cm_node c = n" "node \<noteq> n \<or> cm_id c \<notin> snd ` set ids" for c cs
    using that
  proof (induction ids arbitrary: cs)
    case (Cons p ids)
    obtain now i where p: "p = (now, i)" by (rule prod.exhaust)
    have "c \<in> set (?up p cs)" using Cons.prems by (auto simp: p set_update_where image_iff)
    with Cons show ?case by auto
  qed simp
  with assms show ?thesis
    by (fastforce simp: waiting_def complete_commands_def open_for_def)
qed

lemma update_waiting:
  assumes "waiting n d s"
    and "\<And>c. open_for n (f c) = open_for n c \<and> cm_id (f c) = cm_id c \<and> cm_verb (f c) = cm_verb c
      \<and> cm_target (f c) = cm_target c \<and> cm_force (f c) = cm_force c"
  shows "waiting n d (s\<lparr>t_commands := update_where p f (t_commands s)\<rparr>)"
proof -
  obtain c where c: "c \<in> set (t_commands s)" "open_for n c"
      "(cm_id c, cm_verb c, cm_target c, cm_force c) = d"
    using assms(1) by (auto simp: waiting_def)
  then have "(if p c then f c else c) \<in> set (update_where p f (t_commands s))"
    unfolding set_update_where by (rule_tac imageI)
  moreover have "open_for n (if p c then f c else c)" using c assms(2) [of c] by auto
  moreover have "(cm_id (if p c then f c else c), cm_verb (if p c then f c else c),
      cm_target (if p c then f c else c), cm_force (if p c then f c else c)) = d"
    using c assms(2) [of c] by auto
  ultimately have "\<exists>c \<in> set (update_where p f (t_commands s)). open_for n c
      \<and> (cm_id c, cm_verb c, cm_target c, cm_force c) = d" by (rule_tac bexI) simp_all
  then show ?thesis unfolding waiting_def by simp
qed

lemma node_step_waiting:
  assumes "waiting n d s" "\<not> completes n (fst d) op"
  shows "waiting n d (snd (node_step t op s))"
proof (cases op)
  case (Version_Beat now node reported pin deferred)
  have "set (t_commands s) \<subseteq> set (t_commands (snd (observe_version now node reported pin t deferred s)))"
    using version_table.beat_commands [of now node "if reported = [] then None else Some reported" pin t deferred s]
    unfolding observe_version_def by (auto simp: insert_command_def)
  then show ?thesis using assms(1) Version_Beat by (auto simp: waiting_def)
next
  case (Drivers_Beat now node reported desired deferred)
  have "set (t_commands s) \<subseteq> set (t_commands (snd (observe_drivers now node reported desired t deferred s)))"
    using drivers_table.beat_commands [of now node reported desired t deferred s]
    unfolding observe_drivers_def by (auto simp: insert_command_def)
  then show ?thesis using assms(1) Drivers_Beat by (auto simp: waiting_def)
next
  case (Queue now node verb target force)
  then show ?thesis using assms(1)
    by (auto simp: waiting_def queue_command_def insert_command_def Let_def)
next
  case (Deliver now node)
  then show ?thesis
    using update_waiting [OF assms(1)] by (simp add: pending_commands_def open_for_def)
next
  case (Complete node ids)
  then show ?thesis using assms complete_waiting by auto
next
  case (Defer node ds)
  then show ?thesis
    using update_waiting [OF assms(1)] by (simp add: record_deferrals_def open_for_def)
qed

text \<open>
  C20: at-least-once delivery: a command queued for a node is in every list the node fetches, with
  its id, verb, target and force flag, until the node completes that id; fetching, deferring and
  the beats never drop it.
\<close>

theorem queued_command_is_redelivered:
  assumes "queue_command now n verb target force s = (i, s1)"
    and "\<forall>op \<in> set ops. \<not> completes n i op"
  shows "(i, verb, target, force) \<in> set (fst (pending_commands now' n (node_run t ops s1)))"
proof -
  have "waiting n (i, verb, target, force) s1"
    using assms(1) by (auto simp: queue_command_def insert_command_def Let_def waiting_def open_for_def)
  moreover have "waiting n (i, verb, target, force) (node_run t ops s1)" if "waiting n (i, verb, target, force) s1"
    using assms(2)
  proof (induction ops rule: rev_induct)
    case (snoc op ops)
    then show ?case using node_step_waiting [of n "(i, verb, target, force)"] by (simp add: node_run_snoc)
  qed (use that in simp)
  ultimately show ?thesis by (simp add: pending_commands_waiting)
qed

theorem queued_command_is_redelivered_witness:
  "(1, ''drain'', Some ''s'', True) \<in> set (fst (pending_commands 50 ''n'' (node_run 2
     [Deliver 20 ''n'', Complete ''n'' [(30, 7)], Complete ''m'' [(30, 1)], Version_Beat 40 ''n'' ''a'' ''b'' False]
     (snd (queue_command 10 ''n'' ''drain'' (Some ''s'') True empty_store)))))"
proof -
  have "queue_command 10 ''n'' ''drain'' (Some ''s'') True empty_store
      = (1, snd (queue_command 10 ''n'' ''drain'' (Some ''s'') True empty_store))"
    by (simp add: queue_command_def insert_command_def empty_store_def Let_def)
  from queued_command_is_redelivered [OF this] show ?thesis by simp
qed

end
