(* ===== verification/Spec2Isabelle.thy ===== *)
theory Spec2Isabelle
  imports Contexttree Decisions Deps_Resolve Deps_Walk Dispatch_Safety Event_Evidence Evidence Github_Lists Janitor_Safety Policy Proposal Runner_Safety Sessions Signals
    Store_Admission Store_Claims Store_Health Verdict
begin

text \<open>
  A verification library for the-ozolith, a factory that hands GitHub issues to coding agents and reviews what they
  ship. Paths below are under \<open>src/\<close>; \<open>control/\<close> stands for \<open>control/src/theozolith_control/\<close> and \<open>worker/\<close> for
  \<open>worker/src/theozolith_worker/\<close>.

  The program. GitHub holds the state of the work: labels of issues and pull requests are the state machine, comments
  and pull request bodies carry machine blocks. The control daemon keeps a cache database (\<open>control/store.py\<close>), hands
  out issues to drivers under a lock (\<open>control/dispatch.py\<close>) and repairs what died (\<open>control/janitor.py\<close>). The two
  drivers on the nodes do the work: the runner turns a claimed issue into a pull request (\<open>worker/runner.py\<close>), the
  reviewer judges it (\<open>worker/reviewer.py\<close>). Both work in a checkout, put their inputs in a job directory, run an agent
  in a container and read back a proposal the agent wrote with \<open>format-output\<close>.

  How the code is modelled. A handler is a function from the world to an exception or a result and the world it
  leaves (\<open>Effects\<close>): the world has the cache database, the transcript of HTTP exchanges, the git commands, the events
  and pushes sent, the job directories. What is not the program's own code is a parameter of the environment: the
  transport answers each exchange from the requests before it, \<open>en_git\<close> answers each git command from the trace of
  the checkout, \<open>en_clock\<close> is any sequence of readings, \<open>en_touch\<close> and \<open>en_emit\<close> say which writes to a checkout and
  which events fail. A claim that quantifies over the environment holds for every such behaviour. A Python exception
  is a value of \<open>exn\<close>; those a handler does not name are \<open>Other_Error\<close>. A Run's mutable report outlives an
  exception, so its steps also hand on that state (\<open>Run_State\<close>).

  Foundations.
    \<^item> \<open>Prelude\<close>, \<open>Text_Ops\<close>: Python strings as lists of UTF-8 bytes, with the operations the code uses; slices that the
      code takes in characters are taken at code points (\<open>take_points\<close>). \<open>lower\<close>, \<open>isdigit\<close> and \<open>strip\<close> know ASCII only.
    \<^item> \<open>Json\<close>, \<open>Json_Parse\<close>, \<open>Json_Roundtrip\<close>: \<open>json.dumps\<close> and \<open>json.loads\<close> with the proof that a printed document reads
      back; floats keep their text, \<open>NaN\<close> and the infinities are the literals Python accepts.
    \<^item> \<open>Machine_Block\<close>: the locale \<open>machine_document\<close> of a JSON copy in a comment, interpreted for verdicts and sections.
    \<^item> \<open>Tables\<close>: the SQL statements on lists of rows, with the locale of keyed tables.
    \<^item> \<open>Effects\<close>: exceptions, sequencing and the locale \<open>frame\<close>: what every step keeps, a handler keeps on every path.

  The cache database (\<open>control/store.py\<close>).
    \<^item> \<open>Store_State\<close>, \<open>Store_Nodes\<close>, \<open>Store_Events\<close>, \<open>Store_Coord\<close>, \<open>Store_Access\<close>: a record field per table, a function per
      operation that changes state.
    \<^item> \<open>Store_Claims\<close>: live claims are the latest Run events; the quarantine gate is a three-state automaton.
    \<^item> \<open>Store_Health\<close>: convergence ladders, the restart lever, redelivery of queued commands, over any interleaving.
    \<^item> \<open>Store_Admission\<close>: sessions, join tokens, sightings. The digest is assumed injective on the ids in play.
    \<^item> \<open>Event_Evidence\<close>: a step relation with ghost lists; an unflagged events page hides nothing that was evicted.

  GitHub and the dispatch of work.
    \<^item> \<open>Github_Data\<close>, \<open>Github\<close>, \<open>Github_Lists\<close> (\<open>worker/githubapi.py\<close>): the request with its retries, the operations, paging and
      the GraphQL listings. \<open>Client_Facts\<close> and \<open>Write_Plans\<close>: reads send \<open>GET\<close> only, a write sends itself only, sequences
      of writes follow their plan.
    \<^item> \<open>Vocabulary\<close>, \<open>Deps\<close>, \<open>BasedOn\<close> (\<open>worker/bootstrap/vocabulary.py\<close>, \<open>worker/deps.py\<close>, \<open>worker/basedon.py\<close>). \<open>Deps_Walk\<close>: the
      closure walk is a topological order of the reachable issues and decides static graphs. \<open>Deps_Resolve\<close>: the decision
      is a declarative go-ahead over single chains.
    \<^item> \<open>Dispatch\<close> (\<open>control/dispatch.py\<close>). \<open>Dispatch_Reads\<close>: the memo of a pass holds answers of this request only, and a
      go-ahead is a go-ahead on them (the locale \<open>client_frame\<close>). \<open>Dispatch_Safety\<close>: the claims about a request for work.
    \<^item> \<open>Janitor\<close>, \<open>Janitor_Safety\<close> (\<open>control/janitor.py\<close>, \<open>_sweep_pass\<close> of \<open>control/cli.py\<close>).

  What the drivers read and write.
    \<^item> \<open>Verdict\<close>, \<open>Decisions\<close>, \<open>Proposal\<close>, \<open>Policy\<close>, \<open>Signals\<close>, \<open>Gate\<close> (the files of these names): round trips, validation,
      non-interference of messages, the gate pipeline over a parsed \<open>gate.toml\<close>.
    \<^item> \<open>Jobdir\<close>, \<open>Sessions\<close> (\<open>worker/jobdir.py\<close>, \<open>worker/sessions.py\<close>, the job loop of \<open>worker/harness/main.py\<close>): driver and harness as
      two processes over one job directory, every interleaving.
    \<^item> \<open>Contexttree\<close> (\<open>worker/contexttree.py\<close>): the tree an agent reads is the same as if only owners and members had written.
    \<^item> \<open>Evidence\<close>, \<open>Stream_Stats\<close>, \<open>Prompts\<close>, \<open>Git_Ops\<close>, \<open>Mirrors\<close>, \<open>Isolation\<close>: evidence bundles, the counters of both adapters,
      prompts, the git commands and the checkout sanitation, the mirror cache, the removal of agent instructions.

  The drivers.
    \<^item> \<open>Drivers\<close>, \<open>Enacted\<close>: what both share; a computation enacts a plan when its writes are that plan.
    \<^item> \<open>Reviewer\<close>, \<open>Reviewer_Safety\<close> (\<open>worker/reviewer.py\<close>): a round applies at most one permitted verdict.
    \<^item> \<open>Runner_Base\<close>, \<open>Run_State\<close>, \<open>Runner\<close>, \<open>Runner_Safety\<close> (\<open>worker/runner.py\<close>): deleted bases, one Run, the claim with its
      retries. The files a Run reads back are bytes the agent left: a read that cannot decode raises, and the claim on
      reports says exactly when that happens.

  Bounds and fuel.
    \<^item> Paged listings and the GraphQL pages stop after \<open>en_fuel\<close> pages with \<open>Diverges\<close>, which no handler catches; every claim
      names it where it can end there, and \<open>paged_collects_every_page\<close> shows that a fixed collection needs one page more
      than it fills.
    \<^item> The recursion of the closure walk carries \<open>en_depth\<close> frames and raises \<open>Recursion_Error\<close> when Python would.
    \<^item> The retries of a request are \<open>MAX_RETRIES\<close>; the JSON reader has twice the length of its text plus four, shown to be
      enough for printed documents; following merged branches has one step for each branch seen, shown to be enough.
    \<^item> Sizes and counters are Python's unbounded integers, times are integers.

  Not modelled. HTTP routing, the web and terminal interfaces, configuration loading, secrets and TLS, ingest and
  migration of releases, the knowledge compilers, the node daemon, the loop of \<open>worker/base.py\<close>, the container engine and
  the event queue: input and output around the logic above, or components left for later. Log lines and telemetry
  are left out, except the Run events that the control daemon reads. SQLite, git, tar and SHA-256 are parameters. A JSON
  document nested beyond Python's recursion limit, Unicode case and digits beyond ASCII, and the rounding of floats are
  outside the model.
\<close>

end
